(* ===== verification/NL_Prelude.thy ===== *)
theory NL_Prelude
  imports Main "HOL-Library.Word" "HOL-Library.Monad_Syntax"
begin

text \<open>
  The shared vocabulary of the development: the C types of the sources as words, the errno
  values, arrays with bounds-checked accesses, pointer chains, and the generic invariant rule
  that the component theories instantiate.

  Conventions used everywhere:
  \<^item> a C function that may stop (a failing \<open>assert\<close>, \<open>nlASSERT\<close> or \<open>__builtin_trap\<close>), access an
    array out of its bounds or loop forever returns an \<open>option\<close>; \<open>None\<close> means that the call does
    not return normally;
  \<^item> a C \<open>int\<close> result code is an \<open>int\<close>; \<open>uint8_t\<close>, \<open>uint32_t\<close>, \<open>uint64_t\<close> and \<open>size_t\<close> (32 bits on
    the ARM targets of the repository) are words;
  \<^item> a \<open>const char *\<close> that is only compared with other pointers is its address, \<open>0\<close> being \<open>NULL\<close>;
  \<^item> \<open>nlplatform_interrupt_disable\<close> and \<open>nlplatform_interrupt_enable\<close> bracket a function body that
    runs atomically, which is what one application of a definition is.
\<close>

section \<open>Types and constants\<close>

type_synonym u8 = "8 word"
type_synonym u16 = "16 word"
type_synonym u32 = "32 word"
type_synonym u64 = "64 word"
type_synonym cstr = u32

abbreviation (input) NULL_str :: cstr where
  "NULL_str \<equiv> 0"

abbreviation (input) EIO :: int where "EIO \<equiv> 5"
abbreviation (input) EBUSY :: int where "EBUSY \<equiv> 16"
abbreviation (input) EINVAL :: int where "EINVAL \<equiv> 22"

named_theorems option_unfold \<open>equations that run the option monad\<close>

section \<open>Arrays\<close>

definition arr_get :: "'a list \<Rightarrow> nat \<Rightarrow> 'a option" where
  "arr_get xs i = (if i < length xs then Some (xs ! i) else None)"

definition arr_upd :: "'a list \<Rightarrow> nat \<Rightarrow> ('a \<Rightarrow> 'a) \<Rightarrow> 'a list option" where
  "arr_upd xs i f = (if i < length xs then Some (xs[i := f (xs ! i)]) else None)"

lemma arr_get_in [simp]: "i < length xs \<Longrightarrow> arr_get xs i = Some (xs ! i)"
  by (simp add: arr_get_def)

lemma arr_get_out [simp]: "length xs \<le> i \<Longrightarrow> arr_get xs i = None"
  by (simp add: arr_get_def)

lemma arr_upd_in [simp]: "i < length xs \<Longrightarrow> arr_upd xs i f = Some (xs[i := f (xs ! i)])"
  by (simp add: arr_upd_def)

lemma arr_upd_out [simp]: "length xs \<le> i \<Longrightarrow> arr_upd xs i f = None"
  by (simp add: arr_upd_def)

lemma arr_upd_SomeD: "arr_upd xs i f = Some ys \<Longrightarrow> i < length xs \<and> ys = xs[i := f (xs ! i)]"
  by (simp add: arr_upd_def split: if_splits)

text \<open>\<open>memcpy\<close> out of and into an array: \<open>None\<close> when the range leaves the array.\<close>

definition mem_read :: "'a list \<Rightarrow> nat \<Rightarrow> nat \<Rightarrow> 'a list option" where
  "mem_read xs off n = (if off + n \<le> length xs then Some (take n (drop off xs)) else None)"

definition mem_write :: "'a list \<Rightarrow> nat \<Rightarrow> 'a list \<Rightarrow> 'a list option" where
  "mem_write xs off ys =
     (if off + length ys \<le> length xs
      then Some (take off xs @ ys @ drop (off + length ys) xs) else None)"

lemma mem_read_in [simp]:
  "off + n \<le> length xs \<Longrightarrow> mem_read xs off n = Some (take n (drop off xs))"
  by (simp add: mem_read_def)

lemma mem_write_in [simp]:
  "off + length ys \<le> length xs \<Longrightarrow>
   mem_write xs off ys = Some (take off xs @ ys @ drop (off + length ys) xs)"
  by (simp add: mem_write_def)

lemma mem_write_length: "mem_write xs off ys = Some zs \<Longrightarrow> length zs = length xs"
  by (auto simp: mem_write_def split: if_splits)

section \<open>Pointer chains\<close>

text \<open>
  \<open>chain ref nxt x as y\<close>: following the field \<open>nxt\<close> from the pointer \<open>x\<close> visits the cells \<open>as\<close> in
  this order and ends at the pointer \<open>y\<close>; \<open>ref\<close> gives the pointer to a cell.
\<close>

primrec chain :: "('a \<Rightarrow> 'p) \<Rightarrow> ('a \<Rightarrow> 'p) \<Rightarrow> 'p \<Rightarrow> 'a list \<Rightarrow> 'p \<Rightarrow> bool" where
  "chain ref nxt x [] y \<longleftrightarrow> x = y"
| "chain ref nxt x (c # cs) y \<longleftrightarrow> x = ref c \<and> chain ref nxt (nxt c) cs y"

lemma chain_append:
  "chain ref nxt x (cs @ ds) z \<longleftrightarrow> (\<exists>y. chain ref nxt x cs y \<and> chain ref nxt y ds z)"
  by (induction cs arbitrary: x) auto

lemma chain_snoc [simp]:
  "chain ref nxt x (cs @ [c]) z \<longleftrightarrow> chain ref nxt x cs (ref c) \<and> nxt c = z"
  by (auto simp: chain_append)

lemma chain_frame:
  "(\<And>c. c \<in> set cs \<Longrightarrow> nxt c = nxt' c) \<Longrightarrow> chain ref nxt x cs y = chain ref nxt' x cs y"
  by (induction cs arbitrary: x) auto

lemma chain_move:
  "chain ref nxt x cs y \<Longrightarrow> (\<And>c. c \<in> set cs \<Longrightarrow> nxt c = nxt' c) \<Longrightarrow> chain ref nxt' x cs y"
  using chain_frame by metis

lemma chain_end_unique:
  "chain ref nxt x cs y \<Longrightarrow> chain ref nxt x cs z \<Longrightarrow> y = z"
  by (induction cs arbitrary: x) auto

text \<open>A space of pointers: which cells exist, and a \<open>nil\<close> pointer that points at none of them.\<close>

locale pointer_space =
  fixes ref :: "'a \<Rightarrow> 'p" and nil :: 'p and cell :: "'a \<Rightarrow> bool"
  assumes ref_inj: "cell a \<Longrightarrow> cell b \<Longrightarrow> ref a = ref b \<Longrightarrow> a = b"
    and ref_not_nil: "cell a \<Longrightarrow> ref a \<noteq> nil"
begin

lemma chain_nil_iff:
  "list_all cell cs \<Longrightarrow> chain ref nxt nil cs nil \<longleftrightarrow> cs = []"
  using ref_not_nil by (cases cs) auto

lemma chain_unique:
  assumes "chain ref nxt x cs nil" "chain ref nxt x ds nil" "list_all cell cs" "list_all cell ds"
  shows "cs = ds"
  using assms
proof (induction cs arbitrary: x ds)
  case Nil
  then show ?case by (cases ds) (auto dest: ref_not_nil)
next
  case (Cons c cs)
  then obtain d ds' where ds: "ds = d # ds'"
    by (cases ds) (auto dest: ref_not_nil)
  with Cons.prems have "c = d" by (auto intro: ref_inj)
  with Cons ds show ?case by auto
qed

lemma chain_tail:
  "chain ref nxt (ref c) (c # cs) nil \<Longrightarrow> chain ref nxt (nxt c) cs nil"
  by simp

text \<open>A chain that ends cannot visit a cell twice: the pointers after it would be the same.\<close>

lemma chain_distinct:
  assumes "chain ref nxt x cs nil" "list_all cell cs"
  shows "distinct cs"
  using assms
proof (induction cs arbitrary: x)
  case (Cons c cs)
  have "c \<notin> set cs"
  proof
    assume "c \<in> set cs"
    then obtain us vs where cs: "cs = us @ c # vs"
      by (auto dest: split_list)
    with Cons.prems have "chain ref nxt (nxt c) (us @ c # vs) nil" "chain ref nxt (nxt c) vs nil"
      by (auto simp: chain_append)
    moreover have "list_all cell (us @ c # vs)" "list_all cell vs"
      using Cons.prems(2) cs by auto
    ultimately have "us @ c # vs = vs" by (rule chain_unique)
    then have "length (us @ c # vs) = length vs" by (rule arg_cong)
    then show False by simp
  qed
  with Cons show ?case by auto
qed simp

end

section \<open>Invariants of reachable states\<close>

text \<open>
  A component as a transition system: the states it can start in, the steps its operations make,
  and a property that every start has and every step keeps.
\<close>

locale invariant_system =
  fixes start :: "'s \<Rightarrow> bool" and step :: "'s \<Rightarrow> 's \<Rightarrow> bool" and inv :: "'s \<Rightarrow> bool"
  assumes start_inv: "start s \<Longrightarrow> inv s"
    and step_inv: "inv s \<Longrightarrow> step s t \<Longrightarrow> inv t"
begin

lemma steps_inv:
  assumes "step\<^sup>*\<^sup>* s t" "inv s"
  shows "inv t"
  using assms by (induction rule: rtranclp_induct) (auto intro: step_inv)

lemma reachable_inv:
  assumes "start s" "step\<^sup>*\<^sup>* s t"
  shows "inv t"
  using steps_inv [OF assms(2) start_inv [OF assms(1)]] .

end

text \<open>
  A component whose operations may fail, as a system of events: \<open>ok\<close> says which events the program
  may be given. Progress and preservation make every run of such events complete.
\<close>

primrec run_events :: "('e \<Rightarrow> 's \<Rightarrow> 's option) \<Rightarrow> 'e list \<Rightarrow> 's \<Rightarrow> 's option" where
  "run_events run [] s = Some s"
| "run_events run (e # es) s = do { t \<leftarrow> run e s; run_events run es t }"

locale event_system =
  fixes ok :: "'e \<Rightarrow> bool" and run :: "'e \<Rightarrow> 's \<Rightarrow> 's option" and typed :: "'s \<Rightarrow> bool"
  assumes progress: "typed s \<Longrightarrow> ok e \<Longrightarrow> \<exists>t. run e s = Some t"
    and preservation: "typed s \<Longrightarrow> ok e \<Longrightarrow> run e s = Some t \<Longrightarrow> typed t"
begin

lemma run_sound:
  assumes "typed s" "list_all ok es"
  shows "\<exists>t. run_events run es s = Some t \<and> typed t"
  using assms
proof (induction es arbitrary: s)
  case (Cons e es)
  then obtain t where "run e s = Some t" "typed t" using progress preservation by (metis list.pred_inject(2))
  with Cons show ?case by simp
qed simp

end

sublocale event_system \<subseteq> invariant_system typed "\<lambda>s t. \<exists>e. ok e \<and> run e s = Some t" typed
  by unfold_locales (auto intro: preservation)

section \<open>Generic lemmas\<close>

lemma unat_lt_word32: "unat (x :: u32) < 2 ^ 32"
proof -
  have "unat x < 2 ^ LENGTH(32)" by (rule unsigned_less)
  then show ?thesis by simp
qed

lemma unat_le_word32: "unat (x :: u32) \<le> 2 ^ 32 - 1"
  using unat_lt_word32 [of x] by simp

lemma unat_le_word64: "unat (x :: u64) < 2 ^ 64"
proof -
  have "unat x < 2 ^ LENGTH(64)" by (rule unsigned_less)
  then show ?thesis by simp
qed

lemma unat_mult_small: "unat (x :: u32) * unat y < 2 ^ 32 \<Longrightarrow> unat (x * y) = unat x * unat y"
  by (simp add: unat_word_ariths)

lemma bind_SomeE:
  assumes "Option.bind m f = Some r"
  obtains x where "m = Some x" "f x = Some r"
  using assms by (cases m) auto

lemma sorted_map_insert:
  assumes "sorted (map f xs)" "sorted (map f ys)"
    and "\<And>x. x \<in> set xs \<Longrightarrow> f x \<le> f z" and "\<And>y. y \<in> set ys \<Longrightarrow> f z \<le> f y"
  shows "sorted (map f (xs @ z # ys))"
  using assms by (auto simp: sorted_append intro: order_trans)

end
