(* ===== verification/Nltrace.thy ===== *)
theory Nltrace
  imports NL_Prelude
begin

text \<open>
  The event trace of \<open>src/src/nltrace.c\<close>: a fixed array of events whose used slots form a doubly
  linked list, threaded through 8-bit indices, from the oldest event to the newest.

  The array is a list of \<^term>\<open>NL_TRACE_MAX_EVENTS\<close> records and every access to it is checked, so
  that an access out of bounds is \<open>None\<close>. The hardware timer is the parameter \<open>elapsed\<close>
  (\<open>nltimer_elapsed\<close>). Event and task names are addresses, since the code only compares them.
  The log lines of \<open>nltrace_print_locked\<close> are collected in a list.

  The lemmas show that the links always form one list of exactly the slots in use, that starting
  an event appends to it, that printing removes and logs the finished events in front of the first
  unfinished one, and where \<open>nltrace_event_end\<close> reads past the array.
\<close>

section \<open>State\<close>

record nltrace_event_t =
  ev_task_name :: cstr
  ev_name :: cstr
  ev_start_timestamp_us :: u32
  ev_end_timestamp_us :: u32
  ev_next_ind :: u8
  ev_prev_ind :: u8

definition NL_TRACE_MAX_EVENTS :: nat where
  "NL_TRACE_MAX_EVENTS = 64"

definition INVALID_INDEX :: u8 where
  "INVALID_INDEX = of_nat (NL_TRACE_MAX_EVENTS + 1)"

record nltrace_t =
  events :: "nltrace_event_t list"
  head_ind :: u8
  tail_ind :: u8

record trace_state =
  s_trace :: nltrace_t
  s_trace_enable :: bool
  s_trace_timer_id :: u32

text \<open>A line logged by \<open>nltrace_print_locked\<close>: task name, event name, start and elapsed time.\<close>

type_synonym trace_line = "cstr \<times> cstr \<times> u32 \<times> u32"

section \<open>Operations\<close>

fun nltrace_alloc_scan :: "nltrace_event_t list \<Rightarrow> u8 \<Rightarrow> u8" where
  "nltrace_alloc_scan [] i = INVALID_INDEX"
| "nltrace_alloc_scan (e # es) i =
     (if ev_name e = NULL_str then i else nltrace_alloc_scan es (i + 1))"

definition nltrace_alloc_index_locked :: "nltrace_t \<Rightarrow> u8" where
  "nltrace_alloc_index_locked t = nltrace_alloc_scan (events t) 0"

definition nltrace_insert_locked :: "u8 \<Rightarrow> nltrace_t \<Rightarrow> nltrace_t option" where
  "nltrace_insert_locked ind t =
     (if head_ind t = INVALID_INDEX \<and> tail_ind t = INVALID_INDEX
      then Some (t\<lparr>head_ind := ind, tail_ind := ind\<rparr>)
      else do {
        es1 \<leftarrow> arr_upd (events t) (unat ind) (\<lambda>e. e\<lparr>ev_prev_ind := tail_ind t\<rparr>);
        es2 \<leftarrow> arr_upd es1 (unat (tail_ind t)) (\<lambda>e. e\<lparr>ev_next_ind := ind\<rparr>);
        es3 \<leftarrow> arr_upd es2 (unat ind) (\<lambda>e. e\<lparr>ev_next_ind := INVALID_INDEX\<rparr>);
        Some (t\<lparr>events := es3, tail_ind := ind\<rparr>) })"

definition nltrace_clear_event :: "nltrace_event_t \<Rightarrow> nltrace_event_t" where
  "nltrace_clear_event e = e\<lparr>ev_name := NULL_str, ev_start_timestamp_us := 0,
     ev_end_timestamp_us := 0, ev_next_ind := INVALID_INDEX, ev_prev_ind := INVALID_INDEX\<rparr>"

definition nltrace_remove_locked :: "u8 \<Rightarrow> nltrace_t \<Rightarrow> (u8 \<times> nltrace_t) option" where
  "nltrace_remove_locked ind t = do {
     e \<leftarrow> arr_get (events t) (unat ind);
     let nxt = ev_next_ind e;
     let prv = ev_prev_ind e;
     t' \<leftarrow>
       (if nxt = INVALID_INDEX \<and> prv = INVALID_INDEX
        then Some (t\<lparr>head_ind := INVALID_INDEX, tail_ind := INVALID_INDEX\<rparr>)
        else if nxt = INVALID_INDEX
        then do { es \<leftarrow> arr_upd (events t) (unat prv) (\<lambda>e. e\<lparr>ev_next_ind := INVALID_INDEX\<rparr>);
                  Some (t\<lparr>tail_ind := prv, events := es\<rparr>) }
        else if prv = INVALID_INDEX
        then do { es \<leftarrow> arr_upd (events t) (unat nxt) (\<lambda>e. e\<lparr>ev_prev_ind := INVALID_INDEX\<rparr>);
                  Some (t\<lparr>head_ind := nxt, events := es\<rparr>) }
        else do { es1 \<leftarrow> arr_upd (events t) (unat prv) (\<lambda>e. e\<lparr>ev_next_ind := nxt\<rparr>);
                  es2 \<leftarrow> arr_upd es1 (unat nxt) (\<lambda>e. e\<lparr>ev_prev_ind := prv\<rparr>);
                  Some (t\<lparr>events := es2\<rparr>) });
     es' \<leftarrow> arr_upd (events t') (unat ind) nltrace_clear_event;
     Some (nxt, t'\<lparr>events := es'\<rparr>) }"

partial_function (option) nltrace_print_loop ::
  "u8 \<Rightarrow> nltrace_t \<Rightarrow> trace_line list \<Rightarrow> (trace_line list \<times> nltrace_t) option" where
  "nltrace_print_loop ind t out =
     (if ind = INVALID_INDEX then Some (out, t)
      else do {
        e \<leftarrow> arr_get (events t) (unat ind);
        if ev_end_timestamp_us e \<noteq> 0
        then do {
          r \<leftarrow> nltrace_remove_locked ind t;
          nltrace_print_loop (fst r) (snd r)
            (out @ [(ev_task_name e, ev_name e, ev_start_timestamp_us e,
                     ev_end_timestamp_us e - ev_start_timestamp_us e)]) }
        else Some (out, t) })"

definition nltrace_print_locked :: "nltrace_t \<Rightarrow> (trace_line list \<times> nltrace_t) option" where
  "nltrace_print_locked t = nltrace_print_loop (head_ind t) t []"

definition nltrace_init :: "u32 \<Rightarrow> trace_state \<Rightarrow> trace_state option" where
  "nltrace_init timer_id s =
     (if s_trace_enable s then None
      else Some (s\<lparr>s_trace := \<lparr>events = map nltrace_clear_event (events (s_trace s)),
                               head_ind = INVALID_INDEX, tail_ind = INVALID_INDEX\<rparr>,
                   s_trace_timer_id := timer_id\<rparr>))"

definition nltrace_enable :: "bool \<Rightarrow> trace_state \<Rightarrow> trace_state" where
  "nltrace_enable enable s = s\<lparr>s_trace_enable := enable\<rparr>"

definition nltrace_enabled :: "trace_state \<Rightarrow> bool" where
  "nltrace_enabled s = s_trace_enable s"

definition nltrace_event_start_with_taskname ::
  "(u32 \<Rightarrow> u32) \<Rightarrow> cstr \<Rightarrow> cstr \<Rightarrow> trace_state \<Rightarrow> (u8 \<times> trace_state) option" where
  "nltrace_event_start_with_taskname elapsed name task_name s =
     (if s_trace_enable s
      then let ind = nltrace_alloc_index_locked (s_trace s) in
        if ind \<noteq> INVALID_INDEX
        then do {
          es \<leftarrow> arr_upd (events (s_trace s)) (unat ind)
                 (\<lambda>e. e\<lparr>ev_task_name := task_name, ev_name := name,
                         ev_start_timestamp_us := elapsed (s_trace_timer_id s)\<rparr>);
          t \<leftarrow> nltrace_insert_locked ind ((s_trace s)\<lparr>events := es\<rparr>);
          Some (ind, s\<lparr>s_trace := t\<rparr>) }
        else Some (ind, s)
      else Some (INVALID_INDEX, s))"

text \<open>
  \<open>nltrace_event_start\<close> takes the task name from the platform: \<open>in_interrupt\<close> is
  \<open>nlplatform_in_interrupt()\<close>, \<open>isr\<close> the literal \<open>"ISR"\<close>, \<open>current\<close> the name of the running task.
\<close>

definition nltrace_event_start ::
  "(u32 \<Rightarrow> u32) \<Rightarrow> bool \<Rightarrow> cstr \<Rightarrow> cstr \<Rightarrow> cstr \<Rightarrow> trace_state \<Rightarrow> (u8 \<times> trace_state) option" where
  "nltrace_event_start elapsed in_interrupt isr current name s =
     nltrace_event_start_with_taskname elapsed name (if in_interrupt then isr else current) s"

definition nltrace_event_end ::
  "(u32 \<Rightarrow> u32) \<Rightarrow> u8 \<Rightarrow> cstr \<Rightarrow> trace_state \<Rightarrow> trace_state option" where
  "nltrace_event_end elapsed ev_id name s =
     (if s_trace_enable s \<and> ev_id < INVALID_INDEX
      then do {
        e \<leftarrow> arr_get (events (s_trace s)) (unat ev_id);
        if ev_name e = name \<and> ev_end_timestamp_us e = 0
        then do {
          es \<leftarrow> arr_upd (events (s_trace s)) (unat ev_id)
                 (\<lambda>e. e\<lparr>ev_end_timestamp_us := elapsed (s_trace_timer_id s)\<rparr>);
          Some (s\<lparr>s_trace := (s_trace s)\<lparr>events := es\<rparr>\<rparr>) }
        else Some s }
      else Some s)"

definition nltrace_print :: "trace_state \<Rightarrow> (trace_line list \<times> trace_state) option" where
  "nltrace_print s = do {
     (out, t) \<leftarrow> nltrace_print_locked (s_trace s);
     Some (out, s\<lparr>s_trace := t\<rparr>) }"

text \<open>The API as a transition system; a program calls it with names that are not \<open>NULL\<close>.\<close>

inductive nltrace_step :: "trace_state \<Rightarrow> trace_state \<Rightarrow> bool" where
  step_init: "nltrace_init timer_id s = Some s' \<Longrightarrow> nltrace_step s s'"
| step_enable: "nltrace_step s (nltrace_enable b s)"
| step_start: "nltrace_event_start_with_taskname elapsed name task s = Some (i, s') \<Longrightarrow>
     name \<noteq> NULL_str \<Longrightarrow> nltrace_step s s'"
| step_end: "nltrace_event_end elapsed i name s = Some s' \<Longrightarrow> name \<noteq> NULL_str \<Longrightarrow>
     nltrace_step s s'"
| step_print: "nltrace_print s = Some (out, s') \<Longrightarrow> nltrace_step s s'"

section \<open>The list of events\<close>

abbreviation idx :: "nat \<Rightarrow> u8" where
  "idx i \<equiv> word_of_nat i"

abbreviation next_of :: "nltrace_t \<Rightarrow> nat \<Rightarrow> u8" where
  "next_of t i \<equiv> ev_next_ind (events t ! i)"

abbreviation prev_of :: "nltrace_t \<Rightarrow> nat \<Rightarrow> u8" where
  "prev_of t i \<equiv> ev_prev_ind (events t ! i)"

text \<open>
  \<open>trace_links t is\<close>: the \<open>next\<close> links lead from the head through the slots \<open>is\<close> in this order, the
  \<open>prev\<close> links from the tail through them in the reverse order, and other slots have no links.
  \<open>trace_list t is\<close>: moreover \<open>is\<close> are exactly the slots in use, and no free slot counts as ended.
\<close>

definition trace_links :: "nltrace_t \<Rightarrow> nat list \<Rightarrow> bool" where
  "trace_links t is \<longleftrightarrow>
     length (events t) = NL_TRACE_MAX_EVENTS \<and>
     set is \<subseteq> {..<NL_TRACE_MAX_EVENTS} \<and> distinct is \<and>
     chain idx (next_of t) (head_ind t) is INVALID_INDEX \<and>
     chain idx (prev_of t) (tail_ind t) (rev is) INVALID_INDEX \<and>
     (\<forall>i < NL_TRACE_MAX_EVENTS. i \<notin> set is \<longrightarrow>
        next_of t i = INVALID_INDEX \<and> prev_of t i = INVALID_INDEX)"

definition trace_list :: "nltrace_t \<Rightarrow> nat list \<Rightarrow> bool" where
  "trace_list t is \<longleftrightarrow> trace_links t is \<and>
     set is = {i. i < NL_TRACE_MAX_EVENTS \<and> ev_name (events t ! i) \<noteq> NULL_str} \<and>
     (\<forall>i < NL_TRACE_MAX_EVENTS. i \<notin> set is \<longrightarrow> ev_end_timestamp_us (events t ! i) = 0)"

text \<open>What the links do not touch: the task, the name and the two time stamps of an event.\<close>

definition payload :: "nltrace_t \<Rightarrow> nat \<Rightarrow> cstr \<times> cstr \<times> u32 \<times> u32" where
  "payload t i = (ev_task_name (events t ! i), ev_name (events t ! i),
     ev_start_timestamp_us (events t ! i), ev_end_timestamp_us (events t ! i))"

definition trace_line_of :: "cstr \<times> cstr \<times> u32 \<times> u32 \<Rightarrow> trace_line" where
  "trace_line_of = (\<lambda>(task, name, start, stop). (task, name, start, stop - start))"

definition ended :: "cstr \<times> cstr \<times> u32 \<times> u32 \<Rightarrow> bool" where
  "ended = (\<lambda>(task, name, start, stop). stop \<noteq> 0)"

definition nltrace_inv :: "trace_state \<Rightarrow> bool" where
  "nltrace_inv s \<longleftrightarrow> (\<exists>is. trace_list (s_trace s) is)"

definition nltrace_boot :: "trace_state \<Rightarrow> bool" where
  "nltrace_boot s \<longleftrightarrow> (\<exists>s0 timer_id. length (events (s_trace s0)) = NL_TRACE_MAX_EVENTS \<and>
     nltrace_init timer_id s0 = Some s)"

section \<open>Index arithmetic and link updates\<close>

lemma unat_idx [simp]: "i < NL_TRACE_MAX_EVENTS \<Longrightarrow> unat (idx i) = i"
  by (simp add: NL_TRACE_MAX_EVENTS_def unat_of_nat)

lemma unat_INVALID [simp]: "unat INVALID_INDEX = NL_TRACE_MAX_EVENTS + 1"
  by (simp add: INVALID_INDEX_def NL_TRACE_MAX_EVENTS_def)

interpretation trace_ptr: pointer_space idx INVALID_INDEX "\<lambda>i. i < NL_TRACE_MAX_EVENTS"
proof
  fix a b :: nat assume "a < NL_TRACE_MAX_EVENTS" "b < NL_TRACE_MAX_EVENTS" "idx a = idx b"
  then show "a = b" by (metis unat_idx)
next
  fix a :: nat assume "a < NL_TRACE_MAX_EVENTS"
  then show "idx a \<noteq> INVALID_INDEX"
    by (metis unat_idx unat_INVALID less_irrefl not_add_less1)
qed

lemma trace_links_empty: 
  assumes "trace_links t is"
  shows "(head_ind t = INVALID_INDEX \<and> tail_ind t = INVALID_INDEX) \<longleftrightarrow> is = []"
  using assms trace_ptr.ref_not_nil by (cases "is") (auto simp: trace_links_def)

lemma insert_links:
  assumes t: "trace_links t is" and i: "i < NL_TRACE_MAX_EVENTS" "i \<notin> set is"
  shows "\<exists>t'. nltrace_insert_locked (idx i) t = Some t' \<and> trace_links t' (is @ [i]) \<and>
    (\<forall>j. payload t' j = payload t j)"
proof (cases "is" rule: rev_cases)
  case Nil
  with t i trace_links_empty [OF t] show ?thesis
    by (auto simp: trace_links_def payload_def nltrace_insert_locked_def)
next
  case (snoc js k)
  with t i have k: "k < NL_TRACE_MAX_EVENTS" "k \<noteq> i" "k \<notin> set js" "i \<notin> set js" "tail_ind t = idx k"
    and len: "length (events t) = NL_TRACE_MAX_EVENTS"
    by (auto simp: trace_links_def)
  have ne: "\<not> (head_ind t = INVALID_INDEX \<and> tail_ind t = INVALID_INDEX)"
    using trace_links_empty [OF t] snoc by simp
  show ?thesis
    using t i k len snoc unfolding nltrace_insert_locked_def if_not_P [OF ne]
    by (auto simp: trace_links_def payload_def chain_append nth_list_update elim!: chain_move)
qed

lemmas remove_unfold = trace_links_def payload_def nltrace_remove_locked_def Let_def
  nltrace_clear_event_def nth_list_update chain_append

lemma remove_links:
  assumes t: "trace_links t (as @ i # bs)"
  shows "\<exists>t'. nltrace_remove_locked (idx i) t = Some (next_of t i, t') \<and> trace_links t' (as @ bs) \<and>
    head_ind t' = (if as = [] then next_of t i else head_ind t) \<and>
    ev_name (events t' ! i) = NULL_str \<and> ev_end_timestamp_us (events t' ! i) = 0 \<and>
    (\<forall>j. j \<noteq> i \<longrightarrow> payload t' j = payload t j)"
proof -
  have i: "i < NL_TRACE_MAX_EVENTS" "i \<notin> set as" "i \<notin> set bs" "length (events t) = NL_TRACE_MAX_EVENTS"
    using t by (auto simp: trace_links_def)
  show ?thesis
  proof (cases as rule: rev_cases)
    case Nil
    show ?thesis
    proof (cases bs)
      case Nil
      with \<open>as = []\<close> t i show ?thesis
        by (auto simp: remove_unfold)
    next
      case (Cons n bs')
      with \<open>as = []\<close> t i have n: "n < NL_TRACE_MAX_EVENTS" "n \<noteq> i" "n \<notin> set bs'" "next_of t i = idx n" "idx n \<noteq> INVALID_INDEX"
        by (auto simp: trace_links_def trace_ptr.ref_not_nil)
      with \<open>as = []\<close> Cons t i show ?thesis
        by (auto simp: remove_unfold elim!: chain_move)
    qed
  next
    case (snoc as' p)
    with t i have p: "p < NL_TRACE_MAX_EVENTS" "p \<noteq> i" "p \<notin> set as'" "prev_of t i = idx p" "idx p \<noteq> INVALID_INDEX"
      by (auto simp: trace_links_def chain_append trace_ptr.ref_not_nil)
    show ?thesis
    proof (cases bs)
      case Nil
      with snoc t i p show ?thesis
        by (auto simp: remove_unfold elim!: chain_move)
    next
      case (Cons n bs')
      with snoc t i p have n: "n < NL_TRACE_MAX_EVENTS" "n \<noteq> i" "n \<noteq> p" "n \<notin> set bs'" "n \<notin> set as'" "p \<notin> set bs'"
        "next_of t i = idx n" "idx n \<noteq> INVALID_INDEX"
        by (auto simp: trace_links_def chain_append trace_ptr.ref_not_nil)
      with snoc Cons t i p show ?thesis
        by (auto simp: remove_unfold elim!: chain_move)
    qed
  qed
qed

section \<open>Allocation\<close>

lemma alloc_scan_full:
  "(\<And>e. e \<in> set es \<Longrightarrow> ev_name e \<noteq> NULL_str) \<Longrightarrow> nltrace_alloc_scan es i = INVALID_INDEX"
  by (induction es arbitrary: i) auto

lemma alloc_scan_free:
  "(\<And>e. e \<in> set us \<Longrightarrow> ev_name e \<noteq> NULL_str) \<Longrightarrow> ev_name e = NULL_str \<Longrightarrow>
   nltrace_alloc_scan (us @ e # vs) i = i + idx (length us)"
  by (induction us arbitrary: i) (auto simp: add.assoc)

lemma trace_list_card:
  assumes "trace_list t is"
  shows "length is \<le> NL_TRACE_MAX_EVENTS"
    and "length is = NL_TRACE_MAX_EVENTS \<longleftrightarrow> set is = {..<NL_TRACE_MAX_EVENTS}"
proof -
  have sub: "set is \<subseteq> {..<NL_TRACE_MAX_EVENTS}" and "distinct is"
    using assms by (auto simp: trace_list_def trace_links_def)
  then have len: "length is = card (set is)" by (simp add: distinct_card)
  show "length is \<le> NL_TRACE_MAX_EVENTS"
    using card_mono [OF _ sub] len by simp
  show "length is = NL_TRACE_MAX_EVENTS \<longleftrightarrow> set is = {..<NL_TRACE_MAX_EVENTS}"
  proof
    assume "length is = NL_TRACE_MAX_EVENTS"
    then show "set is = {..<NL_TRACE_MAX_EVENTS}"
      using card_subset_eq [OF _ sub] len by simp
  qed (simp add: len)
qed

lemma alloc_index:
  assumes t: "trace_list t is"
  shows "if length is < NL_TRACE_MAX_EVENTS
    then \<exists>i. nltrace_alloc_index_locked t = idx i \<and> i < NL_TRACE_MAX_EVENTS \<and> i \<notin> set is \<and>
             {..<i} \<subseteq> set is
    else nltrace_alloc_index_locked t = INVALID_INDEX"
proof (cases "\<exists>e \<in> set (events t). ev_name e = NULL_str")
  case True
  then obtain us e vs where es: "events t = us @ e # vs" "ev_name e = NULL_str"
    "\<forall>e \<in> set us. ev_name e \<noteq> NULL_str"
    using split_list_first_prop [of "events t" "\<lambda>e. ev_name e = NULL_str"] by auto
  let ?i = "length us"
  have used: "set is = {i. i < NL_TRACE_MAX_EVENTS \<and> ev_name (events t ! i) \<noteq> NULL_str}"
    and len: "length (events t) = NL_TRACE_MAX_EVENTS"
    using t by (auto simp: trace_list_def trace_links_def)
  have "nltrace_alloc_index_locked t = idx ?i"
    using es by (simp add: nltrace_alloc_index_locked_def alloc_scan_free)
  moreover have i: "?i < NL_TRACE_MAX_EVENTS" "?i \<notin> set is"
    using es len used by auto
  moreover have "{..<?i} \<subseteq> set is"
    using es len used by (auto simp: nth_append)
  ultimately show ?thesis
    using trace_list_card [OF t] by auto
next
  case False
  have used: "set is = {i. i < NL_TRACE_MAX_EVENTS \<and> ev_name (events t ! i) \<noteq> NULL_str}"
    and len: "length (events t) = NL_TRACE_MAX_EVENTS"
    using t by (auto simp: trace_list_def trace_links_def)
  have "set is = {..<NL_TRACE_MAX_EVENTS}"
    using False used len nth_mem by fastforce
  then show ?thesis
    using False trace_list_card [OF t] by (simp add: nltrace_alloc_index_locked_def alloc_scan_full)
qed

section \<open>Operations on the event list\<close>

lemma trace_links_cong:
  assumes "trace_links t is" "length (events t') = length (events t)"
    and "head_ind t' = head_ind t" "tail_ind t' = tail_ind t"
    and "\<And>j. next_of t' j = next_of t j" "\<And>j. prev_of t' j = prev_of t j"
  shows "trace_links t' is"
  using assms by (simp add: trace_links_def)

lemma payload_name: "payload t' j = payload t j \<Longrightarrow> ev_name (events t' ! j) = ev_name (events t ! j)"
  and payload_end: "payload t' j = payload t j \<Longrightarrow> ev_end_timestamp_us (events t' ! j) = ev_end_timestamp_us (events t ! j)"
  by (simp_all add: payload_def)

lemma remove_list:
  assumes t: "trace_list t (as @ i # bs)"
  shows "\<exists>t'. nltrace_remove_locked (idx i) t = Some (next_of t i, t') \<and> trace_list t' (as @ bs) \<and>
    head_ind t' = (if as = [] then next_of t i else head_ind t) \<and>
    (\<forall>j. j \<noteq> i \<longrightarrow> payload t' j = payload t j)"
proof -
  obtain t' where t': "nltrace_remove_locked (idx i) t = Some (next_of t i, t')" "trace_links t' (as @ bs)"
    "head_ind t' = (if as = [] then next_of t i else head_ind t)"
    "ev_name (events t' ! i) = NULL_str" "ev_end_timestamp_us (events t' ! i) = 0"
    "\<forall>j. j \<noteq> i \<longrightarrow> payload t' j = payload t j"
    using remove_links [of t as i bs] t by (auto simp: trace_list_def)
  have "i \<notin> set as \<union> set bs" using t by (auto simp: trace_list_def trace_links_def)
  moreover have "ev_name (events t' ! j) = (if j = i then NULL_str else ev_name (events t ! j))" 
    "ev_end_timestamp_us (events t' ! j) = (if j = i then 0 else ev_end_timestamp_us (events t ! j))" for j
    using t' by (auto simp: payload_def)
  ultimately have "trace_list t' (as @ bs)"
    using t t'(2) by (auto simp: trace_list_def)
  with t' show ?thesis by blast
qed

lemma print_loop_correct:
  assumes "trace_list t is"
  shows "\<exists>t'. nltrace_print_loop (head_ind t) t out =
      Some (out @ map (\<lambda>j. trace_line_of (payload t j)) (takeWhile (\<lambda>j. ended (payload t j)) is), t') \<and>
    trace_list t' (dropWhile (\<lambda>j. ended (payload t j)) is) \<and>
    (\<forall>j \<in> set (dropWhile (\<lambda>j. ended (payload t j)) is). payload t' j = payload t j)"
  using assms
proof (induction "is" arbitrary: t out)
  case Nil
  then show ?case
    by (auto simp: trace_list_def trace_links_def nltrace_print_loop.simps)
next
  case (Cons i "is")
  have i: "head_ind t = idx i" "i < NL_TRACE_MAX_EVENTS" "i \<notin> set is" "length (events t) = NL_TRACE_MAX_EVENTS"
    "idx i \<noteq> INVALID_INDEX"
    using Cons.prems by (auto simp: trace_list_def trace_links_def trace_ptr.ref_not_nil)
  show ?case
  proof (cases "ended (payload t i)")
    case True
    obtain t1 where t1: "nltrace_remove_locked (idx i) t = Some (next_of t i, t1)" "trace_list t1 is"
      "head_ind t1 = next_of t i"
      "\<forall>j. j \<noteq> i \<longrightarrow> payload t1 j = payload t j"
      using remove_list [of t "[]" i "is"] Cons.prems by auto
    have same: "payload t1 j = payload t j" if "j \<in> set is" for j
      using that i t1(4) by metis
    have tw: "takeWhile (\<lambda>j. ended (payload t1 j)) is = takeWhile (\<lambda>j. ended (payload t j)) is" 
       "dropWhile (\<lambda>j. ended (payload t1 j)) is = dropWhile (\<lambda>j. ended (payload t j)) is"
      using same by (auto cong: takeWhile_cong dropWhile_cong)
    have "ev_end_timestamp_us (events t ! i) \<noteq> 0"
      using True by (simp add: ended_def payload_def)
    then have "nltrace_print_loop (head_ind t) t out =
        nltrace_print_loop (head_ind t1) t1 (out @ [trace_line_of (payload t i)])"
      using i t1 by (subst nltrace_print_loop.simps) (simp add: trace_line_of_def payload_def)
    moreover obtain t' where "nltrace_print_loop (head_ind t1) t1 (out @ [trace_line_of (payload t i)]) =
        Some ((out @ [trace_line_of (payload t i)]) @
          map (\<lambda>j. trace_line_of (payload t1 j)) (takeWhile (\<lambda>j. ended (payload t1 j)) is), t')"
      "trace_list t' (dropWhile (\<lambda>j. ended (payload t1 j)) is)"
      "\<forall>j \<in> set (dropWhile (\<lambda>j. ended (payload t1 j)) is). payload t' j = payload t1 j"
      using Cons.IH [OF t1(2)] by blast
    ultimately show ?thesis
      using True same tw by (auto dest: set_takeWhileD set_dropWhileD)
  next
    case False
    then show ?thesis
      using i Cons.prems by (auto simp: nltrace_print_loop.simps ended_def payload_def)
  qed
qed


lemma nltrace_print_locked_correct:
  assumes "trace_list t is"
  shows "\<exists>t'. nltrace_print_locked t =
      Some (map (\<lambda>j. trace_line_of (payload t j)) (takeWhile (\<lambda>j. ended (payload t j)) is), t') \<and>
    trace_list t' (dropWhile (\<lambda>j. ended (payload t j)) is) \<and>
    (\<forall>j \<in> set (dropWhile (\<lambda>j. ended (payload t j)) is). payload t' j = payload t j)"
  using print_loop_correct [OF assms, of "[]"] by (simp add: nltrace_print_locked_def)

lemma event_start_correct:
  assumes t: "trace_list (s_trace s) is" and on: "s_trace_enable s" and name: "name \<noteq> NULL_str"
    and room: "length is < NL_TRACE_MAX_EVENTS"
  shows "\<exists>i s'. nltrace_event_start_with_taskname elapsed name task s = Some (idx i, s') \<and>
      i < NL_TRACE_MAX_EVENTS \<and> i \<notin> set is \<and> {..<i} \<subseteq> set is \<and>
      trace_list (s_trace s') (is @ [i]) \<and>
      payload (s_trace s') i = (task, name, elapsed (s_trace_timer_id s), 0) \<and>
      (\<forall>j. j \<noteq> i \<longrightarrow> payload (s_trace s') j = payload (s_trace s) j)"
proof -
  obtain i where i: "nltrace_alloc_index_locked (s_trace s) = idx i" "i < NL_TRACE_MAX_EVENTS" 
    "i \<notin> set is" "{..<i} \<subseteq> set is"
    using alloc_index [OF t] room by auto
  let ?f = "\<lambda>e. e\<lparr>ev_task_name := task, ev_name := name,
                 ev_start_timestamp_us := elapsed (s_trace_timer_id s)\<rparr>"
  define t1 where "t1 = (s_trace s)\<lparr>events := (events (s_trace s))[i := ?f (events (s_trace s) ! i)]\<rparr>"
  have len: "length (events (s_trace s)) = NL_TRACE_MAX_EVENTS" and "idx i \<noteq> INVALID_INDEX"
    using t i by (auto simp: trace_list_def trace_links_def trace_ptr.ref_not_nil)
  have "trace_links t1 is"
    by (rule trace_links_cong [of "s_trace s"])
      (use t i len in \<open>auto simp: trace_list_def t1_def nth_list_update\<close>)
  then obtain t2 where t2: "nltrace_insert_locked (idx i) t1 = Some t2" "trace_links t2 (is @ [i])"
    "\<forall>j. payload t2 j = payload t1 j"
    using insert_links i by blast
  have p1: "payload t1 j = (if j = i then (task, name, elapsed (s_trace_timer_id s), 0) else payload (s_trace s) j)" for j
    using t i len by (auto simp: payload_def t1_def nth_list_update trace_list_def)
  have n2: "ev_name (events t2 ! j) = (if j = i then name else ev_name (events (s_trace s) ! j))"
    "ev_end_timestamp_us (events t2 ! j) = (if j = i then 0 else ev_end_timestamp_us (events (s_trace s) ! j))" for j
    using t2(3)[rule_format, of j] p1 [of j] by (auto simp: payload_def split: if_splits)
  have "trace_list t2 (is @ [i])"
    using t t2(2) i name by (auto simp: trace_list_def n2)
  moreover have "nltrace_event_start_with_taskname elapsed name task s = Some (idx i, s\<lparr>s_trace := t2\<rparr>)"
    using on i len t2(1) \<open>idx i \<noteq> INVALID_INDEX\<close>
    by (simp add: nltrace_event_start_with_taskname_def Let_def t1_def)
  ultimately show ?thesis
    using i t2(3) p1 by (intro exI [of _ i] exI [of _ "s\<lparr>s_trace := t2\<rparr>"]) simp
qed

lemma event_start_full:
  assumes "trace_list (s_trace s) is" "\<not> length is < NL_TRACE_MAX_EVENTS"
  shows "nltrace_event_start_with_taskname elapsed name task s = Some (INVALID_INDEX, s)"
  using alloc_index [OF assms(1)] assms(2)
  by (simp add: nltrace_event_start_with_taskname_def Let_def)

lemma event_start_disabled:
  "\<not> s_trace_enable s \<Longrightarrow>
   nltrace_event_start_with_taskname elapsed name task s = Some (INVALID_INDEX, s)"
  by (simp add: nltrace_event_start_with_taskname_def)

lemma event_end_correct:
  assumes t: "trace_list (s_trace s) is" and on: "s_trace_enable s" and name: "name \<noteq> NULL_str"
    and i: "i < NL_TRACE_MAX_EVENTS"
  shows "\<exists>s'. nltrace_event_end elapsed (idx i) name s = Some s' \<and> trace_list (s_trace s') is \<and>
     (\<forall>j. payload (s_trace s') j =
       (case payload (s_trace s) j of (task, nm, start, stop) \<Rightarrow>
          if j = i \<and> nm = name \<and> stop = 0
          then (task, nm, start, elapsed (s_trace_timer_id s)) else (task, nm, start, stop)))"
proof -
  have len: "length (events (s_trace s)) = NL_TRACE_MAX_EVENTS"
    using t by (simp add: trace_list_def trace_links_def)
  have less: "idx i < INVALID_INDEX"
    using i by (simp add: word_less_nat_alt)
  show ?thesis
  proof (cases "ev_name (events (s_trace s) ! i) = name \<and> ev_end_timestamp_us (events (s_trace s) ! i) = 0")
    case True
    define es where "es = (events (s_trace s))[i := (events (s_trace s) ! i)\<lparr>ev_end_timestamp_us := elapsed (s_trace_timer_id s)\<rparr>]"
    have links: "trace_links ((s_trace s)\<lparr>events := es\<rparr>) is"
      by (rule trace_links_cong [of "s_trace s"])
        (use t i len in \<open>auto simp: trace_list_def es_def nth_list_update\<close>)
    have names: "ev_name (es ! j) = ev_name (events (s_trace s) ! j)" for j
      using len i by (auto simp: es_def nth_list_update)
    have "i \<in> set is" using t True name i by (auto simp: trace_list_def)
    have stops: "ev_end_timestamp_us (es ! j) =
        (if j = i then elapsed (s_trace_timer_id s) else ev_end_timestamp_us (events (s_trace s) ! j))" for j
      using len i by (simp add: es_def nth_list_update)
    have "trace_list ((s_trace s)\<lparr>events := es\<rparr>) is"
      using t links \<open>i \<in> set is\<close> by (auto simp: trace_list_def names stops)
    moreover have "nltrace_event_end elapsed (idx i) name s = Some (s\<lparr>s_trace := (s_trace s)\<lparr>events := es\<rparr>\<rparr>)"
      using True on less i len by (simp add: nltrace_event_end_def es_def)
    ultimately show ?thesis
      using True i len by (auto simp: payload_def es_def nth_list_update)
  next
    case False
    then have "nltrace_event_end elapsed (idx i) name s = Some s"
      using on less i len by (auto simp: nltrace_event_end_def)
    with False t show ?thesis by (auto simp: payload_def)
  qed
qed


section \<open>Invariant\<close>

lemma init_list:
  assumes "length (events (s_trace s)) = NL_TRACE_MAX_EVENTS" "nltrace_init timer_id s = Some s'"
  shows "trace_list (s_trace s') []"
  using assms
  by (auto simp: nltrace_init_def trace_list_def trace_links_def nltrace_clear_event_def split: if_splits)

lemma nltrace_step_inv:
  assumes "nltrace_inv s" "nltrace_step s s'"
  shows "nltrace_inv s'"
proof -
  obtain "is" where t: "trace_list (s_trace s) is"
    using assms(1) by (auto simp: nltrace_inv_def)
  then have len: "length (events (s_trace s)) = NL_TRACE_MAX_EVENTS"
    by (simp add: trace_list_def trace_links_def)
  from assms(2) show ?thesis
  proof cases
    case (step_init timer_id)
    then show ?thesis using init_list [OF len] by (auto simp: nltrace_inv_def)
  next
    case (step_enable b)
    then show ?thesis using t by (auto simp: nltrace_inv_def nltrace_enable_def)
  next
    case (step_start elapsed name task i)
    consider "\<not> s_trace_enable s" | "\<not> length is < NL_TRACE_MAX_EVENTS"
      | "s_trace_enable s" "length is < NL_TRACE_MAX_EVENTS" by blast
    then show ?thesis
    proof cases
      case 3
      with event_start_correct [OF t 3(1) step_start(2) 3(2), of elapsed task] step_start(1)
      show ?thesis by (auto simp: nltrace_inv_def)
    qed (use step_start t event_start_disabled event_start_full in \<open>auto simp: nltrace_inv_def\<close>)
  next
    case (step_end elapsed i name)
    show ?thesis
    proof (cases "s_trace_enable s \<and> i < INVALID_INDEX")
      case True
      have "unat i < length (events (s_trace s))"
        using step_end(1) True by (auto simp: nltrace_event_end_def arr_get_def split: if_splits)
      then have "idx (unat i) = i" "unat i < NL_TRACE_MAX_EVENTS" using len by auto
      with event_end_correct [OF t conjunct1 [OF True] step_end(2), of "unat i" elapsed] step_end(1)
      show ?thesis by (auto simp: nltrace_inv_def)
    next
      case False
      then show ?thesis using step_end t by (auto simp: nltrace_event_end_def nltrace_inv_def)
    qed
  next
    case (step_print out)
    with nltrace_print_locked_correct [OF t] show ?thesis
      by (auto simp: nltrace_print_def nltrace_inv_def elim!: bind_SomeE)
  qed
qed

interpretation trace_system: invariant_system nltrace_boot nltrace_step nltrace_inv
proof
  show "nltrace_inv s" if "nltrace_boot s" for s
    using that init_list by (fastforce simp: nltrace_boot_def nltrace_inv_def)
  show "nltrace_inv t" if "nltrace_inv s" "nltrace_step s t" for s t
    using that by (rule nltrace_step_inv)
qed

section \<open>Properties\<close>

definition trace_example :: trace_state where
  "trace_example = \<lparr>s_trace = \<lparr>events =
      \<lparr>ev_task_name = 512, ev_name = 4096, ev_start_timestamp_us = 3, ev_end_timestamp_us = 10,
       ev_next_ind = INVALID_INDEX, ev_prev_ind = INVALID_INDEX\<rparr> #
      replicate (NL_TRACE_MAX_EVENTS - 1)
      \<lparr>ev_task_name = 0, ev_name = 0, ev_start_timestamp_us = 0, ev_end_timestamp_us = 0,
       ev_next_ind = INVALID_INDEX, ev_prev_ind = INVALID_INDEX\<rparr>,
     head_ind = 0, tail_ind = 0\<rparr>, s_trace_enable = True, s_trace_timer_id = 7\<rparr>"

lemma trace_example_list: "trace_list (s_trace trace_example) [0]"
  by (auto simp: trace_example_def trace_list_def trace_links_def NL_TRACE_MAX_EVENTS_def nth_Cons'
      split: if_splits)

text \<open>
  C6: In every state that calls of the trace API can reach after \<open>nltrace_init\<close> when they return without
  an access outside of the array, and the names of the events that are started and ended are not NULL,
  the slots in use form one doubly linked list: forward links from the head and backward links from the
  tail visit exactly the slots with a name, each once, and free slots carry no links. A call of
  \<open>nltrace_event_end\<close> with the index 64, which its check admits, leaves the array and is not among these
  calls (\<open>nltrace_event_end_out_of_bounds\<close>); a NULL name would leave a linked slot marked as free.
\<close>

theorem nltrace_reachable_well_linked:
  assumes "nltrace_boot s" "nltrace_step\<^sup>*\<^sup>* s s'"
  shows "\<exists>is. trace_list (s_trace s') is"
  using trace_system.reachable_inv [OF assms] by (simp add: nltrace_inv_def)

theorem nltrace_reachable_well_linked_witness:
  "\<exists>is. trace_list (s_trace (nltrace_enable True
     (the (nltrace_init 7 (trace_example\<lparr>s_trace_enable := False\<rparr>))))) is"
proof (rule nltrace_reachable_well_linked)
  show "nltrace_boot (the (nltrace_init 7 (trace_example\<lparr>s_trace_enable := False\<rparr>)))"
    unfolding nltrace_boot_def
    by (intro exI [of _ "trace_example\<lparr>s_trace_enable := False\<rparr>"] exI [of _ 7])
      (simp add: nltrace_init_def trace_example_def NL_TRACE_MAX_EVENTS_def)
qed (intro r_into_rtranclp step_enable)

text \<open>
  Starting an event while the trace is enabled and a slot is free takes the lowest free slot,
  appends it to the event list with the given names, the current time and no end time, changes
  no other event and returns the slot's index.
\<close>

theorem nltrace_event_start_appends:
  assumes "trace_list (s_trace s) is" "s_trace_enable s" "name \<noteq> NULL_str"
    and "length is < NL_TRACE_MAX_EVENTS"
  shows "\<exists>i s'. nltrace_event_start_with_taskname elapsed name task s = Some (idx i, s') \<and>
      i \<notin> set is \<and> {..<i} \<subseteq> set is \<and> trace_list (s_trace s') (is @ [i]) \<and>
      payload (s_trace s') i = (task, name, elapsed (s_trace_timer_id s), 0) \<and>
      (\<forall>j. j \<noteq> i \<longrightarrow> payload (s_trace s') j = payload (s_trace s) j)"
  using event_start_correct [OF assms] by blast

theorem nltrace_event_start_appends_witness:
  "\<exists>i s'. nltrace_event_start_with_taskname (\<lambda>_. 99) 4096 512 trace_example = Some (idx i, s') \<and>
      i \<notin> {0} \<and> {..<i} \<subseteq> {0} \<and> trace_list (s_trace s') ([0] @ [i]) \<and>
      payload (s_trace s') i = (512, 4096, 99, 0) \<and>
      (\<forall>j. j \<noteq> i \<longrightarrow> payload (s_trace s') j = payload (s_trace trace_example) j)"
  using nltrace_event_start_appends [OF trace_example_list, of 4096 "\<lambda>_. 99" 512]
  by (simp add: trace_example_def NL_TRACE_MAX_EVENTS_def)

text \<open>
  C35: Printing always returns. It logs the finished events at the front of the list, oldest first,
  with their start time and duration, frees exactly their slots, and stops at the first event
  that has not ended; the events left keep their data and their order.
\<close>

theorem nltrace_print_fifo:
  assumes "trace_list (s_trace s) is"
  shows "\<exists>s'. nltrace_print s =
      Some (map (\<lambda>j. trace_line_of (payload (s_trace s) j))
              (takeWhile (\<lambda>j. ended (payload (s_trace s) j)) is), s') \<and>
    trace_list (s_trace s') (dropWhile (\<lambda>j. ended (payload (s_trace s) j)) is) \<and>
    (\<forall>j \<in> set (dropWhile (\<lambda>j. ended (payload (s_trace s) j)) is).
       payload (s_trace s') j = payload (s_trace s) j)"
  using nltrace_print_locked_correct [OF assms] by (auto simp: nltrace_print_def)

theorem nltrace_print_fifo_witness:
  "\<exists>s'. nltrace_print trace_example = Some ([(512, 4096, 3, 7)], s') \<and> trace_list (s_trace s') []"
  using nltrace_print_fifo [OF trace_example_list]
  by (simp add: trace_example_def payload_def ended_def trace_line_of_def)

text \<open>
  The bound check of \<open>nltrace_event_end\<close> lets one index too many through: the index
  \<open>NL_TRACE_MAX_EVENTS\<close> is below \<open>INVALID_INDEX\<close>, so an enabled trace reads past the event array.
\<close>

theorem nltrace_event_end_out_of_bounds:
  assumes "trace_list (s_trace s) is" "s_trace_enable s"
  shows "nltrace_event_end elapsed (idx NL_TRACE_MAX_EVENTS) name s = None"
  using assms
  by (simp add: nltrace_event_end_def trace_list_def trace_links_def NL_TRACE_MAX_EVENTS_def
      INVALID_INDEX_def)

theorem nltrace_event_end_out_of_bounds_witness:
  "nltrace_event_end (\<lambda>_. 5) (idx NL_TRACE_MAX_EVENTS) 4096 trace_example = None"
  by (rule nltrace_event_end_out_of_bounds [OF trace_example_list]) (simp add: trace_example_def)

end
