(* ===== verification/Nlram_console.thy ===== *)
theory Nlram_console
  imports NL_Prelude
begin

text \<open>
  The persistent RAM console of \<open>src/src/nlram_console.c\<close>: a circular byte buffer that holds the
  current log and, behind it, what is left of the log of the previous boot.

  \<^term>\<open>rc_buf\<close> is the memory that starts at \<open>s_ram_console.buf\<close>. It may be longer than the buffer
  size of the running image, since \<open>nl_ram_console_init\<close> converts a buffer that another image laid
  out with another size. \<open>NL_RAM_CONSOLE_BUF_SIZE\<close> is the parameter \<open>image_size\<close>, the registered
  callback is a number, and \<open>run_cb\<close> says what calling it does to the console.

  The lemmas relate the indices to the two logs as byte lists: writing appends to the current log
  and drops the oldest bytes when the buffer is full, the bootloader turns the current log into
  the previous one, and the conversion keeps the newest bytes that fit.
\<close>

section \<open>State\<close>

record nl_ram_console_cb_ctx_t =
  callback_watermark :: u32
  callback_bytes_written :: u32
  callback :: "nat option"

record nl_ram_console_t =
  rc_magic :: u32
  write_index :: u32
  bytes_written :: u32
  last_write_index :: u32
  last_bytes_written :: u32
  rc_buf_size :: u32
  rc_enabled :: bool
  rc_buf :: "u8 list"

record ram_console_state =
  s_ram_console :: nl_ram_console_t
  s_ram_console_cb_ctx :: nl_ram_console_cb_ctx_t

definition RAM_CONSOLE_MAGIC :: u32 where
  "RAM_CONSOLE_MAGIC = 0xabedface"

record nl_ram_console_info_t =
  info_write_index :: u32
  info_bytes_written :: u32
  info_last_write_index :: u32
  info_last_bytes_written :: u32
  info_callback_watermark :: u32
  info_callback_bytes_written :: u32
  info_callback :: "nat option"
  info_buf :: "u8 list"
  info_buf_size :: u32

section \<open>Operations\<close>

definition init_ram_console :: "u32 \<Rightarrow> ram_console_state \<Rightarrow> ram_console_state" where
  "init_ram_console image_size s =
     s\<lparr>s_ram_console := (s_ram_console s)\<lparr>rc_magic := RAM_CONSOLE_MAGIC, last_bytes_written := 0,
          last_write_index := 0, bytes_written := 0, write_index := 0, rc_buf_size := image_size\<rparr>,
       s_ram_console_cb_ctx := \<lparr>callback_watermark = 0, callback_bytes_written = 0, callback = None\<rparr>\<rparr>"

definition nl_ram_console_register_callback ::
  "nat option \<Rightarrow> u32 \<Rightarrow> ram_console_state \<Rightarrow> ram_console_state" where
  "nl_ram_console_register_callback aCallback aWatermark s =
     s\<lparr>s_ram_console_cb_ctx := \<lparr>callback_watermark = aWatermark, callback_bytes_written = 0,
         callback = aCallback\<rparr>\<rparr>"

definition nl_ram_console_init_bootloader :: "u32 \<Rightarrow> ram_console_state \<Rightarrow> ram_console_state" where
  "nl_ram_console_init_bootloader image_size s =
     (let s1 = (if rc_magic (s_ram_console s) \<noteq> RAM_CONSOLE_MAGIC
                then init_ram_console image_size s
                else s\<lparr>s_ram_console := (s_ram_console s)\<lparr>
                        last_bytes_written := bytes_written (s_ram_console s),
                        last_write_index := write_index (s_ram_console s),
                        bytes_written := 0\<rparr>\<rparr>)
      in s1\<lparr>s_ram_console := (s_ram_console s1)\<lparr>rc_enabled := True\<rparr>\<rparr>)"

text \<open>The copy of \<open>nl_ram_console_init\<close>, from the old layout to the start of the buffer.\<close>

definition ram_console_convert ::
  "u32 \<Rightarrow> u8 list \<Rightarrow> u32 \<Rightarrow> nl_ram_console_t \<Rightarrow> nl_ram_console_t option" where
  "ram_console_convert image_size aScratchBuf bytes_to_preserve rc = do {
     let old_buf_size = rc_buf_size rc;
     let start_index0 = write_index rc - bytes_to_preserve;
     let start_index = (if start_index0 > old_buf_size then start_index0 + old_buf_size else start_index0);
     let bytes_until_end = old_buf_size - start_index;
     scratch \<leftarrow>
       (if bytes_until_end > bytes_to_preserve
        then do { xs \<leftarrow> mem_read (rc_buf rc) (unat start_index) (unat bytes_to_preserve);
                  mem_write aScratchBuf 0 xs }
        else do { xs \<leftarrow> mem_read (rc_buf rc) (unat start_index) (unat bytes_until_end);
                  scratch1 \<leftarrow> mem_write aScratchBuf 0 xs;
                  ys \<leftarrow> mem_read (rc_buf rc) 0 (unat (bytes_to_preserve - bytes_until_end));
                  mem_write scratch1 (unat bytes_until_end) ys });
     zs \<leftarrow> mem_read scratch 0 (unat bytes_to_preserve);
     buf \<leftarrow> mem_write (rc_buf rc) 0 zs;
     let new_write_index = (if bytes_to_preserve = image_size then 0 else bytes_to_preserve);
     let new_bytes_written = (if bytes_written rc > bytes_to_preserve then bytes_to_preserve
                              else bytes_written rc);
     let bytes_left = bytes_to_preserve - new_bytes_written;
     let new_last = (if last_bytes_written rc > bytes_left then bytes_left
                     else last_bytes_written rc);
     let last_index0 = new_write_index - new_bytes_written;
     let last_index = (if last_index0 > image_size then last_index0 + image_size else last_index0);
     Some (rc\<lparr>rc_buf_size := image_size, rc_buf := buf, write_index := new_write_index,
              bytes_written := new_bytes_written,
              last_bytes_written := (if new_last > 0 then new_last else 0),
              last_write_index := (if new_last > 0 then last_index else 0)\<rparr>) }"

definition nl_ram_console_init ::
  "u32 \<Rightarrow> u8 list \<Rightarrow> ram_console_state \<Rightarrow> ram_console_state option" where
  "nl_ram_console_init image_size aScratchBuf s = do {
     let rc = s_ram_console s;
     s1 \<leftarrow>
       (if rc_magic rc \<noteq> RAM_CONSOLE_MAGIC then Some (init_ram_console image_size s)
        else if rc_buf_size rc \<noteq> image_size
        then let total = last_bytes_written rc + bytes_written rc;
                 n1 = (if total > image_size then image_size else total);
                 n2 = (if n1 > of_nat (length aScratchBuf) then of_nat (length aScratchBuf) else n1)
             in if n2 > 0
                then do { rc' \<leftarrow> ram_console_convert image_size aScratchBuf n2 rc;
                          Some (s\<lparr>s_ram_console := rc'\<rparr>) }
                else Some (init_ram_console image_size s)
        else Some s);
     Some (s1\<lparr>s_ram_console := (s_ram_console s1)\<lparr>rc_enabled := False\<rparr>\<rparr>) }"

definition nl_ram_console_get_info :: "ram_console_state \<Rightarrow> nl_ram_console_info_t" where
  "nl_ram_console_get_info s =
     (let rc = s_ram_console s; cb = s_ram_console_cb_ctx s in
      \<lparr>info_write_index = write_index rc, info_bytes_written = bytes_written rc,
       info_last_write_index = last_write_index rc,
       info_last_bytes_written = last_bytes_written rc,
       info_callback_watermark = callback_watermark cb,
       info_callback_bytes_written = callback_bytes_written cb, info_callback = callback cb,
       info_buf = rc_buf rc, info_buf_size = rc_buf_size rc\<rparr>)"

definition nl_ram_console_enable :: "ram_console_state \<Rightarrow> ram_console_state" where
  "nl_ram_console_enable s = s\<lparr>s_ram_console := (s_ram_console s)\<lparr>rc_enabled := True\<rparr>\<rparr>"

definition nl_ram_console_disable :: "ram_console_state \<Rightarrow> ram_console_state" where
  "nl_ram_console_disable s = s\<lparr>s_ram_console := (s_ram_console s)\<lparr>rc_enabled := False\<rparr>\<rparr>"

text \<open>The copy loop of \<open>nl_ram_console_write\<close>; \<open>data\<close> is what is left to write.\<close>

partial_function (option) ram_console_copy ::
  "u32 \<Rightarrow> u8 list \<Rightarrow> nl_ram_console_t \<Rightarrow> nl_ram_console_t option" where
  "ram_console_copy buf_size data rc =
     (if data = [] then Some rc
      else let len = (word_of_nat (length data) :: u32);
               buf_size_before_wrap = buf_size - write_index rc;
               bytes_to_write = (if len < buf_size_before_wrap then len else buf_size_before_wrap)
           in do {
             buf \<leftarrow> mem_write (rc_buf rc) (unat (write_index rc)) (take (unat bytes_to_write) data);
             let wi = write_index rc + bytes_to_write;
             ram_console_copy buf_size (drop (unat bytes_to_write) data)
               (rc\<lparr>rc_buf := buf, write_index := (if wi \<ge> buf_size then 0 else wi)\<rparr>) })"

definition nl_ram_console_write ::
  "(nat \<Rightarrow> ram_console_state \<Rightarrow> ram_console_state) \<Rightarrow> u8 list \<Rightarrow> ram_console_state \<Rightarrow>
   ram_console_state option" where
  "nl_ram_console_write run_cb data s =
     (if rc_enabled (s_ram_console s)
      then do {
        let orig_len = (word_of_nat (length data) :: u32);
        let buf_size = rc_buf_size (s_ram_console s);
        rc1 \<leftarrow> ram_console_copy buf_size data (s_ram_console s);
        let bw = bytes_written rc1 + orig_len;
        let rc2 = rc1\<lparr>bytes_written := (if bw > buf_size then buf_size else bw)\<rparr>;
        let non_current_bytes = buf_size - bytes_written rc2;
        let rc3 = rc2\<lparr>last_bytes_written := (if last_bytes_written rc2 > non_current_bytes
                        then non_current_bytes else last_bytes_written rc2)\<rparr>;
        let s1 = s\<lparr>s_ram_console := rc3\<rparr>;
        (case callback (s_ram_console_cb_ctx s1) of
           None \<Rightarrow> Some s1
         | Some cb \<Rightarrow>
             let n = callback_bytes_written (s_ram_console_cb_ctx s1) + orig_len;
                 s2 = s1\<lparr>s_ram_console_cb_ctx := (s_ram_console_cb_ctx s1)\<lparr>callback_bytes_written := n\<rparr>\<rparr>
             in if n \<ge> callback_watermark (s_ram_console_cb_ctx s2)
                then let s3 = run_cb cb s2 in
                  Some (s3\<lparr>s_ram_console_cb_ctx := (s_ram_console_cb_ctx s3)\<lparr>callback_bytes_written := 0\<rparr>\<rparr>)
                else Some s2) }
      else Some s)"

section \<open>The logs as byte lists\<close>

text \<open>
  \<open>window buf B p n\<close>: the \<open>n\<close> bytes that end before the position \<open>p\<close> of the ring of the first \<open>B\<close>
  bytes of \<open>buf\<close>; positions count on past the end of the ring.
\<close>

definition window :: "u8 list \<Rightarrow> nat \<Rightarrow> nat \<Rightarrow> nat \<Rightarrow> u8 list" where
  "window buf B p n = map (\<lambda>i. buf ! (i mod B)) [p - n..<p]"

abbreviation ring_size :: "nl_ram_console_t \<Rightarrow> nat" where
  "ring_size rc \<equiv> unat (rc_buf_size rc)"

definition current_log :: "nl_ram_console_t \<Rightarrow> u8 list" where
  "current_log rc =
     window (rc_buf rc) (ring_size rc) (unat (write_index rc) + ring_size rc) (unat (bytes_written rc))"

definition last_log :: "nl_ram_console_t \<Rightarrow> u8 list" where
  "last_log rc = window (rc_buf rc) (ring_size rc) (unat (last_write_index rc) + ring_size rc)
     (unat (last_bytes_written rc))"

text \<open>The newest \<open>n\<close> bytes of a log.\<close>

definition newest :: "nat \<Rightarrow> u8 list \<Rightarrow> u8 list" where
  "newest n xs = drop (length xs - n) xs"

text \<open>
  The invariant: the indices lie in the ring, the two logs fit into it together, and the current
  log starts where the previous one ends. The ring is smaller than half of the address space,
  which is what lets the code see a wrapped index by comparing it with the ring's size.
\<close>

definition ram_console_inv :: "nl_ram_console_t \<Rightarrow> bool" where
  "ram_console_inv rc \<longleftrightarrow>
     rc_magic rc = RAM_CONSOLE_MAGIC \<and>
     0 < ring_size rc \<and> ring_size rc \<le> length (rc_buf rc) \<and> 2 * ring_size rc < 2 ^ 32 \<and>
     unat (write_index rc) < ring_size rc \<and>
     unat (last_write_index rc) < ring_size rc \<and>
     unat (bytes_written rc) + unat (last_bytes_written rc) \<le> ring_size rc \<and>
     (0 < last_bytes_written rc \<longrightarrow>
        (unat (last_write_index rc) + unat (bytes_written rc)) mod ring_size rc = unat (write_index rc))"

section \<open>Windows of the ring\<close>

lemma window_length [simp]: "n \<le> p \<Longrightarrow> length (window buf B p n) = n"
  by (simp add: window_def)

lemma window_nth [simp]: "n \<le> p \<Longrightarrow> k < n \<Longrightarrow> window buf B p n ! k = buf ! ((p - n + k) mod B)"
  by (simp add: window_def)

lemma window_0 [simp]: "window buf B p 0 = []"
  by (simp add: window_def)

lemma mod_shift_diff:
  fixes p q n :: nat
  assumes "p mod B = q mod B" "n \<le> p" "n \<le> q"
  shows "(p - n + k) mod B = (q - n + k) mod B"
proof -
  obtain a b where "p + B * a = q + B * b"
    using assms(1) nat_mod_eq_iff by blast
  then have "p - n + k + B * a = q - n + k + B * b" using assms by simp
  then show ?thesis using nat_mod_eq_iff by blast
qed

lemma window_mod:
  assumes "p mod B = q mod B" "n \<le> p" "n \<le> q"
  shows "window buf B p n = window buf B q n"
  by (rule nth_equalityI) (use assms mod_shift_diff [OF assms] in auto)

lemma window_append:
  assumes "m + n \<le> p"
  shows "window buf B (p - n) m @ window buf B p n = window buf B p (m + n)"
  by (rule nth_equalityI) (use assms in \<open>auto simp: nth_append intro!: arg_cong [where f = "\<lambda>i. buf ! (i mod B)"]\<close>)

lemma window_newest:
  assumes "m \<le> n" "n \<le> p"
  shows "newest m (window buf B p n) = window buf B p m"
  using assms by (simp add: newest_def window_def drop_map)

lemma window_straight:
  assumes "n \<le> N" "m \<le> n" "length xs = n"
  shows "window (xs @ ys) N (n + N) m = newest m xs"
  using assms unfolding newest_def by (intro nth_equalityI) (auto simp: nth_append mod_if)

lemma mem_write_nth:
  assumes "mem_write xs off ys = Some zs" "i < length xs"
  shows "zs ! i = (if off \<le> i \<and> i < off + length ys then ys ! (i - off) else xs ! i)"
  using assms by (auto simp: mem_write_def nth_append min_def split: if_splits)


section \<open>Writing\<close>

text \<open>
  What the ring holds after \<open>data\<close> was written at the position \<open>p\<close>: the newest \<open>B\<close> bytes of the
  old contents followed by the data.
\<close>

definition ring_written :: "u8 list \<Rightarrow> u8 list \<Rightarrow> nat \<Rightarrow> nat \<Rightarrow> u8 list \<Rightarrow> bool" where
  "ring_written buf buf' B p data \<longleftrightarrow> length buf' = length buf \<and>
     (\<forall>i. p + length data - B \<le> i \<and> i < p + length data \<longrightarrow>
          buf' ! (i mod B) = (if i < p then buf ! (i mod B) else data ! (i - p)))"

lemma ring_written_straight:
  assumes "mem_write buf w data = Some buf'" "w + length data \<le> B" "B \<le> length buf"
  shows "ring_written buf buf' B (w + B) data"
  unfolding ring_written_def
proof (intro conjI allI impI)
  fix i assume i: "w + B + length data - B \<le> i \<and> i < w + B + length data"
  show "buf' ! (i mod B) = (if i < w + B then buf ! (i mod B) else data ! (i - (w + B)))"
  proof (cases "i < B")
    case True
    with i assms(2,3) show ?thesis by (simp add: mem_write_nth [OF assms(1)])
  next
    case False
    with i assms(2) have "i mod B = i - B \<or> i mod B = i - 2 * B \<and> w + length data = B \<and> False"
      by (simp add: mod_if)
    with i assms(2,3) False show ?thesis by (auto simp: mem_write_nth [OF assms(1)] add.commute)
  qed
qed (use mem_write_length [OF assms(1)] in simp)

lemma ring_written_wrap:
  assumes w: "mem_write buf w (take (B - w) data) = Some buf1" "w < B" "B - w \<le> length data" "B \<le> length buf"
    and rest: "ring_written buf1 buf' B B (drop (B - w) data)"
  shows "ring_written buf buf' B (w + B) data"
  unfolding ring_written_def
proof (intro conjI allI impI)
  fix i assume i: "w + B + length data - B \<le> i \<and> i < w + B + length data"
  define j where "j = i - B"
  have ij: "i = j + B" using i w(2,3) unfolding j_def by arith
  have "B + length (drop (B - w) data) - B \<le> j \<and> j < B + length (drop (B - w) data)"
    using i w(2,3) by (auto simp: j_def)
  with rest have *: "buf' ! (j mod B) =
      (if j < B then buf1 ! (j mod B) else drop (B - w) data ! (j - B))"
    unfolding ring_written_def by blast
  show "buf' ! (i mod B) = (if i < w + B then buf ! (i mod B) else data ! (i - (w + B)))"
    using * w(2-4) ij by (auto simp: mem_write_nth [OF w(1)])
qed (use rest mem_write_length [OF w(1)] in \<open>auto simp: ring_written_def\<close>)

lemma ram_console_copy_Nil [simp]: "ram_console_copy B [] rc = Some rc"
  by (subst ram_console_copy.simps) simp

lemma ram_console_copy_step:
  assumes "data \<noteq> []"
    and n: "n = (if length data < unat (B - write_index rc) then length data else unat (B - write_index rc))"
    and "length data < 2 ^ 32" "unat (write_index rc) + n < 2 ^ 32"
    and "mem_write (rc_buf rc) (unat (write_index rc)) (take n data) = Some buf"
  shows "ram_console_copy B data rc = ram_console_copy B (drop n data)
      (rc\<lparr>rc_buf := buf, write_index := word_of_nat
        (if unat B \<le> unat (write_index rc) + n then 0 else unat (write_index rc) + n)\<rparr>)"
proof -
  have len: "unat (word_of_nat (length data) :: u32) = length data"
    using assms(3) by (simp add: unat_of_nat take_bit_nat_eq_self)
  let ?b = "if word_of_nat (length data) < B - write_index rc then word_of_nat (length data)
            else B - write_index rc"
  have b: "unat ?b = n" using n len by (simp add: word_less_nat_alt)
  have wi: "(if write_index rc + ?b \<ge> B then 0 else write_index rc + ?b) =
      word_of_nat (if unat B \<le> unat (write_index rc) + n then 0 else unat (write_index rc) + n)"
    (is "?l = ?r")
  proof (rule word_unat_eq_iff [THEN iffD2])
    have "unat (write_index rc + ?b) = unat (write_index rc) + n"
      using b assms(4) by (simp add: unat_word_ariths)
    then show "unat ?l = unat ?r"
      using assms(4) by (simp add: word_le_nat_alt unat_of_nat take_bit_nat_eq_self)
  qed
  show ?thesis
    using b assms(1,5) by (subst ram_console_copy.simps) (simp only: Let_def wi refl if_False bind.bind_lunit)
qed

lemma ram_console_copy_spec:
  assumes "unat (write_index rc) < unat B" "unat B \<le> length (rc_buf rc)" "length data < 2 ^ 32"
    "2 * unat B < 2 ^ 32"
  shows "\<exists>buf. ram_console_copy B data rc =
      Some (rc\<lparr>rc_buf := buf, write_index := word_of_nat ((unat (write_index rc) + length data) mod unat B)\<rparr>) \<and>
      ring_written (rc_buf rc) buf (unat B) (unat (write_index rc) + unat B) data"
  using assms
proof (induction data arbitrary: rc rule: length_induct)
  case (1 data)
  let ?w = "unat (write_index rc)" and ?B = "unat B" and ?L = "length data"
  have room: "unat (B - write_index rc) = ?B - ?w" using "1.prems" by (simp add: unat_sub_if')
  show ?case
  proof (cases "data = []")
    case True
    then show ?thesis using "1.prems"
      by (auto simp: ram_console_copy.simps ring_written_def intro!: exI [of _ "rc_buf rc"])
  next
    case nonempty: False
    show ?thesis
    proof (cases "?L < ?B - ?w")
      case True
      then have "?w + ?L \<le> length (rc_buf rc)" using "1.prems" by simp
      then obtain buf where b: "mem_write (rc_buf rc) ?w data = Some buf"
        by (simp add: mem_write_def)
      have "?w + ?L < ?B" using True by simp
      then have "ram_console_copy B data rc =
          Some (rc\<lparr>rc_buf := buf, write_index := word_of_nat (?w + ?L)\<rparr>)"
        using ram_console_copy_step [OF nonempty, of ?L B rc buf] b True room "1.prems"
        by (simp del: mem_write_in of_nat_add)
      moreover have "ring_written (rc_buf rc) buf ?B (?w + ?B) data"
        using True "1.prems" by (intro ring_written_straight [OF b]) auto
      ultimately show ?thesis using \<open>?w + ?L < ?B\<close> by (auto simp del: of_nat_add)
    next
      case False
      let ?n = "?B - ?w"
      have "?w + length (take ?n data) \<le> length (rc_buf rc)" using False "1.prems" by simp
      then obtain buf1 where b: "mem_write (rc_buf rc) ?w (take ?n data) = Some buf1"
        by (simp add: mem_write_def)
      let ?rc = "rc\<lparr>rc_buf := buf1, write_index := 0\<rparr>"
      have lb: "length buf1 = length (rc_buf rc)" using b by (rule mem_write_length)
      have step: "ram_console_copy B data rc = ram_console_copy B (drop ?n data) ?rc"
        using ram_console_copy_step [OF nonempty, of ?n B rc buf1] b False room "1.prems"
        by (simp del: mem_write_in of_nat_add)
      have "length (drop ?n data) < ?L" using nonempty "1.prems" False by simp
      then obtain buf where *: "ram_console_copy B (drop ?n data) ?rc =
            Some (?rc\<lparr>rc_buf := buf, write_index := word_of_nat ((?L - ?n) mod ?B)\<rparr>)"
          "ring_written buf1 buf ?B ?B (drop ?n data)"
        using "1.IH" [rule_format, of "drop ?n data" ?rc] "1.prems" lb by auto
      have "?w + ?L = ?L - ?n + ?B" using False "1.prems" by simp
      then have "(?w + ?L) mod ?B = (?L - ?n) mod ?B" by (metis mod_add_self2)
      moreover have "ring_written (rc_buf rc) buf ?B (?w + ?B) data"
        using False "1.prems" by (intro ring_written_wrap [OF b _ _ _ *(2)]) auto
      ultimately show ?thesis using step *(1)
        by (intro exI [of _ buf] conjI) (simp_all only:, simp)
    qed
  qed
qed


lemma ring_written_window_current:
  assumes "ring_written buf buf' B p data" "n \<le> B" "B \<le> p"
  shows "window buf' B (p + length data) (min B (n + length data)) =
         newest B (window buf B p n @ data)"
proof (rule nth_equalityI)
  let ?m = "min B (n + length data)"
  show "length (window buf' B (p + length data) ?m) = length (newest B (window buf B p n @ data))"
    using assms by (auto simp: newest_def)
  fix k assume "k < length (window buf' B (p + length data) ?m)"
  then have k: "k < ?m" using assms by (subst (asm) window_length) auto
  let ?i = "p + length data - ?m + k"
  have "p + length data - B \<le> ?i \<and> ?i < p + length data" using k assms by linarith
  then have *: "buf' ! (?i mod B) = (if ?i < p then buf ! (?i mod B) else data ! (?i - p))"
    using assms(1) unfolding ring_written_def by blast
  have drop: "newest B (window buf B p n @ data) ! k = (window buf B p n @ data) ! (n + length data - ?m + k)"
    unfolding newest_def using assms by (subst nth_drop) (auto simp: min_def)
  show "window buf' B (p + length data) ?m ! k = newest B (window buf B p n @ data) ! k"
  proof (cases "n + length data - ?m + k < n")
    case True
    then have "p - n + (n + length data - ?m + k) = ?i" "?i < p" using assms by auto
    with True show ?thesis using drop * k assms by (simp add: nth_append)
  next
    case False
    then have "n + length data - ?m + k - n = ?i - p" "\<not> ?i < p" using assms by auto
    with False show ?thesis using drop * k assms by (simp add: nth_append)
  qed
qed

lemma ring_written_window_last:
  assumes "ring_written buf buf' B p data" "n + length data + m \<le> B" "B \<le> p"
  shows "window buf' B (p - n) m = window buf B (p - n) m"
  unfolding window_def
proof (rule map_cong [OF refl])
  fix i assume "i \<in> set [p - n - m..<p - n]"
  then have "p + length data - B \<le> i \<and> i < p + length data" "i < p" using assms by auto
  with assms(1) show "buf' ! (i mod B) = buf ! (i mod B)" unfolding ring_written_def by auto
qed

lemma ram_console_invE:
  assumes "ram_console_inv rc"
  obtains "rc_magic rc = RAM_CONSOLE_MAGIC" "0 < ring_size rc" "ring_size rc \<le> length (rc_buf rc)"
    "2 * ring_size rc < 2 ^ 32" "unat (write_index rc) < ring_size rc"
    "unat (last_write_index rc) < ring_size rc"
    "unat (bytes_written rc) + unat (last_bytes_written rc) \<le> ring_size rc"
    "unat (last_bytes_written rc) = 0 \<or>
       (unat (last_write_index rc) + unat (bytes_written rc)) mod ring_size rc = unat (write_index rc)"
  using assms unfolding ram_console_inv_def by (auto simp: word_greater_zero_iff unat_eq_zero)

text \<open>The end of the previous log is the start of the current one.\<close>

lemma mod_diff_back:
  fixes a b w B :: nat
  assumes "(a + b) mod B = w" "b \<le> B" "0 < B"
  shows "(w + B - b) mod B = a mod B"
proof -
  have "w mod B = (a + b) mod B" using assms by auto
  then obtain c d where "w + B * c = a + b + B * d" using nat_mod_eq_iff by blast
  then have "w + B - b + B * c = a + B * (d + 1)" using assms(2) by (simp add: algebra_simps)
  then show ?thesis using nat_mod_eq_iff by blast
qed

lemma last_log_window:
  assumes "ram_console_inv rc" "m \<le> unat (last_bytes_written rc)"
  shows "window buf (ring_size rc) (unat (last_write_index rc) + ring_size rc) m =
    window buf (ring_size rc) (unat (write_index rc) + ring_size rc - unat (bytes_written rc)) m"
  using assms
  by (elim ram_console_invE disjE) (auto intro!: window_mod simp: mod_diff_back)

lemma last_current_window:
  assumes "ram_console_inv rc"
  shows "last_log rc @ current_log rc = window (rc_buf rc) (ring_size rc)
     (unat (write_index rc) + ring_size rc) (unat (last_bytes_written rc) + unat (bytes_written rc))"
  unfolding last_log_def current_log_def last_log_window [OF assms order_refl]
  using assms by (elim ram_console_invE) (intro window_append, simp)

definition console_after_write :: "nl_ram_console_t \<Rightarrow> u8 list \<Rightarrow> nl_ram_console_t \<Rightarrow> bool" where
  "console_after_write rc data rc' \<longleftrightarrow>
     ram_console_inv rc' \<and> rc_buf_size rc' = rc_buf_size rc \<and> rc_enabled rc' = rc_enabled rc \<and>
     current_log rc' = newest (ring_size rc) (current_log rc @ data) \<and>
     last_log rc' = newest (ring_size rc - length (current_log rc')) (last_log rc)"

lemma newest_all [simp]: "length xs \<le> n \<Longrightarrow> newest n xs = xs"
  by (simp add: newest_def)

lemma console_after_writeI:
  assumes inv: "ram_console_inv rc" and data: "length data + ring_size rc < 2 ^ 32"
    and rw: "ring_written (rc_buf rc) buf (ring_size rc) (unat (write_index rc) + ring_size rc) data"
    and rc': "rc_buf_size rc' = rc_buf_size rc" "rc_enabled rc' = rc_enabled rc" "rc_magic rc' = rc_magic rc"
      "rc_buf rc' = buf" "last_write_index rc' = last_write_index rc"
      "unat (write_index rc') = (unat (write_index rc) + length data) mod ring_size rc"
      "unat (bytes_written rc') = min (ring_size rc) (unat (bytes_written rc) + length data)"
      "unat (last_bytes_written rc') = min (unat (last_bytes_written rc)) (ring_size rc - unat (bytes_written rc'))"
  shows "console_after_write rc data rc'"
proof -
  let ?B = "ring_size rc" and ?w = "unat (write_index rc)" and ?L = "length data"
    and ?b = "unat (bytes_written rc)" and ?m = "unat (last_bytes_written rc)"
  from inv have f: "0 < ?B" "?B \<le> length (rc_buf rc)" "?w < ?B" "?b + ?m \<le> ?B"
    by (auto elim: ram_console_invE)
  have swap: "?w + ?B + ?L = ?w + ?L + ?B" by simp
  have "current_log rc' = window buf ?B (?w + ?B + ?L) (min ?B (?b + ?L))"
    unfolding current_log_def rc' swap using f by (intro window_mod) auto
  also have "\<dots> = newest ?B (current_log rc @ data)"
    unfolding current_log_def using f by (intro ring_written_window_current [OF rw]) auto
  finally have cur: "current_log rc' = newest ?B (current_log rc @ data)" .
  have rel: "unat (last_bytes_written rc') = 0 \<or>
      (unat (last_write_index rc) + unat (bytes_written rc')) mod ?B = unat (write_index rc')"
  proof (cases "?b + ?L < ?B \<and> ?m \<noteq> 0")
    case True
    then have "(unat (last_write_index rc) + ?b) mod ?B = ?w"
      using inv by (auto elim: ram_console_invE)
    then have "(unat (last_write_index rc) + ?b + ?L) mod ?B = (?w + ?L) mod ?B"
      by (metis mod_add_left_eq)
    with True show ?thesis by (simp add: rc' add.assoc)
  qed (auto simp: rc')
  have bl: "length buf = length (rc_buf rc)" using rw by (simp add: ring_written_def)
  have inv': "ram_console_inv rc'"
    unfolding ram_console_inv_def rc'(1,3-6) bl
    using inv f rel rc' by (elim ram_console_invE)
      (auto simp: word_greater_zero_iff unat_eq_zero)
  have len: "length (current_log rc') = unat (bytes_written rc')"
    unfolding current_log_def rc'(1) using f by (subst window_length) (auto simp: rc')
  have "last_log rc' = newest (?B - unat (bytes_written rc')) (last_log rc)"
  proof (cases "?b + ?L < ?B")
    case True
    have "last_log rc' = window buf ?B (?w + ?B - ?b) (unat (last_bytes_written rc'))"
      unfolding last_log_def rc'(1,4,5) by (rule last_log_window [OF inv]) (simp add: rc')
    also have "\<dots> = window (rc_buf rc) ?B (?w + ?B - ?b) (unat (last_bytes_written rc'))"
      using True f by (intro ring_written_window_last [OF rw]) (auto simp: rc')
    also have "\<dots> = newest (?B - unat (bytes_written rc')) (last_log rc)"
      unfolding last_log_def last_log_window [OF inv order_refl]
      using f by (cases "?m \<le> ?B - unat (bytes_written rc')")
        (auto simp: rc'(8) min_def window_newest simp del: rc'(7))
    finally show ?thesis .
  next
    case False
    then show ?thesis by (simp add: last_log_def rc' newest_def)
  qed
  with inv' cur rc' len show ?thesis by (simp add: console_after_write_def)
qed

text \<open>A registered callback may do anything but touch the console it is called from.\<close>

lemma unat_cap: "unat (if x > b then b else x) = min (unat b) (unat (x :: 'a::len word))"
  by (simp add: word_less_nat_alt min_def)

lemma nl_ram_console_write_console:
  assumes inv: "ram_console_inv (s_ram_console s)" and en: "rc_enabled (s_ram_console s)"
    and data: "length data + ring_size (s_ram_console s) < 2 ^ 32"
    and cb: "\<And>c t. s_ram_console (run_cb c t) = s_ram_console t"
  shows "\<exists>s'. nl_ram_console_write run_cb data s = Some s' \<and>
     console_after_write (s_ram_console s) data (s_ram_console s')"
proof -
  let ?rc = "s_ram_console s"
  from inv have f: "0 < ring_size ?rc" "ring_size ?rc \<le> length (rc_buf ?rc)"
     "unat (write_index ?rc) < ring_size ?rc" "2 * ring_size ?rc < 2 ^ 32"
     "unat (bytes_written ?rc) + unat (last_bytes_written ?rc) \<le> ring_size ?rc"
    by (auto elim: ram_console_invE)
  obtain buf where copy: "ram_console_copy (rc_buf_size ?rc) data ?rc = Some (?rc\<lparr>rc_buf := buf,
        write_index := word_of_nat ((unat (write_index ?rc) + length data) mod ring_size ?rc)\<rparr>)"
      and rw: "ring_written (rc_buf ?rc) buf (ring_size ?rc) (unat (write_index ?rc) + ring_size ?rc) data"
    using ram_console_copy_spec [of ?rc "rc_buf_size ?rc" data] f data by auto
  let ?rc1 = "?rc\<lparr>rc_buf := buf,
        write_index := word_of_nat ((unat (write_index ?rc) + length data) mod ring_size ?rc)\<rparr>"
  let ?bw = "bytes_written ?rc + word_of_nat (length data)"
  let ?bw' = "if ?bw > rc_buf_size ?rc then rc_buf_size ?rc else ?bw"
  let ?nc = "rc_buf_size ?rc - ?bw'"
  let ?rc3 = "?rc1\<lparr>bytes_written := ?bw',
     last_bytes_written := (if last_bytes_written ?rc > ?nc then ?nc else last_bytes_written ?rc)\<rparr>"
  have bw: "unat ?bw = unat (bytes_written ?rc) + length data"
    using f data by (simp add: unat_word_ariths unat_of_nat take_bit_nat_eq_self)
  have bw': "unat ?bw' = min (ring_size ?rc) (unat (bytes_written ?rc) + length data)"
    unfolding unat_cap bw ..
  then have nc: "unat ?nc = ring_size ?rc - unat ?bw'"
    by (simp add: unat_sub_if' del: if_split)
  have "(unat (write_index ?rc) + length data) mod ring_size ?rc < 2 ^ 32"
    using mod_less_divisor [OF f(1), of "unat (write_index ?rc) + length data"] f(4) by linarith
  then have "console_after_write ?rc data ?rc3"
    using bw' nc by (intro console_after_writeI [OF inv data rw])
      (simp_all add: unat_cap min.commute unat_of_nat take_bit_nat_eq_self del: of_nat_add if_split)
  moreover have "\<exists>s'. nl_ram_console_write run_cb data s = Some s' \<and> s_ram_console s' = ?rc3"
    unfolding nl_ram_console_write_def copy Let_def
    using en by (simp add: cb del: if_split split: option.split)
  ultimately show ?thesis
    by (elim exE conjE) (intro exI conjI, assumption, simp only:)
qed

section \<open>Converting the buffer of an image with another size\<close>

lemma two_chunks_nth:
  assumes "B \<le> length buf" "st \<le> B" "n \<le> B" "k < n"
  shows "(if n < B - st then take n (drop st buf)
          else take (B - st) (drop st buf) @ take (n - (B - st)) buf) ! k =
         (if st + k < B then buf ! (st + k) else buf ! (st + k - B))"
proof (cases "n < B - st")
  case True
  with assms have "st + k < B" by simp
  with True assms show ?thesis by simp
next
  case False
  with assms show ?thesis by (simp add: nth_append less_diff_conv add.commute)
qed

lemma ring_back_mod:
  fixes w B n k :: nat
  assumes "w < B" "n \<le> B" "k < n" "st = (if n \<le> w then w - n else w + B - n)"
  shows "(w + B - n + k) mod B = (if st + k < B then st + k else st + k - B)"
proof (cases "n \<le> w")
  case True
  then have e: "w + B - n + k = (st + k) + B" and "st + k < B" using assms by simp_all
  then show ?thesis unfolding e by simp
next
  case False
  then have "w + B - n + k = st + k" "st + k < 2 * B" using assms by simp_all
  then show ?thesis by (simp add: mod_if)
qed

lemma window_two_chunks:
  assumes "w < B" "n \<le> B" "B \<le> length buf" "st = (if n \<le> w then w - n else w + B - n)"
  shows "window buf B (w + B) n =
    (if n < B - st then take n (drop st buf) else take (B - st) (drop st buf) @ take (n - (B - st)) buf)"
proof (rule nth_equalityI)
  fix k assume "k < length (window buf B (w + B) n)"
  then have k: "k < n" using assms by simp
  have "st \<le> B" using assms by auto
  then show "window buf B (w + B) n ! k = (if n < B - st then take n (drop st buf)
      else take (B - st) (drop st buf) @ take (n - (B - st)) buf) ! k"
    unfolding two_chunks_nth [OF assms(3) \<open>st \<le> B\<close> assms(2) k]
    using assms(1,2) k ring_back_mod [OF assms(1,2) k assms(4)] by simp
qed (use assms in auto)

text \<open>The index arithmetic of the conversion: going back \<open>n\<close> bytes from \<open>w\<close> in a ring of \<open>B\<close>.\<close>

lemma unat_ring_back:
  fixes w n B :: u32
  assumes "unat w < unat B" "unat n \<le> unat B" "2 * unat B < 2 ^ 32"
  shows "unat (if w - n > B then w - n + B else w - n) =
    (if unat n \<le> unat w then unat w - unat n else unat w + unat B - unat n)"
proof (cases "unat n \<le> unat w")
  case True
  then have "unat (w - n) = unat w - unat n" by (simp add: unat_sub word_le_nat_alt)
  moreover from this True assms(1) have "\<not> w - n > B" by (simp add: word_less_nat_alt)
  ultimately show ?thesis using True by simp
next
  case False
  then have d: "unat (w - n) = unat w + 2 ^ 32 - unat n" by (simp add: unat_sub_if')
  have "unat (w - n + B) = (unat (w - n) + unat B) mod 2 ^ 32" by (simp add: unat_word_ariths)
  also have "\<dots> = (unat w + unat B - unat n + 2 ^ 32) mod 2 ^ 32"
    unfolding d using assms False by (intro arg_cong [where f = "\<lambda>i. i mod 2 ^ 32"]) simp
  also have "\<dots> = unat w + unat B - unat n"
    using assms False by (simp only: mod_add_self2) (intro mod_less, simp)
  finally show ?thesis using False assms d by (simp add: word_less_nat_alt)
qed

definition converted :: "u32 \<Rightarrow> u32 \<Rightarrow> nl_ram_console_t \<Rightarrow> nl_ram_console_t \<Rightarrow> bool" where
  "converted n N rc rc' \<longleftrightarrow>
     rc_buf rc' = window (rc_buf rc) (ring_size rc) (unat (write_index rc) + ring_size rc) (unat n) @
        drop (unat n) (rc_buf rc) \<and>
     rc_buf_size rc' = N \<and> rc_magic rc' = rc_magic rc \<and>
     write_index rc' = (if n = N then 0 else n) \<and>
     unat (bytes_written rc') = min (unat n) (unat (bytes_written rc)) \<and>
     unat (last_bytes_written rc') = min (unat n - unat (bytes_written rc')) (unat (last_bytes_written rc)) \<and>
     last_write_index rc' = (if last_bytes_written rc' > 0
       then if write_index rc' - bytes_written rc' > N then write_index rc' - bytes_written rc' + N
            else write_index rc' - bytes_written rc' else 0)"

lemma convertedD:
  assumes "converted n N rc rc'"
  shows "rc_buf rc' = window (rc_buf rc) (ring_size rc) (unat (write_index rc) + ring_size rc) (unat n) @
        drop (unat n) (rc_buf rc)"
    and "rc_buf_size rc' = N" and "rc_magic rc' = rc_magic rc"
    and "write_index rc' = (if n = N then 0 else n)"
    and "unat (bytes_written rc') = min (unat n) (unat (bytes_written rc))"
    and "unat (last_bytes_written rc') = min (unat n - unat (bytes_written rc')) (unat (last_bytes_written rc))"
    and "last_write_index rc' = (if last_bytes_written rc' > 0
       then if write_index rc' - bytes_written rc' > N then write_index rc' - bytes_written rc' + N
            else write_index rc' - bytes_written rc' else 0)"
  using assms unfolding converted_def by blast+

lemma ram_console_convert_copy:
  assumes inv: "ram_console_inv rc" and n: "0 < unat n" "unat n \<le> ring_size rc" "unat n \<le> length scratch"
    and N: "unat n \<le> unat N" "unat N \<le> length (rc_buf rc)"
  shows "\<exists>rc'. ram_console_convert N scratch n rc = Some rc' \<and> converted n N rc rc'"
proof -
  from inv have f: "0 < ring_size rc" "ring_size rc \<le> length (rc_buf rc)"
     "unat (write_index rc) < ring_size rc" "2 * ring_size rc < 2 ^ 32"
    by (auto elim: ram_console_invE)
  let ?B = "rc_buf_size rc" and ?w = "write_index rc" and ?win =
    "window (rc_buf rc) (ring_size rc) (unat (write_index rc) + ring_size rc) (unat n)"
  define st where "st = (if ?w - n > ?B then ?w - n + ?B else ?w - n)"
  have st: "unat st = (if unat n \<le> unat ?w then unat ?w - unat n else unat ?w + unat ?B - unat n)"
    unfolding st_def using f n by (intro unat_ring_back) auto
  have "unat st \<le> unat ?B" using st f n by auto
  then have until: "unat (?B - st) = unat ?B - unat st" by (simp add: unat_sub_if')
  note win = window_two_chunks [OF f(3) n(2) f(2) st]
  have "\<exists>xs. length xs = unat n \<and> xs = ?win \<and>
     (if ?B - st > n
        then do { xs \<leftarrow> mem_read (rc_buf rc) (unat st) (unat n); mem_write scratch 0 xs }
        else do { xs \<leftarrow> mem_read (rc_buf rc) (unat st) (unat (?B - st));
                  scratch1 \<leftarrow> mem_write scratch 0 xs;
                  ys \<leftarrow> mem_read (rc_buf rc) 0 (unat (n - (?B - st)));
                  mem_write scratch1 (unat (?B - st)) ys }) = Some (xs @ drop (unat n) scratch)"
  proof (cases "?B - st > n")
    case True
    then have "unat n < unat ?B - unat st" using until by (simp add: word_less_nat_alt)
    then show ?thesis using True f n win by auto
  next
    case False
    then have nl: "\<not> unat n < unat ?B - unat st" and nn: "unat (n - (?B - st)) = unat n - (unat ?B - unat st)"
      using until by (simp_all add: word_less_nat_alt unat_sub_if')
    have in_buf: "unat st + (unat ?B - unat st) \<le> length (rc_buf rc)"
      using \<open>unat st \<le> unat ?B\<close> f by simp
    show ?thesis using False f n win nl in_buf unfolding nn until by auto
  qed
  then obtain xs where len: "length xs = unat n" and xs: "xs = ?win" and cp: "(if ?B - st > n
        then do { xs \<leftarrow> mem_read (rc_buf rc) (unat st) (unat n); mem_write scratch 0 xs }
        else do { xs \<leftarrow> mem_read (rc_buf rc) (unat st) (unat (?B - st));
                  scratch1 \<leftarrow> mem_write scratch 0 xs;
                  ys \<leftarrow> mem_read (rc_buf rc) 0 (unat (n - (?B - st)));
                  mem_write scratch1 (unat (?B - st)) ys }) = Some (xs @ drop (unat n) scratch)"
    by (elim exE conjE)
  show ?thesis
    unfolding ram_console_convert_def converted_def Let_def st_def [symmetric] cp
    using len n N by (simp add: unat_cap xs [symmetric] unat_sub_if' del: if_split)
      (auto simp: word_less_nat_alt unat_sub_if')
qed

text \<open>What the converted indices mean.\<close>

lemma ram_console_resized:
  assumes inv: "ram_console_inv rc"
    and n: "0 < unat n" "unat n \<le> unat (last_bytes_written rc) + unat (bytes_written rc)" "unat n \<le> unat N"
      "unat N \<le> length (rc_buf rc)" "2 * unat N < 2 ^ 32"
    and conv: "converted n N rc rc'"
  shows "ram_console_inv rc' \<and> last_log rc' @ current_log rc' = newest (unat n) (last_log rc @ current_log rc) \<and>
     current_log rc' = newest (unat n) (current_log rc)"
proof -
  note rc' = convertedD [OF conv]
  from inv have f: "0 < ring_size rc" "ring_size rc \<le> length (rc_buf rc)" "rc_magic rc = RAM_CONSOLE_MAGIC"
     "unat (write_index rc) < ring_size rc"
     "unat (bytes_written rc) + unat (last_bytes_written rc) \<le> ring_size rc"
    by (auto elim: ram_console_invE)
  let ?W = "window (rc_buf rc) (ring_size rc) (unat (write_index rc) + ring_size rc) (unat n)"
  have lenW: "length ?W = unat n" using f n by simp
  have sum: "unat (last_bytes_written rc') + unat (bytes_written rc') = unat n"
    using n(2) rc'(5,6) by (simp add: min_def split: if_splits)
  have wi: "unat (write_index rc') = unat n mod unat N"
    using rc'(4) n by (auto simp: word_unat_eq_iff)
  have wiN: "unat (write_index rc') < unat N" using n by (simp add: wi)
  have b: "unat (bytes_written rc') \<le> unat N" using rc'(5) n by simp
  have lwi: "0 < last_bytes_written rc' \<Longrightarrow> unat (last_write_index rc') =
      (if unat (bytes_written rc') \<le> unat (write_index rc')
       then unat (write_index rc') - unat (bytes_written rc')
       else unat (write_index rc') + unat N - unat (bytes_written rc'))"
    unfolding rc'(7) using unat_ring_back [OF wiN b n(5)] by simp
  have inv': "ram_console_inv rc'"
    unfolding ram_console_inv_def rc'(1-3) using f n lenW wiN b sum lwi
    by (auto simp: rc'(7) not_le mod_if)
  have straight: "k \<le> unat n \<Longrightarrow> window (rc_buf rc') (ring_size rc') (unat (write_index rc') + ring_size rc') k
      = window (rc_buf rc) (ring_size rc) (unat (write_index rc) + ring_size rc) k" for k
  proof -
    assume k: "k \<le> unat n"
    have "window (rc_buf rc') (unat N) (unat (write_index rc') + unat N) k =
        window (rc_buf rc') (unat N) (unat n + unat N) k"
      using k n by (intro window_mod) (auto simp: wi)
    also have "\<dots> = newest k ?W"
      unfolding rc'(1) using k n lenW by (intro window_straight) auto
    also have "\<dots> = window (rc_buf rc) (ring_size rc) (unat (write_index rc) + ring_size rc) k"
      using k f n by (intro window_newest) auto
    finally show ?thesis unfolding rc'(2) .
  qed
  have "last_log rc' @ current_log rc' = newest (unat n) (last_log rc @ current_log rc)"
    unfolding last_current_window [OF inv'] last_current_window [OF inv] sum straight [OF order_refl]
    using f n by (subst window_newest) auto
  moreover have "current_log rc' = newest (unat n) (current_log rc)"
    unfolding current_log_def using straight [of "unat (bytes_written rc')"] rc'(5) f
    by (cases "unat n \<le> unat (bytes_written rc)") (auto simp: window_newest min_def)
  ultimately show ?thesis using inv' by blast
qed

lemma ram_console_resize_logs:
  assumes inv: "ram_console_inv (s_ram_console s)"
    and N: "rc_buf_size (s_ram_console s) \<noteq> N" "0 < N" "unat N \<le> length (rc_buf (s_ram_console s))"
      "2 * unat N < 2 ^ 32"
    and S: "length scratch < 2 ^ 32"
    and keep: "keep = min (min (unat N) (length scratch))
                 (length (last_log (s_ram_console s) @ current_log (s_ram_console s)))"
  shows "\<exists>s'. nl_ram_console_init N scratch s = Some s' \<and> ram_console_inv (s_ram_console s') \<and>
     rc_buf_size (s_ram_console s') = N \<and>
     last_log (s_ram_console s') @ current_log (s_ram_console s') =
       newest keep (last_log (s_ram_console s) @ current_log (s_ram_console s)) \<and>
     current_log (s_ram_console s') = newest keep (current_log (s_ram_console s))"
proof -
  let ?rc = "s_ram_console s"
  let ?b = "unat (bytes_written ?rc)" and ?m = "unat (last_bytes_written ?rc)"
  from inv have f: "0 < ring_size ?rc" "ring_size ?rc \<le> length (rc_buf ?rc)" "rc_magic ?rc = RAM_CONSOLE_MAGIC"
     "unat (write_index ?rc) < ring_size ?rc" "2 * ring_size ?rc < 2 ^ 32" "?b + ?m \<le> ring_size ?rc"
    by (auto elim: ram_console_invE)
  let ?n1 = "if last_bytes_written ?rc + bytes_written ?rc > N then N
             else last_bytes_written ?rc + bytes_written ?rc"
  define n where "n = (if ?n1 > of_nat (length scratch) then of_nat (length scratch) else ?n1)"
  have len: "length (last_log ?rc @ current_log ?rc) = ?m + ?b"
    unfolding last_current_window [OF inv] using f by (simp add: add.commute)
  have "unat (last_bytes_written ?rc + bytes_written ?rc) = ?m + ?b"
    using f by (simp add: unat_word_ariths)
  then have n: "unat n = keep"
    unfolding n_def unat_cap keep len using S by (simp add: unat_of_nat take_bit_nat_eq_self min.assoc min.left_commute)
  show ?thesis
  proof (cases "0 < n")
    case False
    then have "keep = 0" using n by (simp add: word_greater_zero_iff)
    moreover have "nl_ram_console_init N scratch s =
        Some ((init_ram_console N s)\<lparr>s_ram_console := (s_ram_console (init_ram_console N s))\<lparr>rc_enabled := False\<rparr>\<rparr>)"
      unfolding nl_ram_console_init_def Let_def n_def [symmetric] using f N False by simp
    ultimately show ?thesis using N
      by (simp add: init_ram_console_def ram_console_inv_def last_log_def current_log_def newest_def
          word_greater_zero_iff unat_gt_0)
  next
    case True
    then have "0 < unat n" by (simp add: word_greater_zero_iff unat_gt_0)
    moreover have "unat n \<le> ring_size ?rc" "unat n \<le> length scratch" "unat n \<le> unat N" "unat n \<le> ?m + ?b"
      using f(6) unfolding n keep len by simp_all
    ultimately obtain rc' where conv: "ram_console_convert N scratch n ?rc = Some rc'"
        and "converted n N ?rc rc'" and res: "ram_console_inv rc'" "last_log rc' @ current_log rc' = newest keep (last_log ?rc @ current_log ?rc)"
          "current_log rc' = newest keep (current_log ?rc)" "rc_buf_size rc' = N"
      using ram_console_convert_copy [OF inv, of n scratch N] ram_console_resized [OF inv, of n N] N(3,4)
      unfolding n by (metis converted_def)
    have "nl_ram_console_init N scratch s = Some (s\<lparr>s_ram_console := rc'\<lparr>rc_enabled := False\<rparr>\<rparr>)"
      unfolding nl_ram_console_init_def Let_def n_def [symmetric] using f N True conv by simp
    with res show ?thesis
      by (simp add: ram_console_inv_def last_log_def current_log_def)
  qed
qed

section \<open>The console across boots\<close>

definition image_size_ok :: "u32 \<Rightarrow> nl_ram_console_t \<Rightarrow> bool" where
  "image_size_ok N rc \<longleftrightarrow> 0 < N \<and> unat N \<le> length (rc_buf rc) \<and> 2 * unat N < 2 ^ 32"

text \<open>
  What the software on the device does with the console. A reset keeps the console's memory, but
  not the callback context, and runs the bootloader; the images may be built with other sizes.
\<close>

inductive ram_console_step ::
  "(nat \<Rightarrow> ram_console_state \<Rightarrow> ram_console_state) \<Rightarrow> ram_console_state \<Rightarrow> ram_console_state \<Rightarrow> bool"
  for run_cb where
  boot: "image_size_ok N (s_ram_console s) \<Longrightarrow>
     ram_console_step run_cb s (nl_ram_console_init_bootloader N (s\<lparr>s_ram_console_cb_ctx := ctx\<rparr>))"
| app: "image_size_ok N (s_ram_console s) \<Longrightarrow> length scratch < 2 ^ 32 \<Longrightarrow>
     nl_ram_console_init N scratch s = Some t \<Longrightarrow> ram_console_step run_cb s t"
| enable: "ram_console_step run_cb s (nl_ram_console_enable s)"
| disable: "ram_console_step run_cb s (nl_ram_console_disable s)"
| register: "ram_console_step run_cb s (nl_ram_console_register_callback cb watermark s)"
| log: "length data + ring_size (s_ram_console s) < 2 ^ 32 \<Longrightarrow>
     nl_ram_console_write run_cb data s = Some t \<Longrightarrow> ram_console_step run_cb s t"

text \<open>Power-up: the memory holds no valid console, and the first thing that runs initialises it.\<close>

definition ram_console_boot :: "ram_console_state \<Rightarrow> bool" where
  "ram_console_boot s \<longleftrightarrow> (\<exists>N s0. image_size_ok N (s_ram_console s0) \<and>
     rc_magic (s_ram_console s0) \<noteq> RAM_CONSOLE_MAGIC \<and> s = nl_ram_console_init_bootloader N s0)"

lemma init_ram_console_inv:
  "image_size_ok N (s_ram_console s) \<Longrightarrow>
   ram_console_inv ((s_ram_console (init_ram_console N s))\<lparr>rc_enabled := e\<rparr>)"
  by (auto simp: init_ram_console_def ram_console_inv_def image_size_ok_def word_greater_zero_iff unat_gt_0)

lemma ram_console_inv_enabled [simp]: "ram_console_inv (rc\<lparr>rc_enabled := e\<rparr>) = ram_console_inv rc"
  by (simp add: ram_console_inv_def)

lemma logs_enabled [simp]:
  "current_log (rc\<lparr>rc_enabled := e\<rparr>) = current_log rc" "last_log (rc\<lparr>rc_enabled := e\<rparr>) = last_log rc"
  by (simp_all add: current_log_def last_log_def)

lemma bootloader_enables [simp]: "rc_enabled (s_ram_console (nl_ram_console_init_bootloader N s))"
  by (simp add: nl_ram_console_init_bootloader_def Let_def)

lemma ram_console_rotate:
  assumes "ram_console_inv (s_ram_console s)"
  shows "ram_console_inv (s_ram_console (nl_ram_console_init_bootloader N s)) \<and>
     last_log (s_ram_console (nl_ram_console_init_bootloader N s)) = current_log (s_ram_console s) \<and>
     current_log (s_ram_console (nl_ram_console_init_bootloader N s)) = []"
  using assms by (auto elim!: ram_console_invE
      simp: nl_ram_console_init_bootloader_def ram_console_inv_def current_log_def last_log_def)

lemma nl_ram_console_init_inv:
  assumes "ram_console_inv (s_ram_console s)" "image_size_ok N (s_ram_console s)" "length scratch < 2 ^ 32"
    "nl_ram_console_init N scratch s = Some t"
  shows "ram_console_inv (s_ram_console t)"
proof (cases "rc_buf_size (s_ram_console s) = N")
  case True
  moreover have "rc_magic (s_ram_console s) = RAM_CONSOLE_MAGIC"
    using assms(1) by (rule ram_console_invE)
  ultimately show ?thesis using assms by (auto simp: nl_ram_console_init_def)
next
  case False
  with assms ram_console_resize_logs [OF assms(1) False _ _ _ assms(3) refl] show ?thesis
    by (auto simp: image_size_ok_def)
qed

lemma nl_ram_console_write_inv:
  assumes "ram_console_inv (s_ram_console s)" "length data + ring_size (s_ram_console s) < 2 ^ 32"
    "\<And>c t. s_ram_console (run_cb c t) = s_ram_console t" "nl_ram_console_write run_cb data s = Some t"
  shows "ram_console_inv (s_ram_console t)"
proof (cases "rc_enabled (s_ram_console s)")
  case True
  with nl_ram_console_write_console [OF assms(1) True assms(2), of run_cb] assms show ?thesis
    by (auto simp: console_after_write_def)
qed (use assms in \<open>simp add: nl_ram_console_write_def\<close>)

lemma ram_console_step_inv:
  assumes "ram_console_step run_cb s t" "ram_console_inv (s_ram_console s)"
    "\<And>c t. s_ram_console (run_cb c t) = s_ram_console t"
  shows "ram_console_inv (s_ram_console t)"
  using assms
proof cases
  case (boot N ctx)
  with assms(2) ram_console_rotate [of "s\<lparr>s_ram_console_cb_ctx := ctx\<rparr>" N] show ?thesis by simp
next
  case (app N scratch)
  with assms(2) show ?thesis by (blast intro: nl_ram_console_init_inv)
next
  case (log data)
  with assms(2,3) show ?thesis by (blast intro: nl_ram_console_write_inv)
qed (simp_all add: nl_ram_console_enable_def nl_ram_console_disable_def nl_ram_console_register_callback_def)

text \<open>With callbacks that leave the console alone, the console is an invariant system.\<close>

lemma ram_console_system:
  assumes "\<And>c t. s_ram_console (run_cb c t) = s_ram_console t"
  shows "invariant_system ram_console_boot (ram_console_step run_cb) (\<lambda>s. ram_console_inv (s_ram_console s))"
proof
  fix s assume "ram_console_boot s"
  then show "ram_console_inv (s_ram_console s)"
    using init_ram_console_inv
    by (auto simp: ram_console_boot_def nl_ram_console_init_bootloader_def Let_def)
next
  fix s t assume "ram_console_inv (s_ram_console s)" "ram_console_step run_cb s t"
  then show "ram_console_inv (s_ram_console t)"
    using ram_console_step_inv assms by blast
qed


section \<open>Properties\<close>

text \<open>
  C7: however often the device reboots, whatever sizes its images have and whatever is logged, the
  indices stay inside the ring, the two logs together never exceed it and the current log starts
  where the previous one ends. The registered callbacks are assumed to leave the console alone.
\<close>

theorem nl_ram_console_reachable_consistent:
  assumes "\<And>c t. s_ram_console (run_cb c t) = s_ram_console t"
    and "ram_console_boot s" "(ram_console_step run_cb)\<^sup>*\<^sup>* s t"
  shows "ram_console_inv (s_ram_console t)"
  using invariant_system.reachable_inv [OF ram_console_system [OF assms(1)] assms(2,3)] .

text \<open>
  C14: a write to the enabled console returns; the current log becomes the newest bytes, as many as
  the ring holds, of the old current log followed by the data, and the previous log keeps the
  newest of its bytes that fit beside it.
\<close>

theorem nl_ram_console_write_logs:
  assumes "ram_console_inv (s_ram_console s)" "rc_enabled (s_ram_console s)"
    and "length data + ring_size (s_ram_console s) < 2 ^ 32"
    and "\<And>c t. s_ram_console (run_cb c t) = s_ram_console t"
  shows "\<exists>s'. nl_ram_console_write run_cb data s = Some s' \<and> ram_console_inv (s_ram_console s') \<and>
     current_log (s_ram_console s') =
       newest (ring_size (s_ram_console s)) (current_log (s_ram_console s) @ data) \<and>
     last_log (s_ram_console s') =
       newest (ring_size (s_ram_console s) - length (current_log (s_ram_console s'))) (last_log (s_ram_console s))"
  using nl_ram_console_write_console [OF assms(1-3), of run_cb] assms(4)
  unfolding console_after_write_def by blast

text \<open>
  C15: an application built with another buffer size converts the console it finds: the previous and
  the current log, one after the other, keep their newest bytes, as many as the new ring and the
  scratch buffer hold, and the boundary between the two logs stays where it was.
\<close>

theorem nl_ram_console_init_resize:
  assumes "ram_console_inv (s_ram_console s)"
    and "image_size_ok N (s_ram_console s)" "rc_buf_size (s_ram_console s) \<noteq> N" "length scratch < 2 ^ 32"
    and "keep = min (min (unat N) (length scratch))
           (length (last_log (s_ram_console s) @ current_log (s_ram_console s)))"
  shows "\<exists>s'. nl_ram_console_init N scratch s = Some s' \<and> ram_console_inv (s_ram_console s') \<and>
     rc_buf_size (s_ram_console s') = N \<and>
     last_log (s_ram_console s') @ current_log (s_ram_console s') =
       newest keep (last_log (s_ram_console s) @ current_log (s_ram_console s)) \<and>
     current_log (s_ram_console s') = newest keep (current_log (s_ram_console s))"
  using assms ram_console_resize_logs [OF assms(1,3) _ _ _ assms(4,5)] by (auto simp: image_size_ok_def)

text \<open>
  A reboot loses nothing that was logged: what an enabled console was given before the reset
  is, up to the size of the ring, the previous log that the bootloader hands on.
\<close>

theorem nl_ram_console_survives_reset:
  assumes "ram_console_inv (s_ram_console s)" "rc_enabled (s_ram_console s)"
    and "length data + ring_size (s_ram_console s) < 2 ^ 32"
    and "\<And>c t. s_ram_console (run_cb c t) = s_ram_console t"
    and "nl_ram_console_write run_cb data s = Some s1"
    and "s2 = nl_ram_console_init_bootloader N (s1\<lparr>s_ram_console_cb_ctx := ctx\<rparr>)"
  shows "last_log (s_ram_console s2) =
       newest (ring_size (s_ram_console s)) (current_log (s_ram_console s) @ data) \<and>
     current_log (s_ram_console s2) = [] \<and> rc_enabled (s_ram_console s2)"
  using nl_ram_console_write_console [OF assms(1-3), of run_cb] assms(4-6)
    ram_console_rotate [of "s1\<lparr>s_ram_console_cb_ctx := ctx\<rparr>" N]
  by (auto simp: console_after_write_def)

text \<open>A console of four bytes, and the run in which it logs three, reboots and logs two more.\<close>

definition demo_console :: "bool \<Rightarrow> u32 \<Rightarrow> u32 \<Rightarrow> u32 \<Rightarrow> u32 \<Rightarrow> u8 list \<Rightarrow> ram_console_state" where
  "demo_console en wi bw lwi lbw buf =
     \<lparr>s_ram_console = \<lparr>rc_magic = RAM_CONSOLE_MAGIC, write_index = wi, bytes_written = bw,
         last_write_index = lwi, last_bytes_written = lbw, rc_buf_size = 4, rc_enabled = en, rc_buf = buf\<rparr>,
      s_ram_console_cb_ctx = \<lparr>callback_watermark = 0, callback_bytes_written = 0, callback = None\<rparr>\<rparr>"

abbreviation demo :: ram_console_state where
  "demo \<equiv> demo_console True 1 2 3 1 [4, 7, 2, 3, 0, 0]"

lemma demo_console_facts:
  "ram_console_inv (s_ram_console demo)" "rc_enabled (s_ram_console demo)" "rc_buf_size (s_ram_console demo) = 4"
  "current_log (s_ram_console demo) = [3, 4]" "last_log (s_ram_console demo) = [2]"
  "length (rc_buf (s_ram_console demo)) = 6"
  by (simp_all add: demo_console_def ram_console_inv_def current_log_def last_log_def window_def upt_rec)

lemma nl_ram_console_reachable_consistent_witness:
  "ram_console_inv (s_ram_console (nl_ram_console_disable (nl_ram_console_init_bootloader 4
     ((demo_console False 9 9 9 9 [0, 0, 0, 0])\<lparr>s_ram_console :=
        (s_ram_console (demo_console False 9 9 9 9 [0, 0, 0, 0]))\<lparr>rc_magic := 0\<rparr>\<rparr>))))"
proof (rule nl_ram_console_reachable_consistent [where run_cb = "\<lambda>c t. t"])
  show "ram_console_boot (nl_ram_console_init_bootloader 4
     ((demo_console False 9 9 9 9 [0, 0, 0, 0])\<lparr>s_ram_console :=
        (s_ram_console (demo_console False 9 9 9 9 [0, 0, 0, 0]))\<lparr>rc_magic := 0\<rparr>\<rparr>))"
    unfolding ram_console_boot_def
    by (intro exI conjI) (auto simp: demo_console_def image_size_ok_def RAM_CONSOLE_MAGIC_def)
qed (auto intro: ram_console_step.disable)

lemma nl_ram_console_write_logs_witness:
  "\<exists>s'. nl_ram_console_write (\<lambda>c t. t) [5, 6] demo = Some s' \<and>
     current_log (s_ram_console s') = [3, 4, 5, 6] \<and> last_log (s_ram_console s') = []"
  using nl_ram_console_write_logs [OF demo_console_facts(1,2), of "[5, 6]" "\<lambda>c t. t"]
  by (auto simp: demo_console_facts newest_def)

lemma nl_ram_console_init_resize_witness:
  "\<exists>s'. nl_ram_console_init 2 [0, 0, 0] demo = Some s' \<and>
     last_log (s_ram_console s') @ current_log (s_ram_console s') = [3, 4]"
  using nl_ram_console_init_resize [OF demo_console_facts(1), of 2 "[0, 0, 0]"]
  by (auto simp: image_size_ok_def demo_console_facts newest_def)

lemma nl_ram_console_survives_reset_witness:
  "\<exists>s1. nl_ram_console_write (\<lambda>c t. t) [5, 6] demo = Some s1 \<and>
     last_log (s_ram_console (nl_ram_console_init_bootloader 4 (s1\<lparr>s_ram_console_cb_ctx :=
       \<lparr>callback_watermark = 0, callback_bytes_written = 0, callback = None\<rparr>\<rparr>))) = [3, 4, 5, 6]"
proof -
  let ?s = demo
  have h: "length [5, 6 :: u8] + ring_size (s_ram_console ?s) < 2 ^ 32"
    by (simp add: demo_console_facts)
  obtain s1 where s1: "nl_ram_console_write (\<lambda>c t. t) [5, 6] ?s = Some s1"
    using nl_ram_console_write_console [OF demo_console_facts(1,2) h, of "\<lambda>c t. t"] by auto
  from nl_ram_console_survives_reset [OF demo_console_facts(1,2) h refl s1 refl] s1 show ?thesis
    by (auto simp: demo_console_facts newest_def)
qed

end
