(* ===== verification/Nlswtimer.thy ===== *)
theory Nlswtimer
  imports NL_Prelude
begin

text \<open>
  The software timers of \<open>src/src/nlswtimer.c\<close>: two singly linked lists of caller-allocated timers,
  sorted by the tick count at which they expire, one for the current round of the 32-bit tick
  counter and one for the round after its next overflow.

  The memory of the timers is \<^term>\<open>timers\<close>, a function from addresses to entries; a
  \<open>nl_swtimer_entry_t **\<close> is a \<^term>\<open>link\<close>. The state is an extensible record, so that the modules
  whose functions the timers call add their own fields to it. Parameters: \<open>to_ticks\<close> is
  \<open>nl_time_ms_to_delay_time_native\<close> and \<open>rtos_ticks\<close> the value of \<open>xTaskGetTickCount()\<close> (both outside
  the repository), \<open>ns_per_tick\<close> is \<open>NS_PER_TICK\<close>, and \<open>call\<close> runs a timer function. Pointer walks
  are \<open>partial_function\<close>s: a cyclic list would make them run forever, and the lemmas show that
  they return.

  The lemmas abstract the two lists to Isabelle lists of addresses and show what each operation
  does to them; the tick handler is shown to return, to run the timers that are due and no others,
  and to leave none due.
\<close>

section \<open>State\<close>

type_synonym timer_ptr = nat

record nl_swtimer_entry_t =
  t_func :: "nat option"
  t_arg :: u32
  t_delay :: u32
  t_next :: "timer_ptr option"

datatype link = ListHead | OverflowHead | NextOf timer_ptr

record swtimer_state =
  s_timer_list :: "timer_ptr option"
  s_timer_overflow_list :: "timer_ptr option"
  s_swtimer_tick_count :: u32
  s_system_time_ns :: u64
  g_swtimer_prevent_sleep :: bool
  timers :: "timer_ptr \<Rightarrow> nl_swtimer_entry_t"

type_synonym 's swtimer_call = "nat \<Rightarrow> timer_ptr \<Rightarrow> u32 \<Rightarrow> 's \<Rightarrow> (u32 \<times> 's) option"

abbreviation delay_of :: "'a swtimer_state_scheme \<Rightarrow> timer_ptr \<Rightarrow> u32" where
  "delay_of s t \<equiv> t_delay (timers s t)"

abbreviation next_of :: "'a swtimer_state_scheme \<Rightarrow> timer_ptr \<Rightarrow> timer_ptr option" where
  "next_of s t \<equiv> t_next (timers s t)"

definition upd_timer ::
  "timer_ptr \<Rightarrow> (nl_swtimer_entry_t \<Rightarrow> nl_swtimer_entry_t) \<Rightarrow> 'a swtimer_state_scheme \<Rightarrow> 'a swtimer_state_scheme" where
  "upd_timer t f s = s\<lparr>timers := (timers s)(t := f (timers s t))\<rparr>"

text \<open>Reading and writing through a \<open>nl_swtimer_entry_t **\<close>.\<close>

definition deref :: "'a swtimer_state_scheme \<Rightarrow> link \<Rightarrow> timer_ptr option" where
  "deref s l = (case l of ListHead \<Rightarrow> s_timer_list s | OverflowHead \<Rightarrow> s_timer_overflow_list s
                        | NextOf t \<Rightarrow> next_of s t)"

definition assign :: "link \<Rightarrow> timer_ptr option \<Rightarrow> 'a swtimer_state_scheme \<Rightarrow> 'a swtimer_state_scheme" where
  "assign l p s = (case l of ListHead \<Rightarrow> s\<lparr>s_timer_list := p\<rparr>
                           | OverflowHead \<Rightarrow> s\<lparr>s_timer_overflow_list := p\<rparr>
                           | NextOf t \<Rightarrow> upd_timer t (\<lambda>e. e\<lparr>t_next := p\<rparr>) s)"

section \<open>Operations\<close>

partial_function (option) timer_in_list_locked ::
  "'a swtimer_state_scheme \<Rightarrow> timer_ptr option \<Rightarrow> timer_ptr \<Rightarrow> bool option" where
  "timer_in_list_locked s timer_list timer_p =
     (case timer_list of
        None \<Rightarrow> Some False
      | Some q \<Rightarrow> if q = timer_p then Some True else timer_in_list_locked s (next_of s q) timer_p)"

definition timer_is_active_locked :: "'a swtimer_state_scheme \<Rightarrow> timer_ptr \<Rightarrow> bool option" where
  "timer_is_active_locked s timer_p = do {
     b \<leftarrow> timer_in_list_locked s (s_timer_list s) timer_p;
     if b then Some True else timer_in_list_locked s (s_timer_overflow_list s) timer_p }"

definition nl_swtimer_is_active :: "'a swtimer_state_scheme \<Rightarrow> timer_ptr \<Rightarrow> bool option" where
  "nl_swtimer_is_active s timer_arg = timer_is_active_locked s timer_arg"

text \<open>
  The result is the returned flag, \<open>*before_sleep_tick_count\<close> and \<open>*xExpectedIdleTime\<close>;
  \<open>unit_test\<close> says whether \<open>BUILD_FEATURE_UNIT_TEST\<close> is defined.
\<close>

definition nl_swtimer_pre_sleep ::
  "bool \<Rightarrow> u64 \<Rightarrow> u32 \<Rightarrow> u32 \<Rightarrow> 'a swtimer_state_scheme \<Rightarrow>
   ((bool \<times> u32 \<times> u32) \<times> 'a swtimer_state_scheme) option" where
  "nl_swtimer_pre_sleep unit_test ns_per_tick rtos_ticks xExpectedIdleTime s =
     (let (retval, idle, s1) =
        (if unit_test \<and> g_swtimer_prevent_sleep s
         then (False, xExpectedIdleTime,
               s\<lparr>s_swtimer_tick_count := rtos_ticks, s_system_time_ns := ucast rtos_ticks * ns_per_tick\<rparr>)
         else case s_timer_list s of
             None \<Rightarrow> (True, xExpectedIdleTime, s)
           | Some t \<Rightarrow>
               if delay_of s t > s_swtimer_tick_count s
               then let delay_in_ticks = delay_of s t - s_swtimer_tick_count s
                    in (True, if delay_in_ticks < xExpectedIdleTime then delay_in_ticks
                              else xExpectedIdleTime, s)
               else (False, xExpectedIdleTime, s));
          before_sleep_tick_count = rtos_ticks
      in if s_swtimer_tick_count s1 \<ge> before_sleep_tick_count \<and>
            s_swtimer_tick_count s1 - before_sleep_tick_count \<le> 3
         then Some ((retval, before_sleep_tick_count, idle), s1) else None)"

definition nl_swtimer_post_sleep ::
  "u64 \<Rightarrow> u32 \<Rightarrow> u32 \<Rightarrow> 'a swtimer_state_scheme \<Rightarrow> 'a swtimer_state_scheme option" where
  "nl_swtimer_post_sleep ns_per_tick rtos_ticks before_sleep_tick_count s =
     (let after_sleep_tick_count = rtos_ticks in
      if after_sleep_tick_count \<ge> before_sleep_tick_count
      then let sleep_ticks = after_sleep_tick_count - before_sleep_tick_count in
        Some (s\<lparr>s_swtimer_tick_count := s_swtimer_tick_count s + sleep_ticks,
                s_system_time_ns := s_system_time_ns s + ucast sleep_ticks * ns_per_tick\<rparr>)
      else None)"

definition nl_swtimer_init ::
  "timer_ptr \<Rightarrow> nat option \<Rightarrow> u32 \<Rightarrow> 'a swtimer_state_scheme \<Rightarrow> 'a swtimer_state_scheme" where
  "nl_swtimer_init timer func arg s =
     upd_timer timer (\<lambda>e. e\<lparr>t_func := func, t_arg := arg, t_next := None\<rparr>) s"

text \<open>The loop of \<open>nl_swtimer_insert_locked\<close>: the final \<open>timer_pp\<close> and \<open>timer_p\<close>.\<close>

partial_function (option) insert_position ::
  "'a swtimer_state_scheme \<Rightarrow> u32 \<Rightarrow> link \<Rightarrow> timer_ptr option \<Rightarrow> (link \<times> timer_ptr option) option" where
  "insert_position s delay timer_pp timer_p =
     (case timer_p of
        None \<Rightarrow> Some (timer_pp, timer_p)
      | Some q \<Rightarrow> if delay < delay_of s q then Some (timer_pp, timer_p)
                  else insert_position s delay (NextOf q) (next_of s q))"

definition nl_swtimer_insert_locked ::
  "timer_ptr \<Rightarrow> u32 \<Rightarrow> 'a swtimer_state_scheme \<Rightarrow> 'a swtimer_state_scheme option" where
  "nl_swtimer_insert_locked timer delay_in_ticks0 s = do {
     let current_tick_count = s_swtimer_tick_count s;
     active \<leftarrow> timer_is_active_locked s timer;
     if active then None
     else do {
       let delay_in_ticks = (if delay_in_ticks0 = 0 then 1 else delay_in_ticks0);
       let s1 = upd_timer timer (\<lambda>e. e\<lparr>t_delay := current_tick_count + delay_in_ticks\<rparr>) s;
       let head = (if delay_of s1 timer > current_tick_count then ListHead else OverflowHead);
       (timer_pp, timer_p) \<leftarrow> insert_position s1 (delay_of s1 timer) head (deref s1 head);
       Some (upd_timer timer (\<lambda>e. e\<lparr>t_next := timer_p\<rparr>) (assign timer_pp (Some timer) s1)) } }"

definition nl_swtimer_start ::
  "(u32 \<Rightarrow> u32) \<Rightarrow> timer_ptr \<Rightarrow> u32 \<Rightarrow> 'a swtimer_state_scheme \<Rightarrow> 'a swtimer_state_scheme option" where
  "nl_swtimer_start to_ticks timer delay_ms s =
     (let delay_in_ticks = to_ticks delay_ms in
      if t_func (timers s timer) = None then None
      else nl_swtimer_insert_locked timer delay_in_ticks s)"

partial_function (option) remove_from_list_locked ::
  "link \<Rightarrow> timer_ptr \<Rightarrow> 'a swtimer_state_scheme \<Rightarrow> (bool \<times> 'a swtimer_state_scheme) option" where
  "remove_from_list_locked timer_pp timer s =
     (case deref s timer_pp of
        None \<Rightarrow> Some (False, s)
      | Some q \<Rightarrow> if q = timer then Some (True, assign timer_pp (next_of s timer) s)
                  else remove_from_list_locked (NextOf q) timer s)"

definition nl_swtimer_cancel ::
  "timer_ptr \<Rightarrow> 'a swtimer_state_scheme \<Rightarrow> (bool \<times> 'a swtimer_state_scheme) option" where
  "nl_swtimer_cancel timer s = do {
     (result, s1) \<leftarrow> remove_from_list_locked ListHead timer s;
     if result then Some (True, s1) else remove_from_list_locked OverflowHead timer s1 }"

text \<open>The first loop of the tick handler: zero the delays and find the last link.\<close>

partial_function (option) zero_delays ::
  "link \<Rightarrow> timer_ptr option \<Rightarrow> 'a swtimer_state_scheme \<Rightarrow> (link \<times> 'a swtimer_state_scheme) option" where
  "zero_delays timer_pp timer_p s =
     (case timer_p of
        None \<Rightarrow> Some (timer_pp, s)
      | Some q \<Rightarrow> let s1 = upd_timer q (\<lambda>e. e\<lparr>t_delay := 0\<rparr>) s in zero_delays (NextOf q) (next_of s1 q) s1)"

text \<open>The second loop of the tick handler; calling a \<open>NULL\<close> function does not return.\<close>

partial_function (option) run_expired ::
  "'a swtimer_state_scheme swtimer_call \<Rightarrow> (u32 \<Rightarrow> u32) \<Rightarrow> u32 \<Rightarrow> 'a swtimer_state_scheme \<Rightarrow>
   'a swtimer_state_scheme option" where
  "run_expired call to_ticks current_tick_count s =
     (case s_timer_list s of
        None \<Rightarrow> Some s
      | Some timer_p \<Rightarrow>
          if current_tick_count \<ge> delay_of s timer_p
          then case t_func (timers s timer_p) of
              None \<Rightarrow> None
            | Some f \<Rightarrow> do {
                (new_delay, s2) \<leftarrow> call f timer_p (t_arg (timers s timer_p)) (s\<lparr>s_timer_list := next_of s timer_p\<rparr>);
                s3 \<leftarrow> (if new_delay \<noteq> 0 then nl_swtimer_insert_locked timer_p (to_ticks new_delay - 1) s2
                       else Some s2);
                run_expired call to_ticks current_tick_count s3 }
          else Some s)"

definition nl_swtimer_rtos_tick_handler ::
  "'a swtimer_state_scheme swtimer_call \<Rightarrow> (u32 \<Rightarrow> u32) \<Rightarrow> u64 \<Rightarrow> 'a swtimer_state_scheme \<Rightarrow>
   'a swtimer_state_scheme option" where
  "nl_swtimer_rtos_tick_handler call to_ticks ns_per_tick s = do {
     let last_tick_count = s_swtimer_tick_count s;
     let current_tick_count = last_tick_count + 1;
     let s1 = s\<lparr>s_swtimer_tick_count := current_tick_count,
                s_system_time_ns := s_system_time_ns s + ns_per_tick\<rparr>;
     s2 \<leftarrow> (if current_tick_count < last_tick_count
            then do {
              (timer_pp, t1) \<leftarrow> zero_delays ListHead (deref s1 ListHead) s1;
              Some ((assign timer_pp (s_timer_overflow_list t1) t1)\<lparr>s_timer_overflow_list := None\<rparr>) }
            else Some s1);
     run_expired call to_ticks current_tick_count s2 }"

definition nl_swtimer_get_time_ns :: "'a swtimer_state_scheme \<Rightarrow> u64" where
  "nl_swtimer_get_time_ns s = s_system_time_ns s"

section \<open>The lists of active timers\<close>

text \<open>
  The invariant, with the two lists it speaks of: they are chains that end, share no timer, are
  sorted by expiry, hold timers with a function, and the timers of the overflow list expire at a
  tick count that the counter has reached in this round.
\<close>

definition timer_lists :: "'a swtimer_state_scheme \<Rightarrow> timer_ptr list \<Rightarrow> timer_ptr list \<Rightarrow> bool" where
  "timer_lists s cs os \<longleftrightarrow>
     chain Some (next_of s) (s_timer_list s) cs None \<and>
     chain Some (next_of s) (s_timer_overflow_list s) os None \<and>
     distinct (cs @ os) \<and>
     sorted (map (delay_of s) cs) \<and> sorted (map (delay_of s) os) \<and>
     (\<forall>t \<in> set os. delay_of s t \<le> s_swtimer_tick_count s) \<and>
     (\<forall>t \<in> set (cs @ os). t_func (timers s t) \<noteq> None)"

definition swtimer_inv :: "'a swtimer_state_scheme \<Rightarrow> bool" where
  "swtimer_inv s \<longleftrightarrow> (\<exists>cs os. timer_lists s cs os)"

text \<open>Where a timer with an expiry is put: after all timers that do not expire later.\<close>

definition insert_by :: "(timer_ptr \<Rightarrow> u32) \<Rightarrow> u32 \<Rightarrow> timer_ptr \<Rightarrow> timer_ptr list \<Rightarrow> timer_ptr list" where
  "insert_by key d t xs = takeWhile (\<lambda>x. key x \<le> d) xs @ t # dropWhile (\<lambda>x. key x \<le> d) xs"

interpretation timer_ptr: pointer_space Some None "\<lambda>_. True"
  by unfold_locales auto

section \<open>Links\<close>

lemma upd_timer_simps [simp]:
  "timers (upd_timer t f s) = (timers s)(t := f (timers s t))"
  "s_timer_list (upd_timer t f s) = s_timer_list s"
  "s_timer_overflow_list (upd_timer t f s) = s_timer_overflow_list s"
  "s_swtimer_tick_count (upd_timer t f s) = s_swtimer_tick_count s"
  by (simp_all add: upd_timer_def)

lemma assign_simps [simp]:
  "s_swtimer_tick_count (assign l p s) = s_swtimer_tick_count s"
  "delay_of (assign l p s) t = delay_of s t"
  "t_func (timers (assign l p s) t) = t_func (timers s t)"
  "t_arg (timers (assign l p s) t) = t_arg (timers s t)"
  by (simp_all add: assign_def split: link.split)

lemma deref_assign [simp]: "deref (assign l p s) k = (if k = l then p else deref s k)"
  by (auto simp: deref_def assign_def split: link.split)

lemma deref_upd_timer:
  "deref (upd_timer t f s) k = (if k = NextOf t then t_next (f (timers s t)) else deref s k)"
  by (auto simp: deref_def split: link.split)

lemma deref_simps:
  "deref s ListHead = s_timer_list s" "deref s OverflowHead = s_timer_overflow_list s"
  "deref s (NextOf t) = next_of s t"
  by (simp_all add: deref_def)

text \<open>A list of timers as the links that lead to them, and a prefix of such a list.\<close>

primrec path :: "'a swtimer_state_scheme \<Rightarrow> link \<Rightarrow> timer_ptr list \<Rightarrow> bool" where
  "path s l [] \<longleftrightarrow> deref s l = None"
| "path s l (c # cs) \<longleftrightarrow> deref s l = Some c \<and> path s (NextOf c) cs"

primrec seg :: "'a swtimer_state_scheme \<Rightarrow> link \<Rightarrow> timer_ptr list \<Rightarrow> bool" where
  "seg s l [] \<longleftrightarrow> True"
| "seg s l (c # cs) \<longleftrightarrow> deref s l = Some c \<and> seg s (NextOf c) cs"

definition link_after :: "link \<Rightarrow> timer_ptr list \<Rightarrow> link" where
  "link_after l us = (if us = [] then l else NextOf (last us))"

lemma link_after_simps [simp]:
  "link_after l [] = l" "link_after l (c # cs) = link_after (NextOf c) cs"
  by (auto simp: link_after_def)

definition first :: "timer_ptr list \<Rightarrow> timer_ptr option" where
  "first xs = (case xs of [] \<Rightarrow> None | x # _ \<Rightarrow> Some x)"

lemma path_chain: "path s l cs = chain Some (next_of s) (deref s l) cs None"
  by (induction cs arbitrary: l) (auto simp: deref_simps)

lemma path_append: "path s l (us @ vs) \<longleftrightarrow> seg s l us \<and> path s (link_after l us) vs"
  by (induction us arbitrary: l) auto

lemma path_first: "path s l cs \<Longrightarrow> deref s l = first cs"
  by (cases cs) (auto simp: first_def)

lemma path_frame:
  "path s l cs \<Longrightarrow> (\<And>k. k = l \<or> k \<in> NextOf ` set cs \<Longrightarrow> deref s' k = deref s k) \<Longrightarrow> path s' l cs"
  by (induction cs arbitrary: l) auto

lemma path_move:
  assumes "path s l cs" "deref s' l' = deref s l" "\<And>c. c \<in> set cs \<Longrightarrow> deref s' (NextOf c) = deref s (NextOf c)"
  shows "path s' l' cs"
  using assms by (cases cs) (auto intro: path_frame)

lemma link_after_cases: "link_after l us = l \<and> us = [] \<or> link_after l us \<in> NextOf ` set us"
  by (auto simp: link_after_def)

lemma link_after_not_NextOf: "l \<noteq> NextOf t \<Longrightarrow> t \<notin> set us \<Longrightarrow> link_after l us \<noteq> NextOf t"
  using link_after_cases [of l us] by auto

lemma seg_frame:
  assumes "seg s l us" "distinct us" "l \<notin> NextOf ` set us"
    and "\<And>k. k \<noteq> link_after l us \<Longrightarrow> k = l \<or> k \<in> NextOf ` set us \<Longrightarrow> deref s' k = deref s k"
  shows "seg s' l us"
  using assms
proof (induction us arbitrary: l)
  case (Cons c cs)
  have "l \<noteq> link_after l (c # cs)"
    using link_after_cases [of l "c # cs"] Cons.prems(3) by auto
  moreover have "seg s' (NextOf c) cs"
    using Cons.prems by (intro Cons.IH) auto
  ultimately show ?case using Cons.prems by auto
qed simp

lemma path_insert:
  assumes "path s l (us @ vs)" "distinct (us @ vs)" "t \<notin> set (us @ vs)" "l \<notin> NextOf ` insert t (set (us @ vs))"
    and "\<And>k. deref s' k = (if k = NextOf t then first vs else if k = link_after l us then Some t else deref s k)"
  shows "path s' l (us @ t # vs)"
proof -
  have nt: "link_after l us \<noteq> NextOf t" using assms by (intro link_after_not_NextOf) auto
  have sep: "link_after l us \<notin> NextOf ` set vs"
    using link_after_cases [of l us] assms(2,4) by auto
  have "seg s' l us"
  proof (rule seg_frame)
    show "seg s l us" "distinct us" using assms(1,2) by (simp_all add: path_append)
    show "l \<notin> NextOf ` set us" using assms(4) by auto
    fix k assume "k \<noteq> link_after l us" "k = l \<or> k \<in> NextOf ` set us"
    moreover from this assms(3,4) have "k \<noteq> NextOf t" by auto
    ultimately show "deref s' k = deref s k" by (simp add: assms(5))
  qed
  moreover have "path s (link_after l us) vs" using assms(1) by (simp add: path_append)
  then have "path s' (NextOf t) vs"
  proof (rule path_move)
    show "deref s' (NextOf t) = deref s (link_after l us)"
      using \<open>path s (link_after l us) vs\<close> by (simp add: assms(5) path_first)
    fix c assume "c \<in> set vs"
    with assms(3) sep have "c \<noteq> t" "NextOf c \<noteq> link_after l us" by (auto, metis image_eqI)
    then show "deref s' (NextOf c) = deref s (NextOf c)" by (simp add: assms(5))
  qed
  ultimately show ?thesis using assms(5) nt by (simp add: path_append)
qed

lemma path_remove:
  assumes "path s l (us @ t # vs)" "distinct (us @ t # vs)" "l \<notin> NextOf ` set (us @ t # vs)"
    and "\<And>k. deref s' k = (if k = link_after l us then next_of s t else deref s k)"
  shows "path s' l (us @ vs)"
proof -
  have sep: "link_after l us \<notin> NextOf ` set (t # vs)"
    using link_after_cases [of l us] assms(2,3) by auto
  have "seg s' l us"
  proof (rule seg_frame)
    show "seg s l us" "distinct us" using assms(1,2) by (simp_all add: path_append)
    show "l \<notin> NextOf ` set us" using assms(3) by auto
    show "\<And>k. k \<noteq> link_after l us \<Longrightarrow> deref s' k = deref s k" by (simp add: assms(4))
  qed
  moreover have "path s' (link_after l us) vs"
  proof (rule path_move)
    show "path s (NextOf t) vs" using assms(1) by (simp add: path_append)
    show "deref s' (link_after l us) = deref s (NextOf t)" by (simp add: assms(4) deref_simps)
    fix c assume "c \<in> set vs"
    with sep have "NextOf c \<noteq> link_after l us" by (metis image_eqI list.set_intros(2))
    then show "deref s' (NextOf c) = deref s (NextOf c)" by (simp add: assms(4))
  qed
  ultimately show ?thesis by (simp add: path_append)
qed

section \<open>The pointer walks\<close>

lemma timer_in_list_locked_spec:
  "chain Some (next_of s) p cs None \<Longrightarrow> timer_in_list_locked s p t = Some (t \<in> set cs)"
  by (induction cs arbitrary: p) (auto simp: timer_in_list_locked.simps)

lemma insert_position_spec:
  "path s l cs \<Longrightarrow> insert_position s d l (deref s l) =
     Some (link_after l (takeWhile (\<lambda>x. delay_of s x \<le> d) cs), first (dropWhile (\<lambda>x. delay_of s x \<le> d) cs))"
proof (induction cs arbitrary: l)
  case Nil
  then show ?case by (simp add: insert_position.simps first_def)
next
  case (Cons c cs)
  then show ?case
    using Cons.IH [of "NextOf c"]
    by (subst insert_position.simps) (auto simp: first_def not_le deref_simps)
qed

lemma remove_from_list_locked_spec:
  "path s l cs \<Longrightarrow> remove_from_list_locked l t s =
     Some (t \<in> set cs, if t \<in> set cs then assign (link_after l (takeWhile (\<lambda>x. x \<noteq> t) cs)) (next_of s t) s else s)"
proof (induction cs arbitrary: l)
  case Nil
  then show ?case by (simp add: remove_from_list_locked.simps)
next
  case (Cons c cs)
  then show ?case by (subst remove_from_list_locked.simps) auto
qed

lemma zero_delays_spec:
  assumes "path s l cs"
  shows "zero_delays l (deref s l) s = Some (link_after l cs,
     s\<lparr>timers := \<lambda>t. if t \<in> set cs then (timers s t)\<lparr>t_delay := 0\<rparr> else timers s t\<rparr>)"
  using assms
proof (induction cs arbitrary: l s)
  case Nil
  then show ?case by (simp add: zero_delays.simps)
next
  case (Cons c cs)
  let ?s = "upd_timer c (\<lambda>e. e\<lparr>t_delay := 0\<rparr>) s"
  have "path ?s (NextOf c) cs"
    using Cons.prems by (auto intro: path_frame simp: deref_upd_timer deref_simps)
  from Cons.IH [OF this] Cons.prems show ?case
    by (subst zero_delays.simps) (auto simp: Let_def deref_simps upd_timer_def intro!: ext swtimer_state.fold_congs)
qed


section \<open>What the operations do to the lists\<close>

lemma timer_lists_paths:
  "timer_lists s cs os \<longleftrightarrow> path s ListHead cs \<and> path s OverflowHead os \<and> distinct (cs @ os) \<and>
     sorted (map (delay_of s) cs) \<and> sorted (map (delay_of s) os) \<and>
     (\<forall>t \<in> set os. delay_of s t \<le> s_swtimer_tick_count s) \<and>
     (\<forall>t \<in> set (cs @ os). t_func (timers s t) \<noteq> None)"
  by (simp add: timer_lists_def path_chain deref_simps)

lemma timer_lists_unique:
  "timer_lists s cs os \<Longrightarrow> timer_lists s cs' os' \<Longrightarrow> cs = cs' \<and> os = os'"
  unfolding timer_lists_def by (auto intro: timer_ptr.chain_unique simp: list_all_iff)

lemma is_active_spec:
  "timer_lists s cs os \<Longrightarrow> timer_is_active_locked s t = Some (t \<in> set (cs @ os))"
  by (auto simp: timer_is_active_locked_def timer_lists_def timer_in_list_locked_spec)

text \<open>The expiry a started timer gets, and which list it goes to.\<close>

definition ticks_at_least_1 :: "u32 \<Rightarrow> u32" where
  "ticks_at_least_1 d = (if d = 0 then 1 else d)"

definition expiry :: "'a swtimer_state_scheme \<Rightarrow> u32 \<Rightarrow> u32" where
  "expiry s d = s_swtimer_tick_count s + ticks_at_least_1 d"

definition in_this_round :: "'a swtimer_state_scheme \<Rightarrow> u32 \<Rightarrow> bool" where
  "in_this_round s d \<longleftrightarrow> expiry s d > s_swtimer_tick_count s"

lemma insert_by_set [simp]: "set (insert_by key d t xs) = insert t (set xs)"
  by (auto simp: insert_by_def dest: set_takeWhileD)
    (metis Un_iff set_append takeWhile_dropWhile_id)+

lemma insert_by_sorted:
  assumes "sorted (map key xs)" "key t = d"
  shows "sorted (map key (insert_by key d t xs))"
proof -
  have "\<forall>y \<in> set (dropWhile (\<lambda>x. key x \<le> d) xs). d \<le> key y"
  proof (cases "dropWhile (\<lambda>x. key x \<le> d) xs")
    case (Cons z zs)
    then have "d < key z" by (metis hd_dropWhile list.distinct(1) list.sel(1) not_le)
    moreover have "sorted (map key (z # zs))"
      using assms(1) Cons by (metis map_append sorted_append takeWhile_dropWhile_id)
    ultimately show ?thesis using Cons by auto
  qed (simp only: list.set ball_empty)
  moreover have "sorted (map key (takeWhile (\<lambda>x. key x \<le> d) xs))"
    "sorted (map key (dropWhile (\<lambda>x. key x \<le> d) xs))"
    using assms(1) by (metis map_append sorted_append takeWhile_dropWhile_id)+
  ultimately show ?thesis
    unfolding insert_by_def using assms(2)
    by (intro sorted_map_insert) (auto dest: set_takeWhileD)
qed


lemma insert_by_update:
  assumes "t \<notin> set xs"
  shows "insert_by (key(t := d)) d t xs = insert_by key d t xs"
proof -
  have "takeWhile (\<lambda>x. (key(t := d)) x \<le> d) xs = takeWhile (\<lambda>x. key x \<le> d) xs"
    "dropWhile (\<lambda>x. (key(t := d)) x \<le> d) xs = dropWhile (\<lambda>x. key x \<le> d) xs"
    using assms by (auto intro!: takeWhile_cong dropWhile_cong)
  then show ?thesis unfolding insert_by_def by simp
qed

lemma insert_by_sorted_update:
  assumes "sorted (map key xs)" "t \<notin> set xs"
  shows "sorted (map (key(t := d)) (insert_by key d t xs))"
proof -
  have "map (key(t := d)) xs = map key xs" using assms(2) by (auto intro: map_cong)
  with insert_by_sorted [of "key(t := d)" xs t d] assms show ?thesis
    by (simp add: insert_by_update)
qed

lemma insert_by_distinct [simp]:
  "distinct (insert_by key d t xs) \<longleftrightarrow> t \<notin> set xs \<and> distinct xs"
proof -
  define us vs where "us = takeWhile (\<lambda>x. key x \<le> d) xs" and "vs = dropWhile (\<lambda>x. key x \<le> d) xs"
  then have "xs = us @ vs" "insert_by key d t xs = us @ t # vs" by (simp_all add: insert_by_def)
  then show ?thesis by auto
qed

text \<open>What an operation on the lists leaves alone.\<close>

definition list_op :: "'a swtimer_state_scheme \<Rightarrow> 'a swtimer_state_scheme \<Rightarrow> bool" where
  "list_op s s' \<longleftrightarrow> s_swtimer_tick_count s' = s_swtimer_tick_count s \<and>
     s_system_time_ns s' = s_system_time_ns s \<and> g_swtimer_prevent_sleep s' = g_swtimer_prevent_sleep s \<and>
     swtimer_state.more s' = swtimer_state.more s \<and>
     (\<forall>t. t_func (timers s' t) = t_func (timers s t) \<and> t_arg (timers s' t) = t_arg (timers s t))"

lemma list_op_assign: "list_op s (assign l p s)"
  by (auto simp: list_op_def assign_def upd_timer_def split: link.split)

lemma list_op_trans: "list_op s s' \<Longrightarrow> list_op s' s'' \<Longrightarrow> list_op s s''"
  by (simp add: list_op_def)

lemma list_op_upd_timer:
  "(\<And>e. t_func (f e) = t_func e \<and> t_arg (f e) = t_arg e) \<Longrightarrow> list_op s (upd_timer t f s)"
  by (auto simp: list_op_def upd_timer_def)

lemma expiry_overflow: "\<not> in_this_round s d \<Longrightarrow> expiry s d \<le> s_swtimer_tick_count s"
  by (simp add: in_this_round_def)

lemma insert_locked_result:
  assumes "path s l xs" "path s m ys" "distinct (xs @ ys)" "t \<notin> set (xs @ ys)" "l \<noteq> m"
    "l \<in> {ListHead, OverflowHead}" "m \<in> {ListHead, OverflowHead}"
    and s1: "s1 = upd_timer t (\<lambda>e. e\<lparr>t_delay := d\<rparr>) s"
    and us: "us = takeWhile (\<lambda>x. delay_of s x \<le> d) xs" and vs: "vs = dropWhile (\<lambda>x. delay_of s x \<le> d) xs"
    and s': "s' = upd_timer t (\<lambda>e. e\<lparr>t_next := first vs\<rparr>) (assign (link_after l us) (Some t) s1)"
  shows "insert_position s1 d l (deref s1 l) = Some (link_after l us, first vs) \<and>
     path s' l (insert_by (delay_of s) d t xs) \<and> path s' m ys \<and> delay_of s' = (delay_of s)(t := d) \<and> list_op s s'"
proof (intro conjI)
  have xs: "xs = us @ vs" by (simp add: us vs)
  have s1_deref: "deref s1 k = deref s k" for k by (simp add: s1 deref_upd_timer deref_simps)
  have key: "takeWhile (\<lambda>x. delay_of s1 x \<le> d) xs = us" "dropWhile (\<lambda>x. delay_of s1 x \<le> d) xs = vs"
    unfolding us vs using assms(4) by (auto simp: s1 intro!: takeWhile_cong dropWhile_cong)
  have p1: "path s1 l xs" using assms(1) by (rule path_frame) (simp add: s1_deref)
  show "insert_position s1 d l (deref s1 l) = Some (link_after l us, first vs)"
    using insert_position_spec [OF p1, of d] unfolding key .
  have nt: "link_after l us \<noteq> NextOf t"
    using assms(4,6) xs by (intro link_after_not_NextOf) auto
  have d: "deref s' k = (if k = NextOf t then first vs else if k = link_after l us then Some t else deref s k)" for k
    using nt by (simp add: s' deref_upd_timer s1_deref)
  show "path s' l (insert_by (delay_of s) d t xs)"
    unfolding insert_by_def us [symmetric] vs [symmetric]
  proof (rule path_insert [OF _ _ _ _ d])
    show "path s l (us @ vs)" "distinct (us @ vs)" "t \<notin> set (us @ vs)"
      using assms(1,3,4) by (auto simp: xs)
    show "l \<notin> NextOf ` insert t (set (us @ vs))" using assms(6) by auto
  qed
  show "path s' m ys"
  proof (rule path_move [OF assms(2)])
    have sep: "link_after l us \<noteq> m" "\<And>c. c \<in> set ys \<Longrightarrow> link_after l us \<noteq> NextOf c"
      using link_after_cases [of l us] assms(3,5-7) xs by auto
    show "deref s' m = deref s m" using sep assms(7) by (auto simp: d)
    show "deref s' (NextOf c) = deref s (NextOf c)" if "c \<in> set ys" for c
      using that sep(2) [OF that] assms(4) by (auto simp: d)
  qed
  show "delay_of s' = (delay_of s)(t := d)" by (auto simp: s' s1)
  show "list_op s s'" unfolding s' s1
    by (rule list_op_trans [OF list_op_trans [OF list_op_upd_timer list_op_assign] list_op_upd_timer]) simp_all
qed

lemma insert_locked_spec:
  assumes lists: "timer_lists s cs os" and t: "t \<notin> set (cs @ os)" "t_func (timers s t) \<noteq> None"
  shows "\<exists>s'. nl_swtimer_insert_locked t d s = Some s' \<and> list_op s s' \<and>
     delay_of s' = (delay_of s)(t := expiry s d) \<and>
     timer_lists s' (if in_this_round s d then insert_by (delay_of s) (expiry s d) t cs else cs)
                    (if in_this_round s d then os else insert_by (delay_of s) (expiry s d) t os)"
proof -
  have inactive: "timer_is_active_locked s t = Some False" using is_active_spec [OF lists] t(1) by simp
  note L = lists [unfolded timer_lists_paths]
  let ?l = "if in_this_round s d then ListHead else OverflowHead"
  let ?m = "if in_this_round s d then OverflowHead else ListHead"
  let ?xs = "if in_this_round s d then cs else os" and ?ys = "if in_this_round s d then os else cs"
  let ?s1 = "upd_timer t (\<lambda>e. e\<lparr>t_delay := expiry s d\<rparr>) s"
  let ?us = "takeWhile (\<lambda>x. delay_of s x \<le> expiry s d) ?xs" and ?vs = "dropWhile (\<lambda>x. delay_of s x \<le> expiry s d) ?xs"
  let ?s' = "upd_timer t (\<lambda>e. e\<lparr>t_next := first ?vs\<rparr>) (assign (link_after ?l ?us) (Some t) ?s1)"
  have r: "insert_position ?s1 (expiry s d) ?l (deref ?s1 ?l) = Some (link_after ?l ?us, first ?vs) \<and>
     path ?s' ?l (insert_by (delay_of s) (expiry s d) t ?xs) \<and> path ?s' ?m ?ys \<and>
     delay_of ?s' = (delay_of s)(t := expiry s d) \<and> list_op s ?s'"
    by (rule insert_locked_result) (use L t in auto)
  have "nl_swtimer_insert_locked t d s = Some ?s'"
    unfolding nl_swtimer_insert_locked_def Let_def inactive ticks_at_least_1_def [symmetric] expiry_def [symmetric]
    using r by (simp add: in_this_round_def [symmetric])
  moreover have "timer_lists ?s' (if in_this_round s d then insert_by (delay_of s) (expiry s d) t cs else cs)
                    (if in_this_round s d then os else insert_by (delay_of s) (expiry s d) t os)"
  proof -
    have *: "t \<notin> set cs" "t \<notin> set os" "sorted (map (delay_of s) cs)" "sorted (map (delay_of s) os)"
      using L t by auto
    have d: "delay_of ?s' = (delay_of s)(t := expiry s d)" and
      same: "s_swtimer_tick_count ?s' = s_swtimer_tick_count s" "t_func (timers ?s' x) = t_func (timers s x)" for x
      using r by (simp_all add: list_op_def)
    show ?thesis
      using L t r insert_by_sorted_update [OF *(3,1), of "expiry s d"]
        insert_by_sorted_update [OF *(4,2), of "expiry s d"] * expiry_overflow [of s d]
      unfolding timer_lists_paths d same by (cases "in_this_round s d") (auto simp: map_fun_upd)
  qed
  ultimately show ?thesis using r by blast
qed

lemma takeWhile_neq_split:
  assumes "distinct xs" "t \<in> set xs"
  obtains vs where "xs = takeWhile (\<lambda>x. x \<noteq> t) xs @ t # vs" "removeAll t xs = takeWhile (\<lambda>x. x \<noteq> t) xs @ vs"
proof -
  obtain us vs where xs: "xs = us @ t # vs" "t \<notin> set us" using assms(2) by (metis split_list_first)
  then have "takeWhile (\<lambda>x. x \<noteq> t) xs = us" by (auto simp: takeWhile_append)
  with xs assms(1) show ?thesis by (intro that [of vs]) auto
qed

lemma remove_result:
  assumes "path s l xs" "path s m ys" "distinct (xs @ ys)" "l \<noteq> m"
    "l \<in> {ListHead, OverflowHead}" "m \<in> {ListHead, OverflowHead}"
  shows "\<exists>s'. remove_from_list_locked l t s = Some (t \<in> set xs, s') \<and>
     path s' l (removeAll t xs) \<and> path s' m ys \<and> delay_of s' = delay_of s \<and> list_op s s'"
proof (cases "t \<in> set xs")
  case False
  then show ?thesis using remove_from_list_locked_spec [OF assms(1), of t] assms
    by (simp add: list_op_def)
next
  case True
  let ?us = "takeWhile (\<lambda>x. x \<noteq> t) xs"
  let ?s = "assign (link_after l ?us) (next_of s t) s"
  obtain vs where xs: "xs = ?us @ t # vs" "removeAll t xs = ?us @ vs"
    using assms(3) True by (auto elim: takeWhile_neq_split [of xs t])
  have l: "l \<notin> NextOf ` A" for A using assms(5) by auto
  have "path ?s l (?us @ vs)"
    by (rule path_remove [of s]) (use xs assms l in auto)
  moreover have "path ?s m ys"
  proof (rule path_move [OF assms(2)])
    have "link_after l ?us \<noteq> m" using link_after_cases [of l ?us] assms(4-6) by auto
    then show "deref ?s m = deref s m" by simp
    fix c assume "c \<in> set ys"
    then have "link_after l ?us \<noteq> NextOf c"
      using assms(3,5) by (intro link_after_not_NextOf) (auto dest: set_takeWhileD)
    then show "deref ?s (NextOf c) = deref s (NextOf c)" by simp
  qed
  ultimately show ?thesis
    using True remove_from_list_locked_spec [OF assms(1), of t] xs(2) list_op_assign by auto
qed

lemma sorted_map_removeAll: "sorted (map f xs) \<Longrightarrow> sorted (map f (removeAll t xs))"
  by (simp add: removeAll_filter_not_eq sorted_filter)

lemma cancel_spec:
  assumes "timer_lists s cs os"
  shows "\<exists>s'. nl_swtimer_cancel t s = Some (t \<in> set (cs @ os), s') \<and> list_op s s' \<and>
     delay_of s' = delay_of s \<and> timer_lists s' (removeAll t cs) (removeAll t os)"
proof -
  note L = assms [unfolded timer_lists_paths]
  obtain s1 where s1: "remove_from_list_locked ListHead t s = Some (t \<in> set cs, s1)"
     "path s1 ListHead (removeAll t cs)" "path s1 OverflowHead os" "delay_of s1 = delay_of s" "list_op s s1"
    using remove_result [of s ListHead cs OverflowHead os t] L by auto
  obtain s2 where s2: "remove_from_list_locked OverflowHead t s1 = Some (t \<in> set os, s2)"
     "path s2 OverflowHead (removeAll t os)" "path s2 ListHead (removeAll t cs)" "delay_of s2 = delay_of s1" "list_op s1 s2"
  proof -
    have "distinct (os @ removeAll t cs)" using L by (auto intro: distinct_removeAll)
    with that remove_result [of s1 OverflowHead os ListHead "removeAll t cs" t] s1 show thesis by auto
  qed
  let ?s' = "if t \<in> set cs then s1 else s2"
  have "nl_swtimer_cancel t s = Some (t \<in> set (cs @ os), ?s')"
    using s1(1) s2(1) by (simp add: nl_swtimer_cancel_def)
  moreover have op: "list_op s ?s'" and d: "delay_of ?s' = delay_of s"
    using s1 s2 by (auto intro: list_op_trans)
  moreover have "timer_lists ?s' (removeAll t cs) (removeAll t os)"
  proof -
    have "path ?s' ListHead (removeAll t cs) \<and> path ?s' OverflowHead (removeAll t os)"
      using s1 s2 L by (cases "t \<in> set os") (auto simp: removeAll_id)
    moreover have "delay_of ?s' x = delay_of s x" "s_swtimer_tick_count ?s' = s_swtimer_tick_count s"
      "t_func (timers ?s' x) = t_func (timers s x)" for x
      using op fun_cong [OF d, of x] by (simp_all add: list_op_def)
    ultimately show ?thesis
      unfolding timer_lists_paths using L by (auto intro: sorted_map_removeAll distinct_removeAll)
  qed
  ultimately show ?thesis by blast
qed

lemma nl_swtimer_init_simps [simp]:
  "delay_of (nl_swtimer_init t f a s) x = delay_of s x"
  "t_func (timers (nl_swtimer_init t f a s) x) = (if x = t then f else t_func (timers s x))"
  "s_swtimer_tick_count (nl_swtimer_init t f a s) = s_swtimer_tick_count s"
  "deref (nl_swtimer_init t f a s) k = (if k = NextOf t then None else deref s k)"
  by (simp_all add: nl_swtimer_init_def deref_upd_timer)

lemma init_inactive_spec:
  assumes "timer_lists s cs os" "t \<notin> set (cs @ os)"
  shows "timer_lists (nl_swtimer_init t f a s) cs os"
proof -
  let ?s = "nl_swtimer_init t f a s"
  note L = assms(1) [unfolded timer_lists_paths]
  have "path ?s ListHead cs" "path ?s OverflowHead os"
    using L assms(2) by (auto intro!: path_frame [of s])
  then show ?thesis unfolding timer_lists_paths using L assms(2) by auto
qed

text \<open>Initialising a timer that is active cuts the list behind it.\<close>

lemma init_active_path:
  assumes "timer_lists s (us @ t # vs) os"
  shows "path (nl_swtimer_init t f a s) ListHead (us @ [t])"
proof -
  let ?s = "nl_swtimer_init t f a s"
  note L = assms [unfolded timer_lists_paths]
  have "seg s ListHead us" "deref s (link_after ListHead us) = Some t" using L by (auto simp: path_append)
  moreover have "seg ?s ListHead us"
  proof (rule seg_frame)
    show "seg s ListHead us" by fact
    show "distinct us" "ListHead \<notin> NextOf ` set us" using L by auto
    show "deref ?s k = deref s k" if "k = ListHead \<or> k \<in> NextOf ` set us" for k
      using that L by auto
  qed
  moreover have "link_after ListHead us \<noteq> NextOf t" using L by (intro link_after_not_NextOf) auto
  ultimately show ?thesis by (simp add: path_append)
qed

section \<open>Clients\<close>

text \<open>
  What a timer function may do while it runs: start, cancel and initialise timers through the
  interface, and change the state of its own module.
\<close>

inductive client_step ::
  "(u32 \<Rightarrow> u32) \<Rightarrow> 'a swtimer_state_scheme \<Rightarrow> 'a swtimer_state_scheme \<Rightarrow> bool" for to_ticks where
  starts: "nl_swtimer_start to_ticks t ms s = Some s' \<Longrightarrow> client_step to_ticks s s'"
| cancels: "nl_swtimer_cancel t s = Some (b, s') \<Longrightarrow> client_step to_ticks s s'"
| initialises: "nl_swtimer_is_active s t = Some False \<Longrightarrow>
     client_step to_ticks s (nl_swtimer_init t (Some f) a s)"
| own: "client_step to_ticks s (s\<lparr>swtimer_state.more := m\<rparr>)"

text \<open>
  The contract of the functions of timers: called with their timer off the lists, they return, and
  when they ask for a restart they have not started the timer themselves.
\<close>

definition well_behaved :: "(u32 \<Rightarrow> u32) \<Rightarrow> 'a swtimer_state_scheme swtimer_call \<Rightarrow> bool" where
  "well_behaved to_ticks call \<longleftrightarrow> (\<forall>f p a s. swtimer_inv s \<and> nl_swtimer_is_active s p = Some False \<and>
       t_func (timers s p) = Some f \<longrightarrow>
     (\<exists>d s'. call f p a s = Some (d, s') \<and> (client_step to_ticks)\<^sup>*\<^sup>* s s' \<and>
        (d \<noteq> 0 \<longrightarrow> nl_swtimer_is_active s' p = Some False \<and> t_func (timers s' p) \<noteq> None)))"

definition due :: "'a swtimer_state_scheme \<Rightarrow> timer_ptr list \<Rightarrow> timer_ptr set" where
  "due s cs = {t \<in> set cs. delay_of s t \<le> s_swtimer_tick_count s}"

lemma due_finite [simp]: "finite (due s cs)"
  by (simp add: due_def)

lemma insert_not_due:
  assumes "timer_lists s cs os" "t \<notin> set (cs @ os)" "t_func (timers s t) \<noteq> None"
    and "nl_swtimer_insert_locked t d s = Some s'"
  shows "\<exists>cs' os'. timer_lists s' cs' os' \<and> s_swtimer_tick_count s' = s_swtimer_tick_count s \<and> due s' cs' \<subseteq> due s cs"
proof -
  let ?cs = "if in_this_round s d then insert_by (delay_of s) (expiry s d) t cs else cs"
  from insert_locked_spec [OF assms(1-3), of d] assms(4) have
    r: "list_op s s'" "delay_of s' = (delay_of s)(t := expiry s d)"
       "timer_lists s' ?cs (if in_this_round s d then os else insert_by (delay_of s) (expiry s d) t os)"
    by auto
  have "delay_of s' x = (if x = t then expiry s d else delay_of s x)" for x
    using fun_cong [OF r(2), of x] by simp
  then have "due s' ?cs \<subseteq> due s cs"
    using r(1) assms(2) by (auto simp: due_def list_op_def in_this_round_def split: if_splits)
  with r show ?thesis by (auto simp: list_op_def)
qed

lemma client_step_lists:
  assumes "client_step to_ticks s s'" "timer_lists s cs os"
  shows "\<exists>cs' os'. timer_lists s' cs' os' \<and> s_swtimer_tick_count s' = s_swtimer_tick_count s \<and> due s' cs' \<subseteq> due s cs"
  using assms
proof cases
  case (starts t ms)
  then have ins: "nl_swtimer_insert_locked t (to_ticks ms) s = Some s'" "t_func (timers s t) \<noteq> None"
    by (auto simp: nl_swtimer_start_def Let_def split: if_splits)
  then have "t \<notin> set (cs @ os)"
    using is_active_spec [OF assms(2), of t]
    by (auto simp: nl_swtimer_insert_locked_def Let_def split: if_splits)
  with ins assms(2) show ?thesis by (intro insert_not_due)
next
  case (cancels t b)
  obtain s1 where s1: "nl_swtimer_cancel t s = Some (t \<in> set (cs @ os), s1)" "list_op s s1"
     "delay_of s1 = delay_of s" "timer_lists s1 (removeAll t cs) (removeAll t os)"
    using cancel_spec [OF assms(2), of t] by auto
  then have "s1 = s'" using cancels by simp
  moreover have "delay_of s1 x = delay_of s x" for x using fun_cong [OF s1(3), of x] by simp
  ultimately have "due s' (removeAll t cs) \<subseteq> due s cs" "s_swtimer_tick_count s' = s_swtimer_tick_count s"
    using s1(2) by (auto simp: due_def list_op_def)
  with s1(4) \<open>s1 = s'\<close> show ?thesis by blast
next
  case (initialises t f a)
  then have "t \<notin> set (cs @ os)"
    using is_active_spec [OF assms(2), of t] by (simp add: nl_swtimer_is_active_def)
  from init_inactive_spec [OF assms(2) this] initialises show ?thesis
    by (intro exI [of _ cs] exI [of _ os]) (auto simp: due_def)
next
  case (own m)
  with assms(2) show ?thesis by (intro exI [of _ cs] exI [of _ os]) (auto simp: due_def timer_lists_def)
qed

lemma client_steps_lists:
  assumes "(client_step to_ticks)\<^sup>*\<^sup>* s s'" "timer_lists s cs os"
  shows "\<exists>cs' os'. timer_lists s' cs' os' \<and> s_swtimer_tick_count s' = s_swtimer_tick_count s \<and> due s' cs' \<subseteq> due s cs"
  using assms
proof (induction rule: rtranclp_induct)
  case base
  then show ?case by blast
next
  case (step t u)
  then obtain cs1 os1 where "timer_lists t cs1 os1" "s_swtimer_tick_count t = s_swtimer_tick_count s" "due t cs1 \<subseteq> due s cs"
    by blast
  with client_step_lists [OF step.hyps(2)] show ?case by fastforce
qed

section \<open>The tick handler\<close>

lemma pop_lists:
  assumes "timer_lists s (t # cs) os"
  shows "timer_lists (s\<lparr>s_timer_list := next_of s t\<rparr>) cs os" "t \<notin> set (cs @ os)" "s_timer_list s = Some t"
  using assms by (auto simp: timer_lists_def)

lemma no_timer_due:
  assumes "timer_lists s (t # cs) os" "\<not> delay_of s t \<le> s_swtimer_tick_count s"
  shows "due s (t # cs) = {}"
  using assms by (auto simp: timer_lists_def due_def)

text \<open>One round of the loop: a due timer is taken off the list and its function called.\<close>

lemma run_round:
  assumes wb: "well_behaved to_ticks call" and lists: "timer_lists s (t # cs) os"
    and now: "delay_of s t \<le> s_swtimer_tick_count s"
  shows "\<exists>s' cs' os'. run_expired call to_ticks (s_swtimer_tick_count s) s =
       run_expired call to_ticks (s_swtimer_tick_count s') s' \<and>
     timer_lists s' cs' os' \<and> s_swtimer_tick_count s' = s_swtimer_tick_count s \<and>
     due s' cs' \<subset> due s (t # cs)"
proof -
  let ?s1 = "s\<lparr>s_timer_list := next_of s t\<rparr>"
  note pop = pop_lists [OF lists]
  obtain f where f: "t_func (timers s t) = Some f" using lists by (auto simp: timer_lists_def)
  have "nl_swtimer_is_active ?s1 t = Some False"
    using is_active_spec [OF pop(1), of t] pop(2) by (simp add: nl_swtimer_is_active_def)
  with wb f pop(1) obtain d s2 where call: "call f t (t_arg (timers s t)) ?s1 = Some (d, s2)"
      "(client_step to_ticks)\<^sup>*\<^sup>* ?s1 s2"
      "d \<noteq> 0 \<longrightarrow> nl_swtimer_is_active s2 t = Some False \<and> t_func (timers s2 t) \<noteq> None"
    unfolding well_behaved_def swtimer_inv_def by (metis (no_types, lifting) swtimer_state.select_convs(6) swtimer_state.surjective swtimer_state.update_convs(1))
  obtain cs2 os2 where l2: "timer_lists s2 cs2 os2" "s_swtimer_tick_count s2 = s_swtimer_tick_count s" "due s2 cs2 \<subseteq> due ?s1 cs"
    using client_steps_lists [OF call(2) pop(1)] by auto
  have sub: "due ?s1 cs \<subset> due s (t # cs)" using pop(2) now by (auto simp: due_def)
  obtain s3 cs3 os3 where s3: "(if d \<noteq> 0 then nl_swtimer_insert_locked t (to_ticks d - 1) s2 else Some s2) = Some s3"
      "timer_lists s3 cs3 os3" "s_swtimer_tick_count s3 = s_swtimer_tick_count s" "due s3 cs3 \<subseteq> due s2 cs2"
  proof (cases "d = 0")
    case True
    with l2 that show thesis by auto
  next
    case False
    with call(3) have "t \<notin> set (cs2 @ os2)" "t_func (timers s2 t) \<noteq> None"
      using is_active_spec [OF l2(1), of t] by (simp_all add: nl_swtimer_is_active_def)
    moreover from insert_locked_spec [OF l2(1) this] obtain s3 where
      "nl_swtimer_insert_locked t (to_ticks d - 1) s2 = Some s3" by blast
    ultimately show thesis using insert_not_due [OF l2(1)] l2(2) False that by (metis (no_types, lifting))
  qed
  have "run_expired call to_ticks (s_swtimer_tick_count s) s = run_expired call to_ticks (s_swtimer_tick_count s3) s3"
    using pop(3) now f call(1) s3(1,3) by (subst run_expired.simps) simp
  with s3 l2 sub show ?thesis by blast
qed

lemma run_expired_total:
  assumes wb: "well_behaved to_ticks call" and lists: "timer_lists s cs os"
  shows "\<exists>s' cs' os'. run_expired call to_ticks (s_swtimer_tick_count s) s = Some s' \<and>
     timer_lists s' cs' os' \<and> s_swtimer_tick_count s' = s_swtimer_tick_count s \<and> due s' cs' = {}"
  using lists
proof (induction "card (due s cs)" arbitrary: s cs os rule: less_induct)
  case less
  show ?case
  proof (cases cs)
    case Nil
    with less.prems have "run_expired call to_ticks (s_swtimer_tick_count s) s = Some s"
      by (subst run_expired.simps) (simp add: timer_lists_def)
    with less.prems Nil show ?thesis by (auto simp: due_def)
  next
    case (Cons t cs')
    show ?thesis
    proof (cases "delay_of s t \<le> s_swtimer_tick_count s")
      case True
      from run_round [OF wb less.prems [unfolded Cons] True] obtain s1 cs1 os1 where
        r: "run_expired call to_ticks (s_swtimer_tick_count s) s = run_expired call to_ticks (s_swtimer_tick_count s1) s1"
        "timer_lists s1 cs1 os1" "s_swtimer_tick_count s1 = s_swtimer_tick_count s" "due s1 cs1 \<subset> due s cs"
        unfolding Cons by blast
      then have "card (due s1 cs1) < card (due s cs)" by (intro psubset_card_mono) auto
      from less.hyps [OF this r(2)] r show ?thesis by metis
    next
      case False
      then have "run_expired call to_ticks (s_swtimer_tick_count s) s = Some s"
        using pop_lists(3) [OF less.prems [unfolded Cons]] by (subst run_expired.simps) simp
      with less.prems Cons no_timer_due False show ?thesis by metis
    qed
  qed
qed

lemma unat_next_tick: "(x :: u32) + 1 \<noteq> 0 \<Longrightarrow> unat (x + 1) = unat x + 1"
  using unatSuc [of x] by (simp add: add.commute)

lemma tick_wraps: "(x :: u32) + 1 < x \<longleftrightarrow> x + 1 = 0"
proof (cases "x + 1 = 0")
  case True
  then have "x \<noteq> 0" by auto
  with True show ?thesis by (simp add: word_greater_zero_iff)
next
  case False
  then show ?thesis by (simp add: word_less_nat_alt unat_next_tick)
qed

lemma tick_next_le: "(x :: u32) + 1 \<noteq> 0 \<Longrightarrow> y \<le> x \<Longrightarrow> y \<le> x + 1"
  by (simp add: word_le_nat_alt unat_next_tick)

lemma sorted_zero_append:
  "sorted (map f os) \<Longrightarrow> (\<And>t. t \<in> set cs \<Longrightarrow> f t = (0 :: u32)) \<Longrightarrow> sorted (map f (cs @ os))"
  by (induction cs) auto

text \<open>The tick handler up to its second loop.\<close>

lemma tick_advance:
  assumes lists: "timer_lists s cs os"
  shows "\<exists>s2. nl_swtimer_rtos_tick_handler call to_ticks ns s = run_expired call to_ticks (s_swtimer_tick_count s2) s2 \<and>
     s_swtimer_tick_count s2 = s_swtimer_tick_count s + 1 \<and>
     s_system_time_ns s2 = s_system_time_ns s + ns \<and> swtimer_state.more s2 = swtimer_state.more s \<and>
     (if s_swtimer_tick_count s + 1 = 0
      then timer_lists s2 (cs @ os) [] \<and> (\<forall>t. delay_of s2 t = (if t \<in> set cs then 0 else delay_of s t))
      else timer_lists s2 cs os \<and> (\<forall>t. delay_of s2 t = delay_of s t))"
proof -
  let ?s1 = "s\<lparr>s_swtimer_tick_count := s_swtimer_tick_count s + 1, s_system_time_ns := s_system_time_ns s + ns\<rparr>"
  note L = lists [unfolded timer_lists_paths]
  show ?thesis
  proof (cases "s_swtimer_tick_count s + 1 = 0")
    case False
    then have "timer_lists ?s1 cs os"
      using lists tick_next_le [OF False] by (auto simp: timer_lists_def)
    with False show ?thesis
      by (intro exI [of _ ?s1]) (simp add: nl_swtimer_rtos_tick_handler_def Let_def tick_wraps)
  next
    case True
    let ?z = "?s1\<lparr>timers := \<lambda>t. if t \<in> set cs then (timers s t)\<lparr>t_delay := 0\<rparr> else timers s t\<rparr>"
    let ?s2 = "(assign (link_after ListHead cs) (s_timer_overflow_list s) ?z)\<lparr>s_timer_overflow_list := None\<rparr>"
    have "deref ?s1 k = deref s k" for k by (simp add: deref_def split: link.split)
    then have "path ?s1 ListHead cs" using L by (auto intro: path_frame)
    from zero_delays_spec [OF this]
    have run: "nl_swtimer_rtos_tick_handler call to_ticks ns s = run_expired call to_ticks (s_swtimer_tick_count ?s2) ?s2"
      using True by (simp add: nl_swtimer_rtos_tick_handler_def Let_def tick_wraps cong: if_cong)
    have z: "deref ?z k = deref s k" for k by (simp add: deref_def split: link.split)
    have nOv: "link_after ListHead cs \<noteq> OverflowHead"
      using link_after_cases [of ListHead cs] by auto
    have d: "deref ?s2 k = (if k = OverflowHead then None
        else if k = link_after ListHead cs then s_timer_overflow_list s else deref s k)" for k
    proof -
      have "deref ?s2 k = (if k = OverflowHead then None
        else deref (assign (link_after ListHead cs) (s_timer_overflow_list s) ?z) k)"
        by (simp add: deref_def split: link.split)
      then show ?thesis using z [of k] nOv by simp
    qed
    have "path ?s2 ListHead (cs @ os)"
      unfolding path_append
    proof
      show "seg ?s2 ListHead cs"
      proof (rule seg_frame)
        show "seg s ListHead cs" using L path_append [of s ListHead cs "[]"] by simp
      qed (use L in \<open>auto simp: d\<close>)
      have "path s OverflowHead os" using L by blast
      then show "path ?s2 (link_after ListHead cs) os"
      proof (rule path_move)
        show "deref ?s2 (link_after ListHead cs) = deref s OverflowHead" using nOv by (simp add: d deref_simps)
        fix c assume "c \<in> set os"
        then have "NextOf c \<noteq> link_after ListHead cs"
          using link_after_not_NextOf [of ListHead c cs] L by fastforce
        then show "deref ?s2 (NextOf c) = deref s (NextOf c)" by (simp add: d)
      qed
    qed
    moreover have "path ?s2 OverflowHead []" by (simp add: d)
    moreover have del: "delay_of ?s2 t = (if t \<in> set cs then 0 else delay_of s t)" for t by simp
    moreover have "sorted (map (delay_of ?s2) (cs @ os))"
    proof -
      have "map (delay_of ?s2) os = map (delay_of s) os"
        using L by (intro map_cong) auto
      then have "sorted (map (delay_of ?s2) os)" using L by metis
      then show ?thesis by (rule sorted_zero_append) simp
    qed
    moreover have "t_func (timers ?s2 t) = t_func (timers s t)" for t by simp
    ultimately have "timer_lists ?s2 (cs @ os) []"
      unfolding timer_lists_paths using L by simp
    with run del True show ?thesis
      by (intro exI [of _ ?s2]) (simp add: assign_def upd_timer_def split: link.split)
  qed
qed

section \<open>Which timers a tick runs\<close>

text \<open>
  Timer functions that change nothing but the state of their own module, in which \<open>runs\<close> finds the
  timers that were called so far, and that may ask for a restart.
\<close>

definition restart_only :: "('a \<Rightarrow> timer_ptr list) \<Rightarrow> 'a swtimer_state_scheme swtimer_call \<Rightarrow> bool" where
  "restart_only runs call \<longleftrightarrow> (\<forall>f p a s. \<exists>d m. call f p a s = Some (d, s\<lparr>swtimer_state.more := m\<rparr>) \<and>
     runs m = runs (swtimer_state.more s) @ [p])"

definition due_list :: "'a swtimer_state_scheme \<Rightarrow> timer_ptr list \<Rightarrow> timer_ptr list" where
  "due_list s cs = takeWhile (\<lambda>t. delay_of s t \<le> s_swtimer_tick_count s) cs"

lemma takeWhile_insert_by:
  assumes "now < d" "t \<notin> set cs"
  shows "takeWhile (\<lambda>x. (key(t := d)) x \<le> now) (insert_by key d t cs) = takeWhile (\<lambda>x. key x \<le> now) cs"
  using assms by (induction cs) (auto simp: insert_by_def)

lemma due_list_sorted:
  assumes "sorted (map (delay_of s) cs)"
  shows "set (due_list s cs) = due s cs"
  using assms
proof (induction cs)
  case (Cons c cs)
  then show ?case by (auto simp: due_list_def due_def)
qed (simp add: due_list_def due_def)

text \<open>What a round of the loop keeps of the timers it does not run.\<close>

definition others_kept ::
  "'a swtimer_state_scheme \<Rightarrow> timer_ptr set \<Rightarrow> timer_ptr set \<Rightarrow>
   'a swtimer_state_scheme \<Rightarrow> timer_ptr list \<Rightarrow> timer_ptr list \<Rightarrow> bool" where
  "others_kept s C O' s' cs' os' \<longleftrightarrow> s_swtimer_tick_count s' = s_swtimer_tick_count s \<and>
     s_system_time_ns s' = s_system_time_ns s \<and>
     (\<forall>x \<in> C. x \<in> set cs' \<and> delay_of s' x = delay_of s x) \<and>
     (\<forall>x \<in> O'. x \<in> set os' \<and> delay_of s' x = delay_of s x)"

lemma insert_kept:
  assumes "timer_lists s cs os" "t \<notin> set (cs @ os)" "t_func (timers s t) \<noteq> None"
  shows "\<exists>s' cs' os'. nl_swtimer_insert_locked t d s = Some s' \<and> timer_lists s' cs' os' \<and>
     swtimer_state.more s' = swtimer_state.more s \<and> due_list s' cs' = due_list s cs \<and>
     others_kept s (set cs) (set os) s' cs' os'"
proof -
  let ?cs = "if in_this_round s d then insert_by (delay_of s) (expiry s d) t cs else cs"
  let ?os = "if in_this_round s d then os else insert_by (delay_of s) (expiry s d) t os"
  from insert_locked_spec [OF assms, of d] obtain s' where
    r: "nl_swtimer_insert_locked t d s = Some s'" "list_op s s'" "delay_of s' = (delay_of s)(t := expiry s d)"
       "timer_lists s' ?cs ?os"
    by blast
  have d: "delay_of s' x = (if x = t then expiry s d else delay_of s x)" for x
    using fun_cong [OF r(3), of x] by simp
  have "due_list s' ?cs = due_list s cs"
  proof (cases "in_this_round s d")
    case True
    then have "takeWhile (\<lambda>x. ((delay_of s)(t := expiry s d)) x \<le> s_swtimer_tick_count s) ?cs =
        takeWhile (\<lambda>x. delay_of s x \<le> s_swtimer_tick_count s) cs"
      using takeWhile_insert_by [of "s_swtimer_tick_count s" "expiry s d" t cs "delay_of s"] assms(2)
      by (simp add: in_this_round_def)
    with r(2) show ?thesis unfolding due_list_def r(3) [symmetric] by (simp add: list_op_def)
  next
    case False
    with assms(2) r(2) show ?thesis
      by (auto simp: due_list_def d list_op_def intro!: takeWhile_cong)
  qed
  moreover have "others_kept s (set cs) (set os) s' ?cs ?os"
    using r(2) assms(2) by (auto simp: others_kept_def d list_op_def)
  ultimately show ?thesis using r(1,2,4) by (auto simp: list_op_def)
qed

lemma restart_round:
  assumes ro: "restart_only runs call" and lists: "timer_lists s (t # cs) os"
    and now: "delay_of s t \<le> s_swtimer_tick_count s"
  shows "\<exists>s' cs' os'. run_expired call to_ticks (s_swtimer_tick_count s) s =
       run_expired call to_ticks (s_swtimer_tick_count s') s' \<and>
     timer_lists s' cs' os' \<and> due_list s' cs' = due_list s cs \<and>
     runs (swtimer_state.more s') = runs (swtimer_state.more s) @ [t] \<and>
     others_kept s (set cs) (set os) s' cs' os'"
proof -
  let ?s1 = "s\<lparr>s_timer_list := next_of s t\<rparr>"
  note pop = pop_lists [OF lists]
  obtain f where f: "t_func (timers s t) = Some f" using lists by (auto simp: timer_lists_def)
  obtain d m where call: "call f t (t_arg (timers s t)) ?s1 = Some (d, ?s1\<lparr>swtimer_state.more := m\<rparr>)"
      and m: "runs m = runs (swtimer_state.more s) @ [t]"
    using ro unfolding restart_only_def by fastforce
  let ?s2 = "?s1\<lparr>swtimer_state.more := m\<rparr>"
  have l2: "timer_lists ?s2 cs os" using pop(1) by (simp add: timer_lists_def)
  have dl: "due_list ?s2 cs = due_list s cs" by (simp add: due_list_def)
  obtain s3 cs3 os3 where s3: "(if d \<noteq> 0 then nl_swtimer_insert_locked t (to_ticks d - 1) ?s2 else Some ?s2) = Some s3"
      "timer_lists s3 cs3 os3" "swtimer_state.more s3 = m" "due_list s3 cs3 = due_list s cs"
      "others_kept s (set cs) (set os) s3 cs3 os3"
  proof (cases "d = 0")
    case True
    with l2 dl that [of ?s2 cs os] show thesis by (simp add: others_kept_def)
  next
    case False
    with insert_kept [OF l2 pop(2), of "to_ticks d - 1"] f dl that show thesis
      by (auto simp: others_kept_def)
  qed
  have "run_expired call to_ticks (s_swtimer_tick_count s) s = run_expired call to_ticks (s_swtimer_tick_count s3) s3"
    using pop(3) now f call s3(1,5) by (subst run_expired.simps) (simp add: others_kept_def)
  with s3 m show ?thesis by metis
qed

lemma run_expired_runs:
  assumes ro: "restart_only runs call" and lists: "timer_lists s cs os"
  shows "\<exists>s' cs' os'. run_expired call to_ticks (s_swtimer_tick_count s) s = Some s' \<and> timer_lists s' cs' os' \<and>
     runs (swtimer_state.more s') = runs (swtimer_state.more s) @ due_list s cs \<and>
     others_kept s (set cs - set (due_list s cs)) (set os) s' cs' os'"
  using lists
proof (induction "due_list s cs" arbitrary: s cs os)
  case Nil
  have "run_expired call to_ticks (s_swtimer_tick_count s) s = Some s"
    using Nil pop_lists(3) [of s "hd cs" "tl cs" os]
    by (cases cs; subst run_expired.simps) (auto simp: due_list_def timer_lists_def split: if_splits)
  with Nil show ?case by (intro exI [of _ s] exI [of _ cs] exI [of _ os]) (simp add: others_kept_def)
next
  case (Cons t ts)
  then obtain cs' where cs: "cs = t # cs'" and now: "delay_of s t \<le> s_swtimer_tick_count s" and ts: "ts = due_list s cs'"
    by (cases cs) (auto simp: due_list_def split: if_splits)
  have dcs: "due_list s cs = t # due_list s cs'" using now by (simp add: cs due_list_def)
  from restart_round [OF ro Cons.prems [unfolded cs] now] obtain s1 cs1 os1 where
    r1: "run_expired call to_ticks (s_swtimer_tick_count s) s = run_expired call to_ticks (s_swtimer_tick_count s1) s1"
     "timer_lists s1 cs1 os1" "due_list s1 cs1 = due_list s cs'"
     "runs (swtimer_state.more s1) = runs (swtimer_state.more s) @ [t]" "others_kept s (set cs') (set os) s1 cs1 os1"
    by metis
  from Cons.hyps(1) [of s1 cs1 os1] ts r1(2,3) obtain s2 cs2 os2 where
    r2: "run_expired call to_ticks (s_swtimer_tick_count s1) s1 = Some s2" "timer_lists s2 cs2 os2"
      "runs (swtimer_state.more s2) = runs (swtimer_state.more s1) @ due_list s cs'"
      "others_kept s1 (set cs1 - set (due_list s cs')) (set os1) s2 cs2 os2"
    by metis
  have "others_kept s (set cs - set (due_list s cs)) (set os) s2 cs2 os2"
    using r1(5) r2(4) unfolding others_kept_def dcs unfolding cs by auto
  moreover have "runs (swtimer_state.more s2) = runs (swtimer_state.more s) @ due_list s cs"
    unfolding r2(3) r1(4) dcs by simp
  ultimately show ?case using r1(1) r2(1,2) by metis
qed

section \<open>When a timer runs\<close>

text \<open>How many ticks are left until an active timer runs; \<open>cs\<close> is the list of this round.\<close>

definition remaining :: "'a swtimer_state_scheme \<Rightarrow> timer_ptr list \<Rightarrow> timer_ptr \<Rightarrow> nat" where
  "remaining s cs t =
     (if t \<in> set cs then unat (delay_of s t) - unat (s_swtimer_tick_count s)
      else unat (delay_of s t) + 2 ^ 32 - unat (s_swtimer_tick_count s))"

definition tick_effect ::
  "'a swtimer_state_scheme \<Rightarrow> timer_ptr list \<Rightarrow> timer_ptr list \<Rightarrow> timer_ptr list \<Rightarrow>
   'a swtimer_state_scheme \<Rightarrow> timer_ptr list \<Rightarrow> timer_ptr list \<Rightarrow> bool" where
  "tick_effect s cs os rs s' cs' os' \<longleftrightarrow> timer_lists s' cs' os' \<and>
     set rs = {t \<in> set (cs @ os). remaining s cs t \<le> 1} \<and> sorted (map (remaining s cs) rs) \<and> distinct rs \<and>
     (\<forall>t \<in> set (cs @ os). 1 < remaining s cs t \<longrightarrow>
        t \<in> set (cs' @ os') \<and> remaining s' cs' t = remaining s cs t - 1)"

lemma tick_wrap_max: "(x :: u32) + 1 = 0 \<Longrightarrow> unat x = 2 ^ 32 - 1"
proof -
  assume "x + 1 = 0"
  then have "(unat x + 1) mod 2 ^ 32 = 0" using unat_word_ariths(1) [of x 1] by simp
  with unat_le_word32 [of x] show ?thesis by (auto simp: mod_if split: if_splits)
qed

lemma sorted_wrt_all: "(\<And>x y. x \<in> set xs \<Longrightarrow> y \<in> set xs \<Longrightarrow> R x y) \<Longrightarrow> sorted_wrt R xs"
  by (induction xs) auto

lemma tick_due:
  assumes "timer_lists s2 cs2 os2" "s_swtimer_tick_count s2 = s_swtimer_tick_count s + 1"
    and "s_swtimer_tick_count s + 1 \<noteq> 0" "\<And>t. delay_of s2 t = delay_of s t" "timer_lists s cs2 os2"
    and kept: "others_kept s2 (set cs2 - set (due_list s2 cs2)) (set os2) s' cs' os'" "timer_lists s' cs' os'"
  shows "tick_effect s cs2 os2 (due_list s2 cs2) s' cs' os'"
proof -
  have tick: "unat (s_swtimer_tick_count s2) = unat (s_swtimer_tick_count s) + 1"
    using assms(2,3) by (simp add: unat_next_tick)
  have srt: "sorted (map (delay_of s2) cs2)" and dist: "distinct (cs2 @ os2)" and dist': "distinct (cs' @ os')"
    using assms(1) kept(2) by (auto simp: timer_lists_def)
  have ds: "set (due_list s2 cs2) = {t \<in> set cs2. unat (delay_of s t) \<le> unat (s_swtimer_tick_count s) + 1}"
    unfolding due_list_sorted [OF srt] by (auto simp: due_def word_le_nat_alt tick assms(4))
  have os_late: "1 < remaining s cs2 t" if "t \<in> set os2" for t
    using that dist tick unat_le_word32 [of "s_swtimer_tick_count s2"] by (auto simp: remaining_def)
  have "set (due_list s2 cs2) = {t \<in> set (cs2 @ os2). remaining s cs2 t \<le> 1}"
  proof -
    have "remaining s cs2 t \<le> 1 \<longleftrightarrow> unat (delay_of s t) \<le> unat (s_swtimer_tick_count s) + 1" if "t \<in> set cs2" for t
      using that by (auto simp: remaining_def)
    then show ?thesis unfolding ds using os_late by (auto simp del: One_nat_def) (use not_less in blast)+
  qed
  moreover have "sorted (map (remaining s cs2) (due_list s2 cs2))"
  proof -
    have "sorted_wrt (\<lambda>x y. delay_of s2 x \<le> delay_of s2 y) (due_list s2 cs2)"
      using srt unfolding sorted_map due_list_def by (rule sorted_wrt_takeWhile)
    then show ?thesis
      unfolding sorted_map by (rule sorted_wrt_mono_rel [rotated])
        (auto simp: remaining_def assms(4) word_le_nat_alt ds)
  qed
  moreover have "t \<in> set (cs' @ os') \<and> remaining s' cs' t = remaining s cs2 t - 1"
    if t: "t \<in> set (cs2 @ os2)" "1 < remaining s cs2 t" for t
  proof (cases "t \<in> set cs2")
    case True
    with t(2) have "t \<in> set cs2 - set (due_list s2 cs2)" by (auto simp: ds remaining_def)
    with kept(1) True show ?thesis
      by (auto simp: others_kept_def remaining_def tick assms(4))
  next
    case False
    with t kept(1) have "t \<in> set os'" "delay_of s' t = delay_of s t" "s_swtimer_tick_count s' = s_swtimer_tick_count s2"
      by (auto simp: others_kept_def assms(4))
    with False dist' show ?thesis by (auto simp: remaining_def tick)
  qed
  moreover have "distinct (due_list s2 cs2)" using dist by (simp add: due_list_def distinct_takeWhile)
  ultimately show ?thesis using kept(2) by (auto simp: tick_effect_def)
qed

lemma tick_due_wrap:
  assumes "timer_lists s2 (cs @ os) []" "s_swtimer_tick_count s2 = 0"
    and wrap: "s_swtimer_tick_count s + 1 = 0"
    and d: "\<And>t. delay_of s2 t = (if t \<in> set cs then 0 else delay_of s t)" and lists: "timer_lists s cs os"
    and kept: "others_kept s2 (set (cs @ os) - set (due_list s2 (cs @ os))) {} s' cs' os'" "timer_lists s' cs' os'"
  shows "tick_effect s cs os (due_list s2 (cs @ os)) s' cs' os'"
proof -
  have tick: "unat (s_swtimer_tick_count s) = 2 ^ 32 - 1" using wrap by (rule tick_wrap_max)
  have srt: "sorted (map (delay_of s2) (cs @ os))" and dist: "distinct (cs @ os)"
    using assms(1) by (auto simp: timer_lists_def)
  have r1: "remaining s cs t = 0" if "t \<in> set cs" for t
    using that unat_le_word32 [of "delay_of s t"] by (simp add: remaining_def tick)
  have r2: "remaining s cs t = unat (delay_of s t) + 1" if "t \<in> set os" for t
    using that dist by (auto simp: remaining_def tick)
  have ds: "set (due_list s2 (cs @ os)) = {t \<in> set (cs @ os). remaining s cs t \<le> 1}"
    unfolding due_list_sorted [OF srt] using r1 r2 dist
    by (auto simp: due_def assms(2) d unat_eq_zero)
  moreover have "sorted (map (remaining s cs) (due_list s2 (cs @ os)))"
  proof -
    have "sorted_wrt (\<lambda>x y. x \<in> set cs \<or> y \<in> set os) (cs @ os)"
      by (auto simp: sorted_wrt_append intro!: sorted_wrt_all)
    then have "sorted_wrt (\<lambda>x y. x \<in> set cs \<or> y \<in> set os) (due_list s2 (cs @ os))"
      unfolding due_list_def by (rule sorted_wrt_takeWhile)
    then show ?thesis unfolding sorted_map
      by (rule sorted_wrt_mono_rel [rotated]) (use r1 r2 dist in \<open>auto simp: ds\<close>)
  qed
  moreover have "t \<in> set (cs' @ os') \<and> remaining s' cs' t = remaining s cs t - 1"
    if t: "t \<in> set (cs @ os)" "1 < remaining s cs t" for t
  proof -
    from t r1 have os: "t \<in> set os" "t \<notin> set cs" by auto
    with t ds have "t \<in> set (cs @ os) - set (due_list s2 (cs @ os))" by auto
    with kept(1) have "t \<in> set cs'" "delay_of s' t = delay_of s t" "s_swtimer_tick_count s' = 0"
      using os by (auto simp: others_kept_def assms(2) d)
    moreover from this have "remaining s' cs' t = unat (delay_of s t)" by (simp add: remaining_def)
    ultimately show ?thesis using r2 [OF os(1)] by simp
  qed
  moreover have "distinct (due_list s2 (cs @ os))" using dist unfolding due_list_def by (rule distinct_takeWhile)
  ultimately show ?thesis using kept(2) by (auto simp: tick_effect_def)
qed

lemma tick_handler_runs:
  assumes ro: "restart_only runs call" and lists: "timer_lists s cs os"
  shows "\<exists>s' cs' os' rs. nl_swtimer_rtos_tick_handler call to_ticks ns s = Some s' \<and>
     runs (swtimer_state.more s') = runs (swtimer_state.more s) @ rs \<and> tick_effect s cs os rs s' cs' os'"
proof -
  obtain s2 where s2: "nl_swtimer_rtos_tick_handler call to_ticks ns s = run_expired call to_ticks (s_swtimer_tick_count s2) s2"
     "s_swtimer_tick_count s2 = s_swtimer_tick_count s + 1" "swtimer_state.more s2 = swtimer_state.more s"
     "if s_swtimer_tick_count s + 1 = 0
      then timer_lists s2 (cs @ os) [] \<and> (\<forall>t. delay_of s2 t = (if t \<in> set cs then 0 else delay_of s t))
      else timer_lists s2 cs os \<and> (\<forall>t. delay_of s2 t = delay_of s t)"
    using tick_advance [OF lists, of call to_ticks ns] by auto
  show ?thesis
  proof (cases "s_swtimer_tick_count s + 1 = 0")
    case True
    with s2(4) have l2: "timer_lists s2 (cs @ os) []" "\<And>t. delay_of s2 t = (if t \<in> set cs then 0 else delay_of s t)" by auto
    from run_expired_runs [OF ro l2(1), of to_ticks] tick_due_wrap [OF l2(1) _ True l2(2) lists] s2(1-3) True
    show ?thesis by (metis set_empty)
  next
    case False
    with s2(4) have l2: "timer_lists s2 cs os" "\<And>t. delay_of s2 t = delay_of s t" by auto
    from run_expired_runs [OF ro l2(1), of to_ticks] tick_due [OF l2(1) s2(2) False l2(2) lists] s2(1,3)
    show ?thesis by metis
  qed
qed


text \<open>The handler called \<open>n\<close> times.\<close>

primrec run_ticks ::
  "'a swtimer_state_scheme swtimer_call \<Rightarrow> (u32 \<Rightarrow> u32) \<Rightarrow> u64 \<Rightarrow> nat \<Rightarrow> 'a swtimer_state_scheme \<Rightarrow>
   'a swtimer_state_scheme option" where
  "run_ticks call to_ticks ns 0 s = Some s"
| "run_ticks call to_ticks ns (Suc n) s = do {
     s' \<leftarrow> nl_swtimer_rtos_tick_handler call to_ticks ns s;
     run_ticks call to_ticks ns n s' }"

lemma run_ticks_waiting:
  assumes ro: "restart_only runs call" and "timer_lists s cs os" "t \<in> set (cs @ os)" "n < remaining s cs t"
  shows "\<exists>s' cs' os' rs. run_ticks call to_ticks ns n s = Some s' \<and> timer_lists s' cs' os' \<and>
     runs (swtimer_state.more s') = runs (swtimer_state.more s) @ rs \<and> t \<notin> set rs \<and>
     t \<in> set (cs' @ os') \<and> remaining s' cs' t = remaining s cs t - n"
  using assms(2-)
proof (induction n arbitrary: s cs os)
  case 0
  then show ?case by fastforce
next
  case (Suc n)
  obtain s1 cs1 os1 rs where s1: "nl_swtimer_rtos_tick_handler call to_ticks ns s = Some s1"
      "runs (swtimer_state.more s1) = runs (swtimer_state.more s) @ rs" "tick_effect s cs os rs s1 cs1 os1"
    using tick_handler_runs [OF ro Suc.prems(1), of to_ticks ns] by blast
  then have e: "timer_lists s1 cs1 os1" "t \<notin> set rs" "t \<in> set (cs1 @ os1)" "remaining s1 cs1 t = remaining s cs t - 1"
    using Suc.prems by (auto simp: tick_effect_def)
  have left: "n < remaining s1 cs1 t" using e(4) Suc.prems(3) by simp
  obtain s2 cs2 os2 rs2 where "run_ticks call to_ticks ns n s1 = Some s2" "timer_lists s2 cs2 os2"
     "runs (swtimer_state.more s2) = runs (swtimer_state.more s1) @ rs2" "t \<notin> set rs2"
     "t \<in> set (cs2 @ os2)" "remaining s2 cs2 t = remaining s1 cs1 t - n"
    using Suc.IH [OF e(1,3) left] by blast
  with s1(1,2) e show ?case
    by (intro exI [of _ s2] exI [of _ cs2] exI [of _ os2] exI [of _ "rs @ rs2"]) auto
qed

lemma run_ticks_Suc:
  "run_ticks call to_ticks ns (Suc n) s =
     Option.bind (run_ticks call to_ticks ns n s) (nl_swtimer_rtos_tick_handler call to_ticks ns)"
proof (induction n arbitrary: s)
  case (Suc n)
  show ?case
  proof (cases "nl_swtimer_rtos_tick_handler call to_ticks ns s")
    case (Some s1)
    with Suc.IH [of s1] show ?thesis by simp
  qed simp
qed simp

lemma run_ticks_fires:
  assumes ro: "restart_only runs call" and "timer_lists s cs os" "t \<in> set (cs @ os)" "0 < remaining s cs t"
  shows "\<exists>s' rs. run_ticks call to_ticks ns (remaining s cs t) s = Some s' \<and>
     runs (swtimer_state.more s') = runs (swtimer_state.more s) @ rs \<and> t \<in> set rs"
proof -
  obtain n where n: "remaining s cs t = Suc n" using assms(4) by (cases "remaining s cs t") auto
  obtain s1 cs1 os1 rs1 where s1: "run_ticks call to_ticks ns n s = Some s1" "timer_lists s1 cs1 os1"
     "runs (swtimer_state.more s1) = runs (swtimer_state.more s) @ rs1" "t \<in> set (cs1 @ os1)" "remaining s1 cs1 t = 1"
    using run_ticks_waiting [OF assms(1-3), of n to_ticks ns] n by auto
  obtain s2 rs2 where "nl_swtimer_rtos_tick_handler call to_ticks ns s1 = Some s2"
      "runs (swtimer_state.more s2) = runs (swtimer_state.more s1) @ rs2" "t \<in> set rs2"
    using tick_handler_runs [OF ro s1(2), of to_ticks ns] s1(4,5) by (auto simp: tick_effect_def)
  with s1 show ?thesis unfolding n run_ticks_Suc
    by (intro exI [of _ s2] exI [of _ "rs1 @ rs2"]) auto
qed

lemma start_remaining:
  assumes "timer_lists s cs os" "t \<notin> set (cs @ os)" "t_func (timers s t) \<noteq> None"
  shows "\<exists>s' cs' os'. nl_swtimer_start to_ticks t ms s = Some s' \<and> timer_lists s' cs' os' \<and> t \<in> set (cs' @ os') \<and>
     swtimer_state.more s' = swtimer_state.more s \<and> remaining s' cs' t = max 1 (unat (to_ticks ms))"
proof -
  let ?d = "to_ticks ms" let ?e = "ticks_at_least_1 (to_ticks ms)"
  let ?cs = "if in_this_round s ?d then insert_by (delay_of s) (expiry s ?d) t cs else cs"
  let ?os = "if in_this_round s ?d then os else insert_by (delay_of s) (expiry s ?d) t os"
  from insert_locked_spec [OF assms, of ?d] obtain s' where
    r: "nl_swtimer_insert_locked t ?d s = Some s'" "list_op s s'" "delay_of s' = (delay_of s)(t := expiry s ?d)"
       "timer_lists s' ?cs ?os" by blast
  have e: "unat ?e = max 1 (unat ?d)" "0 < unat ?e"
    by (auto simp: ticks_at_least_1_def max_def unat_gt_0 Suc_le_eq)
  have del: "delay_of s' t = s_swtimer_tick_count s + ?e"
    using fun_cong [OF r(3), of t] by (simp add: expiry_def)
  have "remaining s' ?cs t = unat ?e"
  proof (cases "in_this_round s ?d")
    case True
    then have "unat (s_swtimer_tick_count s + ?e) = unat (s_swtimer_tick_count s) + unat ?e"
      by (simp add: in_this_round_def expiry_def word_less_nat_alt unat_plus_if' split: if_splits)
        (use unat_le_word32 [of ?e] in simp)
    with True r(2) del show ?thesis by (simp add: remaining_def list_op_def)
  next
    case False
    then have "unat (s_swtimer_tick_count s + ?e) + 2 ^ 32 = unat (s_swtimer_tick_count s) + unat ?e"
      using e(2) by (simp add: in_this_round_def expiry_def word_less_nat_alt unat_plus_if' split: if_splits)
    with False r(2) del assms(2) show ?thesis by (simp add: remaining_def list_op_def)
  qed
  with r assms(3) e show ?thesis
    by (intro exI [of _ s'] exI [of _ ?cs] exI [of _ ?os]) (auto simp: nl_swtimer_start_def list_op_def)
qed

section \<open>The timers as a service\<close>

text \<open>
  The contract of a timer service: \<open>left s t\<close> is the number of ticks until the timer \<open>t\<close> runs, or
  \<open>None\<close> when it is not active, \<open>ready\<close> says that a timer has a function, \<open>delay\<close> what a delay in
  milliseconds means. The service is used by the modules that debounce or time out.
\<close>

locale timer_service =
  fixes inv :: "'s \<Rightarrow> bool" and left :: "'s \<Rightarrow> 't \<Rightarrow> nat option" and ready :: "'s \<Rightarrow> 't \<Rightarrow> bool"
    and delay :: "'d \<Rightarrow> nat" and start :: "'t \<Rightarrow> 'd \<Rightarrow> 's \<Rightarrow> 's option"
    and cancel :: "'t \<Rightarrow> 's \<Rightarrow> (bool \<times> 's) option"
  assumes start_law: "inv s \<Longrightarrow> left s t = None \<Longrightarrow> ready s t \<Longrightarrow>
      \<exists>s'. start t d s = Some s' \<and> inv s' \<and> left s' = (left s)(t := Some (delay d)) \<and> ready s' = ready s"
    and cancel_law: "inv s \<Longrightarrow>
      \<exists>s'. cancel t s = Some (left s t \<noteq> None, s') \<and> inv s' \<and> left s' = (left s)(t := None) \<and> ready s' = ready s"
begin

text \<open>Cancelling and starting a timer, whether or not it is active, starts its delay anew.\<close>

definition restart :: "'t \<Rightarrow> 'd \<Rightarrow> 's \<Rightarrow> 's option" where
  "restart t d s = Option.bind (cancel t s) (\<lambda>(_, s1). start t d s1)"

lemma restart_law:
  assumes "inv s" "ready s t"
  shows "\<exists>s'. restart t d s = Some s' \<and> inv s' \<and> left s' = (left s)(t := Some (delay d)) \<and> ready s' = ready s"
proof -
  obtain s1 where s1: "cancel t s = Some (left s t \<noteq> None, s1)" "inv s1" "left s1 = (left s)(t := None)" "ready s1 = ready s"
    using cancel_law [OF assms(1)] by blast
  with start_law [OF s1(2), of t d] assms(2) show ?thesis by (auto simp: restart_def)
qed

text \<open>A timer that is started and then cancelled leaves no trace.\<close>

lemma start_cancel:
  assumes "inv s" "left s t = None" "ready s t"
  shows "\<exists>s1 s2. start t d s = Some s1 \<and> cancel t s1 = Some (True, s2) \<and> inv s2 \<and> left s2 = left s"
proof -
  obtain s1 where s1: "start t d s = Some s1" "inv s1" "left s1 = (left s)(t := Some (delay d))"
    using start_law [OF assms] by blast
  then show ?thesis using cancel_law [OF s1(2), of t] assms(2) by (auto simp: fun_upd_idem)
qed

end

definition ticks_left :: "'a swtimer_state_scheme \<Rightarrow> timer_ptr \<Rightarrow> nat option" where
  "ticks_left s t =
     (if timer_in_list_locked s (s_timer_list s) t = Some True
      then Some (unat (delay_of s t) - unat (s_swtimer_tick_count s))
      else if timer_in_list_locked s (s_timer_overflow_list s) t = Some True
      then Some (unat (delay_of s t) + 2 ^ 32 - unat (s_swtimer_tick_count s))
      else None)"

definition ready :: "'a swtimer_state_scheme \<Rightarrow> timer_ptr \<Rightarrow> bool" where
  "ready s t \<longleftrightarrow> t_func (timers s t) \<noteq> None"

definition delay_ticks :: "(u32 \<Rightarrow> u32) \<Rightarrow> u32 \<Rightarrow> nat" where
  "delay_ticks to_ticks ms = max 1 (unat (to_ticks ms))"

lemma ticks_left_lists:
  "timer_lists s cs os \<Longrightarrow> ticks_left s t = (if t \<in> set (cs @ os) then Some (remaining s cs t) else None)"
  by (auto simp: ticks_left_def timer_lists_def timer_in_list_locked_spec remaining_def)

lemma ticks_left_None: "timer_lists s cs os \<Longrightarrow> ticks_left s t = None \<longleftrightarrow> t \<notin> set (cs @ os)"
  by (simp add: ticks_left_lists)

lemma start_service:
  assumes "swtimer_inv s" "ticks_left s t = None" "ready s t"
  shows "\<exists>s'. nl_swtimer_start to_ticks t ms s = Some s' \<and> swtimer_inv s' \<and>
     ticks_left s' = (ticks_left s)(t := Some (delay_ticks to_ticks ms)) \<and> ready s' = ready s"
proof -
  obtain cs os where lists: "timer_lists s cs os" using assms(1) by (auto simp: swtimer_inv_def)
  have t: "t \<notin> set (cs @ os)" "t_func (timers s t) \<noteq> None"
    using assms ticks_left_None [OF lists] by (simp_all add: ready_def)
  let ?d = "to_ticks ms"
  let ?cs = "if in_this_round s ?d then insert_by (delay_of s) (expiry s ?d) t cs else cs"
  let ?os = "if in_this_round s ?d then os else insert_by (delay_of s) (expiry s ?d) t os"
  obtain s' cs' os' where s': "nl_swtimer_start to_ticks t ms s = Some s'" "timer_lists s' cs' os'" "t \<in> set (cs' @ os')"
      "remaining s' cs' t = delay_ticks to_ticks ms"
    using start_remaining [OF lists t, of to_ticks ms] by (auto simp: delay_ticks_def)
  then have ins: "nl_swtimer_insert_locked t ?d s = Some s'" using t by (simp add: nl_swtimer_start_def)
  with insert_locked_spec [OF lists t, of ?d] have
    r: "list_op s s'" "delay_of s' = (delay_of s)(t := expiry s ?d)" "timer_lists s' ?cs ?os" by auto
  have eq: "cs' = ?cs" "os' = ?os" using timer_lists_unique [OF s'(2) r(3)] by auto
  have "ticks_left s' x = ((ticks_left s)(t := Some (delay_ticks to_ticks ms))) x" for x
  proof (cases "x = t")
    case True
    with s' show ?thesis by (simp add: ticks_left_lists)
  next
    case False
    then have "delay_of s' x = delay_of s x" using fun_cong [OF r(2), of x] by simp
    with False r(1) show ?thesis
      unfolding ticks_left_lists [OF lists] ticks_left_lists [OF r(3)]
      by (auto simp: remaining_def list_op_def)
  qed
  moreover have "ready s' = ready s" using r(1) by (auto simp: ready_def list_op_def)
  ultimately show ?thesis using s'(1,2) by (auto simp: swtimer_inv_def)
qed

lemma cancel_service:
  assumes "swtimer_inv s"
  shows "\<exists>s'. nl_swtimer_cancel t s = Some (ticks_left s t \<noteq> None, s') \<and> swtimer_inv s' \<and>
     ticks_left s' = (ticks_left s)(t := None) \<and> ready s' = ready s"
proof -
  obtain cs os where lists: "timer_lists s cs os" using assms by (auto simp: swtimer_inv_def)
  obtain s' where s': "nl_swtimer_cancel t s = Some (t \<in> set (cs @ os), s')" "list_op s s'"
     "delay_of s' = delay_of s" "timer_lists s' (removeAll t cs) (removeAll t os)"
    using cancel_spec [OF lists] by blast
  have "ticks_left s' x = ((ticks_left s)(t := None)) x" for x
    using fun_cong [OF s'(3), of x] s'(2)
    unfolding ticks_left_lists [OF lists] ticks_left_lists [OF s'(4)] fun_upd_apply
    by (auto simp: remaining_def list_op_def)
  moreover have "ready s' = ready s" using s'(2) by (auto simp: ready_def list_op_def)
  ultimately show ?thesis using s'(1,4) by (auto simp: swtimer_inv_def ticks_left_lists [OF lists])
qed

interpretation swtimer: timer_service swtimer_inv ticks_left ready "delay_ticks to_ticks"
  "nl_swtimer_start to_ticks" nl_swtimer_cancel for to_ticks
  by unfold_locales (blast intro: start_service, blast intro: cancel_service)

section \<open>Sleep\<close>

lemma pre_sleep_true:
  assumes "nl_swtimer_pre_sleep ut ns rtos idle0 s = Some ((True, before, idle), s1)"
  shows "s1 = s \<and> before = rtos \<and> idle \<le> idle0 \<and>
     (\<forall>t. s_timer_list s = Some t \<longrightarrow> s_swtimer_tick_count s < delay_of s t \<and> idle \<le> delay_of s t - s_swtimer_tick_count s)"
  using assms by (auto simp: nl_swtimer_pre_sleep_def Let_def split: if_splits option.splits)

lemma pre_sleep_left:
  assumes "timer_lists s cs os" "nl_swtimer_pre_sleep ut ns rtos idle0 s = Some ((True, before, idle), s1)"
    and "unat (s_swtimer_tick_count s) + unat idle0 < 2 ^ 32" "ticks_left s t = Some n"
  shows "0 < n \<and> unat idle \<le> n"
proof -
  note pre = pre_sleep_true [OF assms(2)]
  have idle: "unat idle \<le> unat idle0" using pre by (simp add: word_le_nat_alt)
  show ?thesis
  proof (cases "t \<in> set cs")
    case False
    with assms(1,3,4) idle show ?thesis by (auto simp: ticks_left_lists remaining_def split: if_splits)
  next
    case True
    then obtain c cs' where cs: "cs = c # cs'" by (cases cs) auto
    have "s_timer_list s = Some c" using assms(1) cs by (simp add: timer_lists_def)
    with pre have c: "s_swtimer_tick_count s < delay_of s c" "idle \<le> delay_of s c - s_swtimer_tick_count s" by auto
    have "delay_of s c \<le> delay_of s t" using assms(1) True cs by (auto simp: timer_lists_def)
    moreover have "unat (delay_of s c - s_swtimer_tick_count s) = unat (delay_of s c) - unat (s_swtimer_tick_count s)"
      using c(1) by (simp add: unat_sub)
    ultimately show ?thesis using True assms(1,4) c
      by (auto simp: ticks_left_lists remaining_def word_less_nat_alt word_le_nat_alt split: if_splits)
  qed
qed

lemma post_sleep_lists:
  assumes "timer_lists s cs os" "before \<le> rtos"
    and room: "unat (s_swtimer_tick_count s) + (unat rtos - unat before) < 2 ^ 32"
  shows "\<exists>s'. nl_swtimer_post_sleep ns rtos before s = Some s' \<and> timer_lists s' cs os \<and>
     unat (s_swtimer_tick_count s') = unat (s_swtimer_tick_count s) + (unat rtos - unat before) \<and>
     (\<forall>t. delay_of s' t = delay_of s t) \<and> s_system_time_ns s' = s_system_time_ns s + ucast (rtos - before) * ns"
proof -
  let ?s = "s\<lparr>s_swtimer_tick_count := s_swtimer_tick_count s + (rtos - before),
              s_system_time_ns := s_system_time_ns s + ucast (rtos - before) * ns\<rparr>"
  have tick: "unat (s_swtimer_tick_count ?s) = unat (s_swtimer_tick_count s) + (unat rtos - unat before)"
    using room assms(2) by (simp add: unat_word_ariths unat_sub)
  then have "s_swtimer_tick_count s \<le> s_swtimer_tick_count ?s" by (simp add: word_le_nat_alt)
  with assms(1) have "timer_lists ?s cs os" by (auto simp: timer_lists_def intro: order_trans)
  with tick assms(2) show ?thesis
    by (intro exI [of _ ?s]) (simp add: nl_swtimer_post_sleep_def Let_def)
qed

section \<open>The system\<close>

inductive swtimer_step ::
  "'a swtimer_state_scheme swtimer_call \<Rightarrow> (u32 \<Rightarrow> u32) \<Rightarrow> u64 \<Rightarrow>
   'a swtimer_state_scheme \<Rightarrow> 'a swtimer_state_scheme \<Rightarrow> bool" for call to_ticks ns where
  tick: "nl_swtimer_rtos_tick_handler call to_ticks ns s = Some s' \<Longrightarrow> swtimer_step call to_ticks ns s s'"
| client: "client_step to_ticks s s' \<Longrightarrow> swtimer_step call to_ticks ns s s'"
| sleep: "unat (s_swtimer_tick_count s) + (unat rtos - unat before) < 2 ^ 32 \<Longrightarrow>
    nl_swtimer_post_sleep ns rtos before s = Some s' \<Longrightarrow> swtimer_step call to_ticks ns s s'"

definition swtimer_boot :: "'a swtimer_state_scheme \<Rightarrow> bool" where
  "swtimer_boot s \<longleftrightarrow> s_timer_list s = None \<and> s_timer_overflow_list s = None"

lemma tick_handler_total:
  assumes wb: "well_behaved to_ticks call" and lists: "timer_lists s cs os"
  shows "\<exists>s' cs' os'. nl_swtimer_rtos_tick_handler call to_ticks ns s = Some s' \<and>
     timer_lists s' cs' os' \<and> due s' cs' = {} \<and> s_swtimer_tick_count s' = s_swtimer_tick_count s + 1"
proof -
  obtain s2 cs2 os2 where s2: "nl_swtimer_rtos_tick_handler call to_ticks ns s = run_expired call to_ticks (s_swtimer_tick_count s2) s2"
     "s_swtimer_tick_count s2 = s_swtimer_tick_count s + 1" "timer_lists s2 cs2 os2"
    using tick_advance [OF lists, of call to_ticks ns] by (metis (no_types, lifting))
  then show ?thesis using run_expired_total [OF wb s2(3)] by metis
qed

lemma swtimer_step_inv:
  assumes "well_behaved to_ticks call" "swtimer_inv s" "swtimer_step call to_ticks ns s s'"
  shows "swtimer_inv s'"
proof -
  obtain cs os where lists: "timer_lists s cs os" using assms(2) by (auto simp: swtimer_inv_def)
  from assms(3) show ?thesis
  proof cases
    case tick
    with tick_handler_total [OF assms(1) lists, of ns] show ?thesis by (auto simp: swtimer_inv_def)
  next
    case client
    with client_step_lists [OF _ lists] show ?thesis unfolding swtimer_inv_def by blast
  next
    case (sleep rtos before)
    then have "before \<le> rtos" by (auto simp: nl_swtimer_post_sleep_def Let_def split: if_splits)
    with post_sleep_lists [OF lists _ sleep(1), of ns] sleep(2) show ?thesis by (auto simp: swtimer_inv_def)
  qed
qed

lemma swtimer_system:
  assumes "well_behaved to_ticks call"
  shows "invariant_system swtimer_boot (swtimer_step call to_ticks ns) swtimer_inv"
proof
  show "swtimer_inv s" if "swtimer_boot s" for s
    unfolding swtimer_inv_def using that
    by (intro exI [of _ "[]"]) (simp add: swtimer_boot_def timer_lists_def)
qed (use assms in \<open>blast intro: swtimer_step_inv\<close>)

section \<open>Properties\<close>

text \<open>
  C5: in every state the system reaches by ticks, sleeps and calls of the timer functions' clients,
  the two timer lists are finite chains without a common timer, sorted by expiry. The timer functions
  keep to the interface (they call start and cancel, and ask for a restart only of a timer they left
  inactive), and no sleep reaches across the overflow of the tick counter.
\<close>

theorem nl_swtimer_reachable_inv:
  assumes "well_behaved to_ticks call" "swtimer_boot s" "(swtimer_step call to_ticks ns)\<^sup>*\<^sup>* s t"
  shows "swtimer_inv t"
  using invariant_system.reachable_inv [OF swtimer_system [OF assms(1)] assms(2,3)] .

text \<open>
  Starting an inactive timer puts it behind all timers that do not expire later, in the list of
  this round or, when its expiry overflows the counter, in the list of the next; the order of the
  other timers and their expiries stay. Starting an active timer fails the assertion.
\<close>

theorem nl_swtimer_start_inserts:
  assumes "timer_lists s cs os" "t_func (timers s t) \<noteq> None"
  shows "if t \<in> set (cs @ os) then nl_swtimer_start to_ticks t ms s = None
     else \<exists>s'. nl_swtimer_start to_ticks t ms s = Some s' \<and> delay_of s' = (delay_of s)(t := expiry s (to_ticks ms)) \<and>
       (if in_this_round s (to_ticks ms)
        then timer_lists s' (insert_by (delay_of s) (expiry s (to_ticks ms)) t cs) os
        else timer_lists s' cs (insert_by (delay_of s) (expiry s (to_ticks ms)) t os))"
proof (cases "t \<in> set (cs @ os)")
  case True
  then show ?thesis
    using is_active_spec [OF assms(1), of t] by (simp add: nl_swtimer_start_def nl_swtimer_insert_locked_def)
next
  case False
  with insert_locked_spec [OF assms(1) False assms(2), of "to_ticks ms"] assms(2) show ?thesis
    by (auto simp: nl_swtimer_start_def)
qed

text \<open>
  C1: a timer that is started runs on time: with timer functions that do not touch other timers, it
  is not called during the ticks before its delay is over, and it is called by the tick that ends
  the delay, also when the tick counter overflows in between.
\<close>

theorem nl_swtimer_on_time:
  assumes "swtimer_inv s" "ticks_left s t = None" "ready s t" "restart_only runs call"
  shows "\<exists>s1. nl_swtimer_start to_ticks t ms s = Some s1 \<and>
     (\<forall>n < delay_ticks to_ticks ms. \<exists>s2 rs. run_ticks call to_ticks ns n s1 = Some s2 \<and>
        runs (swtimer_state.more s2) = runs (swtimer_state.more s) @ rs \<and> t \<notin> set rs) \<and>
     (\<exists>s3 rs. run_ticks call to_ticks ns (delay_ticks to_ticks ms) s1 = Some s3 \<and>
        runs (swtimer_state.more s3) = runs (swtimer_state.more s) @ rs \<and> t \<in> set rs)"
proof -
  obtain cs os where lists: "timer_lists s cs os" using assms(1) by (auto simp: swtimer_inv_def)
  then obtain s1 cs1 os1 where s1: "nl_swtimer_start to_ticks t ms s = Some s1" "timer_lists s1 cs1 os1"
     "t \<in> set (cs1 @ os1)" "swtimer_state.more s1 = swtimer_state.more s" "remaining s1 cs1 t = delay_ticks to_ticks ms"
    using start_remaining [OF lists, of t to_ticks ms] assms(2,3) ticks_left_None [OF lists, of t]
    by (auto simp: ready_def delay_ticks_def)
  have "0 < remaining s1 cs1 t" using s1(5) by (simp add: delay_ticks_def)
  then show ?thesis
    using s1(1) run_ticks_waiting [OF assms(4) s1(2,3), of _ to_ticks ns]
      run_ticks_fires [OF assms(4) s1(2,3), of to_ticks ns]
    unfolding s1(4,5) by blast
qed

text \<open>
  C4: when the timer functions do not touch the timers, that is, change only the state of their own
  module and at most ask for a restart of their own timer, one call of the tick handler calls exactly the
  timers that have at most one tick left, each once and in the order in which they expire, and brings
  every other active timer one tick nearer. A function that cancels or starts timers, which the interface
  allows, can take away a timer that is due; for those only termination and the invariant are shown.
\<close>

theorem nl_swtimer_tick_runs_due:
  assumes "swtimer_inv s" "restart_only runs call"
  shows "\<exists>s' rs. nl_swtimer_rtos_tick_handler call to_ticks ns s = Some s' \<and> swtimer_inv s' \<and>
     runs (swtimer_state.more s') = runs (swtimer_state.more s) @ rs \<and> distinct rs \<and>
     sorted (map (\<lambda>t. the (ticks_left s t)) rs) \<and>
     (\<forall>t. t \<in> set rs \<longleftrightarrow> ticks_left s t \<in> {Some 0, Some 1}) \<and>
     (\<forall>t n. ticks_left s t = Some (n + 2) \<longrightarrow> ticks_left s' t = Some (n + 1))"
proof -
  obtain cs os where lists: "timer_lists s cs os" using assms(1) by (auto simp: swtimer_inv_def)
  obtain s' cs' os' rs where r: "nl_swtimer_rtos_tick_handler call to_ticks ns s = Some s'"
     "runs (swtimer_state.more s') = runs (swtimer_state.more s) @ rs" "tick_effect s cs os rs s' cs' os'"
    using tick_handler_runs [OF assms(2) lists, of to_ticks ns] by blast
  then have lists': "timer_lists s' cs' os'" and rs: "set rs = {t \<in> set (cs @ os). remaining s cs t \<le> 1}"
     "sorted (map (remaining s cs) rs)" "distinct rs" by (auto simp: tick_effect_def)
  have "map (\<lambda>t. the (ticks_left s t)) rs = map (remaining s cs) rs"
    using rs(1) by (auto simp: ticks_left_lists [OF lists] intro!: map_cong)
  then have "sorted (map (\<lambda>t. the (ticks_left s t)) rs)" using rs(2) by metis
  moreover have "t \<in> set rs \<longleftrightarrow> ticks_left s t \<in> {Some 0, Some 1}" for t
    unfolding rs(1) ticks_left_lists [OF lists] by auto
  moreover have "ticks_left s t = Some (n + 2) \<Longrightarrow> ticks_left s' t = Some (n + 1)" for t n
    using r(3) unfolding ticks_left_lists [OF lists] ticks_left_lists [OF lists'] tick_effect_def
    by (auto split: if_splits)
  moreover have "swtimer_inv s'" using lists' by (auto simp: swtimer_inv_def)
  ultimately show ?thesis using r(1,2) rs(3) by (intro exI [of _ s'] exI [of _ rs]) simp
qed

text \<open>
  C20: the tick handler returns whatever the timer functions do with timers, as long as they keep to
  the interface: the functions may start, cancel and initialise timers and ask for a restart, and
  afterwards no active timer is due.
\<close>

theorem nl_swtimer_tick_returns:
  assumes "swtimer_inv s" "well_behaved to_ticks call"
  shows "\<exists>s'. nl_swtimer_rtos_tick_handler call to_ticks ns s = Some s' \<and> swtimer_inv s' \<and>
     s_swtimer_tick_count s' = s_swtimer_tick_count s + 1 \<and> (\<forall>t. ticks_left s' t \<noteq> Some 0)"
proof -
  obtain cs os where lists: "timer_lists s cs os" using assms(1) by (auto simp: swtimer_inv_def)
  obtain s' cs' os' where r: "nl_swtimer_rtos_tick_handler call to_ticks ns s = Some s'"
     "timer_lists s' cs' os'" "due s' cs' = {}" "s_swtimer_tick_count s' = s_swtimer_tick_count s + 1"
    using tick_handler_total [OF assms(2) lists, of ns] by blast
  have "ticks_left s' t \<noteq> Some 0" for t
    unfolding ticks_left_lists [OF r(2)] using r(3) unat_le_word32 [of "s_swtimer_tick_count s'"]
    by (auto simp: remaining_def due_def word_le_nat_alt)
  with r show ?thesis by (auto simp: swtimer_inv_def)
qed

text \<open>
  C21: cancelling returns whether the timer was active, and afterwards it is not, while all other
  timers keep the ticks they have left.
\<close>

theorem nl_swtimer_cancel_removes:
  assumes "swtimer_inv s"
  shows "\<exists>s'. nl_swtimer_cancel t s = Some (ticks_left s t \<noteq> None, s') \<and> swtimer_inv s' \<and>
     nl_swtimer_is_active s' t = Some False \<and> (\<forall>x. x \<noteq> t \<longrightarrow> ticks_left s' x = ticks_left s x)"
proof -
  obtain s' where s': "nl_swtimer_cancel t s = Some (ticks_left s t \<noteq> None, s')" "swtimer_inv s'"
     "ticks_left s' = (ticks_left s)(t := None)" using swtimer.cancel_law [OF assms] by blast
  then obtain cs os where lists: "timer_lists s' cs os" by (auto simp: swtimer_inv_def)
  have "nl_swtimer_is_active s' t = Some False"
    using s'(3) is_active_spec [OF lists, of t] ticks_left_None [OF lists, of t] by (simp add: nl_swtimer_is_active_def)
  with s' show ?thesis by auto
qed

text \<open>
  C22: when \<open>nl_swtimer_pre_sleep\<close> lets the device sleep, every active timer is still ahead and no timer
  expires within the sleep it allows; after a sleep of at most that many ticks every timer is nearer
  by the ticks slept and the system time has advanced by them. The idle time asked for is taken not
  to reach past the overflow of the counter, as the comment on the sleep hooks says.
\<close>

theorem nl_swtimer_sleep_keeps_expiries:
  assumes "swtimer_inv s" "nl_swtimer_pre_sleep ut ns rtos idle0 s = Some ((True, before, idle), s1)"
    and "unat (s_swtimer_tick_count s) + unat idle0 < 2 ^ 32"
    and "before \<le> rtos2" "unat rtos2 - unat before \<le> unat idle"
  shows "\<exists>s2. nl_swtimer_post_sleep ns rtos2 before s1 = Some s2 \<and> swtimer_inv s2 \<and>
     nl_swtimer_get_time_ns s2 = nl_swtimer_get_time_ns s + ucast (rtos2 - before) * ns \<and>
     (\<forall>t n. ticks_left s t = Some n \<longrightarrow> 0 < n \<and> unat idle \<le> n \<and>
        ticks_left s2 t = Some (n - (unat rtos2 - unat before)))"
proof -
  obtain cs os where lists: "timer_lists s cs os" using assms(1) by (auto simp: swtimer_inv_def)
  note pre = pre_sleep_true [OF assms(2)]
  have "unat idle \<le> unat idle0" using pre by (simp add: word_le_nat_alt)
  then obtain s2 where s2: "nl_swtimer_post_sleep ns rtos2 before s = Some s2" "timer_lists s2 cs os"
     "unat (s_swtimer_tick_count s2) = unat (s_swtimer_tick_count s) + (unat rtos2 - unat before)"
     "\<And>t. delay_of s2 t = delay_of s t" "s_system_time_ns s2 = s_system_time_ns s + ucast (rtos2 - before) * ns"
    using post_sleep_lists [OF lists assms(4), of ns] assms(3,5) by auto
  have "0 < n \<and> unat idle \<le> n \<and> ticks_left s2 t = Some (n - (unat rtos2 - unat before))" if "ticks_left s t = Some n" for t n
    using that pre_sleep_left [OF lists assms(2,3) that] s2(3,4)
    unfolding ticks_left_lists [OF lists] ticks_left_lists [OF s2(2)]
    by (auto simp: remaining_def split: if_splits)
  with s2 pre show ?thesis by (auto simp: swtimer_inv_def nl_swtimer_get_time_ns_def)
qed

text \<open>
  Initialising a timer that is active loses the timers behind it: the list then ends at that
  timer, and the timers that were to expire later are no longer active.
\<close>

theorem nl_swtimer_init_active_truncates:
  assumes "timer_lists s (us @ t # vs) os" "v \<in> set vs"
  shows "nl_swtimer_is_active s v = Some True \<and>
     timer_in_list_locked (nl_swtimer_init t f a s) (s_timer_list (nl_swtimer_init t f a s)) v = Some False"
proof
  show "nl_swtimer_is_active s v = Some True"
    using is_active_spec [OF assms(1), of v] assms(2) by (simp add: nl_swtimer_is_active_def)
  have "v \<notin> set (us @ [t])" using assms by (auto simp: timer_lists_def)
  with timer_in_list_locked_spec [OF init_active_path [OF assms(1), unfolded path_chain], of f a v]
  show "timer_in_list_locked (nl_swtimer_init t f a s) (s_timer_list (nl_swtimer_init t f a s)) v = Some False"
    by (simp add: deref_simps del: nl_swtimer_init_simps)
qed

section \<open>Witnesses\<close>

text \<open>A timer function that records its calls, and timers on a counter that overflows in two ticks.\<close>

definition recorder :: "timer_ptr list swtimer_state_scheme swtimer_call" where
  "recorder f p a s = Some (0, s\<lparr>swtimer_state.more := swtimer_state.more s @ [p]\<rparr>)"

definition idle_timers :: "timer_ptr list swtimer_state_scheme" where
  "idle_timers = \<lparr>s_timer_list = None, s_timer_overflow_list = None, s_swtimer_tick_count = 0xFFFFFFFE,
     s_system_time_ns = 0, g_swtimer_prevent_sleep = False,
     timers = (\<lambda>_. \<lparr>t_func = Some 1, t_arg = 0, t_delay = 0, t_next = None\<rparr>), \<dots> = []\<rparr>"

definition two_timers :: "timer_ptr list swtimer_state_scheme" where
  "two_timers = idle_timers\<lparr>s_timer_list := Some 3, s_swtimer_tick_count := 10,
     timers := (\<lambda>t. \<lparr>t_func = Some 1, t_arg = 0, t_delay = (if t = 3 then 12 else 20),
       t_next = (if t = 3 then Some 4 else None)\<rparr>)\<rparr>"

lemma recorder_restart_only: "restart_only id recorder"
  by (simp add: restart_only_def recorder_def)

lemma recorder_well_behaved: "well_behaved to_ticks recorder"
  unfolding well_behaved_def recorder_def by (auto intro: client_step.own r_into_rtranclp)

lemma idle_timers_facts:
  "swtimer_boot idle_timers" "timer_lists idle_timers [] []" "swtimer_inv idle_timers"
  "ticks_left idle_timers t = None" "ready idle_timers t" "swtimer_state.more idle_timers = []"
  unfolding swtimer_inv_def
  by (auto simp: swtimer_boot_def timer_lists_def idle_timers_def ticks_left_def ready_def
      timer_in_list_locked.simps intro!: exI [of _ "[]"])

lemma two_timers_lists: "timer_lists two_timers [3, 4] []"
  by (simp add: two_timers_def idle_timers_def timer_lists_def)

lemma two_timers_inv: "swtimer_inv two_timers"
  using two_timers_lists unfolding swtimer_inv_def by blast

lemma two_timers_left: "ticks_left two_timers 3 = Some 2" "ticks_left two_timers 4 = Some 10"
  "ticks_left two_timers 5 = None"
  by (simp_all add: ticks_left_lists [OF two_timers_lists] remaining_def)
    (simp_all add: two_timers_def idle_timers_def)

lemma nl_swtimer_reachable_inv_witness:
  "swtimer_inv (nl_swtimer_init 3 (Some 2) 0 idle_timers)"
proof (rule nl_swtimer_reachable_inv [OF recorder_well_behaved idle_timers_facts(1)])
  have "client_step (\<lambda>ms. ms) idle_timers (nl_swtimer_init 3 (Some 2) 0 idle_timers)"
    by (rule client_step.initialises)
      (simp add: nl_swtimer_is_active_def is_active_spec [OF idle_timers_facts(2)])
  then show "(swtimer_step recorder (\<lambda>ms. ms) 1)\<^sup>*\<^sup>* idle_timers (nl_swtimer_init 3 (Some 2) 0 idle_timers)"
    by (intro r_into_rtranclp swtimer_step.client)
qed

lemma nl_swtimer_start_inserts_witness:
  "\<exists>s'. nl_swtimer_start (\<lambda>ms. ms) 5 2 two_timers = Some s' \<and> timer_lists s' [3, 5, 4] []"
  using nl_swtimer_start_inserts [OF two_timers_lists, of 5 "\<lambda>ms. ms" 2]
  by (auto simp: two_timers_def idle_timers_def in_this_round_def expiry_def ticks_at_least_1_def insert_by_def)

lemma nl_swtimer_on_time_witness:
  "\<exists>s1. nl_swtimer_start (\<lambda>ms. ms) 3 5 idle_timers = Some s1 \<and>
     (\<exists>s3. run_ticks recorder (\<lambda>ms. ms) 1 5 s1 = Some s3 \<and> 3 \<in> set (swtimer_state.more s3))"
proof -
  have d: "delay_ticks (\<lambda>ms. ms) 5 = 5" by (simp add: delay_ticks_def)
  show ?thesis
    using nl_swtimer_on_time [where t = 3 and to_ticks = "\<lambda>ms. ms" and ms = 5 and ns = 1,
      OF idle_timers_facts(3-5) recorder_restart_only]
    unfolding d by (auto simp: idle_timers_facts(6))
qed

lemma nl_swtimer_tick_runs_due_witness:
  "\<exists>s'. nl_swtimer_rtos_tick_handler recorder (\<lambda>ms. ms) 1 two_timers = Some s' \<and> ticks_left s' 3 = Some 1"
  using nl_swtimer_tick_runs_due [OF two_timers_inv recorder_restart_only, of "\<lambda>ms. ms" 1] two_timers_left(1)
  by (metis add.commute add_0 numeral_2_eq_2 One_nat_def)

lemma nl_swtimer_tick_returns_witness:
  "\<exists>s'. nl_swtimer_rtos_tick_handler recorder (\<lambda>ms. ms) 1 two_timers = Some s' \<and> swtimer_inv s'"
  using nl_swtimer_tick_returns [OF two_timers_inv recorder_well_behaved, of "\<lambda>ms. ms" 1] by blast

lemma nl_swtimer_cancel_removes_witness:
  "\<exists>s'. nl_swtimer_cancel 3 two_timers = Some (True, s') \<and> ticks_left s' 4 = Some 10"
  using nl_swtimer_cancel_removes [OF two_timers_inv, of 3] two_timers_left by auto

lemma nl_swtimer_sleep_keeps_expiries_witness:
  "\<exists>s2. nl_swtimer_post_sleep 7 12 10 two_timers = Some s2 \<and> ticks_left s2 4 = Some 8"
proof -
  have pre: "nl_swtimer_pre_sleep False 7 10 100 two_timers = Some ((True, 10, 2), two_timers)"
    by (simp add: nl_swtimer_pre_sleep_def two_timers_def idle_timers_def)
  have "unat (s_swtimer_tick_count two_timers) + unat (100 :: u32) < 2 ^ 32" by (simp add: two_timers_def)
  from nl_swtimer_sleep_keeps_expiries [OF two_timers_inv pre this, of 12] two_timers_left(2) show ?thesis by auto
qed

lemma nl_swtimer_init_active_truncates_witness:
  "nl_swtimer_is_active two_timers 4 = Some True \<and>
   timer_in_list_locked (nl_swtimer_init 3 (Some 1) 0 two_timers)
     (s_timer_list (nl_swtimer_init 3 (Some 1) 0 two_timers)) 4 = Some False"
  using nl_swtimer_init_active_truncates [of two_timers "[]" 3 "[4]" "[]" 4] two_timers_lists by simp

end
