(* ===== verification/Nlswtimer_test.thy ===== *)
theory Nlswtimer_test
  imports Nlswtimer
begin

text \<open>
  The sanity test of \<open>src/src/nlswtimer.c\<close>, which unit-test builds run at boot: it starts and cancels
  five timers in many orders and asserts the order of the list after each. The test is a script of
  calls and assertions on the model of the service; the lemmas show that the service follows a sorted
  association list of timers and delays, on which the script is evaluated. Parameters: the address
  \<open>tm i\<close> of \<open>timers[i]\<close> and the two conversions between ticks and milliseconds, which are outside of
  the repository.
\<close>

section \<open>The test\<close>

definition timer_delays :: "nat list" where
  "timer_delays = [25, 50, 100, 200, 500]"

definition NUM_TEST_TIMERS :: nat where
  "NUM_TEST_TIMERS = 5"

text \<open>The walk of \<open>verify_list1\<close> from the timer with the first index on; a timer that was removed is skipped.\<close>

primrec verify_from :: "(nat \<Rightarrow> timer_ptr) \<Rightarrow> nat option \<Rightarrow> 'a swtimer_state_scheme \<Rightarrow> nat list \<Rightarrow> timer_ptr option \<Rightarrow> bool" where
  "verify_from tm removed s [] timer_p \<longleftrightarrow> timer_p = None"
| "verify_from tm removed s (i # is) timer_p \<longleftrightarrow>
     (if removed \<noteq> Some i
      then timer_p = Some (tm i) \<and> delay_of s (tm i) = word_of_nat (timer_delays ! i) \<and> verify_from tm removed s is (next_of s (tm i))
      else verify_from tm removed s is timer_p)"

definition verify_list1 :: "(nat \<Rightarrow> timer_ptr) \<Rightarrow> nat option \<Rightarrow> 'a swtimer_state_scheme \<Rightarrow> bool" where
  "verify_list1 tm removed_timer s \<longleftrightarrow> verify_from tm removed_timer s [0..<NUM_TEST_TIMERS] (s_timer_list s)"

definition verify_list2 :: "(nat \<Rightarrow> timer_ptr) \<Rightarrow> 'a swtimer_state_scheme \<Rightarrow> bool" where
  "verify_list2 tm s \<longleftrightarrow>
     s_timer_list s = Some (tm 0) \<and> delay_of s (tm 0) = 25 \<and>
     next_of s (tm 0) = Some (tm 1) \<and> delay_of s (tm 1) = 25 \<and>
     next_of s (tm 1) = Some (tm 2) \<and> delay_of s (tm 2) = 25 \<and>
     next_of s (tm 2) = Some (tm 3) \<and> delay_of s (tm 3) = 25 \<and>
     next_of s (tm 3) = Some (tm 4) \<and> delay_of s (tm 4) = 25 \<and>
     next_of s (tm 4) = None"

datatype test_op = Start nat nat | Cancel nat | Verify_list1 "nat option" | Verify_list2 | Assert_empty

primrec test_step :: "(u32 \<Rightarrow> u32) \<Rightarrow> (u32 \<Rightarrow> u32) \<Rightarrow> (nat \<Rightarrow> timer_ptr) \<Rightarrow> test_op \<Rightarrow>
    'a swtimer_state_scheme \<Rightarrow> 'a swtimer_state_scheme option" where
  "test_step to_ticks to_ms tm (Start i n) s = nl_swtimer_start to_ticks (tm i) (to_ms (word_of_nat n - 1)) s"
| "test_step to_ticks to_ms tm (Cancel i) s = map_option snd (nl_swtimer_cancel (tm i) s)"
| "test_step to_ticks to_ms tm (Verify_list1 r) s = (if verify_list1 tm r s then Some s else None)"
| "test_step to_ticks to_ms tm Verify_list2 s = (if verify_list2 tm s then Some s else None)"
| "test_step to_ticks to_ms tm Assert_empty s = (if s_timer_list s = None then Some s else None)"

primrec run_test :: "(u32 \<Rightarrow> u32) \<Rightarrow> (u32 \<Rightarrow> u32) \<Rightarrow> (nat \<Rightarrow> timer_ptr) \<Rightarrow> test_op list \<Rightarrow>
    'a swtimer_state_scheme \<Rightarrow> 'a swtimer_state_scheme option" where
  "run_test to_ticks to_ms tm [] s = Some s"
| "run_test to_ticks to_ms tm (x # xs) s = do { s1 \<leftarrow> test_step to_ticks to_ms tm x s; run_test to_ticks to_ms tm xs s1 }"

text \<open>The rounds of the test: five starts, what comes between, five cancellations, an empty list.\<close>

definition start_all :: "nat list \<Rightarrow> test_op list" where
  "start_all is = map (\<lambda>i. Start i (timer_delays ! i)) is"

definition cancel_all :: "test_op list" where
  "cancel_all = [Cancel 0, Cancel 1, Cancel 2, Cancel 3, Cancel 4, Assert_empty]"

text \<open>The orders in which the timers are started, first the shorter timer later, then the longer one earlier.\<close>

definition later_orders :: "nat list list" where
  "later_orders = [[0, 1, 2, 3, 4], [1, 0, 2, 3, 4], [1, 2, 0, 3, 4], [1, 2, 3, 0, 4], [1, 2, 3, 4, 0]]"

definition earlier_orders :: "nat list list" where
  "earlier_orders = [[4, 3, 2, 1, 0], [4, 3, 2, 0, 1], [4, 3, 0, 2, 1], [4, 0, 3, 2, 1], [0, 4, 3, 2, 1]]"

definition order_round :: "nat list \<Rightarrow> test_op list" where
  "order_round is = start_all is @ [Verify_list1 None] @ cancel_all"

definition same_delay_round :: "test_op list" where
  "same_delay_round = map (\<lambda>i. Start i 25) [0, 1, 2, 3, 4] @ [Verify_list2] @ cancel_all"

definition removal_round :: "nat \<Rightarrow> test_op list" where
  "removal_round k = start_all [0, 1, 2, 3, 4] @ [Cancel k, Verify_list1 (Some k)] @ cancel_all"

definition sanity_script :: "test_op list" where
  "sanity_script = concat (map order_round later_orders) @ concat (map order_round earlier_orders) @
     same_delay_round @ concat (map removal_round [0, 1, 2, 3, 4])"

definition nl_swtimer_sanity_test :: "(u32 \<Rightarrow> u32) \<Rightarrow> (u32 \<Rightarrow> u32) \<Rightarrow> (nat \<Rightarrow> timer_ptr) \<Rightarrow> nat \<Rightarrow>
    'a swtimer_state_scheme \<Rightarrow> 'a swtimer_state_scheme option" where
  "nl_swtimer_sanity_test to_ticks to_ms tm f s =
     (let s1 = fold (\<lambda>i. nl_swtimer_init (tm i) (Some f) 0) [0, 1, 2, 3, 4] s
      in if s_timer_list s1 = None then run_test to_ticks to_ms tm sanity_script s1 else None)"

section \<open>The specification\<close>

text \<open>The active timers with their delays, in the order of the list.\<close>

type_synonym schedule = "(nat \<times> nat) list"

definition sched_insert :: "nat \<Rightarrow> nat \<Rightarrow> schedule \<Rightarrow> schedule" where
  "sched_insert i n xs = takeWhile (\<lambda>x. snd x \<le> n) xs @ (i, n) # dropWhile (\<lambda>x. snd x \<le> n) xs"

primrec sched_step :: "test_op \<Rightarrow> schedule \<Rightarrow> schedule option" where
  "sched_step (Start i n) xs =
     (if i < 5 \<and> 0 < n \<and> n < 1000 \<and> \<not> list_ex (\<lambda>x. fst x = i) xs then Some (sched_insert i n xs) else None)"
| "sched_step (Cancel i) xs = (if i < 5 then Some (filter (\<lambda>x. fst x \<noteq> i) xs) else None)"
| "sched_step (Verify_list1 r) xs =
     (if xs = map (\<lambda>i. (i, timer_delays ! i)) (filter (\<lambda>i. r \<noteq> Some i) [0, 1, 2, 3, 4]) then Some xs else None)"
| "sched_step Verify_list2 xs = (if xs = map (\<lambda>i. (i, 25)) [0, 1, 2, 3, 4] then Some xs else None)"
| "sched_step Assert_empty xs = (if xs = [] then Some xs else None)"

primrec sched_run :: "test_op list \<Rightarrow> schedule \<Rightarrow> schedule option" where
  "sched_run [] xs = Some xs"
| "sched_run (x # ops) xs = do { ys \<leftarrow> sched_step x xs; sched_run ops ys }"

lemma sanity_script_schedule: "sched_run sanity_script [] = Some []"
  by code_simp

definition represents :: "(nat \<Rightarrow> timer_ptr) \<Rightarrow> 'a swtimer_state_scheme \<Rightarrow> schedule \<Rightarrow> bool" where
  "represents tm s xs \<longleftrightarrow> timer_lists s (map (\<lambda>x. tm (fst x)) xs) [] \<and> s_swtimer_tick_count s = 0 \<and>
     (\<forall>x \<in> set xs. fst x < 5 \<and> snd x < 1000 \<and> delay_of s (tm (fst x)) = word_of_nat (snd x)) \<and>
     (\<forall>i < 5. t_func (timers s (tm i)) \<noteq> None)"

text \<open>What the conversions are used for: ticks survive them, and a delay has one tick more.\<close>

definition conversions :: "(u32 \<Rightarrow> u32) \<Rightarrow> (u32 \<Rightarrow> u32) \<Rightarrow> bool" where
  "conversions to_ticks to_ms \<longleftrightarrow> (\<forall>n < 1000. to_ticks (to_ms (word_of_nat n)) = word_of_nat (n + 1))"

section \<open>The service follows the specification\<close>

lemma small_words: "m < 1000 \<Longrightarrow> n < 1000 \<Longrightarrow> (word_of_nat m :: u32) \<le> word_of_nat n \<longleftrightarrow> m \<le> n"
  by (simp add: word_le_nat_alt unat_of_nat)

lemma start_represents:
  assumes "represents tm s xs" "conversions to_ticks to_ms" "inj_on tm {..<5}"
    and "i < 5" "0 < n" "n < 1000" "\<forall>x \<in> set xs. fst x \<noteq> i"
  shows "\<exists>s'. nl_swtimer_start to_ticks (tm i) (to_ms (word_of_nat n - 1)) s = Some s' \<and> represents tm s' (sched_insert i n xs)"
proof -
  let ?cs = "map (\<lambda>x. tm (fst x)) xs"
  have r: "timer_lists s ?cs []" "s_swtimer_tick_count s = 0" "t_func (timers s (tm i)) \<noteq> None"
    "\<And>x. x \<in> set xs \<Longrightarrow> fst x < 5 \<and> snd x < 1000 \<and> delay_of s (tm (fst x)) = word_of_nat (snd x)"
    using assms(1,4) by (auto simp: represents_def)
  have t: "tm i \<notin> set (?cs @ [])"
    using assms(3,4,7) r(4) by (auto simp: inj_on_def)
  have "(word_of_nat n - 1 :: u32) = word_of_nat (n - 1)" using assms(5) by (simp add: of_nat_diff)
  moreover have "to_ticks (to_ms (word_of_nat (n - 1))) = word_of_nat n"
  proof -
    have "n - 1 < 1000" using assms(6) by simp
    with assms(2) have "to_ticks (to_ms (word_of_nat (n - 1))) = word_of_nat (n - 1 + 1)" unfolding conversions_def by blast
    with assms(5) show ?thesis by simp
  qed
  ultimately have d: "to_ticks (to_ms (word_of_nat n - 1)) = word_of_nat n" by simp
  have "unat (word_of_nat n :: u32) = n" using assms(6) by (simp add: unat_of_nat)
  then have pos: "(word_of_nat n :: u32) \<noteq> 0" using assms(5) by (metis unat_0 less_irrefl)
  then have e: "expiry s (word_of_nat n) = word_of_nat n" "in_this_round s (word_of_nat n)"
    using r(2) by (simp_all add: expiry_def ticks_at_least_1_def in_this_round_def word_neq_0_conv)
  obtain s' where s': "nl_swtimer_insert_locked (tm i) (word_of_nat n) s = Some s'" "list_op s s'"
    "delay_of s' = (delay_of s)(tm i := word_of_nat n)"
    "timer_lists s' (insert_by (delay_of s) (word_of_nat n) (tm i) ?cs) []"
    using insert_locked_spec [OF r(1) t r(3), of "word_of_nat n"] e by auto
  have tw: "takeWhile (\<lambda>x. delay_of s (tm (fst x)) \<le> word_of_nat n) xs = takeWhile (\<lambda>x. snd x \<le> n) xs"
    "dropWhile (\<lambda>x. delay_of s (tm (fst x)) \<le> word_of_nat n) xs = dropWhile (\<lambda>x. snd x \<le> n) xs"
    using r(4) assms(6) small_words by (auto intro!: takeWhile_cong dropWhile_cong)
  have ins: "insert_by (delay_of s) (word_of_nat n) (tm i) ?cs = map (\<lambda>x. tm (fst x)) (sched_insert i n xs)"
    by (simp add: insert_by_def sched_insert_def takeWhile_map dropWhile_map comp_def tw)
  have set: "set (sched_insert i n xs) = insert (i, n) (set xs)"
    using set_append [of "takeWhile (\<lambda>x. snd x \<le> n) xs" "dropWhile (\<lambda>x. snd x \<le> n) xs"]
    by (auto simp: sched_insert_def)
  have "\<forall>x \<in> set xs. tm (fst x) \<noteq> tm i" using t by (force simp: image_iff)
  then have "represents tm s' (sched_insert i n xs)"
    using s'(2,4) fun_cong [OF s'(3)] r assms(1,4,6) set unfolding represents_def ins [symmetric] by (auto simp: list_op_def)
  with s'(1) r(3) show ?thesis by (auto simp: nl_swtimer_start_def d)
qed

lemma cancel_represents:
  assumes "represents tm s xs" "inj_on tm {..<5}" "i < 5"
  shows "\<exists>b s'. nl_swtimer_cancel (tm i) s = Some (b, s') \<and> represents tm s' (filter (\<lambda>x. fst x \<noteq> i) xs)"
proof -
  let ?cs = "map (\<lambda>x. tm (fst x)) xs"
  have r: "timer_lists s ?cs []" "\<And>x. x \<in> set xs \<Longrightarrow> fst x < 5" using assms(1) by (auto simp: represents_def)
  obtain b s' where s': "nl_swtimer_cancel (tm i) s = Some (b, s')" "list_op s s'" "delay_of s' = delay_of s"
    "timer_lists s' (removeAll (tm i) ?cs) []"
    using cancel_spec [OF r(1), of "tm i"] by auto
  have "removeAll (tm i) ?cs = map (\<lambda>x. tm (fst x)) (filter (\<lambda>x. tm i \<noteq> tm (fst x)) xs)"
    by (simp add: removeAll_filter_not_eq filter_map comp_def)
  also have "filter (\<lambda>x. tm i \<noteq> tm (fst x)) xs = filter (\<lambda>x. fst x \<noteq> i) xs"
    using assms(2,3) r(2) by (intro filter_cong) (auto simp: inj_on_def)
  finally have "represents tm s' (filter (\<lambda>x. fst x \<noteq> i) xs)"
    using assms(1) s'(2,4) fun_cong [OF s'(3)] by (auto simp: represents_def list_op_def)
  with s'(1) show ?thesis by blast
qed

lemma verify_from_chain:
  "chain Some (next_of s) p (map tm (filter (\<lambda>i. r \<noteq> Some i) is)) None \<Longrightarrow>
   \<forall>i \<in> set is. r \<noteq> Some i \<longrightarrow> delay_of s (tm i) = word_of_nat (timer_delays ! i) \<Longrightarrow> verify_from tm r s is p"
  by (induction "is" arbitrary: p) auto

lemma step_represents:
  assumes "sched_step x xs = Some ys" "represents tm s xs" "conversions to_ticks to_ms" "inj_on tm {..<5}"
  shows "\<exists>s'. test_step to_ticks to_ms tm x s = Some s' \<and> represents tm s' ys"
proof (cases x)
  case (Start i n)
  with assms start_represents [OF assms(2-4), of i n] show ?thesis by (auto simp: list_ex_iff split: if_splits)
next
  case (Cancel i)
  with assms cancel_represents [OF assms(2,4), of i] show ?thesis by (auto split: if_splits)
next
  case (Verify_list1 r)
  let ?is = "filter (\<lambda>i. r \<noteq> Some i) [0, 1, 2, 3, 4] :: nat list"
  have "xs = map (\<lambda>i. (i, timer_delays ! i)) ?is" "ys = xs" using assms(1) Verify_list1 by (auto split: if_splits)
  then have "map (\<lambda>x. tm (fst x)) xs = map tm ?is" "\<forall>i \<in> set ?is. delay_of s (tm i) = word_of_nat (timer_delays ! i)"
    using assms(2) by (auto simp: represents_def comp_def simp del: filter.simps)
  then have "verify_from tm r s [0, 1, 2, 3, 4] (s_timer_list s)"
    using assms(2) by (intro verify_from_chain) (simp_all add: represents_def timer_lists_def del: filter.simps)
  moreover have "[0..<NUM_TEST_TIMERS] = [0, 1, 2, 3, 4]" by code_simp
  ultimately show ?thesis using Verify_list1 \<open>ys = xs\<close> assms(2) by (simp add: verify_list1_def)
next
  case Verify_list2
  with assms show ?thesis
    by (auto simp: represents_def timer_lists_def verify_list2_def split: if_splits)
next
  case Assert_empty
  with assms show ?thesis by (auto simp: represents_def timer_lists_def split: if_splits)
qed

lemma run_represents:
  "sched_run ops xs = Some ys \<Longrightarrow> represents tm s xs \<Longrightarrow> conversions to_ticks to_ms \<Longrightarrow> inj_on tm {..<5} \<Longrightarrow>
   \<exists>s'. run_test to_ticks to_ms tm ops s = Some s' \<and> represents tm s' ys"
proof (induction ops arbitrary: xs s)
  case (Cons x ops)
  then obtain xs1 where xs1: "sched_step x xs = Some xs1" "sched_run ops xs1 = Some ys" by (auto split: bind_splits)
  from step_represents [OF xs1(1) Cons.prems(2-4)]
  obtain s1 where "test_step to_ticks to_ms tm x s = Some s1" "represents tm s1 xs1" by blast
  with Cons.IH [OF xs1(2) _ Cons.prems(3,4)] show ?case by auto
qed simp

text \<open>
  C19: The sanity test passes: run at boot, with no active timer and no tick counted, five distinct timers
  and conversions that are exact for short delays, every assertion of the test holds, in whichever of
  the orders the timers are started, with equal delays and after a removal at each place, and the test
  leaves no timer active.
\<close>

theorem nl_swtimer_sanity_test_passes:
  assumes "s_timer_list s = None" "s_timer_overflow_list s = None" "s_swtimer_tick_count s = 0"
    and "inj_on tm {..<5}" "conversions to_ticks to_ms"
  shows "\<exists>s'. nl_swtimer_sanity_test to_ticks to_ms tm f s = Some s' \<and> timer_lists s' [] []"
proof -
  let ?s1 = "fold (\<lambda>i. nl_swtimer_init (tm i) (Some f) 0) [0, 1, 2, 3, 4] s"
  have "timer_lists s [] []" using assms(1,2) by (simp add: timer_lists_def)
  then have "timer_lists ?s1 [] []" by (simp add: init_inactive_spec)
  moreover have "\<forall>i < 5. t_func (timers ?s1 (tm i)) \<noteq> None" by (auto simp: less_Suc_eq numeral_eq_Suc)
  ultimately have r: "represents tm ?s1 []" using assms(3) by (simp add: represents_def)
  then have "s_timer_list ?s1 = None" by (simp add: represents_def timer_lists_def)
  with run_represents [OF sanity_script_schedule r assms(5,4)] show ?thesis
    by (auto simp: nl_swtimer_sanity_test_def represents_def Let_def)
qed

lemma nl_swtimer_sanity_test_passes_witness:
  "\<exists>s'. nl_swtimer_sanity_test (\<lambda>ms. ms + 1) id (\<lambda>i. 100 + i) 7 (idle_timers\<lparr>s_swtimer_tick_count := 0\<rparr>) = Some s'"
proof -
  have "conversions (\<lambda>ms. ms + 1) id" by (simp add: conversions_def add.commute)
  moreover have "s_timer_list idle_timers = None" "s_timer_overflow_list idle_timers = None"
    by (simp_all add: idle_timers_def)
  ultimately show ?thesis using nl_swtimer_sanity_test_passes [of "idle_timers\<lparr>s_swtimer_tick_count := 0\<rparr>" "\<lambda>i. 100 + i" "\<lambda>ms. ms + 1" id 7] by auto
qed

end
