(* ===== verification/Nltime.thy ===== *)
theory Nltime
  imports Nlswtimer
begin

text \<open>
  The system time of \<open>src/src/nltime.c\<close>: milliseconds from the nanosecond counter of the software
  timers, by a multiplication with a millionth in 49-bit fixed point instead of a division. The
  lemmas show that no intermediate value overflows, that time does not run backwards, and how far
  the result is from the exact quotient. \<open>nl_get_time_native\<close> and \<open>nl_time_native_to_time_ms\<close>, which
  the variant without software timers calls, are outside the repository and are parameters.
\<close>

section \<open>Operations\<close>

definition millionth :: u32 where
  "millionth = 0x218DEF41"

definition nltime_get_system_ms :: "'a swtimer_state_scheme \<Rightarrow> u64" where
  "nltime_get_system_ms s =
     (let sys_time = nl_swtimer_get_time_ns s;
          upper = drop_bit 32 sys_time;
          lower = and sys_time 0xffffffff;
          upper = upper * ucast millionth;
          lower = lower * ucast millionth;
          upper = upper + drop_bit 32 lower;
          upper = upper + push_bit 16 1
      in drop_bit 17 upper)"

definition nltime_get_system_ms_native :: "(u32 \<Rightarrow> u32) \<Rightarrow> u32 \<Rightarrow> u64" where
  "nltime_get_system_ms_native to_ms time_native = ucast (to_ms time_native)"

definition US_PER_MS :: u64 where
  "US_PER_MS = 1000"

definition nltime_get_system_us :: "'a swtimer_state_scheme \<Rightarrow> u64" where
  "nltime_get_system_us s = nltime_get_system_ms s * US_PER_MS"

section \<open>Lemmas\<close>

lemma unat_millionth [simp]: "unat (ucast millionth :: u64) = 562949953"
  by (simp add: millionth_def)

text \<open>The sum of the two halves is the product shifted, without its carry being lost.\<close>

lemma split_product:
  fixes t m k :: nat
  assumes "0 < k"
  shows "t div k * m + (t mod k * m) div k = (t * m) div k"
proof -
  define a b where "a = t div k" and "b = t mod k"
  have t: "t = a * k + b" by (simp add: a_def b_def)
  have "t * m = b * m + a * m * k" unfolding t by (simp add: algebra_simps)
  then have "(t * m) div k = a * m + (b * m) div k" using assms by simp
  then show ?thesis by (simp add: a_def b_def)
qed

lemma nltime_get_system_ms_exact:
  "unat (nltime_get_system_ms s) =
     (unat (nl_swtimer_get_time_ns s) * 562949953 div 2 ^ 32 + 2 ^ 16) div 2 ^ 17"
proof -
  define t where "t = nl_swtimer_get_time_ns s"
  let ?u = "drop_bit 32 t" and ?l = "and t 0xffffffff"
  have low: "?l = take_bit 32 t" by (simp add: take_bit_eq_mask mask_eq_exp_minus_1)
  have l: "unat ?l = unat t mod 2 ^ 32" unfolding low unsigned_take_bit_eq by (simp add: take_bit_eq_mod)
  have u: "unat ?u = unat t div 2 ^ 32" unfolding unat_drop_bit_eq by (simp add: drop_bit_eq_div)
  have ub: "unat ?u < 2 ^ 32" unfolding u using unat_le_word64 [of t] by (simp add: less_mult_imp_div_less)
  have "unat ?u * 562949953 < 2 ^ 32 * 2 ^ 30" using ub by simp
  then have um: "unat (?u * ucast millionth) = unat ?u * 562949953"
    by (simp add: unat_word_ariths)
  have lb: "unat ?l < 2 ^ 32" unfolding l by simp
  then have "unat ?l * 562949953 < 2 ^ 32 * 2 ^ 30" by simp
  then have lm: "unat (drop_bit 32 (?l * ucast millionth)) = unat ?l * 562949953 div 2 ^ 32"
    by (simp add: unat_drop_bit_eq unat_word_ariths) (simp add: drop_bit_eq_div)
  have "unat ?l * 562949953 div 2 ^ 32 < 2 ^ 30" using lb by (simp add: less_mult_imp_div_less)
  then have sum: "unat (?u * ucast millionth + drop_bit 32 (?l * ucast millionth) + push_bit 16 1) =
      unat ?u * 562949953 + unat ?l * 562949953 div 2 ^ 32 + 2 ^ 16"
    using ub by (simp add: unat_word_ariths um lm)
  have "unat (nltime_get_system_ms s) =
      drop_bit 17 (unat (?u * ucast millionth + drop_bit 32 (?l * ucast millionth) + push_bit 16 1))"
    unfolding nltime_get_system_ms_def Let_def t_def [symmetric] by (rule unat_drop_bit_eq)
  also have "\<dots> = (unat t * 562949953 div 2 ^ 32 + 2 ^ 16) div 2 ^ 17"
    unfolding sum u l by (simp add: drop_bit_eq_div split_product)
  finally show ?thesis unfolding t_def .
qed


section \<open>Properties\<close>

text \<open>
  The millisecond time never overflows, is at most half a millisecond ahead of the nanosecond
  time, and falls behind by less than a millisecond and a share of 421312 in \<open>2 ^ 49\<close> of the time,
  which is what the rounded millionth misses.
\<close>

theorem nltime_get_system_ms_accuracy:
  shows "unat (nltime_get_system_ms s) * 10 ^ 6 \<le> unat (nl_swtimer_get_time_ns s) + 500000 \<and>
     2 ^ 49 * unat (nl_swtimer_get_time_ns s) \<le>
       2 ^ 49 * 10 ^ 6 * (unat (nltime_get_system_ms s) + 1) + 421312 * unat (nl_swtimer_get_time_ns s)"
proof -
  define t where "t = unat (nl_swtimer_get_time_ns s)"
  define q where "q = t * 562949953 div 2 ^ 32"
  define r where "r = unat (nltime_get_system_ms s)"
  have r: "r = (q + 2 ^ 16) div 2 ^ 17"
    unfolding r_def q_def t_def by (rule nltime_get_system_ms_exact)
  have "q * 4294967296 \<le> t * 562949953" "t * 562949953 < (q + 1) * 4294967296"
    unfolding q_def using div_times_less_eq_dividend [of "t * 562949953" "2 ^ 32"]
      dividend_less_div_times [of "2 ^ 32" "t * 562949953"] by simp_all
  moreover have "r * 131072 \<le> q + 65536" "q + 65536 < (r + 1) * 131072"
    unfolding r using div_times_less_eq_dividend [of "q + 2 ^ 16" "2 ^ 17"]
      dividend_less_div_times [of "2 ^ 17" "q + 2 ^ 16"] by simp_all
  ultimately have "r * 1000000 \<le> t + 500000" and up: "t * 562949953 < (q + 1) * 4294967296"
      and "q + 1 \<le> (r + 1) * 131072"
    by linarith+
  then have low: "t * 562949953 \<le> (r + 1) * 562949953421312"
    using mult_le_mono1 [of "q + 1" "(r + 1) * 131072" 4294967296] by simp
  from low have "562949953421312 * t \<le> 562949953421312000000 * (r + 1) + 421312 * t"
    using mult_le_mono2 [OF low, of 1000000] by (simp add: algebra_simps)
  with \<open>r * 1000000 \<le> t + 500000\<close> have "r * 10 ^ 6 \<le> t + 500000 \<and> 2 ^ 49 * t \<le> 2 ^ 49 * 10 ^ 6 * (r + 1) + 421312 * t" by simp
  then show ?thesis unfolding r_def t_def by blast
qed

text \<open>The millisecond and the microsecond time never run backwards while the counter does not.\<close>

theorem nltime_get_system_us_monotone:
  assumes "nl_swtimer_get_time_ns s \<le> nl_swtimer_get_time_ns s'"
  shows "nltime_get_system_ms s \<le> nltime_get_system_ms s' \<and> nltime_get_system_us s \<le> nltime_get_system_us s'"
proof -
  have ms: "unat (nltime_get_system_ms s) \<le> unat (nltime_get_system_ms s')"
    unfolding nltime_get_system_ms_exact using assms
    by (intro div_le_mono add_right_mono mult_le_mono1) (simp add: word_le_nat_alt)
  have us: "unat (nltime_get_system_us u) = unat (nltime_get_system_ms u) * 1000" for u :: "'c swtimer_state_scheme"
  proof -
    have "unat (nltime_get_system_ms u) \<le> (2 ^ 64 * 562949953 div 2 ^ 32 + 2 ^ 16) div 2 ^ 17"
      unfolding nltime_get_system_ms_exact
      by (intro div_le_mono add_right_mono mult_le_mono1 less_imp_le unat_le_word64)
    then show ?thesis by (simp add: nltime_get_system_us_def US_PER_MS_def unat_word_ariths)
  qed
  show ?thesis using ms by (simp add: word_le_nat_alt us)
qed

lemma nltime_get_system_us_monotone_witness:
  "nltime_get_system_ms idle_timers \<le> nltime_get_system_ms (idle_timers\<lparr>s_system_time_ns := 5000000\<rparr>)"
  using nltime_get_system_us_monotone [of idle_timers "idle_timers\<lparr>s_system_time_ns := 5000000\<rparr>"]
  by (simp add: nl_swtimer_get_time_ns_def idle_timers_def)

end
