(* ===== verification/Nlgpio_button.thy ===== *)
theory Nlgpio_button
  imports Nlswtimer
begin

text \<open>
  The GPIO buttons of \<open>src/src/nlgpio_button.c\<close>, with \<open>BUILD_FEATURE_BUTTON_DEBOUNCE\<close> and without it,
  and the simulated buttons. The button states extend the state of the software timers, whose
  service the debouncing uses; \<^term>\<open>btimer\<close> is the address of the timer embedded in a button's
  state, \<^term>\<open>button_events\<close> the calls of the configured callbacks so far. Parameters: \<open>gpio_value\<close> is
  \<open>nlgpio_get_value\<close>, \<open>irq_request\<close> the status of \<open>nlgpio_irq_request\<close>, \<open>cfg\<close> the configuration table.

  The lemmas show that every edge starts the debounce interval anew, and that a burst of edges
  followed by the debounce handler reports the last level, once, and only when it is a change.
\<close>

section \<open>State\<close>

record button_state_t =
  btimer :: timer_ptr
  raw_button :: bool
  debounced_button :: bool
  prev_debounced_button :: bool
  simulated_state :: bool
  was_down :: bool

record nlgpio_button_config_t =
  gpio :: u8
  gpio_irq_flags :: u8
  low_is_button_down :: u8
  button_callback :: "nat option"

record button_world = swtimer_state +
  s_button_states :: "button_state_t list"
  button_events :: "(nat \<times> bool) list"

definition NL_BUTTON_DEBOUNCE_TIME_INTERVAL_MS :: u32 where
  "NL_BUTTON_DEBOUNCE_TIME_INTERVAL_MS = 24"

text \<open>The address of \<open>nlgpio_button_debounce_handler\<close> in the function field of a timer.\<close>

definition DEBOUNCE_HANDLER :: nat where
  "DEBOUNCE_HANDLER = 1"

definition upd_button ::
  "nat \<Rightarrow> (button_state_t \<Rightarrow> button_state_t) \<Rightarrow> 'a button_world_scheme \<Rightarrow> 'a button_world_scheme option" where
  "upd_button i f s = do { bs \<leftarrow> arr_upd (s_button_states s) i f; Some (s\<lparr>s_button_states := bs\<rparr>) }"

text \<open>\<open>config->callback(button_id, button_down, config->callback_context)\<close>\<close>

definition run_callback :: "nat \<Rightarrow> bool \<Rightarrow> 'a button_world_scheme \<Rightarrow> 'a button_world_scheme" where
  "run_callback i down s = s\<lparr>button_events := button_events s @ [(i, down)]\<rparr>"

section \<open>Operations\<close>

definition nlgpio_button_is_down :: "nlgpio_button_config_t list \<Rightarrow> (u8 \<Rightarrow> int) \<Rightarrow> nat \<Rightarrow> bool option" where
  "nlgpio_button_is_down cfg gpio_value button_id = do {
     c \<leftarrow> arr_get cfg button_id;
     let button_down = gpio_value (gpio c);
     let button_down' = (if low_is_button_down c \<noteq> 0 then (if button_down = 0 then 1 else 0) else button_down);
     Some (button_down' \<noteq> 0) }"

definition nlgpio_button_debounce_handler ::
  "nlgpio_button_config_t list \<Rightarrow> u32 \<Rightarrow> 'a button_world_scheme \<Rightarrow> (u32 \<times> 'a button_world_scheme) option" where
  "nlgpio_button_debounce_handler cfg arg s = do {
     let button_id = unat arg;
     s1 \<leftarrow> upd_button button_id (\<lambda>b. b\<lparr>prev_debounced_button := debounced_button b, debounced_button := raw_button b\<rparr>) s;
     b \<leftarrow> arr_get (s_button_states s1) button_id;
     if debounced_button b \<noteq> prev_debounced_button b
     then do {
       config \<leftarrow> arr_get cfg button_id;
       _ \<leftarrow> button_callback config;
       Some (0, run_callback button_id (debounced_button b) s1) }
     else Some (0, s1) }"

text \<open>The interrupt handler with \<open>BUILD_FEATURE_BUTTON_DEBOUNCE\<close>.\<close>

definition nlgpio_button_isr ::
  "nlgpio_button_config_t list \<Rightarrow> (u8 \<Rightarrow> int) \<Rightarrow> (u32 \<Rightarrow> u32) \<Rightarrow> nat \<Rightarrow>
   'a button_world_scheme \<Rightarrow> 'a button_world_scheme option" where
  "nlgpio_button_isr cfg gpio_value to_ticks button_id s = do {
     s1 \<leftarrow> upd_button button_id (\<lambda>b. b\<lparr>was_down := True\<rparr>) s;
     down \<leftarrow> nlgpio_button_is_down cfg gpio_value button_id;
     s2 \<leftarrow> upd_button button_id (\<lambda>b. b\<lparr>raw_button := down\<rparr>) s1;
     b \<leftarrow> arr_get (s_button_states s2) button_id;
     (_, s3) \<leftarrow> nl_swtimer_cancel (btimer b) s2;
     nl_swtimer_start to_ticks (btimer b) NL_BUTTON_DEBOUNCE_TIME_INTERVAL_MS s3 }"

text \<open>The interrupt handler without it.\<close>

definition nlgpio_button_isr_plain ::
  "nlgpio_button_config_t list \<Rightarrow> (u8 \<Rightarrow> int) \<Rightarrow> nat \<Rightarrow> 'a button_world_scheme \<Rightarrow> 'a button_world_scheme option" where
  "nlgpio_button_isr_plain cfg gpio_value button_id s = do {
     s1 \<leftarrow> upd_button button_id (\<lambda>b. b\<lparr>was_down := True\<rparr>) s;
     config \<leftarrow> arr_get cfg button_id;
     button_down \<leftarrow> nlgpio_button_is_down cfg gpio_value button_id;
     _ \<leftarrow> button_callback config;
     Some (run_callback button_id button_down s1) }"

text \<open>The loop of \<open>nlgpio_button_init\<close> from button \<open>i\<close> on, with debouncing.\<close>

fun nlgpio_button_init_from ::
  "nlgpio_button_config_t list \<Rightarrow> (u8 \<Rightarrow> int) \<Rightarrow> (u8 \<Rightarrow> u8 \<Rightarrow> nat \<Rightarrow> int) \<Rightarrow> nlgpio_button_config_t list \<Rightarrow> nat \<Rightarrow>
   int \<Rightarrow> 'a button_world_scheme \<Rightarrow> (int \<times> 'a button_world_scheme) option" where
  "nlgpio_button_init_from cfg gpio_value irq_request [] i status s = Some (status, s)"
| "nlgpio_button_init_from cfg gpio_value irq_request (c # cs) i status s =
     (case button_callback c of
        None \<Rightarrow> nlgpio_button_init_from cfg gpio_value irq_request cs (Suc i) status s
      | Some _ \<Rightarrow> do {
          let status = irq_request (gpio c) (gpio_irq_flags c) i;
          b \<leftarrow> arr_get (s_button_states s) i;
          let s1 = nl_swtimer_init (btimer b) (Some DEBOUNCE_HANDLER) (of_nat i) s;
          down \<leftarrow> nlgpio_button_is_down cfg gpio_value i;
          s2 \<leftarrow> upd_button i (\<lambda>b. b\<lparr>debounced_button := down, prev_debounced_button := down\<rparr>) s1;
          if status \<noteq> 0 then Some (status, s2)
          else nlgpio_button_init_from cfg gpio_value irq_request cs (Suc i) status s2 })"

definition nlgpio_button_init ::
  "nlgpio_button_config_t list \<Rightarrow> (u8 \<Rightarrow> int) \<Rightarrow> (u8 \<Rightarrow> u8 \<Rightarrow> nat \<Rightarrow> int) \<Rightarrow>
   'a button_world_scheme \<Rightarrow> (int \<times> 'a button_world_scheme) option" where
  "nlgpio_button_init cfg gpio_value irq_request s =
     nlgpio_button_init_from cfg gpio_value irq_request cfg 0 0 s"

definition nlgpio_button_simulate_state ::
  "nlgpio_button_config_t list \<Rightarrow> nat \<Rightarrow> bool \<Rightarrow> 'a button_world_scheme \<Rightarrow> 'a button_world_scheme option" where
  "nlgpio_button_simulate_state cfg button_id button_down s = do {
     config \<leftarrow> arr_get cfg button_id;
     s1 \<leftarrow> (if button_down then upd_button button_id (\<lambda>b. b\<lparr>was_down := True\<rparr>) s else Some s);
     s2 \<leftarrow> upd_button button_id (\<lambda>b. b\<lparr>simulated_state := button_down\<rparr>) s1;
     Some (case button_callback config of None \<Rightarrow> s2 | Some _ \<Rightarrow> run_callback button_id button_down s2) }"

definition nlgpio_button_is_down_sim :: "nat \<Rightarrow> 'a button_world_scheme \<Rightarrow> bool option" where
  "nlgpio_button_is_down_sim button_id s = map_option simulated_state (arr_get (s_button_states s) button_id)"

definition nlgpio_button_was_down :: "nat \<Rightarrow> 'a button_world_scheme \<Rightarrow> bool option" where
  "nlgpio_button_was_down button_id s = map_option was_down (arr_get (s_button_states s) button_id)"

section \<open>The button module as a client of the timers\<close>

text \<open>Changing button states does not touch the timers.\<close>

lemma own_state_lists:
  "timer_lists (s\<lparr>s_button_states := bs\<rparr>) cs os = timer_lists s cs os"
  "timer_lists (s\<lparr>button_events := es\<rparr>) cs os = timer_lists s cs os"
  by (simp_all add: timer_lists_def)

lemma own_state_service [simp]:
  "swtimer_inv (s\<lparr>s_button_states := bs\<rparr>) = swtimer_inv s"
  "ready (s\<lparr>s_button_states := bs\<rparr>) = ready s"
  "swtimer_inv s \<Longrightarrow> ticks_left (s\<lparr>s_button_states := bs\<rparr>) = ticks_left s"
proof -
  show "swtimer_inv s \<Longrightarrow> ticks_left (s\<lparr>s_button_states := bs\<rparr>) = ticks_left s"
    unfolding swtimer_inv_def
    by (elim exE, rule ext) (simp add: ticks_left_lists own_state_lists remaining_def)
qed (simp_all add: swtimer_inv_def own_state_lists ready_def fun_eq_iff)

text \<open>Starting and cancelling timers does not touch the buttons.\<close>

lemma same_more_buttons:
  "swtimer_state.more s' = swtimer_state.more s \<Longrightarrow>
   s_button_states s' = s_button_states s \<and> button_events s' = button_events s"
  by (cases s; cases s') simp

lemma cancel_more:
  assumes "swtimer_inv s" "nl_swtimer_cancel t s = Some (b, s')"
  shows "swtimer_state.more s' = swtimer_state.more s"
proof -
  obtain cs os where "timer_lists s cs os" using assms(1) by (auto simp: swtimer_inv_def)
  from cancel_spec [OF this, of t] assms(2) show ?thesis by (auto simp: list_op_def)
qed

lemma start_more:
  assumes "swtimer_inv s" "nl_swtimer_start to_ticks t ms s = Some s'"
  shows "swtimer_state.more s' = swtimer_state.more s"
proof -
  obtain cs os where lists: "timer_lists s cs os" using assms(1) by (auto simp: swtimer_inv_def)
  have ins: "nl_swtimer_insert_locked t (to_ticks ms) s = Some s'" "t_func (timers s t) \<noteq> None"
    using assms(2) by (auto simp: nl_swtimer_start_def split: if_splits)
  then have "t \<notin> set (cs @ os)"
    using is_active_spec [OF lists, of t] by (auto simp: nl_swtimer_insert_locked_def Let_def split: if_splits)
  with insert_locked_spec [OF lists this ins(2), of "to_ticks ms"] ins(1) show ?thesis by (auto simp: list_op_def)
qed

lemma isr_effect:
  assumes inv: "swtimer_inv s" and i: "i < length (s_button_states s)"
    and down: "nlgpio_button_is_down cfg gpio_value i = Some d"
    and rdy: "ready s (btimer (s_button_states s ! i))"
  shows "\<exists>s'. nlgpio_button_isr cfg gpio_value to_ticks i s = Some s' \<and> swtimer_inv s' \<and> ready s' = ready s \<and>
     ticks_left s' = (ticks_left s)(btimer (s_button_states s ! i) :=
        Some (delay_ticks to_ticks NL_BUTTON_DEBOUNCE_TIME_INTERVAL_MS)) \<and>
     s_button_states s' = (s_button_states s)[i := (s_button_states s ! i)\<lparr>was_down := True, raw_button := d\<rparr>] \<and>
     button_events s' = button_events s"
proof -
  let ?b = "(s_button_states s ! i)\<lparr>was_down := True, raw_button := d\<rparr>"
  let ?s2 = "s\<lparr>s_button_states := (s_button_states s)[i := ?b]\<rparr>"
  let ?t = "btimer (s_button_states s ! i)"
  obtain s3 b where s3: "nl_swtimer_cancel ?t ?s2 = Some (b, s3)" "swtimer_inv s3" "ready s3 = ready s"
      "ticks_left s3 = (ticks_left s)(?t := None)"
    using swtimer.cancel_law [of ?s2 ?t] inv by auto
  obtain s' where s': "nl_swtimer_start to_ticks ?t NL_BUTTON_DEBOUNCE_TIME_INTERVAL_MS s3 = Some s'" "swtimer_inv s'"
      "ready s' = ready s" "ticks_left s' = (ticks_left s)(?t := Some (delay_ticks to_ticks NL_BUTTON_DEBOUNCE_TIME_INTERVAL_MS))"
    using swtimer.start_law [OF s3(2), of ?t to_ticks NL_BUTTON_DEBOUNCE_TIME_INTERVAL_MS] s3 rdy by auto
  have "swtimer_state.more s' = swtimer_state.more ?s2"
    using start_more [OF s3(2) s'(1)] cancel_more [OF _ s3(1)] inv by simp
  then have "s_button_states s' = (s_button_states s)[i := ?b] \<and> button_events s' = button_events s"
    using same_more_buttons [of s' ?s2] by simp
  moreover have "nlgpio_button_isr cfg gpio_value to_ticks i s = Some s'"
    using i down s3(1) s'(1) by (simp add: nlgpio_button_isr_def upd_button_def)
  ultimately show ?thesis using s' by blast
qed

text \<open>A burst of edges, each with what the pin reads then.\<close>

primrec isr_burst ::
  "nlgpio_button_config_t list \<Rightarrow> (u32 \<Rightarrow> u32) \<Rightarrow> nat \<Rightarrow> (u8 \<Rightarrow> int) list \<Rightarrow>
   'a button_world_scheme \<Rightarrow> 'a button_world_scheme option" where
  "isr_burst cfg to_ticks i [] s = Some s"
| "isr_burst cfg to_ticks i (g # gs) s = do {
     s' \<leftarrow> nlgpio_button_isr cfg g to_ticks i s; isr_burst cfg to_ticks i gs s' }"

lemma isr_burst_effect:
  assumes "swtimer_inv s" "i < length (s_button_states s)" "i < length cfg" "gs \<noteq> []"
    and "ready s (btimer (s_button_states s ! i))" "nlgpio_button_is_down cfg (last gs) i = Some d"
  shows "\<exists>s'. isr_burst cfg to_ticks i gs s = Some s' \<and> swtimer_inv s' \<and>
     ticks_left s' = (ticks_left s)(btimer (s_button_states s ! i) :=
        Some (delay_ticks to_ticks NL_BUTTON_DEBOUNCE_TIME_INTERVAL_MS)) \<and>
     s_button_states s' = (s_button_states s)[i := (s_button_states s ! i)\<lparr>was_down := True, raw_button := d\<rparr>] \<and>
     button_events s' = button_events s"
  using assms
proof (induction gs arbitrary: s)
  case (Cons g gs)
  obtain e where e: "nlgpio_button_is_down cfg g i = Some e"
    using Cons.prems(3) by (simp add: nlgpio_button_is_down_def Let_def)
  obtain s1 where s1: "nlgpio_button_isr cfg g to_ticks i s = Some s1" "swtimer_inv s1" "ready s1 = ready s"
     "ticks_left s1 = (ticks_left s)(btimer (s_button_states s ! i) :=
        Some (delay_ticks to_ticks NL_BUTTON_DEBOUNCE_TIME_INTERVAL_MS))"
     "s_button_states s1 = (s_button_states s)[i := (s_button_states s ! i)\<lparr>was_down := True, raw_button := e\<rparr>]"
     "button_events s1 = button_events s"
    using isr_effect [OF Cons.prems(1,2) e Cons.prems(5)] by blast
  show ?case
  proof (cases "gs = []")
    case True
    with e Cons.prems(6) have "e = d" by simp
    with True s1 show ?thesis by (intro exI [of _ s1]) (simp add: fun_upd_def)
  next
    case False
    with Cons.IH [OF s1(2)] s1 Cons.prems show ?thesis by (auto simp: fun_eq_iff)
  qed
qed simp

lemma debounce_handler_effect:
  assumes "unat arg < length (s_button_states s)"
    and "\<exists>c f. arr_get cfg (unat arg) = Some c \<and> button_callback c = Some f"
  shows "\<exists>s'. nlgpio_button_debounce_handler cfg arg s = Some (0, s') \<and>
     button_events s' = button_events s @
       (if raw_button (s_button_states s ! unat arg) \<noteq> debounced_button (s_button_states s ! unat arg)
        then [(unat arg, raw_button (s_button_states s ! unat arg))] else []) \<and>
     debounced_button (s_button_states s' ! unat arg) = raw_button (s_button_states s ! unat arg)"
  using assms by (auto simp: nlgpio_button_debounce_handler_def upd_button_def run_callback_def Let_def)

section \<open>Properties\<close>

text \<open>
  C36: debouncing. However many edges a button makes, each restarts the debounce interval of its timer
  and of no other, no callback runs meanwhile, and the debounce handler that follows reports the
  level of the last edge exactly when it differs from the level reported before.
\<close>

theorem nlgpio_button_debounces:
  assumes "swtimer_inv s" "unat arg < length (s_button_states s)" "gs \<noteq> []"
    and "arr_get cfg (unat arg) = Some c" "button_callback c = Some f"
    and "ready s (btimer (s_button_states s ! unat arg))"
    and "nlgpio_button_is_down cfg (last gs) (unat arg) = Some d"
  shows "\<exists>s1 s2. isr_burst cfg to_ticks (unat arg) gs s = Some s1 \<and> swtimer_inv s1 \<and>
     ticks_left s1 = (ticks_left s)(btimer (s_button_states s ! unat arg) :=
       Some (delay_ticks to_ticks NL_BUTTON_DEBOUNCE_TIME_INTERVAL_MS)) \<and>
     nlgpio_button_debounce_handler cfg arg s1 = Some (0, s2) \<and>
     button_events s2 = button_events s @
       (if d \<noteq> debounced_button (s_button_states s ! unat arg) then [(unat arg, d)] else []) \<and>
     debounced_button (s_button_states s2 ! unat arg) = d"
proof -
  let ?i = "unat arg"
  have cfg: "?i < length cfg" using assms(4) by (simp add: arr_get_def split: if_splits)
  obtain s1 where s1: "isr_burst cfg to_ticks ?i gs s = Some s1" "swtimer_inv s1"
     "ticks_left s1 = (ticks_left s)(btimer (s_button_states s ! ?i) :=
        Some (delay_ticks to_ticks NL_BUTTON_DEBOUNCE_TIME_INTERVAL_MS))"
     "s_button_states s1 = (s_button_states s)[?i := (s_button_states s ! ?i)\<lparr>was_down := True, raw_button := d\<rparr>]"
     "button_events s1 = button_events s"
    using isr_burst_effect [OF assms(1,2) cfg assms(3,6,7)] by blast
  then have b: "?i < length (s_button_states s1)" "raw_button (s_button_states s1 ! ?i) = d"
     "debounced_button (s_button_states s1 ! ?i) = debounced_button (s_button_states s ! ?i)"
    using assms(2) by simp_all
  obtain s2 where "nlgpio_button_debounce_handler cfg arg s1 = Some (0, s2)"
     "button_events s2 = button_events s @
       (if d \<noteq> debounced_button (s_button_states s ! ?i) then [(?i, d)] else [])"
     "debounced_button (s_button_states s2 ! ?i) = d"
    using debounce_handler_effect [OF b(1), of cfg] assms(4,5) unfolding b(2,3) s1(5) by blast
  with s1 show ?thesis by blast
qed

text \<open>A button with one timer, pressed after a bounce.\<close>

definition demo_buttons :: button_world where
  "demo_buttons = \<lparr>s_timer_list = None, s_timer_overflow_list = None, s_swtimer_tick_count = 0,
     s_system_time_ns = 0, g_swtimer_prevent_sleep = False,
     timers = (\<lambda>_. \<lparr>t_func = Some DEBOUNCE_HANDLER, t_arg = 0, t_delay = 0, t_next = None\<rparr>),
     s_button_states = [\<lparr>btimer = 7, raw_button = False, debounced_button = False,
       prev_debounced_button = False, simulated_state = False, was_down = False\<rparr>],
     button_events = []\<rparr>"

lemma demo_buttons_inv: "swtimer_inv demo_buttons"
  unfolding swtimer_inv_def by (intro exI [of _ "[]"]) (simp add: demo_buttons_def timer_lists_def)

definition demo_cfg :: "nlgpio_button_config_t list" where
  "demo_cfg = [\<lparr>gpio = 5, gpio_irq_flags = 0, low_is_button_down = 1, button_callback = Some 9\<rparr>]"

lemma nlgpio_button_debounces_witness:
  "\<exists>s1 s2. isr_burst demo_cfg (\<lambda>ms. ms) 0 [\<lambda>_. 0, \<lambda>_. 1, \<lambda>_. 0] demo_buttons = Some s1 \<and>
    nlgpio_button_debounce_handler demo_cfg 0 s1 = Some (0, s2) \<and> button_events s2 = [(0, True)]"
proof -
  have h: "unat (0 :: u32) < length (s_button_states demo_buttons)" "arr_get demo_cfg (unat (0 :: u32)) = Some (hd demo_cfg)"
    "button_callback (hd demo_cfg) = Some 9" "ready demo_buttons (btimer (s_button_states demo_buttons ! unat (0 :: u32)))"
    by (simp_all add: demo_buttons_def demo_cfg_def ready_def)
  have d: "nlgpio_button_is_down demo_cfg (last [\<lambda>_. 0, \<lambda>_. 1, \<lambda>_. 0]) (unat (0 :: u32)) = Some True"
    by (simp add: demo_cfg_def nlgpio_button_is_down_def)
  have "button_events demo_buttons = []" "\<not> debounced_button (s_button_states demo_buttons ! 0)"
    by (simp_all add: demo_buttons_def)
  with nlgpio_button_debounces [OF demo_buttons_inv h(1) _ h(2-4) d, of "\<lambda>ms. ms"] show ?thesis by auto
qed

end
