(* ===== verification/Nlreset_info.thy ===== *)
theory Nlreset_info
  imports NL_Prelude
begin

text \<open>
  The reset information of \<open>src/src/nlreset_info.c\<close>, which tells the next boot why the device was
  reset, in its two variants: the one with \<open>BUILD_FEATURE_RESET_INFO_IN_TEMP_RAM\<close> keeps the record in
  overlaid memory and saves faults to external flash during the next boot (suffix \<open>_temp\<close>), the other
  has retained memory of its own (suffix \<open>_ram\<close>). Both sides of a reset see the same state, since
  the memory is retained.

  The environment variables (\<open>nl_env_get\<close>, \<open>nl_env_set\<close>, outside the repository) and the flash
  partition of the fault diagnostics are the parameter \<^term>\<open>diag_ops\<close>: what their calls return and
  what they do to the store \<open>'d\<close>. \<open>store_laws\<close> states what the code relies on.

  The locale \<open>reset_record\<close> is the contract that both variants implement: the first reason since
  boot wins, and a bootloader's fault wins over it.
\<close>

section \<open>Data\<close>

definition NL_RESET_REASON_UNSPECIFIED :: u32 where "NL_RESET_REASON_UNSPECIFIED = 0"
definition NL_RESET_REASON_UNKNOWN :: u32 where "NL_RESET_REASON_UNKNOWN = 1"
definition NL_RESET_REASON_COUNT :: u32 where "NL_RESET_REASON_COUNT = 5"
definition NL_RESET_REASON_FIRST_FAULT :: u32 where "NL_RESET_REASON_FIRST_FAULT = NL_RESET_REASON_COUNT"
definition NL_RESET_REASON_HARD_FAULT :: u32 where "NL_RESET_REASON_HARD_FAULT = NL_RESET_REASON_FIRST_FAULT"
definition NL_RESET_REASON_ASSERT :: u32 where "NL_RESET_REASON_ASSERT = 6"
definition NL_RESET_REASON_STACK_OVERFLOW :: u32 where "NL_RESET_REASON_STACK_OVERFLOW = 8"
definition NL_RESET_REASON_LAST_FAULT :: u32 where "NL_RESET_REASON_LAST_FAULT = NL_RESET_REASON_STACK_OVERFLOW"

lemmas reason_defs =
  NL_RESET_REASON_UNSPECIFIED_def NL_RESET_REASON_UNKNOWN_def NL_RESET_REASON_COUNT_def
  NL_RESET_REASON_FIRST_FAULT_def NL_RESET_REASON_HARD_FAULT_def NL_RESET_REASON_ASSERT_def
  NL_RESET_REASON_STACK_OVERFLOW_def NL_RESET_REASON_LAST_FAULT_def

definition IS_VALID_RESET_REASON :: "u32 \<Rightarrow> bool" where
  "IS_VALID_RESET_REASON reason \<longleftrightarrow> reason < NL_RESET_REASON_COUNT"

definition IS_VALID_FAULT_REASON :: "u32 \<Rightarrow> bool" where
  "IS_VALID_FAULT_REASON reason \<longleftrightarrow> NL_RESET_REASON_FIRST_FAULT \<le> reason \<and> reason \<le> NL_RESET_REASON_LAST_FAULT"

definition NL_RESET_INFO_MAGIC :: u32 where
  "NL_RESET_INFO_MAGIC = 0x1234abcd"

definition NL_FAULT_DIAGS_DESCRIPTION_LENGTH :: nat where
  "NL_FAULT_DIAGS_DESCRIPTION_LENGTH = 32"

record nl_fault_task_info_t =
  task_name :: string
  task_backtrace :: "u32 list"
  task_state :: string

record nl_fault_info_t =
  fi_reason :: u32
  registers :: "u32 list"
  active_task_name :: string
  description :: string
  machine_backtrace :: "u32 list"
  task_info :: "nl_fault_task_info_t list"

record nl_reset_info_t =
  ri_magic :: u32
  reset_reason :: u32
  fault_info :: nl_fault_info_t

text \<open>\<open>strncpy\<close> of a C string (without its terminator) into \<open>n\<close> characters: truncated or padded.\<close>

definition NUL :: char where "NUL = CHR 0x00"

definition strncpy :: "string \<Rightarrow> nat \<Rightarrow> string" where
  "strncpy src n = take n src @ replicate (n - length src) NUL"

definition set_description :: "string option \<Rightarrow> nl_fault_info_t \<Rightarrow> nl_fault_info_t" where
  "set_description fault_description fi =
     (case fault_description of None \<Rightarrow> fi
      | Some d \<Rightarrow> fi\<lparr>description := strncpy d NL_FAULT_DIAGS_DESCRIPTION_LENGTH\<rparr>)"

section \<open>The variant in overlaid memory\<close>

record 'd diag_ops =
  env_get_dirty :: "'d \<Rightarrow> int"
  env_set_dirty :: "'d \<Rightarrow> int \<times> 'd"
  env_clear_dirty :: "'d \<Rightarrow> 'd"
  erase_diags :: "'d \<Rightarrow> int \<times> 'd"
  write_diags :: "nl_fault_info_t \<Rightarrow> 'd \<Rightarrow> int \<times> 'd"
  read_diags :: "'d \<Rightarrow> int \<times> nl_fault_info_t"

record 'd temp_state =
  g_reset_info :: nl_reset_info_t
  s_cached_reset_reason :: u32
  scheduler_suspended :: nat
  store :: 'd

definition save_fault_to_flash :: "'d diag_ops \<Rightarrow> 'd temp_state \<Rightarrow> int \<times> 'd temp_state" where
  "save_fault_to_flash ops s =
     (let retval = env_get_dirty ops (store s) in
      if retval \<ge> 0 then (retval, s)
      else let ri = g_reset_info s;
               s1 = s\<lparr>g_reset_info := ri\<lparr>fault_info := (fault_info ri)\<lparr>fi_reason := reset_reason ri\<rparr>\<rparr>\<rparr>;
               (retval, d1) = erase_diags ops (store s1)
           in if retval < 0 then (retval, s1\<lparr>store := d1\<rparr>)
              else let (retval, d2) = write_diags ops (fault_info (g_reset_info s1)) d1
                   in if retval < 0 then (retval, s1\<lparr>store := d2\<rparr>)
                      else let (retval, d3) = env_set_dirty ops d2 in (retval, s1\<lparr>store := d3\<rparr>))"

definition nl_reset_info_init_temp :: "'d diag_ops \<Rightarrow> 'd temp_state \<Rightarrow> 'd temp_state" where
  "nl_reset_info_init_temp ops s =
     (let ri = g_reset_info s;
          s1 = (if ri_magic ri \<noteq> NL_RESET_INFO_MAGIC
                then s\<lparr>g_reset_info := ri\<lparr>reset_reason := NL_RESET_REASON_UNKNOWN,
                        fault_info := (fault_info ri)\<lparr>fi_reason := NL_RESET_REASON_UNKNOWN\<rparr>\<rparr>\<rparr>
                else s);
          s2 = (if ri_magic (g_reset_info s1) = NL_RESET_INFO_MAGIC \<and>
                   IS_VALID_FAULT_REASON (reset_reason (g_reset_info s1))
                then snd (save_fault_to_flash ops s1) else s1);
          s3 = s2\<lparr>s_cached_reset_reason :=
                 (if ri_magic (g_reset_info s2) = NL_RESET_INFO_MAGIC \<and>
                     (IS_VALID_RESET_REASON (reset_reason (g_reset_info s2)) \<or>
                      IS_VALID_FAULT_REASON (reset_reason (g_reset_info s2)))
                  then reset_reason (g_reset_info s2) else NL_RESET_REASON_UNKNOWN)\<rparr>
      in s3\<lparr>g_reset_info := (g_reset_info s3)\<lparr>ri_magic := 0\<rparr>\<rparr>)"

definition nl_reset_info_set_temp :: "u32 \<Rightarrow> string option \<Rightarrow> 'd temp_state \<Rightarrow> 'd temp_state" where
  "nl_reset_info_set_temp reason fault_description s =
     (let ri = (g_reset_info s)\<lparr>ri_magic := NL_RESET_INFO_MAGIC, reset_reason := reason\<rparr>
      in s\<lparr>g_reset_info :=
           (if IS_VALID_FAULT_REASON reason
            then ri\<lparr>fault_info := set_description fault_description
                       ((fault_info ri)\<lparr>fi_reason := NL_RESET_REASON_UNKNOWN\<rparr>)\<rparr>
            else ri)\<rparr>)"

definition nl_reset_info_prepare_reset_temp :: "u32 \<Rightarrow> string option \<Rightarrow> 'd temp_state \<Rightarrow> 'd temp_state" where
  "nl_reset_info_prepare_reset_temp reason fault_description s =
     (let s1 = s\<lparr>scheduler_suspended := scheduler_suspended s + 1\<rparr>
      in if ri_magic (g_reset_info s1) \<noteq> NL_RESET_INFO_MAGIC
         then nl_reset_info_set_temp reason fault_description s1 else s1)"

definition nl_reset_info_prepare_reset_bootloader_temp ::
  "u32 \<Rightarrow> string option \<Rightarrow> 'd temp_state \<Rightarrow> 'd temp_state" where
  "nl_reset_info_prepare_reset_bootloader_temp reason fault_description s =
     (if ri_magic (g_reset_info s) \<noteq> NL_RESET_INFO_MAGIC \<or> IS_VALID_FAULT_REASON reason
      then nl_reset_info_set_temp reason fault_description s else s)"

definition nl_reset_info_clear_saved_fault_temp :: "'d diag_ops \<Rightarrow> 'd temp_state \<Rightarrow> 'd temp_state" where
  "nl_reset_info_clear_saved_fault_temp ops s = s\<lparr>store := env_clear_dirty ops (store s)\<rparr>"

text \<open>The result and what is in the caller's buffer, when something was read into it.\<close>

definition nl_reset_info_get_saved_fault_temp ::
  "'d diag_ops \<Rightarrow> 'd temp_state \<Rightarrow> (int \<times> nl_fault_info_t option) \<times> 'd temp_state" where
  "nl_reset_info_get_saved_fault_temp ops s =
     (let (retval, info) = (if env_get_dirty ops (store s) \<ge> 0
                            then let (r, fi) = read_diags ops (store s) in (r, Some fi) else (- 1, None))
      in case info of
           None \<Rightarrow> ((retval, None), s)
         | Some fi \<Rightarrow>
             if retval = 0 \<and> \<not> IS_VALID_FAULT_REASON (fi_reason fi)
             then ((- 1, Some fi), nl_reset_info_clear_saved_fault_temp ops s)
             else ((retval, Some fi), s))"

section \<open>The variant in memory of its own\<close>

definition clear_fault_info :: "nl_fault_info_t \<Rightarrow> nl_fault_info_t" where
  "clear_fault_info fi =
     \<lparr>fi_reason = NL_RESET_REASON_UNKNOWN, registers = map (\<lambda>_. 0) (registers fi),
      active_task_name = map (\<lambda>_. NUL) (active_task_name fi), description = map (\<lambda>_. NUL) (description fi),
      machine_backtrace = map (\<lambda>_. 0) (machine_backtrace fi),
      task_info = map (\<lambda>t. \<lparr>task_name = map (\<lambda>_. NUL) (task_name t),
         task_backtrace = map (\<lambda>_. 0) (task_backtrace t), task_state = map (\<lambda>_. NUL) (task_state t)\<rparr>) (task_info fi)\<rparr>"

definition nl_reset_info_clear_saved_fault_ram :: "nl_reset_info_t \<Rightarrow> nl_reset_info_t" where
  "nl_reset_info_clear_saved_fault_ram ri = ri\<lparr>fault_info := clear_fault_info (fault_info ri)\<rparr>"

definition nl_reset_info_init_ram :: "nl_reset_info_t \<Rightarrow> nl_reset_info_t" where
  "nl_reset_info_init_ram ri =
     (let ri1 = (if ri_magic ri \<noteq> NL_RESET_INFO_MAGIC
                 then nl_reset_info_clear_saved_fault_ram (ri\<lparr>reset_reason := NL_RESET_REASON_UNKNOWN\<rparr>)
                 else ri)
      in ri1\<lparr>ri_magic := 0\<rparr>)"

definition nl_reset_info_set_ram :: "u32 \<Rightarrow> string option \<Rightarrow> bool \<Rightarrow> nl_reset_info_t \<Rightarrow> nl_reset_info_t" where
  "nl_reset_info_set_ram reason fault_description override_fault_reason ri =
     (let ri1 = ri\<lparr>ri_magic := NL_RESET_INFO_MAGIC, reset_reason := reason\<rparr>
      in if IS_VALID_FAULT_REASON reason \<and>
            (fi_reason (fault_info ri1) = NL_RESET_REASON_UNKNOWN \<or> override_fault_reason)
         then ri1\<lparr>fault_info := set_description fault_description ((fault_info ri1)\<lparr>fi_reason := reason\<rparr>)\<rparr>
         else ri1)"

definition nl_reset_info_prepare_reset_ram :: "u32 \<Rightarrow> string option \<Rightarrow> nl_reset_info_t \<Rightarrow> nl_reset_info_t" where
  "nl_reset_info_prepare_reset_ram reason fault_description ri =
     (if ri_magic ri \<noteq> NL_RESET_INFO_MAGIC
      then nl_reset_info_set_ram reason fault_description False ri else ri)"

definition nl_reset_info_prepare_reset_bootloader_ram ::
  "u32 \<Rightarrow> string option \<Rightarrow> nl_reset_info_t \<Rightarrow> nl_reset_info_t" where
  "nl_reset_info_prepare_reset_bootloader_ram reason fault_description ri =
     (if ri_magic ri \<noteq> NL_RESET_INFO_MAGIC \<or> IS_VALID_FAULT_REASON reason
      then nl_reset_info_set_ram reason fault_description True ri else ri)"

definition nl_reset_info_get_saved_fault_ram ::
  "nl_reset_info_t \<Rightarrow> (int \<times> nl_fault_info_t option) \<times> nl_reset_info_t" where
  "nl_reset_info_get_saved_fault_ram ri =
     (if IS_VALID_FAULT_REASON (fi_reason (fault_info ri))
      then let saved = fault_info ri in
        if \<not> IS_VALID_FAULT_REASON (fi_reason saved)
        then ((- 1, Some saved), nl_reset_info_clear_saved_fault_ram ri)
        else ((0, Some saved), ri)
      else ((- 1, None), ri))"

section \<open>Shared functions\<close>

definition nl_reset_info_get_reset_reason :: "nl_reset_info_t \<Rightarrow> u32" where
  "nl_reset_info_get_reset_reason ri =
     (if ri_magic ri = NL_RESET_INFO_MAGIC \<and>
         (IS_VALID_RESET_REASON (reset_reason ri) \<or> IS_VALID_FAULT_REASON (reset_reason ri))
      then reset_reason ri else NL_RESET_REASON_UNKNOWN)"

definition s_reset_reason_strings :: "string list" where
  "s_reset_reason_strings = [''unspecified'', ''unknown'', ''sw requested'', ''sw update'', ''factory reset'']"

definition s_fault_reset_reason_strings :: "string list" where
  "s_fault_reset_reason_strings = [''hard fault'', ''assert'', ''watchdog'', ''stack overflow'']"

text \<open>What the printing functions output: the format and its arguments.\<close>

datatype print_item =
    Print string
  | Print_str string string
  | Print_reg string u32
  | Print_bad_reason u32

definition nl_reset_info_print :: "u32 \<Rightarrow> print_item option" where
  "nl_reset_info_print reason =
     (if IS_VALID_RESET_REASON reason
      then map_option (Print_str ''Last reset reason: '') (arr_get s_reset_reason_strings (unat reason))
      else if IS_VALID_FAULT_REASON reason
      then map_option (Print_str ''Last fault reset reason: '')
             (arr_get s_fault_reset_reason_strings (unat (reason - NL_RESET_REASON_FIRST_FAULT)))
      else Some (Print_bad_reason reason))"

text \<open>What is given to it in the two variants: the word in the record, or the cached one.\<close>

definition nl_reset_info_print_ram :: "nl_reset_info_t \<Rightarrow> print_item option" where
  "nl_reset_info_print_ram ri = nl_reset_info_print (reset_reason ri)"

definition nl_reset_info_print_temp :: "'d temp_state \<Rightarrow> print_item option" where
  "nl_reset_info_print_temp s = nl_reset_info_print (s_cached_reset_reason s)"

definition reg_names :: "string list" where
  "reg_names = ['' sp'', '' lr'', '' pc'', ''psr'']"

definition print_backtrace :: "u32 list \<Rightarrow> print_item list" where
  "print_backtrace bt = map (Print_reg [CHR 0x09]) (takeWhile (\<lambda>x. x \<noteq> 0) bt)"

text \<open>What \<open>%s\<close> reads from an array of characters: up to the terminator, and past the array if there is none.\<close>

definition read_string :: "string \<Rightarrow> string option" where
  "read_string xs = (if NUL \<in> set xs then Some (takeWhile (\<lambda>c. c \<noteq> NUL) xs) else None)"

text \<open>\<open>%*s\<close> with the width \<open>w\<close>, which is a minimum: shorter strings are padded on the left.\<close>

definition read_padded :: "nat \<Rightarrow> string \<Rightarrow> string option" where
  "read_padded w xs = map_option (\<lambda>str. replicate (w - length str) CHR '' '' @ str) (read_string xs)"

definition print_task :: "nl_fault_task_info_t \<Rightarrow> print_item list option" where
  "print_task t = do {
     x \<leftarrow> arr_get (task_backtrace t) 0;
     if x \<noteq> 0
     then do {
       name \<leftarrow> read_string (task_name t);
       state \<leftarrow> read_string (task_state t);
       Some (Print_str (''Task: '' @ name) state # print_backtrace (task_backtrace t)) }
     else Some [] }"

text \<open>All or nothing: an access out of bounds anywhere ends the output.\<close>

primrec collect :: "'a option list \<Rightarrow> 'a list option" where
  "collect [] = Some []"
| "collect (x # xs) = do { y \<leftarrow> x; ys \<leftarrow> collect xs; Some (y # ys) }"

definition nl_reset_info_print_saved_fault :: "int \<times> nl_fault_info_t option \<Rightarrow> print_item list option" where
  "nl_reset_info_print_saved_fault saved =
     (case saved of
        (retval, Some fi) \<Rightarrow>
          if retval = 0 then do {
            name \<leftarrow> arr_get s_fault_reset_reason_strings (unat (fi_reason fi - NL_RESET_REASON_FIRST_FAULT));
            regs \<leftarrow> collect (map (\<lambda>i. map_option (Print_reg ''r'') (arr_get (registers fi) i)) [0..<13]);
            named \<leftarrow> collect (map (\<lambda>i. do { n \<leftarrow> arr_get reg_names i; r \<leftarrow> arr_get (registers fi) (i + 13);
                                          Some (Print_reg n r) }) [0..<length reg_names]);
            c \<leftarrow> arr_get (active_task_name fi) 0;
            tasks \<leftarrow> (if c \<noteq> NUL
              then do {
                active \<leftarrow> read_string (active_task_name fi);
                infos \<leftarrow> collect (map print_task (task_info fi));
                Some ([Print_str ''Task at time of fault: '' active, Print ''Task Info:''] @ concat infos) }
              else Some []);
            m \<leftarrow> arr_get (machine_backtrace fi) 0;
            d \<leftarrow> arr_get (description fi) 0;
            descr \<leftarrow> (if d \<noteq> NUL
              then do {
                text \<leftarrow> read_padded (length (description fi)) (description fi);
                Some [Print_str ''Fault description: '' text] }
              else Some []);
            Some ([Print ''Previous fault info found! Printing post-mortem info:'',
                   Print_str ''Fault reason: '' name, Print ''Fault Registers:''] @ regs @ named @ tasks @
                  (if m \<noteq> 0 then Print ''Machine Backtrace:'' # print_backtrace (machine_backtrace fi) else []) @ descr) }
          else Some [Print ''No previous fault info'']
      | (_, None) \<Rightarrow> Some [Print ''No previous fault info''])"

section \<open>The contract of both variants\<close>

text \<open>
  \<open>armed s\<close>: a reason was recorded since boot; \<open>reason s\<close>: what the next boot will see; \<open>fault\<close>: the
  reasons that are faults; \<open>good\<close>: the reasons of the enumeration.
\<close>

locale reset_record =
  fixes armed :: "'s \<Rightarrow> bool" and reason :: "'s \<Rightarrow> u32" and good fault :: "u32 \<Rightarrow> bool"
    and boot :: "'s \<Rightarrow> 's" and prepare prepare_bootloader :: "u32 \<Rightarrow> string option \<Rightarrow> 's \<Rightarrow> 's"
  assumes boot_law: "\<not> armed (boot s)"
    and prepare_law: "armed (prepare r d s)"
      "\<not> armed s \<Longrightarrow> good r \<Longrightarrow> reason (prepare r d s) = r"
      "armed s \<Longrightarrow> reason (prepare r d s) = reason s"
    and bootloader_law: "armed (prepare_bootloader r d s)"
      "fault r \<Longrightarrow> reason (prepare_bootloader r d s) = r"
      "armed s \<Longrightarrow> \<not> fault r \<Longrightarrow> reason (prepare_bootloader r d s) = reason s"
begin

lemma armed_keeps: "armed s \<Longrightarrow> reason (fold (\<lambda>(r, d). prepare r d) rds s) = reason s"
  by (induction rds arbitrary: s) (auto simp: prepare_law)

text \<open>The first reason that is given after a boot is the one that is kept.\<close>

lemma first_reason:
  assumes "good r"
  shows "reason (fold (\<lambda>(r, d). prepare r d) ((r, d) # rds) (boot s)) = r"
  using assms by (simp add: armed_keeps prepare_law boot_law)

lemma bootloader_keeps:
  "armed s \<Longrightarrow> \<forall>rd \<in> set rds. \<not> fault (fst rd) \<Longrightarrow>
   reason (fold (\<lambda>(r, d). prepare_bootloader r d) rds s) = reason s"
proof (induction rds arbitrary: s)
  case (Cons a rds)
  then show ?case by (cases a) (simp add: bootloader_law)
qed simp

text \<open>In a bootloader, the last fault is the one that is kept.\<close>

lemma last_fault:
  assumes "fault r" "\<forall>rd \<in> set rds. \<not> fault (fst rd)"
  shows "reason (fold (\<lambda>(r, d). prepare_bootloader r d) ((r, d) # rds) s) = r"
  using assms bootloader_keeps [of "prepare_bootloader r d s" rds] by (auto simp: bootloader_law)

end

definition good_reason :: "u32 \<Rightarrow> bool" where
  "good_reason r \<longleftrightarrow> IS_VALID_RESET_REASON r \<or> IS_VALID_FAULT_REASON r"

lemmas valid_defs = good_reason_def IS_VALID_RESET_REASON_def IS_VALID_FAULT_REASON_def

lemma unknown_not_fault [simp]: "\<not> IS_VALID_FAULT_REASON NL_RESET_REASON_UNKNOWN"
  by (simp add: valid_defs reason_defs word_le_nat_alt)

lemma magic_nonzero [simp]: "NL_RESET_INFO_MAGIC \<noteq> 0" "0 \<noteq> NL_RESET_INFO_MAGIC"
  by (simp_all add: NL_RESET_INFO_MAGIC_def)

lemma save_fault_magic [simp]:
  "ri_magic (g_reset_info (snd (save_fault_to_flash ops s))) = ri_magic (g_reset_info s)"
  "reset_reason (g_reset_info (snd (save_fault_to_flash ops s))) = reset_reason (g_reset_info s)"
  by (auto simp: save_fault_to_flash_def Let_def split: prod.split)

interpretation temp: reset_record
  "\<lambda>s. ri_magic (g_reset_info s) = NL_RESET_INFO_MAGIC"
  "\<lambda>s. nl_reset_info_get_reset_reason (g_reset_info s)" good_reason IS_VALID_FAULT_REASON
  "nl_reset_info_init_temp ops" nl_reset_info_prepare_reset_temp nl_reset_info_prepare_reset_bootloader_temp
  for ops :: "'d diag_ops"
  by unfold_locales
    (auto simp: nl_reset_info_init_temp_def nl_reset_info_prepare_reset_temp_def nl_reset_info_set_temp_def
      nl_reset_info_prepare_reset_bootloader_temp_def nl_reset_info_get_reset_reason_def good_reason_def Let_def)

interpretation ram: reset_record
  "\<lambda>ri. ri_magic ri = NL_RESET_INFO_MAGIC" nl_reset_info_get_reset_reason good_reason IS_VALID_FAULT_REASON
  nl_reset_info_init_ram nl_reset_info_prepare_reset_ram nl_reset_info_prepare_reset_bootloader_ram
  by unfold_locales
    (auto simp: nl_reset_info_init_ram_def nl_reset_info_prepare_reset_ram_def nl_reset_info_set_ram_def
      nl_reset_info_prepare_reset_bootloader_ram_def nl_reset_info_get_reset_reason_def good_reason_def Let_def)


section \<open>Faults across resets\<close>

text \<open>
  What the overlaid variant relies on: when the erase, the write and the setting of the dirty flag
  succeed one after the other, the flag is found and the partition reads as it was written.
\<close>

definition store_laws :: "'d diag_ops \<Rightarrow> bool" where
  "store_laws ops \<longleftrightarrow> (\<forall>d fi. 0 \<le> fst (erase_diags ops d) \<and>
     0 \<le> fst (write_diags ops fi (snd (erase_diags ops d))) \<and>
     0 \<le> fst (env_set_dirty ops (snd (write_diags ops fi (snd (erase_diags ops d))))) \<longrightarrow>
     0 \<le> env_get_dirty ops (snd (env_set_dirty ops (snd (write_diags ops fi (snd (erase_diags ops d)))))) \<and>
     read_diags ops (snd (env_set_dirty ops (snd (write_diags ops fi (snd (erase_diags ops d)))))) = (0, fi))"

lemma save_fault_saves:
  assumes "store_laws ops" "env_get_dirty ops (store s) < 0" "save_fault_to_flash ops s = (r, s')" "0 \<le> r"
  shows "0 \<le> env_get_dirty ops (store s') \<and>
     read_diags ops (store s') = (0, (fault_info (g_reset_info s))\<lparr>fi_reason := reset_reason (g_reset_info s)\<rparr>)"
  using assms by (auto simp: save_fault_to_flash_def store_laws_def Let_def split: prod.splits if_splits)
    (metis (no_types, lifting) fst_conv snd_conv not_less)+

text \<open>One reset of the variant in its own memory, recorded before it and processed after it.\<close>

definition ram_reset :: "u32 \<times> string option \<Rightarrow> nl_reset_info_t \<Rightarrow> nl_reset_info_t" where
  "ram_reset rd ri = nl_reset_info_init_ram (nl_reset_info_prepare_reset_ram (fst rd) (snd rd) ri)"

lemma ram_reset_unarmed [simp]: "ri_magic (ram_reset rd ri) = 0"
  by (simp add: ram_reset_def nl_reset_info_init_ram_def Let_def)

lemma ram_reset_keeps_fault:
  assumes "ri_magic ri = 0" "IS_VALID_FAULT_REASON (fi_reason (fault_info ri))"
  shows "fault_info (ram_reset rd ri) = fault_info ri"
proof -
  have "fi_reason (fault_info ri) \<noteq> NL_RESET_REASON_UNKNOWN"
    using assms(2) by auto
  with assms show ?thesis
    by (simp add: ram_reset_def nl_reset_info_init_ram_def nl_reset_info_prepare_reset_ram_def
        nl_reset_info_set_ram_def Let_def)
qed

lemma ram_resets_keep_fault:
  "ri_magic ri = 0 \<Longrightarrow> IS_VALID_FAULT_REASON (fi_reason (fault_info ri)) \<Longrightarrow>
   fault_info (fold ram_reset rds ri) = fault_info ri"
  by (induction rds arbitrary: ri) (simp_all add: ram_reset_keeps_fault)

section \<open>Properties\<close>

text \<open>
  Of the reasons that are given for one reset, both variants of the record keep the first for the
  next boot; in a bootloader, the last fault replaces it.
\<close>

theorem nl_reset_info_first_reason:
  assumes "good_reason r" "IS_VALID_FAULT_REASON f" "\<forall>rd \<in> set rds. \<not> IS_VALID_FAULT_REASON (fst rd)"
  shows "nl_reset_info_get_reset_reason (fold (\<lambda>(r, d). nl_reset_info_prepare_reset_ram r d) ((r, d) # rs)
       (nl_reset_info_init_ram ri)) = r \<and>
     nl_reset_info_get_reset_reason (g_reset_info (fold (\<lambda>(r, d). nl_reset_info_prepare_reset_temp r d) ((r, d) # rs)
       (nl_reset_info_init_temp ops s))) = r \<and>
     nl_reset_info_get_reset_reason (fold (\<lambda>(r, d). nl_reset_info_prepare_reset_bootloader_ram r d) ((f, d) # rds) ri) = f \<and>
     nl_reset_info_get_reset_reason (g_reset_info
       (fold (\<lambda>(r, d). nl_reset_info_prepare_reset_bootloader_temp r d) ((f, d) # rds) s)) = f"
proof (intro conjI)
  show "nl_reset_info_get_reset_reason (fold (\<lambda>(r, d). nl_reset_info_prepare_reset_ram r d) ((r, d) # rs)
       (nl_reset_info_init_ram ri)) = r" by (rule ram.first_reason [OF assms(1)])
  show "nl_reset_info_get_reset_reason (g_reset_info (fold (\<lambda>(r, d). nl_reset_info_prepare_reset_temp r d) ((r, d) # rs)
       (nl_reset_info_init_temp ops s))) = r" by (rule temp.first_reason [OF assms(1)])
  show "nl_reset_info_get_reset_reason (fold (\<lambda>(r, d). nl_reset_info_prepare_reset_bootloader_ram r d) ((f, d) # rds) ri) = f"
    by (rule ram.last_fault [OF assms(2,3)])
  show "nl_reset_info_get_reset_reason (g_reset_info
       (fold (\<lambda>(r, d). nl_reset_info_prepare_reset_bootloader_temp r d) ((f, d) # rds) s)) = f"
    by (rule temp.last_fault [OF assms(2,3)])
qed

text \<open>
  The overlaid variant saves a fault: after a fault was recorded and the device came up again, the
  saved fault has that reason and description, provided that no unprocessed fault was saved before
  and the flash operations succeed; an unprocessed fault is never overwritten.
\<close>

theorem nl_reset_info_fault_saved:
  assumes "store_laws ops" "IS_VALID_FAULT_REASON r" "ri_magic (g_reset_info s) \<noteq> NL_RESET_INFO_MAGIC"
    and "s1 = nl_reset_info_prepare_reset_temp r (Some desc) s"
    and "0 \<le> fst (save_fault_to_flash ops s1)"
  shows "if env_get_dirty ops (store s) < 0
     then \<exists>fi. nl_reset_info_get_saved_fault_temp ops (nl_reset_info_init_temp ops s1) =
             ((0, Some fi), nl_reset_info_init_temp ops s1) \<and>
           fi_reason fi = r \<and> description fi = strncpy desc NL_FAULT_DIAGS_DESCRIPTION_LENGTH
     else store (nl_reset_info_init_temp ops s1) = store s"
proof -
  have s1: "ri_magic (g_reset_info s1) = NL_RESET_INFO_MAGIC" "reset_reason (g_reset_info s1) = r" "store s1 = store s"
     "description (fault_info (g_reset_info s1)) = strncpy desc NL_FAULT_DIAGS_DESCRIPTION_LENGTH"
    using assms(2-4) by (simp_all add: nl_reset_info_prepare_reset_temp_def nl_reset_info_set_temp_def
        set_description_def Let_def)
  have store: "store (nl_reset_info_init_temp ops s1) = store (snd (save_fault_to_flash ops s1))"
    using s1 assms(2) by (simp add: nl_reset_info_init_temp_def Let_def)
  show ?thesis
  proof (cases "env_get_dirty ops (store s) < 0")
    case True
    obtain q s' where save: "save_fault_to_flash ops s1 = (q, s')" by fastforce
    with save_fault_saves [OF assms(1) _ save] True assms(5) s1 store
    have "0 \<le> env_get_dirty ops (store (nl_reset_info_init_temp ops s1))"
      "read_diags ops (store (nl_reset_info_init_temp ops s1)) = (0, (fault_info (g_reset_info s1))\<lparr>fi_reason := r\<rparr>)"
      by auto
    with True s1 assms(2) show ?thesis by (simp add: nl_reset_info_get_saved_fault_temp_def Let_def)
  next
    case False
    then have "snd (save_fault_to_flash ops s1) = s1" using s1 by (simp add: save_fault_to_flash_def)
    with False store s1 show ?thesis by simp
  qed
qed

text \<open>
  The variant in its own memory keeps the first fault that was recorded after the saved fault was
  cleared, through any number of further resets, faults included, as long as each reset is
  announced; a reset that is not announced loses it.
\<close>

theorem nl_reset_info_first_fault_kept:
  assumes "IS_VALID_FAULT_REASON r" "ri_magic ri = 0"
    and "ri' = fold ram_reset ((r, Some desc) # rds) (nl_reset_info_clear_saved_fault_ram ri)"
  shows "\<exists>fi. nl_reset_info_get_saved_fault_ram ri' = ((0, Some fi), ri') \<and>
       fi_reason fi = r \<and> description fi = strncpy desc NL_FAULT_DIAGS_DESCRIPTION_LENGTH \<and>
     fst (nl_reset_info_get_saved_fault_ram (nl_reset_info_init_ram ri')) = (- 1, None)"
proof -
  let ?ri1 = "ram_reset (r, Some desc) (nl_reset_info_clear_saved_fault_ram ri)"
  have ri1: "ri_magic ?ri1 = 0" "fi_reason (fault_info ?ri1) = r"
     "description (fault_info ?ri1) = strncpy desc NL_FAULT_DIAGS_DESCRIPTION_LENGTH"
    using assms(1,2) by (simp_all add: ram_reset_def nl_reset_info_init_ram_def nl_reset_info_prepare_reset_ram_def
        nl_reset_info_set_ram_def nl_reset_info_clear_saved_fault_ram_def clear_fault_info_def set_description_def Let_def)
  have ri': "fault_info ri' = fault_info ?ri1" "ri_magic ri' = 0"
    unfolding assms(3) using ram_resets_keep_fault [OF ri1(1), of rds] ri1 assms(1)
    by (simp_all) (cases rds rule: rev_cases; simp)
  show ?thesis
    using ri1 ri' assms(1) by (auto simp: nl_reset_info_get_saved_fault_ram_def nl_reset_info_init_ram_def Let_def
        nl_reset_info_clear_saved_fault_ram_def clear_fault_info_def)
qed

text \<open>
  Once the boot has processed the record, the query for the last reset reason answers unknown in
  both variants, whatever the reason was.
\<close>

theorem nl_reset_info_reason_gone_after_init:
  "nl_reset_info_get_reset_reason (nl_reset_info_init_ram ri) = NL_RESET_REASON_UNKNOWN \<and>
   nl_reset_info_get_reset_reason (g_reset_info (nl_reset_info_init_temp ops s)) = NL_RESET_REASON_UNKNOWN"
  using ram.boot_law [of ri] temp.boot_law [of ops s] by (simp add: nl_reset_info_get_reset_reason_def)


text \<open>
  A fault description of 32 characters or more is stored without a terminator, while the function
  that prints the saved fault passes it to a conversion that reads up to a terminator.
\<close>

theorem nl_reset_info_description_unterminated:
  assumes "NL_FAULT_DIAGS_DESCRIPTION_LENGTH \<le> length desc" "NUL \<notin> set desc" "IS_VALID_FAULT_REASON r"
  shows "NUL \<notin> set (description (fault_info (g_reset_info (nl_reset_info_set_temp r (Some desc) s))))"
  using assms by (auto simp: nl_reset_info_set_temp_def set_description_def strncpy_def Let_def dest: in_set_takeD)

text \<open>The arrays of a fault record have the sizes of their declarations.\<close>

definition well_sized :: "nl_fault_info_t \<Rightarrow> bool" where
  "well_sized fi \<longleftrightarrow> length (registers fi) = 17 \<and> length (active_task_name fi) = 4 \<and>
     length (description fi) = NL_FAULT_DIAGS_DESCRIPTION_LENGTH \<and> length (machine_backtrace fi) = 10 \<and>
     (\<forall>t \<in> set (task_info fi). length (task_backtrace t) = 10)"

lemma collect_total: "(\<And>x. x \<in> set xs \<Longrightarrow> f x \<noteq> None) \<Longrightarrow> collect (map f xs) \<noteq> None"
proof (induction xs)
  case (Cons x xs)
  then have "f x \<noteq> None" by simp
  with Cons show ?case by (cases "f x"; cases "collect (map f xs)") auto
qed simp

lemma fault_reason_index:
  "IS_VALID_FAULT_REASON r \<Longrightarrow> unat (r - NL_RESET_REASON_FIRST_FAULT) < length s_fault_reset_reason_strings"
  by (auto simp: valid_defs reason_defs s_fault_reset_reason_strings_def word_le_nat_alt unat_sub_if')

text \<open>The strings that \<open>nl_reset_info_print_saved_fault\<close> prints have terminators.\<close>

definition printed_terminated :: "nl_fault_info_t \<Rightarrow> bool" where
  "printed_terminated fi \<longleftrightarrow>
     (active_task_name fi ! 0 \<noteq> NUL \<longrightarrow> NUL \<in> set (active_task_name fi) \<and>
        (\<forall>t \<in> set (task_info fi). task_backtrace t ! 0 \<noteq> 0 \<longrightarrow> NUL \<in> set (task_name t) \<and> NUL \<in> set (task_state t))) \<and>
     (description fi ! 0 \<noteq> NUL \<longrightarrow> NUL \<in> set (description fi))"

lemma collect_total_iff: "collect xs = None \<longleftrightarrow> None \<in> set xs"
proof (induction xs)
  case (Cons x xs)
  then show ?case by (cases x; cases "collect xs") auto
qed simp

lemma read_string_None [simp]: "read_string xs = None \<longleftrightarrow> NUL \<notin> set xs" "read_padded w xs = None \<longleftrightarrow> NUL \<notin> set xs"
  by (simp_all add: read_string_def read_padded_def)

lemma print_task_None:
  "task_backtrace t \<noteq> [] \<Longrightarrow> print_task t = None \<longleftrightarrow>
     task_backtrace t ! 0 \<noteq> 0 \<and> (NUL \<notin> set (task_name t) \<or> NUL \<notin> set (task_state t))"
  by (auto simp: print_task_def bind_eq_None_conv)

text \<open>
  Printing the last reset reason and the saved fault accesses the tables of names and the arrays
  of the record within their bounds, exactly when the strings that are printed have terminators.
\<close>

theorem nl_reset_info_prints_in_bounds:
  assumes "well_sized (fault_info ri)"
  shows "nl_reset_info_print r \<noteq> None \<and>
     (nl_reset_info_print_saved_fault (fst (nl_reset_info_get_saved_fault_ram ri)) = None \<longleftrightarrow>
        IS_VALID_FAULT_REASON (fi_reason (fault_info ri)) \<and> \<not> printed_terminated (fault_info ri))"
proof
  show "nl_reset_info_print r \<noteq> None"
    using fault_reason_index [of r]
    by (auto simp: nl_reset_info_print_def IS_VALID_RESET_REASON_def reason_defs s_reset_reason_strings_def word_less_nat_alt)
  show "nl_reset_info_print_saved_fault (fst (nl_reset_info_get_saved_fault_ram ri)) = None \<longleftrightarrow>
        IS_VALID_FAULT_REASON (fi_reason (fault_info ri)) \<and> \<not> printed_terminated (fault_info ri)"
  proof (cases "IS_VALID_FAULT_REASON (fi_reason (fault_info ri))")
    case True
    let ?fi = "fault_info ri"
    have arrays: "active_task_name ?fi \<noteq> []" "description ?fi \<noteq> []" "machine_backtrace ?fi \<noteq> []"
      "\<forall>t \<in> set (task_info ?fi). task_backtrace t \<noteq> []"
      using assms by (auto simp: well_sized_def NL_FAULT_DIAGS_DESCRIPTION_LENGTH_def)
    obtain regs where regs: "collect (map (\<lambda>i. map_option (Print_reg ''r'') (arr_get (registers ?fi) i)) [0..<13]) = Some regs"
      using collect_total [of "[0..<13]" "\<lambda>i. map_option (Print_reg ''r'') (arr_get (registers ?fi) i)"] assms
      by (auto simp: well_sized_def)
    obtain named where named: "collect (map (\<lambda>i. do { n \<leftarrow> arr_get reg_names i; r \<leftarrow> arr_get (registers ?fi) (i + 13);
          Some (Print_reg n r) }) [0..<length reg_names]) = Some named"
      using collect_total [of "[0..<length reg_names]" "\<lambda>i. do { n \<leftarrow> arr_get reg_names i; r \<leftarrow> arr_get (registers ?fi) (i + 13);
          Some (Print_reg n r) }"] assms
      by (auto simp: well_sized_def reg_names_def)
    have tasks: "collect (map print_task (task_info ?fi)) = None \<longleftrightarrow> (\<exists>t \<in> set (task_info ?fi).
        task_backtrace t ! 0 \<noteq> 0 \<and> (NUL \<notin> set (task_name t) \<or> NUL \<notin> set (task_state t)))"
      using arrays(4) by (auto simp: collect_total_iff print_task_None image_iff) (metis print_task_None)+
    obtain nm where nm: "arr_get s_fault_reset_reason_strings (unat (fi_reason ?fi - NL_RESET_REASON_FIRST_FAULT)) = Some nm"
      using fault_reason_index [OF True] by simp
    show ?thesis
      using True by (simp add: nl_reset_info_get_saved_fault_ram_def nl_reset_info_print_saved_fault_def nm regs named
          arrays bind_eq_None_conv printed_terminated_def) (use tasks in blast)
  qed (simp add: nl_reset_info_get_saved_fault_ram_def nl_reset_info_print_saved_fault_def)
qed

text \<open>After a reset announced with a description of 32 characters or more, printing the saved fault reads past it.\<close>

lemma unterminated_description_print:
  assumes "well_sized (fault_info ri)" "ri_magic ri \<noteq> NL_RESET_INFO_MAGIC" "fi_reason (fault_info ri) = NL_RESET_REASON_UNKNOWN"
    and "IS_VALID_FAULT_REASON r" "NL_FAULT_DIAGS_DESCRIPTION_LENGTH \<le> length desc" "NUL \<notin> set desc"
  shows "nl_reset_info_print_saved_fault (fst (nl_reset_info_get_saved_fault_ram
    (nl_reset_info_init_ram (nl_reset_info_prepare_reset_ram r (Some desc) ri)))) = None"
proof -
  let ?d = "take NL_FAULT_DIAGS_DESCRIPTION_LENGTH desc"
  have d: "NUL \<notin> set ?d" using assms(6) by (auto dest: in_set_takeD)
  then have "?d ! 0 \<noteq> NUL" using assms(5) nth_mem [of 0 ?d] by (auto simp: NL_FAULT_DIAGS_DESCRIPTION_LENGTH_def)
  with d assms nl_reset_info_prints_in_bounds [of "nl_reset_info_init_ram (nl_reset_info_prepare_reset_ram r (Some desc) ri)"]
  show ?thesis
    by (simp add: nl_reset_info_init_ram_def nl_reset_info_prepare_reset_ram_def nl_reset_info_set_ram_def set_description_def
        strncpy_def well_sized_def printed_terminated_def)
qed

section \<open>Witnesses\<close>

text \<open>A store in memory: the dirty flag and the partition.\<close>

definition ram_store :: "(bool \<times> nl_fault_info_t) diag_ops" where
  "ram_store = \<lparr>env_get_dirty = (\<lambda>d. if fst d then 1 else - 1), env_set_dirty = (\<lambda>d. (0, (True, snd d))),
     env_clear_dirty = (\<lambda>d. (False, snd d)), erase_diags = (\<lambda>d. (0, d)),
     write_diags = (\<lambda>fi d. (0, (fst d, fi))), read_diags = (\<lambda>d. (0, snd d))\<rparr>"

definition blank_fault :: nl_fault_info_t where
  "blank_fault = \<lparr>fi_reason = NL_RESET_REASON_UNKNOWN, registers = replicate 17 0,
     active_task_name = replicate 4 NUL, description = replicate 32 NUL,
     machine_backtrace = replicate 10 0, task_info = []\<rparr>"

definition blank_info :: nl_reset_info_t where
  "blank_info = \<lparr>ri_magic = 0, reset_reason = NL_RESET_REASON_UNKNOWN, fault_info = blank_fault\<rparr>"

definition blank_temp :: "(bool \<times> nl_fault_info_t) temp_state" where
  "blank_temp = \<lparr>g_reset_info = blank_info, s_cached_reset_reason = NL_RESET_REASON_UNKNOWN,
     scheduler_suspended = 0, store = (False, blank_fault)\<rparr>"

lemma ram_store_laws: "store_laws ram_store"
  by (simp add: store_laws_def ram_store_def)

lemma assert_is_fault: "IS_VALID_FAULT_REASON NL_RESET_REASON_ASSERT" "good_reason NL_RESET_REASON_UNSPECIFIED"
  by (simp_all add: valid_defs reason_defs word_le_nat_alt)

lemma nl_reset_info_first_reason_witness:
  "nl_reset_info_get_reset_reason (fold (\<lambda>(r, d). nl_reset_info_prepare_reset_ram r d)
     [(NL_RESET_REASON_UNSPECIFIED, None), (NL_RESET_REASON_ASSERT, None)] (nl_reset_info_init_ram blank_info)) =
   NL_RESET_REASON_UNSPECIFIED"
  using nl_reset_info_first_reason [OF assert_is_fault(2,1), of "[]" None "[(NL_RESET_REASON_ASSERT, None)]" blank_info
      ram_store blank_temp] by simp

lemma nl_reset_info_fault_saved_witness:
  "\<exists>fi t. nl_reset_info_get_saved_fault_temp ram_store
      (nl_reset_info_init_temp ram_store (nl_reset_info_prepare_reset_temp NL_RESET_REASON_ASSERT (Some ''a.c 7'') blank_temp)) =
      ((0, Some fi), t) \<and> fi_reason fi = NL_RESET_REASON_ASSERT"
proof -
  have h: "ri_magic (g_reset_info blank_temp) \<noteq> NL_RESET_INFO_MAGIC" "env_get_dirty ram_store (store blank_temp) < 0"
    by (simp_all add: blank_temp_def blank_info_def ram_store_def)
  have "0 \<le> fst (save_fault_to_flash ram_store
      (nl_reset_info_prepare_reset_temp NL_RESET_REASON_ASSERT (Some ''a.c 7'') blank_temp))"
    by (simp add: save_fault_to_flash_def ram_store_def Let_def split: prod.split)
  from nl_reset_info_fault_saved [OF ram_store_laws assert_is_fault(1) h(1) refl this] h(2) show ?thesis by auto
qed

lemma nl_reset_info_first_fault_kept_witness:
  "\<exists>fi. fst (nl_reset_info_get_saved_fault_ram (fold ram_reset [(NL_RESET_REASON_ASSERT, Some ''a.c 7''),
      (NL_RESET_REASON_HARD_FAULT, None)] (nl_reset_info_clear_saved_fault_ram blank_info))) = (0, Some fi) \<and>
    fi_reason fi = NL_RESET_REASON_ASSERT"
  using nl_reset_info_first_fault_kept [OF assert_is_fault(1), of blank_info _ "''a.c 7''"
      "[(NL_RESET_REASON_HARD_FAULT, None)]", OF _ refl]
  by (auto simp: blank_info_def)

lemma nl_reset_info_description_unterminated_witness:
  "NUL \<notin> set (description (fault_info (g_reset_info (nl_reset_info_set_temp NL_RESET_REASON_ASSERT
     (Some (replicate 40 CHR 0x41)) blank_temp))))"
  by (rule nl_reset_info_description_unterminated) (auto simp: NL_FAULT_DIAGS_DESCRIPTION_LENGTH_def NUL_def assert_is_fault)

lemma nl_reset_info_prints_in_bounds_witness:
  "nl_reset_info_print_saved_fault (fst (nl_reset_info_get_saved_fault_ram blank_info)) \<noteq> None"
  using nl_reset_info_prints_in_bounds [of blank_info]
  by (simp add: well_sized_def blank_info_def blank_fault_def NL_FAULT_DIAGS_DESCRIPTION_LENGTH_def)

end
