(* ===== verification/Nlfault.thy ===== *)
theory Nlfault
  imports Nlreset_info
begin

text \<open>
  The assertion delegate of \<open>src/src/nlfault.c\<close>: the file name and the line of a failed assertion are
  put into a fault description of bounded length before the trap. \<open>bootloader\<close> says whether
  \<open>NL_BOOTLOADER\<close> is defined; \<open>tmp0\<close> is what the uninitialised buffer holds. C strings are given
  without their terminator. The lemmas show that the buffer is written within its bounds, is
  terminated, and holds the end of the file name and the whole line number.
\<close>

section \<open>Operations\<close>

definition digit :: "nat \<Rightarrow> char" where
  "digit n = char_of (48 + n)"

text \<open>\<open>utoa(line, line_string, 10)\<close>\<close>

fun utoa :: "nat \<Rightarrow> string" where
  "utoa n = (if n < 10 then [digit n] else utoa (n div 10) @ [digit (n mod 10)])"

declare utoa.simps [simp del]

text \<open>The buffer \<open>tmp\<close> after the formatting, and the file name that is printed.\<close>

definition assert_description :: "bool \<Rightarrow> string \<Rightarrow> string \<Rightarrow> u32 \<Rightarrow> string option" where
  "assert_description bootloader tmp0 file line = do {
     let line_string = utoa (unat line);
     let line_len = length line_string;
     let max_file_len = NL_FAULT_DIAGS_DESCRIPTION_LENGTH - line_len - 2;
     let file1 = (if length file > max_file_len \<and> \<not> bootloader then drop (length file - max_file_len) file else file);
     let file_len = (if length file > max_file_len then max_file_len else length file);
     tmp1 \<leftarrow> mem_write tmp0 0 (strncpy file1 file_len);
     tmp2 \<leftarrow> arr_upd tmp1 file_len (\<lambda>_. CHR '' '');
     mem_write tmp2 (file_len + 1) (strncpy line_string (NL_FAULT_DIAGS_DESCRIPTION_LENGTH - file_len - 1)) }"

text \<open>The string that a buffer holds.\<close>

definition c_string :: "string \<Rightarrow> string" where
  "c_string buf = takeWhile (\<lambda>c. c \<noteq> NUL) buf"

definition assert_helper ::
  "bool \<Rightarrow> string \<Rightarrow> string \<Rightarrow> u32 \<Rightarrow> nl_reset_info_t \<Rightarrow> nl_reset_info_t option" where
  "assert_helper bootloader tmp0 file line ri = do {
     tmp \<leftarrow> assert_description bootloader tmp0 file line;
     Some (nl_reset_info_prepare_reset_ram NL_RESET_REASON_ASSERT (Some (c_string tmp)) ri) }"

text \<open>The delegate records the assertion and traps: it never returns.\<close>

definition nl_platform_assert_delegate ::
  "bool \<Rightarrow> string \<Rightarrow> string \<Rightarrow> u32 \<Rightarrow> nl_reset_info_t \<Rightarrow> nl_reset_info_t option \<times> bool" where
  "nl_platform_assert_delegate bootloader tmp0 file line ri = (assert_helper bootloader tmp0 file line ri, True)"

section \<open>Lemmas\<close>

lemma utoa_length_bound: "n < 10 ^ k \<Longrightarrow> 0 < k \<Longrightarrow> length (utoa n) \<le> k"
proof (induction n arbitrary: k rule: utoa.induct)
  case (1 n)
  show ?case
  proof (cases "n < 10")
    case True
    with 1(3) show ?thesis by (simp add: utoa.simps [of n])
  next
    case False
    then have "1 < k" using 1(2,3) by (cases "k = 1") auto
    then have "n div 10 < 10 ^ (k - 1)" "0 < k - 1"
      using 1(2) by (auto simp: less_mult_imp_div_less power_eq_if)
    with 1(1) [OF False, of "k - 1"] False show ?thesis by (simp add: utoa.simps [of n])
  qed
qed

lemma utoa_no_NUL: "NUL \<notin> set (utoa n)"
proof (induction n rule: utoa.induct)
  case (1 n)
  have "NUL \<noteq> digit m" if "m < 10" for m
  proof -
    have "of_char (digit m) = (48 + m :: nat)" using that by (simp add: digit_def)
    moreover have "of_char NUL = (0 :: nat)" by (simp add: NUL_def)
    ultimately show ?thesis by auto
  qed
  with 1 show ?case by (simp add: utoa.simps [of n])
qed

lemma utoa_line: "length (utoa (unat (line :: u32))) \<le> 10" "0 < length (utoa n)"
proof -
  have "unat line < 2 ^ LENGTH(32)" by (rule unsigned_less)
  then show "length (utoa (unat line)) \<le> 10" by (intro utoa_length_bound) simp_all
  show "0 < length (utoa n)" by (simp add: utoa.simps [of n])
qed


text \<open>The part of the file name that the description keeps.\<close>

definition kept_file :: "bool \<Rightarrow> string \<Rightarrow> u32 \<Rightarrow> string" where
  "kept_file bootloader file line =
     (let room = NL_FAULT_DIAGS_DESCRIPTION_LENGTH - length (utoa (unat line)) - 2
      in if bootloader then take room file else drop (length file - room) file)"

lemma strncpy_exact: "n \<le> length src \<Longrightarrow> strncpy src n = take n src"
  by (simp add: strncpy_def)

lemma format_buffer:
  assumes "length k + 1 + length t = length tmp0"
  shows "do { tmp1 \<leftarrow> mem_write tmp0 0 k; tmp2 \<leftarrow> arr_upd tmp1 (length k) (\<lambda>_. c);
              mem_write tmp2 (length k + 1) t } = Some (k @ c # t)"
proof -
  obtain x r where "drop (length k) tmp0 = x # r" "length r = length t"
    using assms by (cases "drop (length k) tmp0") (auto dest: arg_cong [where f = length])
  with assms show ?thesis by (simp add: list_update_append)
qed

lemma assert_description_contents:
  assumes "length tmp0 = NL_FAULT_DIAGS_DESCRIPTION_LENGTH"
  shows "assert_description bootloader tmp0 file line =
     Some (strncpy (kept_file bootloader file line @ '' '' @ utoa (unat line)) NL_FAULT_DIAGS_DESCRIPTION_LENGTH)"
proof -
  let ?N = "NL_FAULT_DIAGS_DESCRIPTION_LENGTH"
  let ?ls = "utoa (unat line)" let ?room = "?N - length ?ls - 2"
  let ?file1 = "if length file > ?room \<and> \<not> bootloader then drop (length file - ?room) file else file"
  let ?fl = "if length file > ?room then ?room else length file"
  let ?k = "kept_file bootloader file line"
  have N: "?N = 32" by (simp add: NL_FAULT_DIAGS_DESCRIPTION_LENGTH_def)
  have ls: "length ?ls \<le> 10" "0 < length ?ls" using utoa_line by auto
  have k: "strncpy ?file1 ?fl = ?k" "length ?k = ?fl"
    by (auto simp: strncpy_def kept_file_def Let_def)
  have fl: "?fl + length ?ls + 2 \<le> 32" using ls N by auto
  have tail: "strncpy ?ls (?N - ?fl - 1) = ?ls @ replicate (32 - (?fl + 1 + length ?ls)) NUL"
    using fl by (simp add: strncpy_def N)
  have "assert_description bootloader tmp0 file line = do {
      tmp1 \<leftarrow> mem_write tmp0 0 ?k; tmp2 \<leftarrow> arr_upd tmp1 (length ?k) (\<lambda>_. CHR '' '');
      mem_write tmp2 (length ?k + 1) (?ls @ replicate (32 - (length ?k + 1 + length ?ls)) NUL) }"
    unfolding assert_description_def Let_def k tail by simp
  also have "\<dots> = Some (?k @ '' '' @ ?ls @ replicate (32 - (length ?k + 1 + length ?ls)) NUL)"
    using fl k(2) assms N
    by (subst format_buffer) (simp_all del: append_assoc mem_write_in add: append_assoc [symmetric])
  also have "\<dots> = Some (strncpy (?k @ '' '' @ ?ls) ?N)"
    using fl k(2) by (simp add: strncpy_def N)
  finally show ?thesis .
qed

lemma c_string_strncpy:
  assumes "length msg < n" "NUL \<notin> set msg"
  shows "c_string (strncpy msg n) = msg"
proof -
  obtain m where "n - length msg = Suc m" using assms(1) by (metis Suc_diff_Suc)
  with assms show ?thesis by (auto simp: c_string_def strncpy_def takeWhile_append)
qed

lemma kept_file_props: "NUL \<notin> set file \<Longrightarrow> NUL \<notin> set (kept_file b file line)"
  "length (kept_file b file line) + length (utoa (unat line)) + 2 \<le> NL_FAULT_DIAGS_DESCRIPTION_LENGTH"
  using utoa_line(1) [of line]
  by (auto simp: kept_file_def Let_def NL_FAULT_DIAGS_DESCRIPTION_LENGTH_def dest: in_set_takeD in_set_dropD)

text \<open>What the helper hands to the reset information.\<close>

lemma assert_helper_message:
  assumes "length tmp0 = NL_FAULT_DIAGS_DESCRIPTION_LENGTH" "NUL \<notin> set file"
    and "msg = kept_file bootloader file line @ '' '' @ utoa (unat line)"
  shows "assert_helper bootloader tmp0 file line ri = Some (nl_reset_info_prepare_reset_ram NL_RESET_REASON_ASSERT (Some msg) ri)"
    and "c_string (strncpy msg NL_FAULT_DIAGS_DESCRIPTION_LENGTH) = msg"
proof -
  have "NUL \<noteq> CHR '' ''" by (simp add: NUL_def)
  then have nul: "NUL \<notin> set msg" unfolding assms(3) using kept_file_props(1) [OF assms(2), of bootloader line] utoa_no_NUL by simp
  have "length msg < NL_FAULT_DIAGS_DESCRIPTION_LENGTH"
    unfolding assms(3) using kept_file_props(2) [of bootloader] by (simp add: Suc_le_eq)
  with nul show c: "c_string (strncpy msg NL_FAULT_DIAGS_DESCRIPTION_LENGTH) = msg" by (rule_tac c_string_strncpy)
  show "assert_helper bootloader tmp0 file line ri = Some (nl_reset_info_prepare_reset_ram NL_RESET_REASON_ASSERT (Some msg) ri)"
    unfolding assert_helper_def assert_description_contents [OF assms(1)] assms(3) [symmetric] using c by simp
qed

section \<open>Properties\<close>

text \<open>
  A failed assertion is recorded with a description that fits and is terminated: it consists of
  the end of the file name (in a bootloader, its start), a space and the complete line number; the
  formatting never writes outside its buffer.
\<close>

theorem assert_helper_records:
  assumes "length tmp0 = NL_FAULT_DIAGS_DESCRIPTION_LENGTH" "NUL \<notin> set file"
    and "ri_magic ri \<noteq> NL_RESET_INFO_MAGIC" "fi_reason (fault_info ri) = NL_RESET_REASON_UNKNOWN"
  shows "\<exists>ri'. assert_helper bootloader tmp0 file line ri = Some ri' \<and>
     nl_reset_info_get_reset_reason ri' = NL_RESET_REASON_ASSERT \<and>
     length (description (fault_info ri')) = NL_FAULT_DIAGS_DESCRIPTION_LENGTH \<and>
     c_string (description (fault_info ri')) = kept_file bootloader file line @ '' '' @ utoa (unat line)"
  using assert_helper_message(1) [OF assms(1,2) refl, where bootloader = bootloader and line = line and ri = ri]
    assert_helper_message(2) [OF assms(1,2) refl, where bootloader = bootloader and line = line] assms(3,4) assert_is_fault(1)
  by (simp add: nl_reset_info_prepare_reset_ram_def nl_reset_info_set_ram_def set_description_def
      nl_reset_info_get_reset_reason_def Let_def) (simp add: strncpy_def)

lemma assert_helper_records_witness:
  "\<exists>ri'. assert_helper False (replicate 32 CHR 0x55) ''main.c'' 42 blank_info = Some ri' \<and>
     c_string (description (fault_info ri')) = ''main.c 42''"
proof -
  have "utoa (unat (42 :: u32)) = ''42''" "utoa 42 = ''42''"
    by code_simp+
  then have "kept_file False ''main.c'' 42 @ '' '' @ utoa (unat (42 :: u32)) = ''main.c 42''"
    by (simp add: kept_file_def NL_FAULT_DIAGS_DESCRIPTION_LENGTH_def)
  with assert_helper_records [of "replicate 32 CHR 0x55" "''main.c''" blank_info False 42] show ?thesis
    by (auto simp: NL_FAULT_DIAGS_DESCRIPTION_LENGTH_def NUL_def blank_info_def blank_fault_def)
qed

end
