(* ===== verification/Nlflash.thy ===== *)
theory Nlflash
  imports NL_Prelude
begin

text \<open>
  The flash wrappers of \<open>src/src/nlflash.c\<close>: a table of drivers, whose functions are partly optional,
  and a lock for each flash that the product may install. The drivers and the locks are given as
  functions on a world \<open>'w\<close>, the hardware and whatever the locks are made of; results through
  pointers are returned beside the status. A \<open>NULL\<close> dereference and a failing \<open>nlASSERT\<close> are \<open>None\<close>.

  The lemmas show that every operation runs its driver with the lock held and gives the lock back,
  which errors take precedence, and the two cases in which the wrappers do not do so.
\<close>

section \<open>State\<close>

record nlflash_info_t =
  fl_name :: cstr
  base_addr :: u32
  fl_size :: u32
  erase_size :: u32
  fast_erase_size :: u32
  write_size :: u32

record 'w nlflash_func_table_t =
  fl_init :: "('w \<Rightarrow> int \<times> 'w) option"
  fl_request :: "('w \<Rightarrow> int \<times> 'w) option"
  fl_release :: "('w \<Rightarrow> int \<times> 'w) option"
  fl_flush :: "('w \<Rightarrow> int \<times> 'w) option"
  fl_read_id :: "(u32 \<Rightarrow> 'w \<Rightarrow> (int \<times> u8 list) \<times> 'w) option"
  fl_get_info :: "('w \<Rightarrow> nlflash_info_t option \<times> 'w) option"
  fl_erase :: "(u32 \<Rightarrow> u32 \<Rightarrow> 'w \<Rightarrow> (int \<times> u32) \<times> 'w) option"
  fl_read :: "(u32 \<Rightarrow> u32 \<Rightarrow> 'w \<Rightarrow> (int \<times> u32 \<times> u8 list) \<times> 'w) option"
  fl_write :: "(u32 \<Rightarrow> u8 list \<Rightarrow> 'w \<Rightarrow> (int \<times> u32) \<times> 'w) option"

record 'w flash_ctx_t =
  ctx_lock :: "(nat \<Rightarrow> 'w \<Rightarrow> int \<times> 'w) option"
  ctx_unlock :: "(nat \<Rightarrow> 'w \<Rightarrow> int \<times> 'w) option"
  lock_ctx :: nat

record 'w flash_state =
  s_flash_ctxs :: "'w flash_ctx_t list"
  world :: 'w

type_synonym 'w flash_table = "'w nlflash_func_table_t list"

text \<open>Calling a driver function on the world inside the state.\<close>

definition on_world :: "('w \<Rightarrow> 'r \<times> 'w) \<Rightarrow> 'w flash_state \<Rightarrow> 'r \<times> 'w flash_state" where
  "on_world f s = (let (r, w) = f (world s) in (r, s\<lparr>world := w\<rparr>))"

section \<open>Operations\<close>

definition nlflash_set_lock ::
  "nat \<Rightarrow> (nat \<Rightarrow> 'w \<Rightarrow> int \<times> 'w) option \<Rightarrow> (nat \<Rightarrow> 'w \<Rightarrow> int \<times> 'w) option \<Rightarrow> nat \<Rightarrow>
   'w flash_state \<Rightarrow> 'w flash_state option" where
  "nlflash_set_lock flash_id lock unlock lctx s = do {
     ctxs \<leftarrow> arr_upd (s_flash_ctxs s) flash_id (\<lambda>_. \<lparr>ctx_lock = lock, ctx_unlock = unlock, lock_ctx = lctx\<rparr>);
     Some (s\<lparr>s_flash_ctxs := ctxs\<rparr>) }"

definition nlflash_lock :: "nat \<Rightarrow> 'w flash_state \<Rightarrow> (int \<times> 'w flash_state) option" where
  "nlflash_lock flash_id s = do {
     c \<leftarrow> arr_get (s_flash_ctxs s) flash_id;
     Some (case ctx_lock c of None \<Rightarrow> (0, s) | Some f \<Rightarrow> on_world (f (lock_ctx c)) s) }"

definition nlflash_unlock :: "nat \<Rightarrow> 'w flash_state \<Rightarrow> (int \<times> 'w flash_state) option" where
  "nlflash_unlock flash_id s = do {
     c \<leftarrow> arr_get (s_flash_ctxs s) flash_id;
     Some (case ctx_unlock c of None \<Rightarrow> (0, s) | Some f \<Rightarrow> on_world (f (lock_ctx c)) s) }"

primrec nlflash_init :: "'w flash_table \<Rightarrow> 'w flash_state \<Rightarrow> 'w flash_state option" where
  "nlflash_init [] s = Some s"
| "nlflash_init (dev # devs) s =
     (case fl_init dev of
        None \<Rightarrow> nlflash_init devs s
      | Some f \<Rightarrow> let (err, s1) = on_world f s in if err = 0 then nlflash_init devs s1 else None)"

definition nlflash_request :: "'w flash_table \<Rightarrow> nat \<Rightarrow> 'w flash_state \<Rightarrow> (int \<times> 'w flash_state) option" where
  "nlflash_request tab flash_id s = do {
     (retval, s1) \<leftarrow> nlflash_lock flash_id s;
     if retval \<ge> 0
     then do {
       dev \<leftarrow> arr_get tab flash_id;
       Some (case fl_request dev of None \<Rightarrow> (retval, s1) | Some f \<Rightarrow> on_world f s1) }
     else Some (retval, s1) }"

definition nlflash_release :: "'w flash_table \<Rightarrow> nat \<Rightarrow> 'w flash_state \<Rightarrow> (int \<times> 'w flash_state) option" where
  "nlflash_release tab flash_id s = do {
     dev \<leftarrow> arr_get tab flash_id;
     let (retval, s1) = (case fl_release dev of None \<Rightarrow> (0, s) | Some f \<Rightarrow> on_world f s);
     (lock_retval, s2) \<leftarrow> nlflash_unlock flash_id s1;
     Some (if lock_retval < 0 \<and> retval \<ge> 0 then lock_retval else retval, s2) }"

text \<open>
  The frame that \<open>nlflash_flush\<close>, \<open>nlflash_read_id\<close>, \<open>nlflash_erase\<close>, \<open>nlflash_read\<close> and
  \<open>nlflash_write\<close> share: lock, call the driver, unlock; an error of the driver wins over an error of
  the unlocking. \<open>r0\<close> is what the output arguments hold when the driver is not called.
\<close>

definition locked_call ::
  "nat \<Rightarrow> 'r \<Rightarrow> ('w \<Rightarrow> (int \<times> 'r) \<times> 'w) \<Rightarrow> 'w flash_state \<Rightarrow> ((int \<times> 'r) \<times> 'w flash_state) option" where
  "locked_call flash_id r0 f s = do {
     (lock_retval, s1) \<leftarrow> nlflash_lock flash_id s;
     if lock_retval < 0 then Some ((lock_retval, r0), s1)
     else do {
       let ((retval, r), s2) = on_world f s1;
       (lock_retval, s3) \<leftarrow> nlflash_unlock flash_id s2;
       Some ((if lock_retval < 0 \<and> retval \<ge> 0 then lock_retval else retval, r), s3) } }"

definition plain :: "('w \<Rightarrow> int \<times> 'w) \<Rightarrow> 'w \<Rightarrow> (int \<times> unit) \<times> 'w" where
  "plain f w = (let (r, w') = f w in ((r, ()), w'))"

definition nlflash_flush :: "'w flash_table \<Rightarrow> nat \<Rightarrow> 'w flash_state \<Rightarrow> ((int \<times> unit) \<times> 'w flash_state) option" where
  "nlflash_flush tab flash_id s = do {
     dev \<leftarrow> arr_get tab flash_id;
     case fl_flush dev of None \<Rightarrow> Some ((0, ()), s) | Some f \<Rightarrow> locked_call flash_id () (plain f) s }"

definition nlflash_read_id ::
  "'w flash_table \<Rightarrow> nat \<Rightarrow> u32 \<Rightarrow> u8 list \<Rightarrow> 'w flash_state \<Rightarrow> ((int \<times> u8 list) \<times> 'w flash_state) option" where
  "nlflash_read_id tab flash_id id_buf_size id_buf s = do {
     dev \<leftarrow> arr_get tab flash_id;
     case fl_read_id dev of None \<Rightarrow> Some ((0, id_buf), s)
     | Some f \<Rightarrow> locked_call flash_id id_buf (f id_buf_size) s }"

definition nlflash_get_info ::
  "'w flash_table \<Rightarrow> nat \<Rightarrow> 'w flash_state \<Rightarrow> (nlflash_info_t option \<times> 'w flash_state) option" where
  "nlflash_get_info tab flash_id s = do {
     dev \<leftarrow> arr_get tab flash_id;
     f \<leftarrow> fl_get_info dev;
     (lock_retval, s1) \<leftarrow> nlflash_lock flash_id s;
     if lock_retval < 0 then Some (None, s1)
     else do {
       let (info, s2) = on_world f s1;
       (lock_retval, s3) \<leftarrow> nlflash_unlock flash_id s2;
       Some (if lock_retval < 0 then None else info, s3) } }"

definition erase_alignment_is_ok ::
  "'w flash_table \<Rightarrow> nat \<Rightarrow> u32 \<Rightarrow> u32 \<Rightarrow> 'w flash_state \<Rightarrow> (bool \<times> 'w flash_state) option" where
  "erase_alignment_is_ok tab flash_id start len s = do {
     (flash_info, s1) \<leftarrow> nlflash_get_info tab flash_id s;
     info \<leftarrow> flash_info;
     if erase_size info = 0 then None
     else Some (start mod erase_size info = 0 \<and> len mod erase_size info = 0, s1) }"

definition nlflash_erase ::
  "'w flash_table \<Rightarrow> nat \<Rightarrow> u32 \<Rightarrow> u32 \<Rightarrow> u32 \<Rightarrow> 'w flash_state \<Rightarrow> ((int \<times> u32) \<times> 'w flash_state) option" where
  "nlflash_erase tab flash_id from len retlen s = do {
     dev \<leftarrow> arr_get tab flash_id;
     f \<leftarrow> fl_erase dev;
     (ok, s1) \<leftarrow> erase_alignment_is_ok tab flash_id from len s;
     if ok then locked_call flash_id retlen (f from len) s1 else None }"

definition nlflash_read ::
  "'w flash_table \<Rightarrow> nat \<Rightarrow> u32 \<Rightarrow> u32 \<Rightarrow> u32 \<times> u8 list \<Rightarrow> 'w flash_state \<Rightarrow>
   ((int \<times> u32 \<times> u8 list) \<times> 'w flash_state) option" where
  "nlflash_read tab flash_id from len out s = do {
     dev \<leftarrow> arr_get tab flash_id;
     f \<leftarrow> fl_read dev;
     locked_call flash_id out (f from len) s }"

definition nlflash_write ::
  "'w flash_table \<Rightarrow> nat \<Rightarrow> u32 \<Rightarrow> u8 list \<Rightarrow> u32 \<Rightarrow> 'w flash_state \<Rightarrow> ((int \<times> u32) \<times> 'w flash_state) option" where
  "nlflash_write tab flash_id to buf retlen s = do {
     dev \<leftarrow> arr_get tab flash_id;
     f \<leftarrow> fl_write dev;
     locked_call flash_id retlen (f to buf) s }"

section \<open>Locking\<close>

text \<open>
  The lock as the product sees it: \<open>depth\<close> counts the holders. A successful lock adds one, an unlock
  removes one, a failing lock changes nothing; no driver function touches it.
\<close>

definition keeps :: "('w \<Rightarrow> int) \<Rightarrow> ('w \<Rightarrow> 'r \<times> 'w) \<Rightarrow> bool" where
  "keeps depth f \<longleftrightarrow> (\<forall>w. depth (snd (f w)) = depth w)"

definition lock_laws :: "('w \<Rightarrow> int) \<Rightarrow> 'w flash_ctx_t \<Rightarrow> bool" where
  "lock_laws depth c \<longleftrightarrow> (\<exists>lk ul. ctx_lock c = Some lk \<and> ctx_unlock c = Some ul \<and>
     (\<forall>w. depth (snd (lk (lock_ctx c) w)) = (if fst (lk (lock_ctx c) w) < 0 then depth w else depth w + 1)) \<and>
     (\<forall>w. depth (snd (ul (lock_ctx c) w)) = depth w - 1))"

definition table_keeps :: "('w \<Rightarrow> int) \<Rightarrow> 'w nlflash_func_table_t \<Rightarrow> bool" where
  "table_keeps depth dev \<longleftrightarrow>
     (\<forall>f. fl_request dev = Some f \<longrightarrow> keeps depth f) \<and> (\<forall>f. fl_release dev = Some f \<longrightarrow> keeps depth f) \<and>
     (\<forall>f. fl_flush dev = Some f \<longrightarrow> keeps depth f) \<and> (\<forall>f n. fl_read_id dev = Some f \<longrightarrow> keeps depth (f n)) \<and>
     (\<forall>f. fl_get_info dev = Some f \<longrightarrow> keeps depth f) \<and>
     (\<forall>f a n. fl_erase dev = Some f \<longrightarrow> keeps depth (f a n)) \<and>
     (\<forall>f a n. fl_read dev = Some f \<longrightarrow> keeps depth (f a n)) \<and>
     (\<forall>f a b. fl_write dev = Some f \<longrightarrow> keeps depth (f a b))"

definition flash_ok :: "('w \<Rightarrow> int) \<Rightarrow> 'w flash_table \<Rightarrow> nat \<Rightarrow> 'w flash_state \<Rightarrow> bool" where
  "flash_ok depth tab i s \<longleftrightarrow> i < length tab \<and> i < length (s_flash_ctxs s) \<and>
     lock_laws depth (s_flash_ctxs s ! i) \<and> table_keeps depth (tab ! i)"

lemma on_world_simps [simp]:
  "s_flash_ctxs (snd (on_world f s)) = s_flash_ctxs s" "world (snd (on_world f s)) = snd (f (world s))"
  "fst (on_world f s) = fst (f (world s))"
  by (simp_all add: on_world_def split: prod.split)

lemma flash_lock_effect:
  assumes "flash_ok depth tab i s"
  shows "\<exists>r s'. nlflash_lock i s = Some (r, s') \<and> flash_ok depth tab i s' \<and>
     depth (world s') = (if r < 0 then depth (world s) else depth (world s) + 1)"
  using assms unfolding flash_ok_def lock_laws_def
  by (auto simp: nlflash_lock_def on_world_def split: prod.split) (metis fst_conv snd_conv)+

lemma flash_unlock_effect:
  assumes "flash_ok depth tab i s"
  shows "\<exists>r s'. nlflash_unlock i s = Some (r, s') \<and> flash_ok depth tab i s' \<and> depth (world s') = depth (world s) - 1"
  using assms unfolding flash_ok_def lock_laws_def
  by (auto simp: nlflash_unlock_def on_world_def split: prod.split) (metis snd_conv)+

lemma keeps_on_world:
  "keeps depth f \<Longrightarrow> on_world f s = (r, s') \<Longrightarrow> depth (world s') = depth (world s) \<and> s_flash_ctxs s' = s_flash_ctxs s"
  by (auto simp: keeps_def on_world_def split: prod.splits) (metis snd_conv)

lemma locked_call_effect:
  assumes "flash_ok depth tab i s" "keeps depth f"
  shows "\<exists>r out s'. locked_call i r0 f s = Some ((r, out), s') \<and> flash_ok depth tab i s' \<and> depth (world s') = depth (world s)"
proof -
  obtain r1 s1 where s1: "nlflash_lock i s = Some (r1, s1)" "flash_ok depth tab i s1"
     "depth (world s1) = (if r1 < 0 then depth (world s) else depth (world s) + 1)"
    using flash_lock_effect [OF assms(1)] by blast
  obtain r out s2 where s2: "on_world f s1 = ((r, out), s2)" by (metis prod.exhaust)
  then have d2: "depth (world s2) = depth (world s1)" "flash_ok depth tab i s2"
    using keeps_on_world [OF assms(2) s2] s1(2) by (auto simp: flash_ok_def)
  obtain r3 s3 where s3: "nlflash_unlock i s2 = Some (r3, s3)" "flash_ok depth tab i s3" "depth (world s3) = depth (world s2) - 1"
    using flash_unlock_effect [OF d2(2)] by blast
  show ?thesis
    using s1 s2 s3 d2(1) by (cases "r1 < 0") (auto simp: locked_call_def Let_def)
qed


lemma keeps_plain: "keeps depth f \<Longrightarrow> keeps depth (plain f)"
  by (simp add: keeps_def plain_def Let_def split: prod.split) (metis snd_conv)

lemma get_info_effect:
  assumes "flash_ok depth tab i s" "fl_get_info (tab ! i) = Some f"
  shows "\<exists>info s'. nlflash_get_info tab i s = Some (info, s') \<and> flash_ok depth tab i s' \<and> depth (world s') = depth (world s)"
proof -
  have k: "keeps depth f" using assms by (simp add: flash_ok_def table_keeps_def)
  obtain r1 s1 where s1: "nlflash_lock i s = Some (r1, s1)" "flash_ok depth tab i s1"
     "depth (world s1) = (if r1 < 0 then depth (world s) else depth (world s) + 1)"
    using flash_lock_effect [OF assms(1)] by blast
  obtain info s2 where s2: "on_world f s1 = (info, s2)" by fastforce
  then have d2: "depth (world s2) = depth (world s1)" "flash_ok depth tab i s2"
    using keeps_on_world [OF k s2] s1(2) by (auto simp: flash_ok_def)
  obtain r3 s3 where s3: "nlflash_unlock i s2 = Some (r3, s3)" "flash_ok depth tab i s3" "depth (world s3) = depth (world s2) - 1"
    using flash_unlock_effect [OF d2(2)] by blast
  show ?thesis using s1 s2 s3 d2(1) assms
    by (cases "r1 < 0") (auto simp: nlflash_get_info_def flash_ok_def)
qed

section \<open>Properties\<close>

text \<open>
  C34: reading, writing, flushing, reading the identifier and asking for the description of a flash
  return and leave the lock as they found it, whatever the drivers and the lock return; so does
  erasing, when it returns.
\<close>

theorem nlflash_operations_balanced:
  assumes "flash_ok depth tab i s" "fl_read (tab ! i) \<noteq> None" "fl_write (tab ! i) \<noteq> None" "fl_get_info (tab ! i) \<noteq> None"
  shows "(\<exists>r s'. nlflash_read tab i from len out s = Some (r, s') \<and> depth (world s') = depth (world s)) \<and>
     (\<exists>r s'. nlflash_write tab i to data retlen s = Some (r, s') \<and> depth (world s') = depth (world s)) \<and>
     (\<exists>r s'. nlflash_flush tab i s = Some (r, s') \<and> depth (world s') = depth (world s)) \<and>
     (\<exists>r s'. nlflash_read_id tab i n idb s = Some (r, s') \<and> depth (world s') = depth (world s)) \<and>
     (\<exists>info s'. nlflash_get_info tab i s = Some (info, s') \<and> depth (world s') = depth (world s)) \<and>
     (\<forall>r s'. nlflash_erase tab i from len retlen s = Some (r, s') \<longrightarrow> depth (world s') = depth (world s))"
proof (intro conjI allI impI)
  note ok = assms(1)
  have i: "i < length tab" using ok by (simp add: flash_ok_def)
  obtain rd wr gi where f: "fl_read (tab ! i) = Some rd" "fl_write (tab ! i) = Some wr" "fl_get_info (tab ! i) = Some gi"
    using assms(2-4) by auto
  have k: "keeps depth (rd from len)" "keeps depth (wr to data)"
    using ok f by (auto simp: flash_ok_def table_keeps_def)
  show "\<exists>r s'. nlflash_read tab i from len out s = Some (r, s') \<and> depth (world s') = depth (world s)"
    using locked_call_effect [OF ok k(1), of out] f(1) i by (auto simp: nlflash_read_def)
  show "\<exists>r s'. nlflash_write tab i to data retlen s = Some (r, s') \<and> depth (world s') = depth (world s)"
    using locked_call_effect [OF ok k(2), of retlen] f(2) i by (auto simp: nlflash_write_def)
  show "\<exists>r s'. nlflash_flush tab i s = Some (r, s') \<and> depth (world s') = depth (world s)"
  proof (cases "fl_flush (tab ! i)")
    case (Some g)
    then have "keeps depth (plain g)" using ok by (auto simp: flash_ok_def table_keeps_def intro: keeps_plain)
    from locked_call_effect [OF ok this, of "()"] Some i show ?thesis by (auto simp: nlflash_flush_def)
  qed (use i in \<open>simp add: nlflash_flush_def\<close>)
  show "\<exists>r s'. nlflash_read_id tab i n idb s = Some (r, s') \<and> depth (world s') = depth (world s)"
  proof (cases "fl_read_id (tab ! i)")
    case (Some g)
    then have "keeps depth (g n)" using ok by (auto simp: flash_ok_def table_keeps_def)
    from locked_call_effect [OF ok this, of idb] Some i show ?thesis by (auto simp: nlflash_read_id_def)
  qed (use i in \<open>simp add: nlflash_read_id_def\<close>)
  show "\<exists>info s'. nlflash_get_info tab i s = Some (info, s') \<and> depth (world s') = depth (world s)"
    using get_info_effect [OF ok f(3)] by blast
  fix r s' assume er: "nlflash_erase tab i from len retlen s = Some (r, s')"
  then obtain g where g: "fl_erase (tab ! i) = Some g" using i by (auto simp: nlflash_erase_def elim!: bind_SomeE)
  then have "keeps depth (g from len)" using ok by (auto simp: flash_ok_def table_keeps_def)
  with er g i get_info_effect [OF ok f(3)] locked_call_effect [of depth tab i _ "g from len" retlen]
  show "depth (world s') = depth (world s)"
    by (fastforce simp: nlflash_erase_def erase_alignment_is_ok_def elim!: bind_SomeE split: if_splits)
qed

text \<open>
  When the lock of a flash cannot be taken, reading and writing return the error of the lock and
  do not call the driver, but erasing does not return: it looks up the erase size first and
  dereferences the missing description.
\<close>

theorem nlflash_lock_failure:
  assumes "i < length tab" "fl_read (tab ! i) \<noteq> None" "fl_write (tab ! i) \<noteq> None" "fl_get_info (tab ! i) \<noteq> None"
    and "nlflash_lock i s = Some (e, s1)" "e < 0"
  shows "nlflash_read tab i from len out s = Some ((e, out), s1) \<and>
     nlflash_write tab i to data retlen s = Some ((e, retlen), s1) \<and>
     nlflash_erase tab i from len retlen s = None"
  using assms by (auto simp: nlflash_read_def nlflash_write_def nlflash_erase_def erase_alignment_is_ok_def
      nlflash_get_info_def locked_call_def split: option.split)

text \<open>
  A request whose driver fails returns the driver's error and keeps the lock: nothing gives it
  back unless the caller releases a flash that it was not granted.
\<close>

theorem nlflash_request_failure_keeps_lock:
  assumes "flash_ok depth tab i s" "nlflash_lock i s = Some (r, s1)" "0 \<le> r"
    and "fl_request (tab ! i) = Some f" "f (world s1) = (e, w)" "e < 0"
  shows "\<exists>s'. nlflash_request tab i s = Some (e, s') \<and> depth (world s') = depth (world s) + 1"
proof -
  have "depth (world s1) = depth (world s) + 1"
    using flash_lock_effect [OF assms(1)] assms(2,3) by auto
  moreover have "depth w = depth (world s1)"
    using assms(1,4,5) unfolding flash_ok_def table_keeps_def keeps_def by (metis snd_conv)
  ultimately show ?thesis
    using assms by (simp add: nlflash_request_def flash_ok_def on_world_def)
qed

text \<open>
  A misaligned erase is refused: when the start or the length of the range is not a multiple of
  the erase size of the flash, the assertion fails and no driver function erases anything; an
  aligned one is passed to the driver.
\<close>

theorem nlflash_erase_checks_alignment:
  assumes "nlflash_get_info tab i s = Some (Some info, s1)" "erase_size info \<noteq> 0"
    and "i < length tab" "fl_erase (tab ! i) = Some f"
  shows "nlflash_erase tab i from len retlen s =
     (if from mod erase_size info = 0 \<and> len mod erase_size info = 0
      then locked_call i retlen (f from len) s1 else None)"
  using assms by (simp add: nlflash_erase_def erase_alignment_is_ok_def)

section \<open>Witnesses\<close>

text \<open>A flash whose world is its lock count; the lock \<open>1\<close> cannot be taken.\<close>

definition demo_dev :: "int \<Rightarrow> int nlflash_func_table_t" where
  "demo_dev e = \<lparr>fl_init = None, fl_request = Some (\<lambda>w. (e, w)), fl_release = None, fl_flush = None, fl_read_id = None,
     fl_get_info = Some (\<lambda>w. (Some \<lparr>fl_name = 0, base_addr = 0, fl_size = 65536, erase_size = 4096,
        fast_erase_size = 4096, write_size = 1\<rparr>, w)),
     fl_erase = Some (\<lambda>a n w. ((0, n), w)), fl_read = Some (\<lambda>a n w. ((0, n, []), w)),
     fl_write = Some (\<lambda>a b w. ((0, of_nat (length b)), w))\<rparr>"

definition demo_flash :: "nat \<Rightarrow> int flash_state" where
  "demo_flash c = \<lparr>s_flash_ctxs = [\<lparr>ctx_lock = Some (\<lambda>c w. if c = 1 then (- 5, w) else (0, w + 1)),
     ctx_unlock = Some (\<lambda>c w. (0, w - 1)), lock_ctx = c\<rparr>], world = 0\<rparr>"

lemma demo_flash_ok: "flash_ok id [demo_dev e] 0 (demo_flash c)"
  by (simp add: flash_ok_def lock_laws_def table_keeps_def keeps_def demo_dev_def demo_flash_def)

lemma nlflash_operations_balanced_witness:
  "\<exists>r s'. nlflash_read [demo_dev 0] 0 16 4 (0, []) (demo_flash 0) = Some (r, s') \<and> world s' = 0"
  using nlflash_operations_balanced [OF demo_flash_ok, of 0 16 4 "(0, [])" 0 0 "[]" 0 0 "[]"]
  by (auto simp: demo_dev_def demo_flash_def)

lemma nlflash_lock_failure_witness:
  "nlflash_erase [demo_dev 0] 0 4096 4096 0 (demo_flash 1) = None"
  using nlflash_lock_failure [of 0 "[demo_dev 0]" "demo_flash 1" "- 5" "demo_flash 1" 4096 4096 "(0, [])" 0 "[]" 0]
  by (simp add: demo_dev_def demo_flash_def nlflash_lock_def on_world_def)

lemma nlflash_request_failure_keeps_lock_witness:
  "\<exists>s'. nlflash_request [demo_dev (- 7)] 0 (demo_flash 0) = Some (- 7, s') \<and> world s' = 1"
proof -
  have "nlflash_lock 0 (demo_flash 0) = Some (0, (demo_flash 0)\<lparr>world := 1\<rparr>)"
    by (simp add: nlflash_lock_def demo_flash_def on_world_def)
  from nlflash_request_failure_keeps_lock [OF demo_flash_ok [of "- 7" 0] this, of "\<lambda>w. (- 7, w)"] show ?thesis
    by (auto simp: demo_dev_def demo_flash_def)
qed

lemma nlflash_erase_checks_alignment_witness:
  "nlflash_erase [demo_dev 0] 0 4096 100 0 (demo_flash 0) = None"
proof -
  obtain info s1 where "nlflash_get_info [demo_dev 0] 0 (demo_flash 0) = Some (Some info, s1)" "erase_size info = 4096"
    by (simp add: nlflash_get_info_def demo_dev_def demo_flash_def nlflash_lock_def nlflash_unlock_def on_world_def)
  with nlflash_erase_checks_alignment [of "[demo_dev 0]" 0 "demo_flash 0" info s1 "\<lambda>a n w. ((0, n), w)" 4096 100 0]
  show ?thesis by (simp add: demo_dev_def)
qed

section \<open>The flash as a store of bytes\<close>

text \<open>
  NOR flash: programming clears bits, erasing sets them. \<open>program a xs m\<close> is the memory \<open>m\<close> after the
  bytes \<open>xs\<close> were programmed at \<open>a\<close>, \<open>blank a n m\<close> the memory after \<open>n\<close> bytes were erased.
\<close>

definition program :: "nat \<Rightarrow> u8 list \<Rightarrow> u8 list \<Rightarrow> u8 list" where
  "program a xs m = take a m @ map2 (and) (take (length xs) (drop a m)) xs @ drop (a + length xs) m"

definition blank :: "nat \<Rightarrow> nat \<Rightarrow> u8 list \<Rightarrow> u8 list" where
  "blank a n m = take a m @ replicate n (-1) @ drop (a + n) m"

lemma program_blank:
  assumes "length xs \<le> k"
  shows "program (length pre) xs (pre @ replicate k (-1) @ post) = pre @ xs @ replicate (k - length xs) (-1) @ post"
proof -
  have "map2 (and) (replicate (length xs) (-1)) xs = (xs :: u8 list)"
    by (induction xs) auto
  with assms show ?thesis by (simp add: program_def min_def)
qed

text \<open>What a client of the flash relies on: the operations succeed inside the store and do what NOR flash does.\<close>

locale flash_store =
  fixes rd :: "u32 \<Rightarrow> u32 \<Rightarrow> u32 \<times> u8 list \<Rightarrow> 's \<Rightarrow> ((int \<times> u32 \<times> u8 list) \<times> 's) option"
    and wr :: "u32 \<Rightarrow> u8 list \<Rightarrow> u32 \<Rightarrow> 's \<Rightarrow> ((int \<times> u32) \<times> 's) option"
    and er :: "u32 \<Rightarrow> u32 \<Rightarrow> u32 \<Rightarrow> 's \<Rightarrow> ((int \<times> u32) \<times> 's) option"
    and fl :: "'s \<Rightarrow> ((int \<times> unit) \<times> 's) option"
    and ready :: "'s \<Rightarrow> bool" and cells :: "'s \<Rightarrow> u8 list" and sector :: u32
  assumes rd_law: "ready s \<Longrightarrow> unat a + unat n \<le> length (cells s) \<Longrightarrow>
      \<exists>t. rd a n out s = Some ((0, n, take (unat n) (drop (unat a) (cells s))), t) \<and> ready t \<and> cells t = cells s"
    and wr_law: "ready s \<Longrightarrow> unat a + length xs \<le> length (cells s) \<Longrightarrow>
      \<exists>t. wr a xs r s = Some ((0, word_of_nat (length xs)), t) \<and> ready t \<and> cells t = program (unat a) xs (cells s)"
    and er_law: "ready s \<Longrightarrow> unat a + unat n \<le> length (cells s) \<Longrightarrow> a mod sector = 0 \<Longrightarrow> n mod sector = 0 \<Longrightarrow>
      \<exists>t. er a n r s = Some ((0, n), t) \<and> ready t \<and> cells t = blank (unat a) (unat n) (cells s)"
    and fl_law: "ready s \<Longrightarrow> \<exists>t. fl s = Some ((0, ()), t) \<and> ready t \<and> cells t = cells s"
begin

text \<open>\<open>holds s pre data k post\<close>: between \<open>pre\<close> and \<open>post\<close> the store holds \<open>data\<close> and then \<open>k\<close> erased bytes.\<close>

definition holds :: "'s \<Rightarrow> u8 list \<Rightarrow> u8 list \<Rightarrow> nat \<Rightarrow> u8 list \<Rightarrow> bool" where
  "holds s pre data k post \<longleftrightarrow> cells s = pre @ data @ replicate k (-1) @ post"

lemma holds_cells: "holds s pre data k post \<Longrightarrow> cells t = cells s \<Longrightarrow> holds t pre data k post"
  by (simp add: holds_def)

lemma holds_in: "holds s pre data k post \<Longrightarrow> length pre + length data + k \<le> length (cells s)"
  by (simp add: holds_def)

lemma erased:
  assumes "ready s" "unat a + unat n \<le> length (cells s)" "a mod sector = 0" "n mod sector = 0"
  shows "\<exists>t. er a n r s = Some ((0, n), t) \<and> ready t \<and>
    holds t (take (unat a) (cells s)) [] (unat n) (drop (unat a + unat n) (cells s))"
  using er_law [OF assms, of r] by (auto simp: holds_def blank_def)

lemma written:
  assumes "ready s" "holds s pre data k post" "length xs \<le> k" "unat b = length pre + length data"
  shows "\<exists>t. wr b xs r s = Some ((0, word_of_nat (length xs)), t) \<and> ready t \<and> holds t pre (data @ xs) (k - length xs) post"
proof -
  have "unat b + length xs \<le> length (cells s)" using holds_in [OF assms(2)] assms(3,4) by simp
  then obtain t where t: "wr b xs r s = Some ((0, word_of_nat (length xs)), t)" "ready t"
      "cells t = program (unat b) xs (cells s)"
    using wr_law [OF assms(1)] by blast
  have "cells t = pre @ (data @ xs) @ replicate (k - length xs) (-1) @ post"
    using t(3) assms(2,4) program_blank [OF assms(3), of "pre @ data" post] by (simp add: holds_def)
  with t show ?thesis unfolding holds_def by blast
qed

lemma read_back:
  assumes "ready s" "holds s pre data k post" "unat a = length pre" "unat n = length data"
  shows "\<exists>t. rd a n out s = Some ((0, n, data), t) \<and> ready t \<and> cells t = cells s"
proof -
  have "unat a + unat n \<le> length (cells s)" using holds_in [OF assms(2)] assms(3,4) by simp
  from rd_law [OF assms(1) this, of out] show ?thesis using assms(2-4) by (auto simp: holds_def)
qed

end

text \<open>
  The layer provides this on a device whose driver behaves like NOR flash and whose lock can always be
  taken; \<open>content\<close> is the memory behind the driver, and \<open>ok\<close> what the driver keeps of its own state.
\<close>

definition lock_free :: "('w \<Rightarrow> bool) \<Rightarrow> ('w \<Rightarrow> u8 list) \<Rightarrow> 'w flash_ctx_t \<Rightarrow> bool" where
  "lock_free ok content c \<longleftrightarrow>
     (\<forall>f. ctx_lock c = Some f \<longrightarrow> (\<forall>w. ok w \<longrightarrow> 0 \<le> fst (f (lock_ctx c) w) \<and> ok (snd (f (lock_ctx c) w)) \<and>
        content (snd (f (lock_ctx c) w)) = content w)) \<and>
     (\<forall>f. ctx_unlock c = Some f \<longrightarrow> (\<forall>w. ok w \<longrightarrow> 0 \<le> fst (f (lock_ctx c) w) \<and> ok (snd (f (lock_ctx c) w)) \<and>
        content (snd (f (lock_ctx c) w)) = content w))"

definition nor_driver :: "('w \<Rightarrow> bool) \<Rightarrow> ('w \<Rightarrow> u8 list) \<Rightarrow> u32 \<Rightarrow> 'w nlflash_func_table_t \<Rightarrow> bool" where
  "nor_driver ok content sector dev \<longleftrightarrow> sector \<noteq> 0 \<and>
     (\<exists>rd. fl_read dev = Some rd \<and> (\<forall>a n w. ok w \<longrightarrow> unat a + unat n \<le> length (content w) \<longrightarrow>
        (\<exists>w'. rd a n w = ((0, n, take (unat n) (drop (unat a) (content w))), w') \<and> ok w' \<and> content w' = content w))) \<and>
     (\<exists>wr. fl_write dev = Some wr \<and> (\<forall>a xs w. ok w \<longrightarrow> unat a + length xs \<le> length (content w) \<longrightarrow>
        (\<exists>w'. wr a xs w = ((0, word_of_nat (length xs)), w') \<and> ok w' \<and> content w' = program (unat a) xs (content w)))) \<and>
     (\<exists>er. fl_erase dev = Some er \<and> (\<forall>a n w. ok w \<longrightarrow> unat a + unat n \<le> length (content w) \<longrightarrow>
        a mod sector = 0 \<longrightarrow> n mod sector = 0 \<longrightarrow>
        (\<exists>w'. er a n w = ((0, n), w') \<and> ok w' \<and> content w' = blank (unat a) (unat n) (content w)))) \<and>
     (\<exists>gi. fl_get_info dev = Some gi \<and> (\<forall>w. ok w \<longrightarrow> (\<exists>info w'. gi w = (Some info, w') \<and> erase_size info = sector \<and>
        ok w' \<and> content w' = content w))) \<and>
     (\<forall>fl. fl_flush dev = Some fl \<longrightarrow> (\<forall>w. ok w \<longrightarrow> fst (fl w) = 0 \<and> ok (snd (fl w)) \<and> content (snd (fl w)) = content w))"

definition store_ready ::
  "('w \<Rightarrow> bool) \<Rightarrow> ('w \<Rightarrow> u8 list) \<Rightarrow> u32 \<Rightarrow> 'w flash_table \<Rightarrow> nat \<Rightarrow> 'w flash_state \<Rightarrow> bool" where
  "store_ready ok content sector tab i s \<longleftrightarrow> i < length tab \<and> i < length (s_flash_ctxs s) \<and> ok (world s) \<and>
     lock_free ok content (s_flash_ctxs s ! i) \<and> nor_driver ok content sector (tab ! i)"

lemma store_lock:
  assumes "store_ready ok content sector tab i s"
  shows "\<exists>r t. nlflash_lock i s = Some (r, t) \<and> 0 \<le> r \<and> store_ready ok content sector tab i t \<and> content (world t) = content (world s)"
    "\<exists>r t. nlflash_unlock i s = Some (r, t) \<and> 0 \<le> r \<and> store_ready ok content sector tab i t \<and> content (world t) = content (world s)"
proof -
  let ?c = "s_flash_ctxs s ! i"
  have c: "i < length (s_flash_ctxs s)" "lock_free ok content ?c" using assms by (auto simp: store_ready_def)
  show "\<exists>r t. nlflash_lock i s = Some (r, t) \<and> 0 \<le> r \<and> store_ready ok content sector tab i t \<and> content (world t) = content (world s)"
  proof (cases "ctx_lock ?c")
    case (Some f)
    moreover obtain r w where "f (lock_ctx ?c) (world s) = (r, w)" by fastforce
    ultimately show ?thesis using c assms unfolding lock_free_def
      by (auto simp: nlflash_lock_def on_world_def store_ready_def lock_free_def)
  qed (use c assms in \<open>simp add: nlflash_lock_def\<close>)
  show "\<exists>r t. nlflash_unlock i s = Some (r, t) \<and> 0 \<le> r \<and> store_ready ok content sector tab i t \<and> content (world t) = content (world s)"
  proof (cases "ctx_unlock ?c")
    case (Some f)
    moreover obtain r w where "f (lock_ctx ?c) (world s) = (r, w)" by fastforce
    ultimately show ?thesis using c assms unfolding lock_free_def
      by (auto simp: nlflash_unlock_def on_world_def store_ready_def lock_free_def)
  qed (use c assms in \<open>simp add: nlflash_unlock_def\<close>)
qed

lemma store_call:
  assumes "store_ready ok content sector tab i s"
    and "\<And>w. ok w \<Longrightarrow> content w = content (world s) \<Longrightarrow> \<exists>w'. f w = ((0, r), w') \<and> ok w' \<and> content w' = m"
  shows "\<exists>t. locked_call i init f s = Some ((0, r), t) \<and> store_ready ok content sector tab i t \<and> content (world t) = m"
proof -
  obtain r1 s1 where s1: "nlflash_lock i s = Some (r1, s1)" "0 \<le> r1" "store_ready ok content sector tab i s1"
      "content (world s1) = content (world s)" using store_lock(1) [OF assms(1)] by blast
  have "ok (world s1)" using s1(3) by (simp add: store_ready_def)
  from assms(2) [OF this s1(4)] obtain w' where w': "f (world s1) = ((0, r), w')" "content w' = m" "ok w'" by blast
  have "store_ready ok content sector tab i (s1\<lparr>world := w'\<rparr>)" using s1(3) w'(3) by (simp add: store_ready_def)
  then obtain r3 s3 where s3: "nlflash_unlock i (s1\<lparr>world := w'\<rparr>) = Some (r3, s3)" "0 \<le> r3" "store_ready ok content sector tab i s3"
      "content (world s3) = m" using store_lock(2) [of ok content sector tab i "s1\<lparr>world := w'\<rparr>"] w'(2) by auto
  with s1 w' show ?thesis by (simp add: locked_call_def on_world_def)
qed

interpretation store: flash_store "nlflash_read tab i" "nlflash_write tab i" "nlflash_erase tab i" "nlflash_flush tab i"
  "store_ready ok content sector tab i" "\<lambda>s. content (world s)" sector
  for ok :: "'w \<Rightarrow> bool" and content :: "'w \<Rightarrow> u8 list" and sector tab i
proof unfold_locales
  fix s :: "'w flash_state" and a n r :: u32 and out xs
  assume s: "store_ready ok content sector tab i s"
  then have i: "i < length tab" "nor_driver ok content sector (tab ! i)" by (auto simp: store_ready_def)
  show "\<exists>t. nlflash_read tab i a n out s = Some ((0, n, take (unat n) (drop (unat a) (content (world s)))), t) \<and>
      store_ready ok content sector tab i t \<and> content (world t) = content (world s)"
    if fits: "unat a + unat n \<le> length (content (world s))"
  proof -
    obtain f where f: "fl_read (tab ! i) = Some f" "\<And>a n w. ok w \<Longrightarrow> unat a + unat n \<le> length (content w) \<Longrightarrow>
        \<exists>w'. f a n w = ((0, n, take (unat n) (drop (unat a) (content w))), w') \<and> ok w' \<and> content w' = content w"
      using i(2) unfolding nor_driver_def by blast
    have "\<exists>w'. f a n w = ((0, n, take (unat n) (drop (unat a) (content (world s)))), w') \<and> ok w' \<and> content w' = content (world s)"
      if "ok w" "content w = content (world s)" for w using f(2) [of w a n] fits that by simp
    from store_call [OF s this, where init = out] i(1) f(1) show ?thesis by (simp add: nlflash_read_def)
  qed
  show "\<exists>t. nlflash_write tab i a xs r s = Some ((0, word_of_nat (length xs)), t) \<and>
      store_ready ok content sector tab i t \<and> content (world t) = program (unat a) xs (content (world s))"
    if fits: "unat a + length xs \<le> length (content (world s))"
  proof -
    obtain f where f: "fl_write (tab ! i) = Some f" "\<And>a xs w. ok w \<Longrightarrow> unat a + length xs \<le> length (content w) \<Longrightarrow>
        \<exists>w'. f a xs w = ((0, word_of_nat (length xs)), w') \<and> ok w' \<and> content w' = program (unat a) xs (content w)"
      using i(2) unfolding nor_driver_def by blast
    have "\<exists>w'. f a xs w = ((0, word_of_nat (length xs)), w') \<and> ok w' \<and> content w' = program (unat a) xs (content (world s))"
      if "ok w" "content w = content (world s)" for w using f(2) [of w a xs] fits that by simp
    from store_call [OF s this, where init = r] i(1) f(1) show ?thesis by (simp add: nlflash_write_def)
  qed
  show "\<exists>t. nlflash_erase tab i a n r s = Some ((0, n), t) \<and>
      store_ready ok content sector tab i t \<and> content (world t) = blank (unat a) (unat n) (content (world s))"
    if fits: "unat a + unat n \<le> length (content (world s))" and al: "a mod sector = 0" "n mod sector = 0"
  proof -
    obtain f gi where f: "fl_erase (tab ! i) = Some f" "\<And>a n w. ok w \<Longrightarrow> unat a + unat n \<le> length (content w) \<Longrightarrow> a mod sector = 0 \<Longrightarrow>
          n mod sector = 0 \<Longrightarrow> \<exists>w'. f a n w = ((0, n), w') \<and> ok w' \<and> content w' = blank (unat a) (unat n) (content w)"
        and gi: "fl_get_info (tab ! i) = Some gi"
          "\<And>w. ok w \<Longrightarrow> \<exists>info w'. gi w = (Some info, w') \<and> erase_size info = sector \<and> ok w' \<and> content w' = content w" and nz: "sector \<noteq> 0"
      using i(2) unfolding nor_driver_def by blast
    obtain r1 s1 where s1: "nlflash_lock i s = Some (r1, s1)" "0 \<le> r1" "store_ready ok content sector tab i s1"
        "content (world s1) = content (world s)" using store_lock(1) [OF s] by blast
    have "ok (world s1)" using s1(3) by (simp add: store_ready_def)
    from gi(2) [OF this] obtain info w' where w': "gi (world s1) = (Some info, w')" "erase_size info = sector"
      "content w' = content (world s1)" "ok w'" by blast
    have "store_ready ok content sector tab i (s1\<lparr>world := w'\<rparr>)" using s1(3) w'(4) by (simp add: store_ready_def)
    then obtain r3 s3 where s3: "nlflash_unlock i (s1\<lparr>world := w'\<rparr>) = Some (r3, s3)" "0 \<le> r3" "store_ready ok content sector tab i s3"
        "content (world s3) = content (world s)" using store_lock(2) [of ok content sector tab i "s1\<lparr>world := w'\<rparr>"] w'(3) s1(4) by auto
    have "nlflash_get_info tab i s = Some (Some info, s3)"
      using s1 s3 w' gi(1) i(1) by (simp add: nlflash_get_info_def on_world_def)
    moreover have "\<exists>w'. f a n w = ((0, n), w') \<and> ok w' \<and> content w' = blank (unat a) (unat n) (content (world s))"
      if "ok w" "content w = content (world s3)" for w using f(2) [of w a n] fits al that s3(4) by simp
    note store_call [OF s3(3) this, where init = r]
    ultimately show ?thesis using al i(1) f(1) w'(2) nz by (simp add: nlflash_erase_def erase_alignment_is_ok_def)
  qed
  show "\<exists>t. nlflash_flush tab i s = Some ((0, ()), t) \<and> store_ready ok content sector tab i t \<and> content (world t) = content (world s)"
  proof (cases "fl_flush (tab ! i)")
    case (Some f)
    then have f: "\<And>w. ok w \<Longrightarrow> fst (f w) = 0 \<and> ok (snd (f w)) \<and> content (snd (f w)) = content w"
      using i(2) by (auto simp: nor_driver_def)
    have "\<exists>w'. plain f w = ((0, ()), w') \<and> ok w' \<and> content w' = content (world s)" if "ok w" "content w = content (world s)" for w
      using f [OF that(1)] that(2) by (cases "f w") (simp add: plain_def)
    from store_call [OF s this, where init = "()"] Some i(1) show ?thesis by (simp add: nlflash_flush_def)
  qed (use s i(1) in \<open>simp add: nlflash_flush_def\<close>)
qed

end
