(* ===== verification/Nlflash_spi.thy ===== *)
theory Nlflash_spi
  imports NL_Prelude
begin

text \<open>
  The SPI flash driver of \<open>src/src/nlflash_spi.c\<close>, for chips without SRAM buffers. The constants
  that a product defines (\<open>FLASH_SPI_SIZE\<close>, the commands, the delays, the feature macros) are the
  fields of \<open>flash_spi_cfg\<close>; the SPI controller and the delays, which are outside the file, are the
  functions \<open>spi_ops\<close> on a world \<open>'w\<close>. A transfer yields its status and the bytes received.
  \<open>None\<close> is a failing \<open>nlASSERT\<close> or a trap.

  The lemmas show that an erase is a tiling of its range by sectors and sub-sectors, that an
  unbuffered write is a sequence of page programs that never cross a page, that polling is
  bounded, and what the driver does when the chip does not answer.
\<close>

section \<open>Configuration, controller and state\<close>

record flash_spi_cfg =
  SPLIT_TRANSACTIONS :: bool
  USE_POWERDOWN :: bool
  FAULT_ON_REQUEST_FAILURE :: bool
  HAS_WREN :: bool
  HAS_BE_ADDR :: bool
  USE_PAGE_OFFSET_ADDRESSING :: bool
  NUM_OFFSET_BITS :: nat
  REQUEST_ATTEMPTS :: nat
  MAX_CHIP_ID_CHECK_COUNT :: nat
  READ_ID_SIZE :: nat
  CHIP_IDS :: "(u8 \<times> u8 \<times> u8) list"
  SPI_SIZE :: u32
  SPI_ERASE_SIZE :: u32
  SPI_FAST_ERASE_SIZE :: u32
  SPI_WRITE_SIZE :: u32
  CMD_RDID :: u8
  CMD_RDSR :: u8
  CMD_RDP :: u8
  CMD_DP :: u8
  CMD_WREN :: u8
  CMD_BE :: u8
  CMD_BE_ADDR :: u32
  CMD_SE :: u8
  CMD_SSE :: u8
  CMD_PP :: u8
  CMD_READ :: u8
  READ_DUMMY :: nat
  M_STAT_BUSY_BIT :: u8
  M_STAT_BUSY_VALUE :: u8
  M_STAT_READY_VALUE :: u8
  SE_DELAY :: "u32 \<times> nat"
  SSE_DELAY :: "u32 \<times> nat"
  BE_DELAY :: "u32 \<times> nat"
  PP_DELAY :: "u32 \<times> nat"
  stack_garbage :: "u8 list"

datatype xfer = Tx "u8 list" | Rx nat

record 'w spi_ops =
  spi_request :: "'w \<Rightarrow> int \<times> 'w"
  spi_release :: "'w \<Rightarrow> int \<times> 'w"
  slave_enable :: "'w \<Rightarrow> 'w"
  slave_disable :: "'w \<Rightarrow> 'w"
  spi_write :: "u8 list \<Rightarrow> 'w \<Rightarrow> int \<times> 'w"
  spi_transfer :: "xfer list \<Rightarrow> 'w \<Rightarrow> (int \<times> u8 list) \<times> 'w"
  delay_ms :: "nat \<Rightarrow> 'w \<Rightarrow> 'w"

record 'w spi_flash =
  partial_page :: "u8 list"
  partial_page_index :: u32
  write_loc :: u32
  enable_ref :: u8
  hw :: 'w

definition on_hw :: "('w \<Rightarrow> 'r \<times> 'w) \<Rightarrow> 'w spi_flash \<Rightarrow> 'r \<times> 'w spi_flash" where
  "on_hw f s = (let (r, w) = f (hw s) in (r, s\<lparr>hw := w\<rparr>))"

definition upd_hw :: "('w \<Rightarrow> 'w) \<Rightarrow> 'w spi_flash \<Rightarrow> 'w spi_flash" where
  "upd_hw f s = s\<lparr>hw := f (hw s)\<rparr>"

section \<open>Registers and transactions\<close>

definition read_register ::
  "'w spi_ops \<Rightarrow> u8 \<Rightarrow> nat \<Rightarrow> 'w spi_flash \<Rightarrow> (int \<times> u8 list) \<times> 'w spi_flash" where
  "read_register ops cmd num_bytes s = on_hw (spi_transfer ops [Tx [cmd], Rx num_bytes]) s"

definition check_chip_id :: "flash_spi_cfg \<Rightarrow> 'w spi_ops \<Rightarrow> 'w spi_flash \<Rightarrow> int \<times> 'w spi_flash" where
  "check_chip_id cfg ops s =
     (let (retval, s1) = (if SPLIT_TRANSACTIONS cfg then on_hw (spi_request ops) s else (0, s))
      in if SPLIT_TRANSACTIONS cfg \<and> retval < 0 then (retval, s1)
         else let ((retval, id_buf), s2) = read_register ops (CMD_RDID cfg) (READ_ID_SIZE cfg) s1;
                  retval = (if retval < 0 then retval
                            else case id_buf of
                                a # b # c # _ \<Rightarrow> if (a, b, c) \<in> set (CHIP_IDS cfg) then retval else - 1
                              | _ \<Rightarrow> - 1);
                  s3 = (if SPLIT_TRANSACTIONS cfg then snd (on_hw (spi_release ops) s2) else s2)
              in (retval, s3))"

definition flash_is_busy :: "flash_spi_cfg \<Rightarrow> 'w spi_ops \<Rightarrow> 'w spi_flash \<Rightarrow> int \<times> 'w spi_flash" where
  "flash_is_busy cfg ops s =
     (let ((retval, rx), s1) = read_register ops (CMD_RDSR cfg) 1 s
      in if retval \<noteq> 0 then (retval, s1)
         else case rx of
             status # _ \<Rightarrow> (if and status (M_STAT_BUSY_BIT cfg) = M_STAT_BUSY_VALUE cfg then - EBUSY else 0, s1)
           | [] \<Rightarrow> (0, s1))"

text \<open>The command and the address as they are sent.\<close>

definition cmd_bytes :: "flash_spi_cfg \<Rightarrow> u8 \<Rightarrow> u32 \<Rightarrow> nat \<Rightarrow> u8 list" where
  "cmd_bytes cfg cmd address dummy =
     (let address = (if USE_PAGE_OFFSET_ADDRESSING cfg
                     then or (push_bit (NUM_OFFSET_BITS cfg) (address div SPI_WRITE_SIZE cfg)) (address mod SPI_WRITE_SIZE cfg)
                     else address)
      in [cmd, ucast (drop_bit 16 address), ucast (drop_bit 8 address), ucast address] @ take dummy (stack_garbage cfg))"

text \<open>\<open>data\<close> is \<open>Inl\<close> the bytes to write or \<open>Inr\<close> the number of bytes to read.\<close>

definition spi_cmd_address_data ::
  "flash_spi_cfg \<Rightarrow> 'w spi_ops \<Rightarrow> u8 \<Rightarrow> u32 \<Rightarrow> bool \<Rightarrow> u8 list + nat \<Rightarrow> nat \<Rightarrow> 'w spi_flash \<Rightarrow>
   (int \<times> u8 list) \<times> 'w spi_flash" where
  "spi_cmd_address_data cfg ops cmd address write data dummy s =
     (let (retval, s1) = (if SPLIT_TRANSACTIONS cfg then on_hw (spi_request ops) s else (0, s))
      in if SPLIT_TRANSACTIONS cfg \<and> retval < 0 then ((retval, []), s1)
         else
           let (retval, s2) = flash_is_busy cfg ops s1;
               ((retval, rx), s4) =
                 (if retval < 0 then ((retval, []), s2)
                  else let (retval, s3) = (if HAS_WREN cfg \<and> write then on_hw (spi_write ops [CMD_WREN cfg]) s2 else (retval, s2))
                       in if retval < 0 then ((retval, []), s3)
                          else let len = (case data of Inl bs \<Rightarrow> length bs | Inr n \<Rightarrow> n);
                                   body = (if len = 0 then [] else [case data of Inl bs \<Rightarrow> Tx bs | Inr n \<Rightarrow> Rx n])
                               in on_hw (spi_transfer ops (Tx (cmd_bytes cfg cmd address dummy) # body)) s3);
               s5 = (if SPLIT_TRANSACTIONS cfg then snd (on_hw (spi_release ops) s4) else s4)
           in ((retval, rx), s5))"

text \<open>The polling loop; \<open>status\<close> keeps its value when a transfer receives nothing.\<close>

partial_function (option) wait_until_not_busy ::
  "flash_spi_cfg \<Rightarrow> 'w spi_ops \<Rightarrow> u32 \<Rightarrow> nat \<Rightarrow> u8 \<Rightarrow> 'w spi_flash \<Rightarrow> (int \<times> 'w spi_flash) option" where
  "wait_until_not_busy cfg ops retry_cnt retry_delay_ms status s =
     (let s1 = upd_hw (delay_ms ops retry_delay_ms) s;
          (retval, s2) = (if SPLIT_TRANSACTIONS cfg then on_hw (spi_request ops) s1 else (0, s1))
      in if retval < 0 then Some (if retry_cnt = 0 then - EIO else retval, s2)
         else let ((retval, rx), s3) = read_register ops (CMD_RDSR cfg) 1 s2;
                  status = (case rx of b # _ \<Rightarrow> b | [] \<Rightarrow> status);
                  s4 = (if SPLIT_TRANSACTIONS cfg then snd (on_hw (spi_release ops) s3) else s3)
              in if and status (M_STAT_BUSY_BIT cfg) = M_STAT_READY_VALUE cfg
                 then Some (if retry_cnt = 0 then - EIO else retval, s4)
                 else if retry_cnt - 1 > 0 \<and> retval \<ge> 0
                 then wait_until_not_busy cfg ops (retry_cnt - 1) retry_delay_ms status s4
                 else Some (if retry_cnt - 1 = 0 then - EIO else retval, s4))"

section \<open>Requesting and releasing the chip\<close>

text \<open>The inner loop of \<open>nlflash_spi_request\<close>: whether one of \<open>n\<close> identifications succeeds.\<close>

primrec identify :: "flash_spi_cfg \<Rightarrow> 'w spi_ops \<Rightarrow> nat \<Rightarrow> 'w spi_flash \<Rightarrow> bool \<times> 'w spi_flash" where
  "identify cfg ops 0 s = (False, s)"
| "identify cfg ops (Suc n) s =
     (let (r, s1) = check_chip_id cfg ops s
      in if r \<ge> 0 then (True, s1) else identify cfg ops n (upd_hw (delay_ms ops 1) s1))"

primrec request_attempts :: "flash_spi_cfg \<Rightarrow> 'w spi_ops \<Rightarrow> nat \<Rightarrow> 'w spi_flash \<Rightarrow> int \<times> 'w spi_flash" where
  "request_attempts cfg ops 0 s = (- 1, s\<lparr>enable_ref := 0\<rparr>)"
| "request_attempts cfg ops (Suc n) s =
     (let (r1, s1) = (if SPLIT_TRANSACTIONS cfg then (0, upd_hw (slave_enable ops) s) else on_hw (spi_request ops) s)
      in if r1 < 0 then (r1, s1\<lparr>enable_ref := 0\<rparr>)
         else let (r2, s2) = (if USE_POWERDOWN cfg then on_hw (spi_write ops [CMD_RDP cfg]) s1 else (0, s1))
              in if r2 < 0 then (r2, s2\<lparr>enable_ref := 0\<rparr>)
                 else let (found, s3) = identify cfg ops (MAX_CHIP_ID_CHECK_COUNT cfg) s2
                      in if found then (0, s3)
                         else request_attempts cfg ops n
                                (if SPLIT_TRANSACTIONS cfg then upd_hw (slave_disable ops) s3
                                 else snd (on_hw (spi_release ops) s3)))"

definition nlflash_spi_request :: "flash_spi_cfg \<Rightarrow> 'w spi_ops \<Rightarrow> 'w spi_flash \<Rightarrow> (int \<times> 'w spi_flash) option" where
  "nlflash_spi_request cfg ops s =
     (let s1 = s\<lparr>enable_ref := enable_ref s + 1\<rparr>;
          (retval, s2) = (if enable_ref s1 > 1 then (0, s1) else request_attempts cfg ops (REQUEST_ATTEMPTS cfg) s1)
      in if FAULT_ON_REQUEST_FAILURE cfg \<and> retval < 0 then None else Some (retval, s2))"

definition nlflash_spi_release :: "flash_spi_cfg \<Rightarrow> 'w spi_ops \<Rightarrow> 'w spi_flash \<Rightarrow> (int \<times> 'w spi_flash) option" where
  "nlflash_spi_release cfg ops s =
     (if enable_ref s > 0
      then let s1 = s\<lparr>enable_ref := enable_ref s - 1\<rparr>
           in if enable_ref s1 = 0
              then let s2 = (if USE_POWERDOWN cfg then snd (on_hw (spi_write ops [CMD_DP cfg]) s1) else s1)
                   in Some (0, if SPLIT_TRANSACTIONS cfg then upd_hw (slave_disable ops) s2
                               else snd (on_hw (spi_release ops) s2))
              else Some (0, s1)
      else None)"

definition erase_sector ::
  "flash_spi_cfg \<Rightarrow> 'w spi_ops \<Rightarrow> u32 \<Rightarrow> bool \<Rightarrow> 'w spi_flash \<Rightarrow> (int \<times> 'w spi_flash) option" where
  "erase_sector cfg ops addr isSubSector s =
     (let cmd = (if isSubSector then CMD_SSE cfg else CMD_SE cfg);
          (retry_cnt, retry_delay_ms) = (if isSubSector then SSE_DELAY cfg else SE_DELAY cfg);
          ((retval, _), s1) = spi_cmd_address_data cfg ops cmd addr True (Inl []) 0 s
      in if retval < 0 then Some (retval, s1)
         else wait_until_not_busy cfg ops retry_cnt retry_delay_ms 0 s1)"

definition nlflash_spi_init :: "'w spi_flash \<Rightarrow> int \<times> 'w spi_flash" where
  "nlflash_spi_init s = (0, s\<lparr>partial_page := map (\<lambda>_. 0xff) (partial_page s)\<rparr>)"

section \<open>Erasing\<close>

text \<open>
  The three loops of \<open>nlflash_spi_erase\<close>: \<open>n\<close> sectors of \<open>sz\<close> bytes from \<open>addr\<close> on. The result is the
  status, the next address and the number of bytes erased so far.
\<close>

primrec erase_loop ::
  "flash_spi_cfg \<Rightarrow> 'w spi_ops \<Rightarrow> ('w \<Rightarrow> int \<times> 'w) option \<Rightarrow> nat \<Rightarrow> u32 \<Rightarrow> bool \<Rightarrow>
   int \<Rightarrow> u32 \<Rightarrow> u32 \<Rightarrow> 'w spi_flash \<Rightarrow> ((int \<times> u32 \<times> u32) \<times> 'w spi_flash) option" where
  "erase_loop cfg ops cb 0 sz sub retval addr retlen s = Some ((retval, addr, retlen), s)"
| "erase_loop cfg ops cb (Suc n) sz sub retval addr retlen s = do {
     (retval, s1) \<leftarrow> erase_sector cfg ops addr sub s;
     if retval < 0 then Some ((retval, addr, retlen), s1)
     else let (retval, s2) = (case cb of None \<Rightarrow> (retval, s1) | Some f \<Rightarrow> on_hw f s1)
          in if retval < 0 then Some ((retval, addr + sz, retlen + sz), s2)
             else erase_loop cfg ops cb n sz sub retval (addr + sz) (retlen + sz) s2 }"

text \<open>How many sub-sectors, sectors and sub-sectors again an erase of \<open>len\<close> bytes at \<open>addr\<close> takes.\<close>

definition erase_counts :: "flash_spi_cfg \<Rightarrow> u32 \<Rightarrow> u32 \<Rightarrow> u32 \<times> u32 \<times> u32" where
  "erase_counts cfg addr len =
     (if len \<ge> SPI_FAST_ERASE_SIZE cfg
      then let left_over = addr mod SPI_FAST_ERASE_SIZE cfg;
               num_sub_sectors_beg = (if left_over \<noteq> 0 then (SPI_FAST_ERASE_SIZE cfg - left_over) div SPI_ERASE_SIZE cfg else 0);
               len = len - num_sub_sectors_beg * SPI_ERASE_SIZE cfg;
               num_sectors = len div SPI_FAST_ERASE_SIZE cfg;
               len = len - num_sectors * SPI_FAST_ERASE_SIZE cfg
           in (num_sub_sectors_beg, num_sectors, len div SPI_ERASE_SIZE cfg)
      else (len div SPI_ERASE_SIZE cfg, 0, 0))"

definition erase_range ::
  "flash_spi_cfg \<Rightarrow> 'w spi_ops \<Rightarrow> ('w \<Rightarrow> int \<times> 'w) option \<Rightarrow> u32 \<Rightarrow> u32 \<Rightarrow> int \<Rightarrow> 'w spi_flash \<Rightarrow>
   ((int \<times> u32) \<times> 'w spi_flash) option" where
  "erase_range cfg ops cb addr len retval s = do {
     let (beg, mid, end') = erase_counts cfg addr len;
     ((retval, addr, retlen), s1) \<leftarrow> erase_loop cfg ops cb (unat beg) (SPI_ERASE_SIZE cfg) True retval addr 0 s;
     if retval < 0 then Some ((retval, retlen), s1)
     else do {
       ((retval, addr, retlen), s2) \<leftarrow>
         erase_loop cfg ops cb (unat mid) (SPI_FAST_ERASE_SIZE cfg) False retval addr retlen s1;
       if retval < 0 then Some ((retval, retlen), s2)
       else do {
         ((retval, addr, retlen), s3) \<leftarrow>
           erase_loop cfg ops cb (unat end') (SPI_ERASE_SIZE cfg) True retval addr retlen s2;
         Some ((retval, retlen), s3) } } }"

definition bulk_erase ::
  "flash_spi_cfg \<Rightarrow> 'w spi_ops \<Rightarrow> u32 \<Rightarrow> 'w spi_flash \<Rightarrow> ((int \<times> u32) \<times> 'w spi_flash) option" where
  "bulk_erase cfg ops retlen s =
     (let (retval, s1) =
        (if HAS_BE_ADDR cfg
         then let ((r, _), t) = spi_cmd_address_data cfg ops (CMD_BE cfg) (CMD_BE_ADDR cfg) True (Inl []) 0 s in (r, t)
         else let (r, t) = on_hw (spi_write ops [CMD_WREN cfg]) s
              in if r < 0 then (r, t) else let ((r', _), t') = on_hw (spi_transfer ops [Tx [CMD_BE cfg]]) t in (r', t'))
      in if retval < 0 then Some ((retval, retlen), s1)
         else do {
           (retval, s2) \<leftarrow> wait_until_not_busy cfg ops (fst (BE_DELAY cfg)) (snd (BE_DELAY cfg)) 0 s1;
           Some ((retval, if retval \<ge> 0 then SPI_SIZE cfg else retlen), s2) })"

definition nlflash_spi_erase ::
  "flash_spi_cfg \<Rightarrow> 'w spi_ops \<Rightarrow> ('w \<Rightarrow> int \<times> 'w) option \<Rightarrow> u32 \<Rightarrow> u32 \<Rightarrow> u32 \<Rightarrow> 'w spi_flash \<Rightarrow>
   ((int \<times> u32) \<times> 'w spi_flash) option" where
  "nlflash_spi_erase cfg ops cb addr len retlen s = do {
     (retval, s1) \<leftarrow> nlflash_spi_request cfg ops s;
     ((retval, retlen), s2) \<leftarrow>
       (if retval < 0 then Some ((retval, retlen), s1)
        else if addr = 0 \<and> len = SPI_SIZE cfg then bulk_erase cfg ops retlen s1
        else erase_range cfg ops cb addr len retval s1);
     (_, s3) \<leftarrow> nlflash_spi_release cfg ops s2;
     Some ((retval, retlen), s3) }"

definition nlflash_spi_read ::
  "flash_spi_cfg \<Rightarrow> 'w spi_ops \<Rightarrow> u32 \<Rightarrow> nat \<Rightarrow> 'w spi_flash \<Rightarrow> ((int \<times> u32 \<times> u8 list) \<times> 'w spi_flash) option" where
  "nlflash_spi_read cfg ops addr len s = do {
     (retval, s1) \<leftarrow> nlflash_spi_request cfg ops s;
     let ((retval, retlen, buf), s2) =
       (if retval < 0 then ((retval, 0, []), s1)
        else let ((r, rx), t) = spi_cmd_address_data cfg ops (CMD_READ cfg) addr False (Inr len) (READ_DUMMY cfg) s1
             in ((r, if r < 0 then 0 else of_nat len, rx), t));
     (_, s3) \<leftarrow> nlflash_spi_release cfg ops s2;
     Some ((retval, retlen, buf), s3) }"


section \<open>Writing\<close>

definition write_internal ::
  "flash_spi_cfg \<Rightarrow> 'w spi_ops \<Rightarrow> u32 \<Rightarrow> u8 list \<Rightarrow> 'w spi_flash \<Rightarrow> (int \<times> 'w spi_flash) option" where
  "write_internal cfg ops addr buf s =
     (let ((retval, _), s1) = spi_cmd_address_data cfg ops (CMD_PP cfg) addr True (Inl buf) 0 s
      in if retval < 0 then Some (retval, s1)
         else wait_until_not_busy cfg ops (fst (PP_DELAY cfg)) (snd (PP_DELAY cfg)) 0 s1)"

text \<open>
  The loop over whole pages, shared by the two variants of \<open>nlflash_spi_write\<close>: the status, the next
  address, the bytes left and the bytes written.
\<close>

partial_function (option) write_pages ::
  "flash_spi_cfg \<Rightarrow> 'w spi_ops \<Rightarrow> int \<Rightarrow> u32 \<Rightarrow> u8 list \<Rightarrow> u32 \<Rightarrow> 'w spi_flash \<Rightarrow>
   ((int \<times> u32 \<times> u8 list \<times> u32) \<times> 'w spi_flash) option" where
  "write_pages cfg ops retval addr buf retlen s =
     (if length buf \<ge> unat (SPI_WRITE_SIZE cfg)
      then do {
        (retval, s1) \<leftarrow> write_internal cfg ops addr (take (unat (SPI_WRITE_SIZE cfg)) buf) s;
        if retval < 0 then Some ((retval, addr, buf, retlen), s1)
        else write_pages cfg ops retval (addr + SPI_WRITE_SIZE cfg) (drop (unat (SPI_WRITE_SIZE cfg)) buf)
               (retlen + SPI_WRITE_SIZE cfg) s1 }
      else Some ((retval, addr, buf, retlen), s))"

text \<open>The whole pages and the rest, from a page boundary on.\<close>

definition write_aligned ::
  "flash_spi_cfg \<Rightarrow> 'w spi_ops \<Rightarrow> int \<Rightarrow> u32 \<Rightarrow> u8 list \<Rightarrow> u32 \<Rightarrow> 'w spi_flash \<Rightarrow>
   ((int \<times> u32) \<times> 'w spi_flash) option" where
  "write_aligned cfg ops retval addr buf retlen s = do {
     ((retval, addr, buf, retlen), s1) \<leftarrow> write_pages cfg ops retval addr buf retlen s;
     if retval = 0 \<and> buf \<noteq> []
     then do {
       (retval, s2) \<leftarrow> write_internal cfg ops addr buf s1;
       Some ((retval, if retval = 0 then retlen + of_nat (length buf) else retlen), s2) }
     else Some ((retval, retlen), s1) }"

text \<open>\<open>nlflash_spi_write\<close> without \<open>FLASH_SPI_USE_PARTIAL_PAGE_BUFFER\<close>.\<close>

definition nlflash_spi_write ::
  "flash_spi_cfg \<Rightarrow> 'w spi_ops \<Rightarrow> u32 \<Rightarrow> u8 list \<Rightarrow> 'w spi_flash \<Rightarrow> ((int \<times> u32) \<times> 'w spi_flash) option" where
  "nlflash_spi_write cfg ops addr buf s = do {
     (retval, s1) \<leftarrow> nlflash_spi_request cfg ops s;
     ((retval, retlen), s2) \<leftarrow>
       (if retval < 0 then Some ((retval, 0), s1)
        else let offsetInPage = addr mod SPI_WRITE_SIZE cfg in
          if offsetInPage \<noteq> 0
          then let partial_page_size = (if offsetInPage + of_nat (length buf) > SPI_WRITE_SIZE cfg
                                        then unat (SPI_WRITE_SIZE cfg - offsetInPage) else length buf)
               in do {
                 (retval, s2) \<leftarrow> write_internal cfg ops addr (take partial_page_size buf) s1;
                 if retval = 0
                 then if partial_page_size = length buf then Some ((retval, of_nat partial_page_size), s2)
                      else write_aligned cfg ops retval (addr + of_nat partial_page_size) (drop partial_page_size buf)
                             (of_nat partial_page_size) s2
                 else Some ((retval, 0), s2) }
          else write_aligned cfg ops retval addr buf 0 s1);
     (_, s3) \<leftarrow> nlflash_spi_release cfg ops s2;
     Some ((retval, retlen), s3) }"

text \<open>With \<open>FLASH_SPI_USE_PARTIAL_PAGE_BUFFER\<close>; \<open>FLASH_EXTERNAL_WRITE_SIZE\<close> is the page size.\<close>

definition nlflash_spi_flush :: "flash_spi_cfg \<Rightarrow> 'w spi_ops \<Rightarrow> 'w spi_flash \<Rightarrow> (int \<times> 'w spi_flash) option" where
  "nlflash_spi_flush cfg ops s =
     (if partial_page_index s \<noteq> 0
      then let address = write_loc s;
               offset = address mod SPI_WRITE_SIZE cfg;
               stride = (if partial_page_index s > offset then partial_page_index s - offset else 0)
           in do {
             cache \<leftarrow> mem_read (partial_page s) (unat offset) (unat stride);
             (retval, s1) \<leftarrow> write_internal cfg ops address cache s;
             Some (retval, if retval \<ge> 0
                           then s1\<lparr>write_loc := 0, partial_page_index := 0, partial_page := map (\<lambda>_. 0xff) (partial_page s1)\<rparr>
                           else s1) }
      else Some (0, s))"

definition ROUNDDOWN :: "u32 \<Rightarrow> u32 \<Rightarrow> u32" where
  "ROUNDDOWN x n = x - x mod n"

text \<open>Putting bytes into the cached page at the offset of their address.\<close>

definition cache_bytes :: "flash_spi_cfg \<Rightarrow> u32 \<Rightarrow> u8 list \<Rightarrow> 'w spi_flash \<Rightarrow> 'w spi_flash option" where
  "cache_bytes cfg address bs s = do {
     pp \<leftarrow> mem_write (partial_page s) (unat (address mod SPI_WRITE_SIZE cfg)) bs;
     Some (s\<lparr>partial_page := pp, partial_page_index := address mod SPI_WRITE_SIZE cfg + of_nat (length bs)\<rparr>) }"

definition nlflash_spi_write_buffered ::
  "flash_spi_cfg \<Rightarrow> 'w spi_ops \<Rightarrow> u32 \<Rightarrow> u8 list \<Rightarrow> 'w spi_flash \<Rightarrow> ((int \<times> u32) \<times> 'w spi_flash) option" where
  "nlflash_spi_write_buffered cfg ops addr buf s = do {
     (retval, s1) \<leftarrow>
       (if buf \<noteq> [] \<and> addr \<noteq> ROUNDDOWN (write_loc s) (SPI_WRITE_SIZE cfg) + partial_page_index s
        then do { (r, t) \<leftarrow> nlflash_spi_flush cfg ops s; Some (r, t\<lparr>write_loc := addr\<rparr>) }
        else Some (0, s));
     (retval, address, buffer, written, s2) \<leftarrow>
       (if retval \<ge> 0 \<and> buf \<noteq> []
        then let offset = addr mod SPI_WRITE_SIZE cfg;
                 stride = min (unat (SPI_WRITE_SIZE cfg - offset)) (length buf)
             in do {
               (address, buffer, written, t) \<leftarrow>
                 (if offset > 0
                  then do { t \<leftarrow> cache_bytes cfg addr (take stride buf) s1;
                            Some (addr + of_nat stride, drop stride buf, of_nat stride :: u32, t) }
                  else Some (addr, buf, 0, s1));
               if partial_page_index t = SPI_WRITE_SIZE cfg
               then do { (r, t') \<leftarrow> nlflash_spi_flush cfg ops t; Some (r, address, buffer, written, t') }
               else Some (retval, address, buffer, written, t) }
        else Some (retval, addr, buf, 0, s1));
     (retval, address, buffer, written, s3) \<leftarrow>
       (if retval \<ge> 0 \<and> buffer \<noteq> []
        then do {
          ((retval, address, buffer, written), t) \<leftarrow> write_pages cfg ops retval address buffer written s2;
          Some (retval, address, buffer, written, t\<lparr>write_loc := address\<rparr>) }
        else Some (retval, address, buffer, written, s2));
     (if retval \<ge> 0 \<and> buffer \<noteq> []
      then do {
        t \<leftarrow> cache_bytes cfg address buffer s3;
        Some ((retval, written + of_nat (length buffer)), t) }
      else Some ((retval, written), s3)) }"

definition nlflash_spi_read_id ::
  "flash_spi_cfg \<Rightarrow> 'w spi_ops \<Rightarrow> nat \<Rightarrow> 'w spi_flash \<Rightarrow> ((int \<times> u8 list) \<times> 'w spi_flash) option" where
  "nlflash_spi_read_id cfg ops id_buf_size s =
     (if id_buf_size < READ_ID_SIZE cfg then Some ((- EINVAL, []), s)
      else let (retval, s1) = (if SPLIT_TRANSACTIONS cfg then on_hw (spi_request ops) s else (0, s))
           in if SPLIT_TRANSACTIONS cfg \<and> retval < 0 then Some ((retval, []), s1)
              else do {
                (retval, s2) \<leftarrow> nlflash_spi_request cfg ops s1;
                let ((retval, id_buf), s3) =
                  (if retval < 0 then ((retval, []), s2)
                   else let (r, t) = flash_is_busy cfg ops s2
                        in if r < 0 then ((r, []), t) else read_register ops (CMD_RDID cfg) (READ_ID_SIZE cfg) t);
                (_, s4) \<leftarrow> nlflash_spi_release cfg ops s3;
                let (retval, s5) = (if SPLIT_TRANSACTIONS cfg then on_hw (spi_release ops) s4 else (retval, s4));
                Some ((retval, id_buf), s5) })"

section \<open>Polling\<close>

lemma poll_step:
  "0 < retry_cnt \<Longrightarrow> \<exists>r s'. wait_until_not_busy cfg ops retry_cnt d st s = Some (r, s') \<or>
     (\<exists>st'. retry_cnt - 1 > 0 \<and>
        wait_until_not_busy cfg ops retry_cnt d st s = wait_until_not_busy cfg ops (retry_cnt - 1) d st' s')"
  by (subst (1 2) wait_until_not_busy.simps) (auto simp: Let_def split: prod.split)

lemma wait_until_not_busy_returns:
  "0 < retry_cnt \<Longrightarrow> \<exists>r s'. wait_until_not_busy cfg ops retry_cnt d st s = Some (r, s')"
proof (induction "unat retry_cnt" arbitrary: retry_cnt st s rule: less_induct)
  case less
  have "unat (retry_cnt - 1) < unat retry_cnt"
    using less.prems by (simp add: unat_minus_one word_greater_zero_iff unat_gt_0)
  with less.hyps poll_step [OF less.prems, of cfg ops d st s] show ?case by metis
qed

section \<open>An erase as a list of sectors\<close>

definition sector_size :: "flash_spi_cfg \<Rightarrow> bool \<Rightarrow> u32" where
  "sector_size cfg sub = (if sub then SPI_ERASE_SIZE cfg else SPI_FAST_ERASE_SIZE cfg)"

text \<open>Erasing the sectors of a list one after the other, with the callback after each.\<close>

primrec run_sectors ::
  "flash_spi_cfg \<Rightarrow> 'w spi_ops \<Rightarrow> ('w \<Rightarrow> int \<times> 'w) option \<Rightarrow> (u32 \<times> bool) list \<Rightarrow> int \<Rightarrow> u32 \<Rightarrow> 'w spi_flash \<Rightarrow>
   ((int \<times> u32) \<times> 'w spi_flash) option" where
  "run_sectors cfg ops cb [] retval retlen s = Some ((retval, retlen), s)"
| "run_sectors cfg ops cb (x # xs) retval retlen s = do {
     (retval, s1) \<leftarrow> erase_sector cfg ops (fst x) (snd x) s;
     if retval < 0 then Some ((retval, retlen), s1)
     else let (retval, s2) = (case cb of None \<Rightarrow> (retval, s1) | Some f \<Rightarrow> on_hw f s1)
          in if retval < 0 then Some ((retval, retlen + sector_size cfg (snd x)), s2)
             else run_sectors cfg ops cb xs retval (retlen + sector_size cfg (snd x)) s2 }"

definition sector_run :: "nat \<Rightarrow> u32 \<Rightarrow> bool \<Rightarrow> u32 \<Rightarrow> (u32 \<times> bool) list" where
  "sector_run n sz sub a = map (\<lambda>i. (a + of_nat i * sz, sub)) [0..<n]"

lemma sector_run_Suc: "sector_run (Suc n) sz sub a = (a, sub) # sector_run n sz sub (a + sz)"
  unfolding sector_run_def
  by (simp add: upt_conv_Cons map_Suc_upt [symmetric] algebra_simps del: upt_Suc)

definition erase_plan :: "flash_spi_cfg \<Rightarrow> u32 \<Rightarrow> u32 \<Rightarrow> (u32 \<times> bool) list" where
  "erase_plan cfg addr len =
     (let (beg, mid, end') = erase_counts cfg addr len;
          a1 = addr + beg * SPI_ERASE_SIZE cfg; a2 = a1 + mid * SPI_FAST_ERASE_SIZE cfg
      in sector_run (unat beg) (SPI_ERASE_SIZE cfg) True addr @
         sector_run (unat mid) (SPI_FAST_ERASE_SIZE cfg) False a1 @
         sector_run (unat end') (SPI_ERASE_SIZE cfg) True a2)"

lemma erase_loop_runs:
  assumes "0 \<le> r" "sz = sector_size cfg sub"
    and "\<And>r l s. 0 \<le> r \<Longrightarrow> K r (a + of_nat n * sz) l s = run_sectors cfg ops cb xs r l s"
  shows "Option.bind (erase_loop cfg ops cb n sz sub r a l s)
      (\<lambda>((r, a, l), s). if r < 0 then Some ((r, l), s) else K r a l s) =
    run_sectors cfg ops cb (sector_run n sz sub a @ xs) r l s"
  using assms
proof (induction n arbitrary: r a l s)
  case 0
  then show ?case by (simp add: sector_run_def)
next
  case (Suc n)
  have IH: "0 \<le> r \<Longrightarrow> Option.bind (erase_loop cfg ops cb n sz sub r (a + sz) l s)
      (\<lambda>((r, a, l), s). if r < 0 then Some ((r, l), s) else K r a l s) =
    run_sectors cfg ops cb (sector_run n sz sub (a + sz) @ xs) r l s" for r l s
    using Suc.prems(2,3) by (intro Suc.IH) (auto simp: algebra_simps)
  show ?case
  proof (cases "erase_sector cfg ops a sub s")
    case (Some rs1)
    obtain r1 s1 where rs1: "rs1 = (r1, s1)" by fastforce
    obtain r2 s2 where rs2: "(case cb of None \<Rightarrow> (r1, s1) | Some f \<Rightarrow> on_hw f s1) = (r2, s2)" by fastforce
    show ?thesis
      using Some rs1 rs2 IH [of r2 "l + sz" s2] Suc.prems(2)
      by (cases "r1 < 0"; cases "r2 < 0") (simp_all add: sector_run_Suc)
  qed (simp add: sector_run_Suc)
qed

lemma run_sectors_final:
  "Option.bind (erase_loop cfg ops cb n sz sub r a l s) (\<lambda>((r, a, l), s). Some ((r, l), s)) =
   Option.bind (erase_loop cfg ops cb n sz sub r a l s)
      (\<lambda>((r, a, l), s). if r < 0 then Some ((r, l), s) else Some ((r, l), s))"
  by (rule arg_cong [where f = "Option.bind (erase_loop cfg ops cb n sz sub r a l s)"]) auto

lemma erase_range_plan:
  assumes "0 \<le> r"
  shows "erase_range cfg ops cb addr len r s = run_sectors cfg ops cb (erase_plan cfg addr len) r 0 s"
proof -
  obtain b m e where c: "erase_counts cfg addr len = (b, m, e)" by (metis prod.exhaust)
  let ?E = "SPI_ERASE_SIZE cfg" and ?F = "SPI_FAST_ERASE_SIZE cfg"
  let ?a1 = "addr + b * ?E" let ?a2 = "?a1 + m * ?F"
  have l3: "0 \<le> r \<Longrightarrow> Option.bind (erase_loop cfg ops cb (unat e) ?E True r ?a2 l s) (\<lambda>((r, a, l), s). Some ((r, l), s)) =
      run_sectors cfg ops cb (sector_run (unat e) ?E True ?a2) r l s" for r l s
    unfolding run_sectors_final
    using erase_loop_runs [of r ?E cfg True "\<lambda>r a l s. Some ((r, l), s)" ?a2 "unat e" ops cb "[]" l s]
    by (simp add: sector_size_def)
  have l2: "0 \<le> r \<Longrightarrow> Option.bind (erase_loop cfg ops cb (unat m) ?F False r ?a1 l s)
      (\<lambda>((r, a, l), s). if r < 0 then Some ((r, l), s)
         else Option.bind (erase_loop cfg ops cb (unat e) ?E True r a l s) (\<lambda>((r, a, l), s). Some ((r, l), s))) =
      run_sectors cfg ops cb (sector_run (unat m) ?F False ?a1 @ sector_run (unat e) ?E True ?a2) r l s" for r l s
    by (rule erase_loop_runs) (simp_all add: sector_size_def l3)
  show ?thesis
    unfolding erase_range_def erase_plan_def c Let_def prod.case
    by (rule erase_loop_runs) (use assms in \<open>simp_all add: sector_size_def l2\<close>)
qed


text \<open>A configuration and a range as the product and the wrapper guarantee them.\<close>

definition erasable :: "flash_spi_cfg \<Rightarrow> u32 \<Rightarrow> u32 \<Rightarrow> bool" where
  "erasable cfg addr len \<longleftrightarrow> 0 < unat (SPI_ERASE_SIZE cfg) \<and> 0 < unat (SPI_FAST_ERASE_SIZE cfg) \<and>
     unat (SPI_ERASE_SIZE cfg) dvd unat (SPI_FAST_ERASE_SIZE cfg) \<and>
     unat (SPI_ERASE_SIZE cfg) dvd unat addr \<and> unat (SPI_ERASE_SIZE cfg) dvd unat len \<and>
     unat addr + unat len < 2 ^ 32"

lemma erase_counts_long:
  fixes cfg addr len
  defines "E \<equiv> unat (SPI_ERASE_SIZE cfg)" and "F \<equiv> unat (SPI_FAST_ERASE_SIZE cfg)"
  assumes ok: "erasable cfg addr len" and long: "SPI_FAST_ERASE_SIZE cfg \<le> len"
    and c: "erase_counts cfg addr len = (b, m, e)"
  shows "unat b * E = (if unat addr mod F = 0 then 0 else F - unat addr mod F) \<and>
     unat m = (unat len - unat b * E) div F \<and> unat e = (unat len - unat b * E) mod F div E"
proof -
  have d: "0 < E" "0 < F" "E dvd F" "E dvd unat addr" "E dvd unat len"
    using ok by (simp_all add: erasable_def E_def F_def)
  have L: "F \<le> unat len" using long by (simp add: word_le_nat_alt F_def)
  let ?left = "addr mod SPI_FAST_ERASE_SIZE cfg"
  have left: "unat ?left = unat addr mod F" by (simp add: unat_mod_distrib F_def)
  have "E dvd unat addr mod F" using d by (simp add: dvd_mod)
  then have dvd: "E dvd F - unat addr mod F" using d(3) by (rule dvd_diff_nat [rotated])
  have lt: "unat addr mod F < F" using d(2) by simp
  have b: "b = (if ?left \<noteq> 0 then (SPI_FAST_ERASE_SIZE cfg - ?left) div SPI_ERASE_SIZE cfg else 0)"
    using c long by (auto simp: erase_counts_def Let_def)
  have "unat (SPI_FAST_ERASE_SIZE cfg - ?left) = F - unat addr mod F"
    using left lt by (simp add: unat_sub word_le_nat_alt F_def)
  then have ub: "unat b = (if unat addr mod F = 0 then 0 else (F - unat addr mod F) div E)"
    using left unat_eq_zero [of ?left] by (auto simp: b unat_div_distrib E_def)
  then have bE: "unat b * E = (if unat addr mod F = 0 then 0 else F - unat addr mod F)"
    using dvd by simp
  have bL: "unat b * E \<le> unat len" using bE L by auto
  have "unat b * E < 2 ^ 32" using bL unat_lt_word32 [of len] by simp
  then have "unat (b * SPI_ERASE_SIZE cfg) = unat b * E" unfolding E_def by (rule unat_mult_small)
  then have L1: "unat (len - b * SPI_ERASE_SIZE cfg) = unat len - unat b * E"
    using bL by (simp add: unat_sub word_le_nat_alt)
  have m: "m = (len - b * SPI_ERASE_SIZE cfg) div SPI_FAST_ERASE_SIZE cfg"
    using c long b by (auto simp: erase_counts_def Let_def)
  then have um: "unat m = (unat len - unat b * E) div F" using L1 by (simp add: unat_div_distrib F_def)
  then have mF: "unat m * F \<le> unat len - unat b * E" by simp
  then have "unat m * F < 2 ^ 32" using unat_lt_word32 [of len] by simp
  then have "unat (m * SPI_FAST_ERASE_SIZE cfg) = unat m * F" unfolding F_def by (rule unat_mult_small)
  then have "unat (len - b * SPI_ERASE_SIZE cfg - m * SPI_FAST_ERASE_SIZE cfg) = unat len - unat b * E - unat m * F"
    using mF L1 by (simp add: unat_sub word_le_nat_alt)
  moreover have "e = (len - b * SPI_ERASE_SIZE cfg - m * SPI_FAST_ERASE_SIZE cfg) div SPI_ERASE_SIZE cfg"
    using c long b m by (auto simp: erase_counts_def Let_def)
  ultimately have "unat e = (unat len - unat b * E) mod F div E"
    using um by (simp add: unat_div_distrib E_def minus_div_mult_eq_mod)
  with bE um show ?thesis by simp
qed

lemma erase_counts_nat:
  fixes cfg addr len
  defines "E \<equiv> unat (SPI_ERASE_SIZE cfg)" and "F \<equiv> unat (SPI_FAST_ERASE_SIZE cfg)"
  assumes ok: "erasable cfg addr len" and c: "erase_counts cfg addr len = (b, m, e)"
  shows "unat b * E + unat m * F + unat e * E = unat len \<and> (0 < unat m \<longrightarrow> F dvd unat addr + unat b * E)"
proof (cases "SPI_FAST_ERASE_SIZE cfg \<le> len")
  case False
  with c ok show ?thesis by (auto simp: erase_counts_def erasable_def unat_div_distrib E_def)
next
  case True
  have d: "0 < E" "0 < F" "E dvd F" "E dvd unat addr" "E dvd unat len"
    using ok by (simp_all add: erasable_def E_def F_def)
  from erase_counts_long [OF ok True c]
  have r: "unat b * E = (if unat addr mod F = 0 then 0 else F - unat addr mod F)"
     "unat m = (unat len - unat b * E) div F" "unat e = (unat len - unat b * E) mod F div E"
    unfolding E_def F_def by auto
  have L: "F \<le> unat len" using True by (simp add: word_le_nat_alt F_def)
  have "E dvd (unat len - unat b * E) mod F" using d by (simp add: dvd_mod dvd_diff_nat)
  then have "unat e * E = (unat len - unat b * E) mod F" using r(3) by simp
  then have "unat m * F + unat e * E = unat len - unat b * E" using r(2) by (simp add: div_mult_mod_eq)
  moreover have "unat b * E \<le> unat len" using r(1) L by auto
  moreover have "F dvd unat addr + unat b * E"
  proof (cases "unat addr mod F = 0")
    case True
    then show ?thesis unfolding r(1) by (simp add: mod_eq_0_iff_dvd)
  next
    case False
    then have "unat b * E = F - unat addr mod F" using r(1) by simp
    moreover have "unat addr mod F < F" using d(2) by simp
    ultimately have "unat addr + unat b * E = unat addr div F * F + F"
      using div_mult_mod_eq [of "unat addr" F] by linarith
    then show ?thesis by simp
  qed
  ultimately show ?thesis by linarith
qed

text \<open>The bytes that a sector covers.\<close>

definition span :: "flash_spi_cfg \<Rightarrow> u32 \<times> bool \<Rightarrow> nat list" where
  "span cfg x = [unat (fst x)..<unat (fst x) + unat (sector_size cfg (snd x))]"

lemma upt_join: "i \<le> j \<Longrightarrow> j \<le> k \<Longrightarrow> [i..<j] @ [j..<k] = [i..<k]"
  by (metis le_add_diff_inverse upt_add_eq_append)

lemma sector_run_span:
  assumes "sz = sector_size cfg sub" "unat a + n * unat sz < 2 ^ 32"
  shows "concat (map (span cfg) (sector_run n sz sub a)) = [unat a..<unat a + n * unat sz]"
  using assms
proof (induction n arbitrary: a)
  case (Suc n)
  have a: "unat (a + sz) = unat a + unat sz"
    using Suc.prems(2) by (simp add: unat_word_ariths)
  have "concat (map (span cfg) (sector_run n sz sub (a + sz))) = [unat a + unat sz..<unat a + unat sz + n * unat sz]"
    using Suc.IH [of "a + sz"] Suc.prems unfolding a by (simp add: add.assoc)
  then have "concat (map (span cfg) (sector_run (Suc n) sz sub a)) =
      [unat a..<unat a + unat sz] @ [unat a + unat sz..<unat a + unat sz + n * unat sz]"
    using Suc.prems(1) by (simp add: sector_run_Suc span_def)
  also have "\<dots> = [unat a..<unat a + unat sz + n * unat sz]" by (rule upt_join) simp_all
  finally show ?case by (simp add: add.assoc)
qed (simp add: sector_run_def)

lemma sector_run_aligned:
  assumes "F dvd unat a" "unat sz = F" "unat a + n * unat sz < 2 ^ 32" "x \<in> set (sector_run n sz sub a)"
  shows "F dvd unat (fst x)"
  using assms
proof (induction n arbitrary: a)
  case (Suc n)
  have "unat (a + sz) = unat a + unat sz" using Suc.prems(3) by (simp add: unat_word_ariths)
  with Suc.IH [of "a + sz"] Suc.prems show ?case by (auto simp: sector_run_Suc)
qed (simp add: sector_run_def)

lemma erase_plan_tiles:
  assumes ok: "erasable cfg addr len"
  shows "concat (map (span cfg) (erase_plan cfg addr len)) = [unat addr..<unat addr + unat len] \<and>
     (\<forall>a. (a, False) \<in> set (erase_plan cfg addr len) \<longrightarrow> unat (SPI_FAST_ERASE_SIZE cfg) dvd unat a)"
proof -
  obtain b m e where c: "erase_counts cfg addr len = (b, m, e)" by (metis prod.exhaust)
  let ?E = "unat (SPI_ERASE_SIZE cfg)" and ?F = "unat (SPI_FAST_ERASE_SIZE cfg)"
  let ?a1 = "addr + b * SPI_ERASE_SIZE cfg" let ?a2 = "?a1 + m * SPI_FAST_ERASE_SIZE cfg"
  have sum: "unat b * ?E + unat m * ?F + unat e * ?E = unat len" "0 < unat m \<longrightarrow> ?F dvd unat addr + unat b * ?E"
    using erase_counts_nat [OF ok c] by auto
  have top: "unat addr + unat len < 2 ^ 32" using ok by (simp add: erasable_def)
  have "unat (b * SPI_ERASE_SIZE cfg) = unat b * ?E" using sum top by (intro unat_mult_small) linarith
  then have a1: "unat ?a1 = unat addr + unat b * ?E" using sum top by (simp add: unat_word_ariths)
  have "unat (m * SPI_FAST_ERASE_SIZE cfg) = unat m * ?F" using sum top by (intro unat_mult_small) linarith
  then have a2: "unat ?a2 = unat addr + unat b * ?E + unat m * ?F"
    using sum top a1 by (simp add: unat_word_ariths(1) [of ?a1])
  have "concat (map (span cfg) (erase_plan cfg addr len)) =
      [unat addr..<unat addr + unat b * ?E] @ [unat ?a1..<unat ?a1 + unat m * ?F] @ [unat ?a2..<unat ?a2 + unat e * ?E]"
    unfolding erase_plan_def c Let_def prod.case map_append concat_append
    using sum top a1 a2 by (subst sector_run_span, simp add: sector_size_def, linarith)+ simp
  also have "\<dots> = [unat addr..<unat addr + unat len]"
    unfolding a1 a2 sum(1) [symmetric] by (simp add: upt_join add.assoc)
  finally have tiles: "concat (map (span cfg) (erase_plan cfg addr len)) = [unat addr..<unat addr + unat len]" .
  have "?F dvd unat a" if "(a, False) \<in> set (erase_plan cfg addr len)" for a
  proof -
    have in_run: "(a, False) \<in> set (sector_run (unat m) (SPI_FAST_ERASE_SIZE cfg) False ?a1)"
      using that by (auto simp: erase_plan_def c sector_run_def Let_def)
    then have "0 < unat m" by (cases "unat m") (auto simp: sector_run_def)
    then have "?F dvd unat ?a1" using sum(2) a1 by simp
    moreover have "unat ?a1 + unat m * ?F < 2 ^ 32" using sum(1) top a1 by linarith
    ultimately show ?thesis using sector_run_aligned [OF _ refl _ in_run] by simp
  qed
  with tiles show ?thesis by blast
qed

section \<open>A write as a list of page programs\<close>

fun aligned_chunks :: "nat \<Rightarrow> u32 \<Rightarrow> u8 list \<Rightarrow> (u32 \<times> u8 list) list" where
  "aligned_chunks P addr buf =
     (if P = 0 \<or> length buf < P then (if buf = [] then [] else [(addr, buf)])
      else (addr, take P buf) # aligned_chunks P (addr + of_nat P) (drop P buf))"

declare aligned_chunks.simps [simp del]

definition write_plan :: "nat \<Rightarrow> u32 \<Rightarrow> u8 list \<Rightarrow> (u32 \<times> u8 list) list" where
  "write_plan P addr buf =
     (let off = unat addr mod P; n = min (P - off) (length buf)
      in if off = 0 then aligned_chunks P addr buf
         else (addr, take n buf) # aligned_chunks P (addr + of_nat n) (drop n buf))"

text \<open>Programming the chunks of a list one after the other, until one fails.\<close>

primrec run_chunks ::
  "flash_spi_cfg \<Rightarrow> 'w spi_ops \<Rightarrow> (u32 \<times> u8 list) list \<Rightarrow> u32 \<Rightarrow> 'w spi_flash \<Rightarrow> ((int \<times> u32) \<times> 'w spi_flash) option" where
  "run_chunks cfg ops [] retlen s = Some ((0, retlen), s)"
| "run_chunks cfg ops (c # cs) retlen s = do {
     (r, s1) \<leftarrow> write_internal cfg ops (fst c) (snd c) s;
     if r = 0 then run_chunks cfg ops cs (retlen + of_nat (length (snd c))) s1 else Some ((r, retlen), s1) }"

text \<open>A controller whose transfers return zero or an error.\<close>

definition zero_or_error :: "'w spi_ops \<Rightarrow> bool" where
  "zero_or_error ops \<longleftrightarrow> (\<forall>xs w. fst (fst (spi_transfer ops xs w)) \<le> 0)"

lemma zero_or_error_register:
  "zero_or_error ops \<Longrightarrow> read_register ops c n s = ((r, rx), s') \<Longrightarrow> r \<le> 0"
  by (auto simp: zero_or_error_def read_register_def on_hw_def split: prod.splits) (metis fst_conv)

lemma zero_or_error_wait:
  assumes "zero_or_error ops" "0 < retry_cnt"
  shows "wait_until_not_busy cfg ops retry_cnt d st s = Some (r, s') \<Longrightarrow> r \<le> 0"
  using assms(2)
proof (induction "unat retry_cnt" arbitrary: retry_cnt st s rule: less_induct)
  case less
  have "unat (retry_cnt - 1) < unat retry_cnt"
    using less.prems(2) by (simp add: unat_minus_one word_greater_zero_iff unat_gt_0)
  note IH = less.hyps [OF this]
  from less.prems(1) show ?case
    by (subst (asm) wait_until_not_busy.simps)
      (auto simp: Let_def intro: IH dest: zero_or_error_register [OF assms(1)] split: prod.splits if_splits)
qed

lemma zero_or_error_write:
  assumes "zero_or_error ops" "0 < fst (PP_DELAY cfg)" "write_internal cfg ops a b s = Some (r, s')"
  shows "r \<le> 0"
  using assms(3) zero_or_error_wait [OF assms(1,2)]
  by (auto simp: write_internal_def split: prod.splits if_splits)

lemma write_pages_unfold:
  "write_pages cfg ops r a b l s =
     (if length b \<ge> unat (SPI_WRITE_SIZE cfg)
      then do {
        (r, s1) \<leftarrow> write_internal cfg ops a (take (unat (SPI_WRITE_SIZE cfg)) b) s;
        if r < 0 then Some ((r, a, b, l), s1)
        else write_pages cfg ops r (a + SPI_WRITE_SIZE cfg) (drop (unat (SPI_WRITE_SIZE cfg)) b) (l + SPI_WRITE_SIZE cfg) s1 }
      else Some ((r, a, b, l), s))"
  by (rule write_pages.simps)

lemma write_aligned_chunks:
  assumes z: "zero_or_error ops" "0 < fst (PP_DELAY cfg)" and P: "0 < unat (SPI_WRITE_SIZE cfg)"
  shows "write_aligned cfg ops 0 a b l s = run_chunks cfg ops (aligned_chunks (unat (SPI_WRITE_SIZE cfg)) a b) l s"
proof (induction b arbitrary: a l s rule: length_induct)
  case (1 b)
  let ?P = "unat (SPI_WRITE_SIZE cfg)"
  show ?case
  proof (cases "length b < ?P")
    case True
    have "write_internal cfg ops a b s = None \<or> (\<exists>r s'. write_internal cfg ops a b s = Some (r, s'))"
      by (cases "write_internal cfg ops a b s") auto
    with True show ?thesis
      by (auto simp: write_aligned_def write_pages_unfold [of cfg ops 0 a b] aligned_chunks.simps [of ?P a b])
  next
    case False
    have IH: "write_aligned cfg ops 0 (a + SPI_WRITE_SIZE cfg) (drop ?P b) l' s' =
        run_chunks cfg ops (aligned_chunks ?P (a + SPI_WRITE_SIZE cfg) (drop ?P b)) l' s'" for l' s'
      using False P "1.IH" by auto
    show ?thesis
    proof (cases "write_internal cfg ops a (take ?P b) s")
      case None
      with False P show ?thesis
        by (simp add: write_aligned_def write_pages_unfold [of cfg ops 0 a b] aligned_chunks.simps [of ?P a b])
    next
      case (Some rs)
      obtain r s1 where rs: "rs = (r, s1)" by fastforce
      with Some have "r \<le> 0" using zero_or_error_write [OF z] by blast
      with Some rs False P IH [of "l + SPI_WRITE_SIZE cfg" s1] show ?thesis
        by (cases "r = 0")
          (simp_all add: write_aligned_def write_pages_unfold [of cfg ops 0 a b] aligned_chunks.simps [of ?P a b] min_def)
    qed
  qed
qed


primrec contiguous :: "u32 \<Rightarrow> (u32 \<times> u8 list) list \<Rightarrow> bool" where
  "contiguous a [] \<longleftrightarrow> True"
| "contiguous a (c # cs) \<longleftrightarrow> fst c = a \<and> contiguous (a + of_nat (length (snd c))) cs"

definition within_page :: "nat \<Rightarrow> u32 \<times> u8 list \<Rightarrow> bool" where
  "within_page P c \<longleftrightarrow> unat (fst c) mod P + length (snd c) \<le> P"

lemma aligned_chunks_facts:
  assumes "0 < P" "P dvd unat a" "unat a + length b < 2 ^ 32"
  shows "concat (map snd (aligned_chunks P a b)) = b \<and> contiguous a (aligned_chunks P a b) \<and>
     list_all (within_page P) (aligned_chunks P a b)"
  using assms
proof (induction P a b rule: aligned_chunks.induct)
  case (1 P a b)
  show ?case
  proof (cases "length b < P")
    case True
    with 1(2-4) show ?thesis by (simp add: aligned_chunks.simps [of P a b] within_page_def)
  next
    case False
    have a: "unat (a + of_nat P) = unat a + P"
      using 1(4) False by (simp add: unat_word_ariths unat_of_nat take_bit_nat_eq_self)
    have "concat (map snd (aligned_chunks P (a + of_nat P) (drop P b))) = drop P b \<and>
       contiguous (a + of_nat P) (aligned_chunks P (a + of_nat P) (drop P b)) \<and>
       list_all (within_page P) (aligned_chunks P (a + of_nat P) (drop P b))"
      using 1(1) 1(2-4) False a by auto
    moreover have "length (take P b) = P" using False by simp
    ultimately show ?thesis using False 1(2,3)
      by (simp add: aligned_chunks.simps [of P a b] within_page_def [of P "(a, take P b)"] del: length_take)
  qed
qed

lemma write_plan_facts:
  assumes "0 < P" "unat a + length b < 2 ^ 32"
  shows "concat (map snd (write_plan P a b)) = b \<and> contiguous a (write_plan P a b) \<and>
     list_all (within_page P) (write_plan P a b)"
proof (cases "unat a mod P = 0")
  case True
  with aligned_chunks_facts [OF assms(1) _ assms(2)] show ?thesis
    by (simp add: write_plan_def mod_eq_0_iff_dvd)
next
  case False
  let ?n = "min (P - unat a mod P) (length b)"
  have lt: "unat a mod P < P" using assms(1) by simp
  have a: "unat (a + of_nat ?n) = unat a + ?n"
    using assms(2) by (simp add: unat_word_ariths unat_of_nat take_bit_nat_eq_self)
  have "P dvd unat (a + of_nat ?n) \<or> drop ?n b = []"
  proof (cases "P - unat a mod P \<le> length b")
    case True
    then have "?n = P - unat a mod P" by simp
    then have "unat (a + of_nat ?n) = unat a div P * P + P"
      unfolding a using div_mult_mod_eq [of "unat a" P] lt by linarith
    then show ?thesis by simp
  qed simp
  moreover have "unat (a + of_nat ?n) + length (drop ?n b) < 2 ^ 32" unfolding a using assms(2) by simp
  ultimately have "concat (map snd (aligned_chunks P (a + of_nat ?n) (drop ?n b))) = drop ?n b \<and>
      contiguous (a + of_nat ?n) (aligned_chunks P (a + of_nat ?n) (drop ?n b)) \<and>
      list_all (within_page P) (aligned_chunks P (a + of_nat ?n) (drop ?n b))"
    using aligned_chunks_facts [OF assms(1)] assms(1) by (auto simp: aligned_chunks.simps [of P _ "[]"])
  moreover have "within_page P (a, take ?n b)" using lt by (simp add: within_page_def)
  moreover have "length (take ?n b) = ?n" by simp
  ultimately show ?thesis using False by (simp add: write_plan_def Let_def del: length_take)
qed

lemma run_chunks_retlen:
  "run_chunks cfg ops cs l s = Some ((0, l'), s') \<Longrightarrow> l' = l + of_nat (length (concat (map snd cs)))"
proof (induction cs arbitrary: l s)
  case (Cons c cs)
  then obtain s1 where "run_chunks cfg ops cs (l + of_nat (length (snd c))) s1 = Some ((0, l'), s')"
    by (auto elim!: bind_SomeE split: if_splits)
  from Cons.IH [OF this] show ?case by (simp add: add.assoc)
qed simp

section \<open>Reference counting\<close>

lemma request_failure_unreferenced:
  "request_attempts cfg ops n s = (r, s') \<Longrightarrow> r < 0 \<Longrightarrow> enable_ref s' = 0"
  by (induction n arbitrary: s) (auto simp: Let_def split: prod.splits if_splits)

lemma spi_request_failure:
  assumes "nlflash_spi_request cfg ops s = Some (r, s1)" "r < 0"
  shows "enable_ref s1 = 0 \<and> nlflash_spi_release cfg ops s1 = None"
  using assms request_failure_unreferenced [of cfg ops "REQUEST_ATTEMPTS cfg" "s\<lparr>enable_ref := enable_ref s + 1\<rparr>" r s1]
  by (auto simp: nlflash_spi_request_def nlflash_spi_release_def Let_def split: prod.splits if_splits)

section \<open>The page cache\<close>

text \<open>The fields of the driver that talking to the chip does not change.\<close>

definition cache_of :: "'w spi_flash \<Rightarrow> u8 list \<times> u32 \<times> u32 \<times> u8" where
  "cache_of s = (partial_page s, partial_page_index s, write_loc s, enable_ref s)"

lemma cache_of_hw [simp]:
  "cache_of (snd (on_hw f s)) = cache_of s" "cache_of (upd_hw g s) = cache_of s"
  "on_hw f s = (r, s') \<Longrightarrow> cache_of s' = cache_of s"
  by (auto simp: cache_of_def on_hw_def upd_hw_def Let_def split: prod.splits)

lemma cache_of_register [simp]: "read_register ops c n s = (r, s') \<Longrightarrow> cache_of s' = cache_of s"
  by (simp add: read_register_def)

lemma cache_of_busy: "flash_is_busy cfg ops s = (r, s') \<Longrightarrow> cache_of s' = cache_of s"
  by (auto simp: flash_is_busy_def Let_def split: prod.splits if_splits list.splits)

lemma cache_of_wait:
  "0 < retry_cnt \<Longrightarrow> wait_until_not_busy cfg ops retry_cnt d st s = Some (r, s') \<Longrightarrow> cache_of s' = cache_of s"
proof (induction "unat retry_cnt" arbitrary: retry_cnt st s rule: less_induct)
  case less
  have "unat (retry_cnt - 1) < unat retry_cnt"
    using less.prems(1) by (simp add: unat_minus_one word_greater_zero_iff unat_gt_0)
  note IH = less.hyps [OF this]
  from less.prems(2) show ?case
    by (subst (asm) wait_until_not_busy.simps)
      (auto simp: Let_def dest!: IH split: prod.splits if_splits)
qed

lemma cache_of_transaction:
  "spi_cmd_address_data cfg ops cmd a w data dummy s = (r, s') \<Longrightarrow> cache_of s' = cache_of s"
  by (auto simp: spi_cmd_address_data_def Let_def dest!: cache_of_busy split: prod.splits if_splits)

lemma cache_of_write:
  assumes "0 < fst (PP_DELAY cfg)" "write_internal cfg ops a b s = Some (r, s')"
  shows "cache_of s' = cache_of s"
proof -
  obtain r1 rx s1 where tr: "spi_cmd_address_data cfg ops (CMD_PP cfg) a True (Inl b) 0 s = ((r1, rx), s1)"
    by (metis prod.exhaust)
  note c1 = cache_of_transaction [OF tr]
  show ?thesis
  proof (cases "r1 < 0")
    case True
    with assms(2) tr c1 show ?thesis by (simp add: write_internal_def)
  next
    case False
    with assms(2) tr have "wait_until_not_busy cfg ops (fst (PP_DELAY cfg)) (snd (PP_DELAY cfg)) 0 s1 = Some (r, s')"
      by (simp add: write_internal_def)
    from cache_of_wait [OF assms(1) this] c1 show ?thesis by simp
  qed
qed

lemma flush_failure_keeps_cache:
  assumes "0 < fst (PP_DELAY cfg)" "nlflash_spi_flush cfg ops s = Some (r, s')" "r < 0"
  shows "cache_of s' = cache_of s"
  using assms(2,3) cache_of_write [OF assms(1)]
  by (auto simp: nlflash_spi_flush_def Let_def elim!: bind_SomeE split: if_splits)


section \<open>Erases and writes as a whole\<close>

lemma spi_erase_sectors:
  assumes "erasable cfg addr len" "nlflash_spi_request cfg ops s = Some (r, s1)" "0 \<le> r" "\<not> (addr = 0 \<and> len = SPI_SIZE cfg)"
  shows "nlflash_spi_erase cfg ops cb addr len retlen s = do {
       ((retval, retlen), s2) \<leftarrow> run_sectors cfg ops cb (erase_plan cfg addr len) r 0 s1;
       (_, s3) \<leftarrow> nlflash_spi_release cfg ops s2;
       Some ((retval, retlen), s3) } \<and>
     concat (map (span cfg) (erase_plan cfg addr len)) = [unat addr..<unat addr + unat len] \<and>
     (\<forall>a. (a, False) \<in> set (erase_plan cfg addr len) \<longrightarrow> unat (SPI_FAST_ERASE_SIZE cfg) dvd unat a)"
proof
  have "\<not> r < 0" using assms(3) by simp
  then show "nlflash_spi_erase cfg ops cb addr len retlen s = do {
       ((retval, retlen), s2) \<leftarrow> run_sectors cfg ops cb (erase_plan cfg addr len) r 0 s1;
       (_, s3) \<leftarrow> nlflash_spi_release cfg ops s2;
       Some ((retval, retlen), s3) }"
    using assms(2,4) by (auto simp: nlflash_spi_erase_def erase_range_plan [OF assms(3)])
qed (rule erase_plan_tiles [OF assms(1)])

lemma spi_write_chunks:
  assumes "zero_or_error ops" "0 < fst (PP_DELAY cfg)" "0 < unat (SPI_WRITE_SIZE cfg)"
    and "unat addr + length buf < 2 ^ 32" "nlflash_spi_request cfg ops s = Some (0, s1)"
    and "plan = write_plan (unat (SPI_WRITE_SIZE cfg)) addr buf"
  shows "nlflash_spi_write cfg ops addr buf s = do {
       ((retval, retlen), s2) \<leftarrow> run_chunks cfg ops plan 0 s1;
       (_, s3) \<leftarrow> nlflash_spi_release cfg ops s2;
       Some ((retval, retlen), s3) } \<and>
     concat (map snd plan) = buf \<and> contiguous addr plan \<and> list_all (within_page (unat (SPI_WRITE_SIZE cfg))) plan"
proof
  let ?P = "unat (SPI_WRITE_SIZE cfg)" let ?off = "addr mod SPI_WRITE_SIZE cfg"
  have off: "unat ?off = unat addr mod ?P" by (simp add: unat_mod_distrib)
  have lt: "unat addr mod ?P < ?P" using assms(3) by simp
  define n where "n = min (?P - unat addr mod ?P) (length buf)"
  have "unat addr mod ?P \<le> unat addr" by simp
  then have "unat ?off + length buf < 2 ^ 32" using assms(4) off by linarith
  then have sum: "unat (?off + word_of_nat (length buf)) = unat ?off + length buf"
    by (simp add: unat_word_ariths unat_of_nat take_bit_nat_eq_self del: of_nat_add)
  have sz: "(if ?off + word_of_nat (length buf) > SPI_WRITE_SIZE cfg then unat (SPI_WRITE_SIZE cfg - ?off) else length buf) = n"
    unfolding word_less_nat_alt sum using lt off by (auto simp: unat_sub word_le_nat_alt min_def n_def)
  have len: "length (take n buf) = n" by (simp add: n_def)
  have body: "(if ?off \<noteq> 0
      then do {
         (retval, s2) \<leftarrow> write_internal cfg ops addr (take n buf) s1;
         if retval = 0
         then if n = length buf then Some ((retval, of_nat n), s2)
              else write_aligned cfg ops retval (addr + of_nat n) (drop n buf) (of_nat n) s2
         else Some ((retval, 0), s2) }
      else write_aligned cfg ops 0 addr buf 0 s1) = run_chunks cfg ops plan 0 s1"
  proof (cases "unat addr mod ?P = 0")
    case True
    then have "?off = 0" using off unat_eq_zero [of ?off] by simp
    with True show ?thesis by (simp add: assms(6) write_plan_def write_aligned_chunks [OF assms(1-3)])
  next
    case False
    then have nz: "?off \<noteq> 0" using off by (metis unat_eq_zero)
    have plan: "plan = (addr, take n buf) # aligned_chunks ?P (addr + of_nat n) (drop n buf)"
      using False by (simp add: assms(6) write_plan_def Let_def n_def)
    show ?thesis
    proof (cases "write_internal cfg ops addr (take n buf) s1")
      case None
      with nz show ?thesis by (simp add: plan)
    next
      case (Some rs)
      obtain r s2 where rs: "rs = (r, s2)" by fastforce
      show ?thesis
      proof (cases "n = length buf")
        case True
        then have "drop n buf = []" by simp
        with nz Some rs True assms(3) show ?thesis
          by (simp add: plan aligned_chunks.simps [of ?P _ "[]"] len del: length_take)
      next
        case False
        with nz Some rs show ?thesis
          by (simp add: plan write_aligned_chunks [OF assms(1-3)] len del: length_take)
      qed
    qed
  qed
  show "nlflash_spi_write cfg ops addr buf s = do {
       ((retval, retlen), s2) \<leftarrow> run_chunks cfg ops plan 0 s1;
       (_, s3) \<leftarrow> nlflash_spi_release cfg ops s2;
       Some ((retval, retlen), s3) }"
    unfolding nlflash_spi_write_def assms(5) Let_def sz by (simp add: body)
qed (use write_plan_facts [OF assms(3,4)] assms(6) in simp)

section \<open>Properties\<close>

text \<open>
  C13: an erase of part of the chip is exactly a sequence of sector erases whose sectors cover the
  range byte by byte, in order and without overlap, and every whole sector is erased at a sector
  boundary.
\<close>

theorem nlflash_spi_erase_tiles_range:
  assumes "erasable cfg addr len" "nlflash_spi_request cfg ops s = Some (r, s1)" "0 \<le> r" "\<not> (addr = 0 \<and> len = SPI_SIZE cfg)"
  shows "nlflash_spi_erase cfg ops cb addr len retlen s = do {
       ((retval, retlen), s2) \<leftarrow> run_sectors cfg ops cb (erase_plan cfg addr len) r 0 s1;
       (_, s3) \<leftarrow> nlflash_spi_release cfg ops s2;
       Some ((retval, retlen), s3) } \<and>
     concat (map (span cfg) (erase_plan cfg addr len)) = [unat addr..<unat addr + unat len] \<and>
     (\<forall>a. (a, False) \<in> set (erase_plan cfg addr len) \<longrightarrow> unat (SPI_FAST_ERASE_SIZE cfg) dvd unat a)"
  by (rule spi_erase_sectors [OF assms])

text \<open>
  An unbuffered write is exactly a sequence of page programs: their data concatenated is the
  buffer, each starts where the one before ends, and none crosses the end of a page, so that the
  chip never wraps within one; the sequence ends at the first program that fails.
\<close>

theorem nlflash_spi_write_programs_pages:
  assumes "zero_or_error ops" "0 < fst (PP_DELAY cfg)" "0 < unat (SPI_WRITE_SIZE cfg)"
    and "unat addr + length buf < 2 ^ 32" "nlflash_spi_request cfg ops s = Some (0, s1)"
    and "plan = write_plan (unat (SPI_WRITE_SIZE cfg)) addr buf"
  shows "nlflash_spi_write cfg ops addr buf s = do {
       ((retval, retlen), s2) \<leftarrow> run_chunks cfg ops plan 0 s1;
       (_, s3) \<leftarrow> nlflash_spi_release cfg ops s2;
       Some ((retval, retlen), s3) } \<and>
     concat (map snd plan) = buf \<and> contiguous addr plan \<and> list_all (within_page (unat (SPI_WRITE_SIZE cfg))) plan"
  by (rule spi_write_chunks [OF assms])

text \<open>
  When the chip cannot be requested, reading, writing and erasing do not return the error: the
  request has taken back its reference, and the release at the end of the operation fails its
  assertion.
\<close>

theorem nlflash_spi_failed_request_asserts:
  assumes "nlflash_spi_request cfg ops s = Some (r, s1)" "r < 0"
  shows "nlflash_spi_read cfg ops addr n s = None \<and> nlflash_spi_write cfg ops addr buf s = None \<and>
     nlflash_spi_erase cfg ops cb addr len retlen s = None"
  using assms spi_request_failure [OF assms]
  by (simp add: nlflash_spi_read_def nlflash_spi_write_def nlflash_spi_erase_def)

text \<open>
  Polling the status register ends, with a status, however the chip and the controller behave,
  for every positive retry count.
\<close>

theorem nlflash_spi_polling_ends:
  assumes "0 < retry_cnt"
  shows "\<exists>r s'. wait_until_not_busy cfg ops retry_cnt d status s = Some (r, s')"
  using wait_until_not_busy_returns [OF assms] .

text \<open>
  With the page buffer, a write elsewhere first flushes the buffer; when that fails, the error is
  returned and nothing of the new data is taken, but the buffer, still holding the old bytes, is
  moved to the new address: the next flush programs the old bytes there.
\<close>

theorem nlflash_spi_failed_flush_moves_buffer:
  assumes "0 < fst (PP_DELAY cfg)" "buf \<noteq> []" "nlflash_spi_flush cfg ops s = Some (r, t)" "r < 0"
    and "addr \<noteq> ROUNDDOWN (write_loc s) (SPI_WRITE_SIZE cfg) + partial_page_index s"
  shows "\<exists>s'. nlflash_spi_write_buffered cfg ops addr buf s = Some ((r, 0), s') \<and>
     write_loc s' = addr \<and> partial_page s' = partial_page s \<and> partial_page_index s' = partial_page_index s"
  using assms flush_failure_keeps_cache [OF assms(1,3,4)]
  by (auto simp: nlflash_spi_write_buffered_def cache_of_def)

text \<open>
  With split transactions, reading the identifier reports success whenever the bus is released
  successfully, even when the chip was busy and no identifier was read.
\<close>

theorem nlflash_spi_read_id_hides_errors:
  assumes "SPLIT_TRANSACTIONS cfg" "READ_ID_SIZE cfg \<le> n" "on_hw (spi_request ops) s = (r0, s1)" "0 \<le> r0"
    and "nlflash_spi_request cfg ops s1 = Some (0, s2)" "flash_is_busy cfg ops s2 = (e, s3)" "e < 0"
    and "nlflash_spi_release cfg ops s3 = Some (q, s4)" "on_hw (spi_release ops) s4 = (0, s5)"
  shows "nlflash_spi_read_id cfg ops n s = Some ((0, []), s5)"
  using assms by (simp add: nlflash_spi_read_id_def)


section \<open>Witnesses\<close>

text \<open>A chip of 64 bytes on a controller that always succeeds, or whose requests or transfers fail.\<close>

definition demo_chip :: "bool \<Rightarrow> flash_spi_cfg" where
  "demo_chip split = \<lparr>SPLIT_TRANSACTIONS = split, USE_POWERDOWN = False, FAULT_ON_REQUEST_FAILURE = False, HAS_WREN = True,
     HAS_BE_ADDR = True, USE_PAGE_OFFSET_ADDRESSING = False, NUM_OFFSET_BITS = 0, REQUEST_ATTEMPTS = 1,
     MAX_CHIP_ID_CHECK_COUNT = 1, READ_ID_SIZE = 3, CHIP_IDS = [(0, 0, 0)], SPI_SIZE = 64, SPI_ERASE_SIZE = 4,
     SPI_FAST_ERASE_SIZE = 16, SPI_WRITE_SIZE = 8, CMD_RDID = 0x9f, CMD_RDSR = 5, CMD_RDP = 0xab, CMD_DP = 0xb9,
     CMD_WREN = 6, CMD_BE = 0xc7, CMD_BE_ADDR = 0, CMD_SE = 0xd8, CMD_SSE = 0x20, CMD_PP = 2, CMD_READ = 3,
     READ_DUMMY = 0, M_STAT_BUSY_BIT = 1, M_STAT_BUSY_VALUE = 1, M_STAT_READY_VALUE = 0,
     SE_DELAY = (5, 1), SSE_DELAY = (5, 1), BE_DELAY = (5, 1), PP_DELAY = (5, 1), stack_garbage = []\<rparr>"

definition demo_spi :: "int \<Rightarrow> int \<Rightarrow> u8 \<Rightarrow> unit spi_ops" where
  "demo_spi req xf st = \<lparr>spi_request = (\<lambda>w. (req, w)), spi_release = (\<lambda>w. (0, w)), slave_enable = id, slave_disable = id,
     spi_write = (\<lambda>b w. (xf, w)),
     spi_transfer = (\<lambda>xs w. ((xf, case xs of [_, Rx n] \<Rightarrow> (if n = 1 then [st] else replicate n 0) | _ \<Rightarrow> []), w)),
     delay_ms = (\<lambda>n w. w)\<rparr>"

definition idle_chip :: "unit spi_flash" where
  "idle_chip = \<lparr>partial_page = [], partial_page_index = 0, write_loc = 0, enable_ref = 0, hw = ()\<rparr>"

lemmas demo_spi_simps = demo_chip_def demo_spi_def idle_chip_def on_hw_def upd_hw_def Let_def

lemma demo_request: "nlflash_spi_request (demo_chip b) (demo_spi 0 0 st) idle_chip = Some (0, idle_chip\<lparr>enable_ref := 1\<rparr>)"
  by (simp add: nlflash_spi_request_def demo_spi_simps check_chip_id_def read_register_def numeral_3_eq_3)

lemma nlflash_spi_erase_tiles_range_witness:
  "concat (map (span (demo_chip False)) (erase_plan (demo_chip False) 12 40)) = [12..<52]"
proof -
  have "erasable (demo_chip False) 12 40" "\<not> ((12 :: u32) = 0 \<and> 40 = SPI_SIZE (demo_chip False))"
    by (simp_all add: erasable_def demo_chip_def)
  from nlflash_spi_erase_tiles_range [OF this(1) demo_request _ this(2)] show ?thesis by simp
qed

lemma nlflash_spi_write_programs_pages_witness:
  "concat (map snd (write_plan 8 6 [1, 2, 3, 4, 5])) = [1, 2, 3, 4, 5] \<and>
   list_all (within_page 8) (write_plan 8 6 [1, 2, 3, 4, 5])"
proof -
  have "zero_or_error (demo_spi 0 0 0)" "0 < fst (PP_DELAY (demo_chip False))" "0 < unat (SPI_WRITE_SIZE (demo_chip False))"
    "unat (6 :: u32) + length [1, 2, 3, 4, 5 :: u8] < 2 ^ 32" "unat (SPI_WRITE_SIZE (demo_chip False)) = 8"
    by (simp_all add: zero_or_error_def demo_spi_def demo_chip_def)
  with nlflash_spi_write_programs_pages [OF this(1-4) demo_request refl] show ?thesis by simp
qed

lemma nlflash_spi_failed_request_asserts_witness:
  "nlflash_spi_read (demo_chip False) (demo_spi (- 5) 0 0) 0 4 idle_chip = None"
proof -
  have "nlflash_spi_request (demo_chip False) (demo_spi (- 5) 0 0) idle_chip = Some (- 5, idle_chip)"
    by (simp add: nlflash_spi_request_def demo_spi_simps)
  from nlflash_spi_failed_request_asserts [OF this, of 0 4] show ?thesis by simp
qed

lemma nlflash_spi_polling_ends_witness:
  "\<exists>r s'. wait_until_not_busy (demo_chip False) (demo_spi 0 0 1) 5 1 0 idle_chip = Some (r, s')"
  by (rule nlflash_spi_polling_ends) simp

lemma nlflash_spi_failed_flush_moves_buffer_witness:
  "\<exists>s'. nlflash_spi_write_buffered (demo_chip False) (demo_spi 0 (- 5) 0) 16 [9]
      (idle_chip\<lparr>partial_page := [7, 7, 0xff, 0xff, 0xff, 0xff, 0xff, 0xff], partial_page_index := 2\<rparr>) = Some ((- 5, 0), s') \<and>
    write_loc s' = 16 \<and> take 2 (partial_page s') = [7, 7]"
proof -
  let ?s = "idle_chip\<lparr>partial_page := [7, 7, 0xff, 0xff, 0xff, 0xff, 0xff, 0xff], partial_page_index := 2\<rparr>"
  have fl: "nlflash_spi_flush (demo_chip False) (demo_spi 0 (- 5) 0) ?s = Some (- 5, ?s)"
    by (simp add: nlflash_spi_flush_def write_internal_def spi_cmd_address_data_def flash_is_busy_def
        read_register_def demo_spi_simps)
  have h: "0 < fst (PP_DELAY (demo_chip False))" "16 \<noteq> ROUNDDOWN (write_loc ?s) (SPI_WRITE_SIZE (demo_chip False)) + partial_page_index ?s"
    by (simp_all add: demo_chip_def idle_chip_def ROUNDDOWN_def)
  from nlflash_spi_failed_flush_moves_buffer [OF h(1) _ fl _ h(2), of "[9]"] show ?thesis by auto
qed

lemma nlflash_spi_read_id_hides_errors_witness:
  "\<exists>s'. nlflash_spi_read_id (demo_chip True) (demo_spi 0 0 1) 3 idle_chip = Some ((0, []), s')"
proof -
  let ?c = "demo_chip True" and ?o = "demo_spi 0 0 1" and ?s = "idle_chip\<lparr>enable_ref := 1\<rparr>"
  have "on_hw (spi_request ?o) idle_chip = (0, idle_chip)" "flash_is_busy ?c ?o ?s = (- EBUSY, ?s)"
    "nlflash_spi_release ?c ?o ?s = Some (0, idle_chip)" "on_hw (spi_release ?o) idle_chip = (0, idle_chip)"
    "SPLIT_TRANSACTIONS ?c" "READ_ID_SIZE ?c \<le> 3"
    by (simp_all add: flash_is_busy_def read_register_def nlflash_spi_release_def demo_spi_simps)
  from nlflash_spi_read_id_hides_errors [OF this(5,6,1) _ demo_request this(2) _ this(3,4)] show ?thesis by simp
qed

end
