(* ===== verification/Nlflash_spi_store.thy ===== *)
theory Nlflash_spi_store
  imports Nlflash Nlflash_spi
begin

text \<open>
  The SPI flash driver of \<open>nlflash_spi.c\<close> on a NOR flash chip. The chip and the bus are outside the
  repository: \<open>nor_chip\<close> states what their documentation promises of the commands that the driver
  sends, byte by byte, over functions that say what the chip holds (\<open>nor_view\<close>). The lemmas follow one
  operation of the driver after the other and end in the interpretation of \<open>flash_store\<close>: the driver is
  a store of bytes in the sense of \<open>Nlflash\<close>, and so is its entry in the table of devices.
\<close>

section \<open>The chip\<close>

text \<open>
  The memory, whether the chip is powered and listens to all commands, the write enable latch, how many
  more status reads will find the chip busy (time passes with every access, so it may be fewer), and
  whether the driver holds the controller.
\<close>

record 'w nor_view =
  chip_mem :: "'w \<Rightarrow> u8 list"
  awake :: "'w \<Rightarrow> bool"
  write_enabled :: "'w \<Rightarrow> bool"
  busy_reads :: "'w \<Rightarrow> nat"
  bus_owned :: "'w \<Rightarrow> bool"

text \<open>The address that the chip reads out of the three bytes after a command.\<close>

definition chip_address :: "flash_spi_cfg \<Rightarrow> u8 \<times> u8 \<times> u8 \<Rightarrow> nat" where
  "chip_address cfg b =
     (let a = unat (fst b) * 65536 + unat (fst (snd b)) * 256 + unat (snd (snd b))
      in if USE_PAGE_OFFSET_ADDRESSING cfg
         then a div 2 ^ NUM_OFFSET_BITS cfg * unat (SPI_WRITE_SIZE cfg) + a mod 2 ^ NUM_OFFSET_BITS cfg else a)"

definition command :: "u8 \<Rightarrow> u8 \<times> u8 \<times> u8 \<Rightarrow> u8 list" where
  "command cmd b = [cmd, fst b, fst (snd b), snd (snd b)]"

text \<open>Time passes; and nothing else happens.\<close>

definition calm :: "'w nor_view \<Rightarrow> 'w \<Rightarrow> 'w \<Rightarrow> bool" where
  "calm v w w' \<longleftrightarrow> chip_mem v w' = chip_mem v w \<and> busy_reads v w' \<le> busy_reads v w"

definition quiet :: "'w nor_view \<Rightarrow> 'w \<Rightarrow> 'w \<Rightarrow> bool" where
  "quiet v w w' \<longleftrightarrow> calm v w w' \<and> (awake v w \<longrightarrow> awake v w') \<and> (bus_owned v w \<longrightarrow> bus_owned v w')"

definition listening :: "'w nor_view \<Rightarrow> 'w \<Rightarrow> bool" where
  "listening v w \<longleftrightarrow> bus_owned v w \<and> awake v w"

definition idle :: "'w nor_view \<Rightarrow> 'w \<Rightarrow> bool" where
  "idle v w \<longleftrightarrow> listening v w \<and> busy_reads v w = 0"

text \<open>
  The controller is always granted. With split transactions the power lines are operated by enabling and
  disabling the slave, else by requesting and releasing the controller (\<open>nlspi.h\<close>).
\<close>

definition bus_laws :: "flash_spi_cfg \<Rightarrow> 'w spi_ops \<Rightarrow> 'w nor_view \<Rightarrow> bool" where
  "bus_laws cfg ops v \<longleftrightarrow> (\<forall>w.
     (let (r, w') = spi_request ops w
      in r = 0 \<and> calm v w w' \<and> bus_owned v w' \<and>
         (awake v w \<or> (\<not> SPLIT_TRANSACTIONS cfg \<and> \<not> USE_POWERDOWN cfg) \<longrightarrow> awake v w')) \<and>
     (let (r, w') = spi_release ops w
      in calm v w w' \<and> (SPLIT_TRANSACTIONS cfg \<longrightarrow> awake v w \<longrightarrow> awake v w')) \<and>
     calm v w (slave_enable ops w) \<and> (\<not> USE_POWERDOWN cfg \<longrightarrow> awake v (slave_enable ops w)) \<and>
     calm v w (slave_disable ops w) \<and> (\<forall>n. quiet v w (delay_ms ops n w)) \<and>
     (\<forall>xs. fst (fst (spi_transfer ops xs w)) \<le> 0))"

text \<open>Powering up and down, write enable, the identification and the status register.\<close>

definition control_laws :: "flash_spi_cfg \<Rightarrow> 'w spi_ops \<Rightarrow> 'w nor_view \<Rightarrow> bool" where
  "control_laws cfg ops v \<longleftrightarrow> (\<forall>w.
     (let (r, w') = spi_write ops [CMD_RDP cfg] w
      in USE_POWERDOWN cfg \<longrightarrow> bus_owned v w \<longrightarrow> 0 \<le> r \<and> calm v w w' \<and> listening v w') \<and>
     (let (r, w') = spi_write ops [CMD_DP cfg] w
      in USE_POWERDOWN cfg \<longrightarrow> idle v w \<longrightarrow> calm v w w') \<and>
     (let (r, w') = spi_write ops [CMD_WREN cfg] w
      in HAS_WREN cfg \<longrightarrow> idle v w \<longrightarrow> 0 \<le> r \<and> quiet v w w' \<and> write_enabled v w') \<and>
     (let ((r, rx), w') = spi_transfer ops [Tx [CMD_RDID cfg], Rx (READ_ID_SIZE cfg)] w
      in idle v w \<longrightarrow> r = 0 \<and> quiet v w w' \<and> (\<exists>a b c id. rx = a # b # c # id \<and> (a, b, c) \<in> set (CHIP_IDS cfg))) \<and>
     (let ((r, rx), w') = spi_transfer ops [Tx [CMD_RDSR cfg], Rx 1] w
      in listening v w \<longrightarrow> r = 0 \<and> quiet v w w' \<and> (\<exists>st. rx = [st] \<and>
           (if busy_reads v w = 0 then and st (M_STAT_BUSY_BIT cfg) = M_STAT_READY_VALUE cfg
            else and st (M_STAT_BUSY_BIT cfg) = M_STAT_BUSY_VALUE cfg \<and> busy_reads v w' < busy_reads v w))))"

text \<open>What a command that changes the memory does: \<open>f\<close> to the memory, and busy for fewer than \<open>n\<close> reads.\<close>

definition changes :: "'w nor_view \<Rightarrow> 'w \<Rightarrow> (u8 list \<Rightarrow> u8 list) \<Rightarrow> u32 \<Rightarrow> (int \<times> u8 list) \<times> 'w \<Rightarrow> bool" where
  "changes v w f n out \<longleftrightarrow> (let ((r, rx), w') = out
     in r = 0 \<and> chip_mem v w' = f (chip_mem v w) \<and> listening v w' \<and> busy_reads v w' < unat n)"

definition chip_erase_bytes :: "flash_spi_cfg \<Rightarrow> u8 list" where
  "chip_erase_bytes cfg = CMD_BE cfg #
     (if HAS_BE_ADDR cfg
      then [ucast (drop_bit 16 (CMD_BE_ADDR cfg)), ucast (drop_bit 8 (CMD_BE_ADDR cfg)), ucast (CMD_BE_ADDR cfg)] else [])"

text \<open>
  Reading, programming within a page, erasing at a sector boundary and erasing the chip. A command
  without data is sent alone.
\<close>

definition memory_laws :: "flash_spi_cfg \<Rightarrow> 'w spi_ops \<Rightarrow> 'w nor_view \<Rightarrow> bool" where
  "memory_laws cfg ops v \<longleftrightarrow> (\<forall>w. idle v w \<longrightarrow>
     (\<forall>b n dummy. length dummy = READ_DUMMY cfg \<longrightarrow> n = 0 \<or> chip_address cfg b + n \<le> length (chip_mem v w) \<longrightarrow>
        (let ((r, rx), w') = spi_transfer ops (Tx (command (CMD_READ cfg) b @ dummy) # (if n = 0 then [] else [Rx n])) w
         in r = 0 \<and> quiet v w w' \<and> rx = take n (drop (chip_address cfg b) (chip_mem v w)))) \<and>
     ((HAS_WREN cfg \<longrightarrow> write_enabled v w) \<longrightarrow>
        (\<forall>b xs. chip_address cfg b + length xs \<le> length (chip_mem v w) \<longrightarrow>
           chip_address cfg b mod unat (SPI_WRITE_SIZE cfg) + length xs \<le> unat (SPI_WRITE_SIZE cfg) \<longrightarrow>
           changes v w (program (chip_address cfg b) xs) (fst (PP_DELAY cfg))
             (spi_transfer ops (Tx (command (CMD_PP cfg) b) # (if xs = [] then [] else [Tx xs])) w)) \<and>
        (\<forall>b sub. chip_address cfg b + unat (sector_size cfg sub) \<le> length (chip_mem v w) \<longrightarrow>
           unat (sector_size cfg sub) dvd chip_address cfg b \<longrightarrow>
           changes v w (blank (chip_address cfg b) (unat (sector_size cfg sub)))
             (fst (if sub then SSE_DELAY cfg else SE_DELAY cfg))
             (spi_transfer ops [Tx (command (if sub then CMD_SSE cfg else CMD_SE cfg) b)] w)) \<and>
        changes v w (\<lambda>m. replicate (length m) (-1)) (fst (BE_DELAY cfg)) (spi_transfer ops [Tx (chip_erase_bytes cfg)] w)))"

text \<open>
  What a product must define for the driver to fit the chip. With split transactions, the power-down
  commands and the chip erase without an address would be sent without holding the controller; with
  page and offset addressing, the bytes of a chip erase would be taken for an address.
\<close>

definition chip_config :: "flash_spi_cfg \<Rightarrow> bool" where
  "chip_config cfg \<longleftrightarrow> 0 < SPI_SIZE cfg \<and> unat (SPI_SIZE cfg) \<le> 2 ^ 24 \<and> 0 < SPI_WRITE_SIZE cfg \<and>
     0 < SPI_ERASE_SIZE cfg \<and> 0 < SPI_FAST_ERASE_SIZE cfg \<and>
     unat (SPI_ERASE_SIZE cfg) dvd unat (SPI_FAST_ERASE_SIZE cfg) \<and> unat (SPI_WRITE_SIZE cfg) dvd unat (SPI_SIZE cfg) \<and>
     (USE_PAGE_OFFSET_ADDRESSING cfg \<longrightarrow> unat (SPI_WRITE_SIZE cfg) \<le> 2 ^ NUM_OFFSET_BITS cfg \<and> NUM_OFFSET_BITS cfg \<le> 24 \<and>
        (unat (SPI_SIZE cfg) - 1) div unat (SPI_WRITE_SIZE cfg) < 2 ^ (24 - NUM_OFFSET_BITS cfg)) \<and>
     READ_DUMMY cfg \<le> length (stack_garbage cfg) \<and> M_STAT_BUSY_VALUE cfg \<noteq> M_STAT_READY_VALUE cfg \<and>
     0 < MAX_CHIP_ID_CHECK_COUNT cfg \<and> 0 < REQUEST_ATTEMPTS cfg \<and> 0 < fst (PP_DELAY cfg) \<and>
     (SPLIT_TRANSACTIONS cfg \<longrightarrow> \<not> USE_POWERDOWN cfg \<and> HAS_BE_ADDR cfg) \<and>
     (if HAS_BE_ADDR cfg then \<not> USE_PAGE_OFFSET_ADDRESSING cfg else HAS_WREN cfg)"

definition nor_chip :: "flash_spi_cfg \<Rightarrow> 'w spi_ops \<Rightarrow> 'w nor_view \<Rightarrow> bool" where
  "nor_chip cfg ops v \<longleftrightarrow> chip_config cfg \<and> bus_laws cfg ops v \<and> control_laws cfg ops v \<and> memory_laws cfg ops v"

section \<open>Addresses\<close>

text \<open>The three bytes that the driver sends.\<close>

definition address_bytes :: "flash_spi_cfg \<Rightarrow> u32 \<Rightarrow> u8 \<times> u8 \<times> u8" where
  "address_bytes cfg a =
     (let a = (if USE_PAGE_OFFSET_ADDRESSING cfg
               then or (push_bit (NUM_OFFSET_BITS cfg) (a div SPI_WRITE_SIZE cfg)) (a mod SPI_WRITE_SIZE cfg) else a)
      in (ucast (drop_bit 16 a), ucast (drop_bit 8 a), ucast a))"

lemma cmd_bytes_command: "cmd_bytes cfg cmd a n = command cmd (address_bytes cfg a) @ take n (stack_garbage cfg)"
  by (simp add: cmd_bytes_def command_def address_bytes_def Let_def)

lemma three_bytes:
  assumes "unat (a :: u32) < 2 ^ 24"
  shows "unat (ucast (drop_bit 16 a) :: u8) * 65536 + unat (ucast (drop_bit 8 a) :: u8) * 256 + unat (ucast a :: u8) = unat a"
proof -
  have b: "unat (ucast (x :: u32) :: u8) = unat x mod 256" for x
    by (simp add: unsigned_ucast_eq take_bit_eq_mod)
  have "unat a div 65536 < 256" using assms by (simp add: less_mult_imp_div_less)
  moreover have "unat a = unat a div 65536 * 65536 + unat a div 256 mod 256 * 256 + unat a mod 256"
  proof -
    have "unat a div 65536 = unat a div 256 div 256" using div_mult2_eq [of "unat a" 256 256] by simp
    with div_mult_mod_eq [of "unat a" 256] div_mult_mod_eq [of "unat a div 256" 256] show ?thesis by linarith
  qed
  ultimately show ?thesis
    unfolding b by (simp add: drop_bit_eq_div unat_div)
qed

lemma page_offset_address:
  fixes p off :: u32
  assumes "unat p < 2 ^ (24 - k)" "unat off < 2 ^ k" "k \<le> 24"
  shows "unat (or (push_bit k p) off) = unat p * 2 ^ k + unat off"
proof -
  have "unat p * 2 ^ k < 2 ^ (24 - k) * 2 ^ k" using assms(1) by simp
  also have "(2 :: nat) ^ (24 - k) * 2 ^ k = 2 ^ 24" using assms(3) by (simp flip: power_add)
  finally have small: "unat p * 2 ^ k < 2 ^ 24" .
  have push: "unat (push_bit k p) = unat p * 2 ^ k"
  proof -
    have "push_bit k (unat p) = unat p * 2 ^ k" by (rule push_bit_eq_mult)
    moreover have "unat (push_bit k p) = take_bit 32 (push_bit k (unat p))" by (simp add: unsigned_push_bit_eq)
    ultimately show ?thesis using small by (simp add: take_bit_nat_eq_self)
  qed
  have "and (push_bit k p) off = 0"
  proof (rule bit_eqI)
    fix n
    have "\<not> bit off n" if "k \<le> n"
    proof -
      have "unat off < 2 ^ n" using assms(2) that by (meson less_le_trans one_le_numeral power_increasing)
      then have "\<not> bit (unat off) n" by (metis bit_take_bit_iff less_irrefl take_bit_nat_eq_self)
      then show ?thesis by (simp add: bit_unsigned_iff bit_imp_possible_bit)
    qed
    then show "bit (and (push_bit k p) off) n = bit (0 :: u32) n" by (auto simp: bit_simps)
  qed
  then have "or (push_bit k p) off = push_bit k p + off" by (simp add: disjunctive_add_eq_or [symmetric])
  moreover have "unat (push_bit k p + off) = unat p * 2 ^ k + unat off"
  proof -
    have "unat p * 2 ^ k + unat off < 2 ^ 32"
    proof -
      have "(2 :: nat) ^ k \<le> 2 ^ 24" using assms(3) by (rule power_increasing) simp
      with small assms(2) show ?thesis by simp
    qed
    then show ?thesis by (simp add: unat_word_ariths push)
  qed
  ultimately show ?thesis by simp
qed

lemma chip_address_bytes:
  assumes "chip_config cfg" "unat a < unat (SPI_SIZE cfg)"
  shows "chip_address cfg (address_bytes cfg a) = unat a"
proof (cases "USE_PAGE_OFFSET_ADDRESSING cfg")
  case True
  let ?k = "NUM_OFFSET_BITS cfg" and ?W = "unat (SPI_WRITE_SIZE cfg)"
  let ?p = "a div SPI_WRITE_SIZE cfg" and ?o = "a mod SPI_WRITE_SIZE cfg"
  have c: "0 < ?W" "?W \<le> 2 ^ ?k" "?k \<le> 24" "(unat (SPI_SIZE cfg) - 1) div ?W < 2 ^ (24 - ?k)"
    using assms(1) True by (auto simp: chip_config_def word_less_nat_alt)
  have p: "unat ?p = unat a div ?W" "unat ?o = unat a mod ?W" by (simp_all add: unat_div unat_mod_distrib)
  have "unat a div ?W \<le> (unat (SPI_SIZE cfg) - 1) div ?W" using assms(2) by (intro div_le_mono) linarith
  then have lp: "unat ?p < 2 ^ (24 - ?k)" using c(4) p by simp
  have "unat a mod ?W < ?W" using c(1) by simp
  then have lo: "unat ?o < 2 ^ ?k" unfolding p using c(2) by (rule less_le_trans)
  note or = page_offset_address [OF lp lo c(3)]
  have "unat ?p * 2 ^ ?k + unat ?o < (unat ?p + 1) * 2 ^ ?k" using lo by simp
  also have "\<dots> \<le> 2 ^ (24 - ?k) * 2 ^ ?k" using lp by (intro mult_le_mono1) simp
  also have "(2 :: nat) ^ (24 - ?k) * 2 ^ ?k = 2 ^ 24" using c(3) by (simp flip: power_add)
  finally have "unat (or (push_bit ?k ?p) ?o) < 2 ^ 24" unfolding or .
  from three_bytes [OF this] have "chip_address cfg (address_bytes cfg a) =
      (unat ?p * 2 ^ ?k + unat ?o) div 2 ^ ?k * ?W + (unat ?p * 2 ^ ?k + unat ?o) mod 2 ^ ?k"
    using True by (simp add: chip_address_def address_bytes_def or)
  also have "\<dots> = unat a" using lo by (simp add: p)
  finally show ?thesis .
next
  case False
  have "unat a < 2 ^ 24" using assms by (simp add: chip_config_def)
  from three_bytes [OF this] False show ?thesis by (simp add: chip_address_def address_bytes_def)
qed

section \<open>Transactions\<close>

text \<open>The driver between transactions: the chip is powered, and the controller is held unless transactions are split.\<close>

definition in_session :: "flash_spi_cfg \<Rightarrow> 'w nor_view \<Rightarrow> 'w \<Rightarrow> bool" where
  "in_session cfg v w \<longleftrightarrow> awake v w \<and> (SPLIT_TRANSACTIONS cfg \<or> bus_owned v w)"

lemma on_hw_result: "f (hw s) = (r, w) \<Longrightarrow> on_hw f s = (r, s\<lparr>hw := w\<rparr>)"
  by (simp add: on_hw_def)

lemma calm_trans: "calm v a b \<Longrightarrow> calm v b c \<Longrightarrow> calm v a c"
  by (auto simp: calm_def)

lemma calm_refl [simp]: "calm v w w"
  by (simp add: calm_def)

lemma quiet_calm: "quiet v a b \<Longrightarrow> calm v a b"
  by (simp add: quiet_def)

lemma quiet_listening: "quiet v a b \<Longrightarrow> listening v a \<Longrightarrow> listening v b"
  by (simp add: quiet_def listening_def)

lemma quiet_idle: "quiet v a b \<Longrightarrow> idle v a \<Longrightarrow> idle v b"
  by (simp add: idle_def quiet_listening quiet_calm calm_def) (simp add: quiet_def calm_def)

lemma quiet_session: "quiet v a b \<Longrightarrow> in_session cfg v a \<Longrightarrow> in_session cfg v b"
  by (auto simp: in_session_def quiet_def)

lemma listening_session: "listening v w \<Longrightarrow> in_session cfg v w"
  by (simp add: in_session_def listening_def)

text \<open>Taking and giving back the controller around a transaction.\<close>

definition begin_transaction :: "flash_spi_cfg \<Rightarrow> 'w spi_ops \<Rightarrow> 'w spi_flash \<Rightarrow> int \<times> 'w spi_flash" where
  "begin_transaction cfg ops s = (if SPLIT_TRANSACTIONS cfg then on_hw (spi_request ops) s else (0, s))"

definition end_transaction :: "flash_spi_cfg \<Rightarrow> 'w spi_ops \<Rightarrow> 'w spi_flash \<Rightarrow> 'w spi_flash" where
  "end_transaction cfg ops s = (if SPLIT_TRANSACTIONS cfg then snd (on_hw (spi_release ops) s) else s)"

lemma begin_ok:
  assumes "nor_chip cfg ops v" "in_session cfg v (hw s)"
  shows "\<exists>w. begin_transaction cfg ops s = (0, s\<lparr>hw := w\<rparr>) \<and> calm v (hw s) w \<and> listening v w"
proof (cases "SPLIT_TRANSACTIONS cfg")
  case True
  obtain r w where w: "spi_request ops (hw s) = (r, w)" by fastforce
  then have "r = 0 \<and> calm v (hw s) w \<and> bus_owned v w \<and> awake v w"
    using assms unfolding nor_chip_def bus_laws_def in_session_def Let_def by (metis (mono_tags, lifting) case_prod_conv)
  with True w show ?thesis by (auto simp: begin_transaction_def on_hw_def listening_def)
next
  case False
  with assms(2) show ?thesis
    by (intro exI [of _ "hw s"]) (simp add: begin_transaction_def in_session_def listening_def)
qed

lemma end_ok:
  assumes "nor_chip cfg ops v" "listening v (hw s)"
  shows "\<exists>w. end_transaction cfg ops s = s\<lparr>hw := w\<rparr> \<and> calm v (hw s) w \<and> in_session cfg v w"
proof (cases "SPLIT_TRANSACTIONS cfg")
  case True
  obtain r w where w: "spi_release ops (hw s) = (r, w)" by fastforce
  then have "calm v (hw s) w \<and> awake v w"
    using assms True unfolding nor_chip_def bus_laws_def listening_def Let_def by (metis (mono_tags, lifting) case_prod_conv)
  with True w show ?thesis by (auto simp: end_transaction_def on_hw_def in_session_def)
next
  case False
  with assms(2) show ?thesis
    by (intro exI [of _ "hw s"]) (simp add: end_transaction_def in_session_def listening_def)
qed

text \<open>The status register, and the polling loop.\<close>

lemma status_read:
  assumes "nor_chip cfg ops v" "listening v (hw s)"
  shows "\<exists>st w. read_register ops (CMD_RDSR cfg) 1 s = ((0, [st]), s\<lparr>hw := w\<rparr>) \<and> quiet v (hw s) w \<and>
    (busy_reads v (hw s) = 0 \<longrightarrow> and st (M_STAT_BUSY_BIT cfg) = M_STAT_READY_VALUE cfg) \<and>
    (busy_reads v (hw s) \<noteq> 0 \<longrightarrow>
       and st (M_STAT_BUSY_BIT cfg) = M_STAT_BUSY_VALUE cfg \<and> busy_reads v w < busy_reads v (hw s))"
proof -
  obtain r rx w where t: "spi_transfer ops [Tx [CMD_RDSR cfg], Rx 1] (hw s) = ((r, rx), w)" by (metis prod.exhaust)
  from assms(1) have "control_laws cfg ops v" by (simp add: nor_chip_def)
  from this [unfolded control_laws_def Let_def, rule_format, of "hw s", THEN conjunct2, THEN conjunct2, THEN conjunct2, THEN conjunct2]
  obtain st where st: "r = 0" "quiet v (hw s) w" "rx = [st]"
    "if busy_reads v (hw s) = 0 then and st (M_STAT_BUSY_BIT cfg) = M_STAT_READY_VALUE cfg
     else and st (M_STAT_BUSY_BIT cfg) = M_STAT_BUSY_VALUE cfg \<and> busy_reads v w < busy_reads v (hw s)"
    using assms(2) unfolding t prod.case by blast
  have "read_register ops (CMD_RDSR cfg) 1 s = ((0, [st]), s\<lparr>hw := w\<rparr>)"
    using t st(1,3) by (simp add: read_register_def on_hw_def)
  with st(2,4) show ?thesis by (intro exI [of _ st] exI [of _ w]) simp
qed

lemma not_busy:
  assumes "nor_chip cfg ops v" "idle v (hw s)"
  shows "\<exists>w. flash_is_busy cfg ops s = (0, s\<lparr>hw := w\<rparr>) \<and> quiet v (hw s) w"
proof -
  from assms(2) have "listening v (hw s)" "busy_reads v (hw s) = 0" by (simp_all add: idle_def)
  with status_read [OF assms(1) this(1)] obtain st w where
    "read_register ops (CMD_RDSR cfg) 1 s = ((0, [st]), s\<lparr>hw := w\<rparr>)" "quiet v (hw s) w"
    "and st (M_STAT_BUSY_BIT cfg) = M_STAT_READY_VALUE cfg" by auto
  moreover have "M_STAT_READY_VALUE cfg \<noteq> M_STAT_BUSY_VALUE cfg"
    using assms(1) by (auto simp: nor_chip_def chip_config_def)
  ultimately show ?thesis by (auto simp: flash_is_busy_def)
qed

lemma cmd_address_data_unfold:
  "spi_cmd_address_data cfg ops cmd a wr data dummy s =
     (let (r, s1) = begin_transaction cfg ops s
      in if SPLIT_TRANSACTIONS cfg \<and> r < 0 then ((r, []), s1)
         else let (r, s2) = flash_is_busy cfg ops s1;
                  ((r, rx), s4) =
                    (if r < 0 then ((r, []), s2)
                     else let (r, s3) = (if HAS_WREN cfg \<and> wr then on_hw (spi_write ops [CMD_WREN cfg]) s2 else (r, s2))
                          in if r < 0 then ((r, []), s3)
                             else on_hw (spi_transfer ops (Tx (cmd_bytes cfg cmd a dummy) #
                                    (case data of Inl bs \<Rightarrow> if bs = [] then [] else [Tx bs] | Inr n \<Rightarrow> if n = 0 then [] else [Rx n]))) s3)
              in ((r, rx), end_transaction cfg ops s4))"
  by (simp add: spi_cmd_address_data_def begin_transaction_def end_transaction_def Let_def split: prod.split sum.split)

lemma read_transaction:
  assumes chip: "nor_chip cfg ops v" and s: "in_session cfg v (hw s)" "busy_reads v (hw s) = 0"
    and a: "unat a + n \<le> length (chip_mem v (hw s))" "length (chip_mem v (hw s)) = unat (SPI_SIZE cfg)"
  shows "\<exists>w. spi_cmd_address_data cfg ops (CMD_READ cfg) a False (Inr n) (READ_DUMMY cfg) s =
      ((0, take n (drop (unat a) (chip_mem v (hw s)))), s\<lparr>hw := w\<rparr>) \<and> calm v (hw s) w \<and> in_session cfg v w"
proof -
  obtain w1 where w1: "begin_transaction cfg ops s = (0, s\<lparr>hw := w1\<rparr>)" "calm v (hw s) w1" "listening v w1"
    using begin_ok [OF chip s(1)] by blast
  have i1: "idle v w1" using w1(2,3) s(2) by (simp add: idle_def calm_def)
  obtain w2 where w2: "flash_is_busy cfg ops (s\<lparr>hw := w1\<rparr>) = (0, s\<lparr>hw := w2\<rparr>)" "quiet v w1 w2"
    using not_busy [OF chip, of "s\<lparr>hw := w1\<rparr>"] i1 by auto
  have i2: "idle v w2" by (rule quiet_idle [OF w2(2) i1])
  have m2: "chip_mem v w2 = chip_mem v (hw s)" using w1(2) w2(2) by (simp add: quiet_def calm_def)
  let ?d = "take (READ_DUMMY cfg) (stack_garbage cfg)" let ?b = "address_bytes cfg a"
  have ad: "chip_address cfg ?b = unat a" if "n \<noteq> 0"
    using chip a that by (intro chip_address_bytes) (simp_all add: nor_chip_def)
  have d: "length ?d = READ_DUMMY cfg" using chip by (auto simp: nor_chip_def chip_config_def)
  obtain r rx w3 where t: "spi_transfer ops (Tx (command (CMD_READ cfg) ?b @ ?d) # (if n = 0 then [] else [Rx n])) w2 = ((r, rx), w3)"
    by (metis prod.exhaust)
  have "memory_laws cfg ops v" using chip by (simp add: nor_chip_def)
  from this [unfolded memory_laws_def Let_def, rule_format, OF i2, THEN conjunct1, rule_format, OF d, where b = ?b and n = n]
  have w3: "r = 0" "quiet v w2 w3" "rx = take n (drop (unat a) (chip_mem v (hw s)))"
    using a(1) ad unfolding t prod.case m2 by (cases "n = 0"; simp)+
  obtain w4 where w4: "end_transaction cfg ops (s\<lparr>hw := w3\<rparr>) = s\<lparr>hw := w4\<rparr>" "calm v w3 w4" "in_session cfg v w4"
    using end_ok [OF chip, of "s\<lparr>hw := w3\<rparr>"] quiet_listening [OF w3(2)] i2 by (auto simp: idle_def)
  have "calm v (hw s) w4" using w1(2) w2(2) w3(2) w4(2) by (meson calm_trans quiet_calm)
  with w1(1) w2(1) w3(1,3) t w4(1,3) show ?thesis
    by (intro exI [of _ w4]) (simp add: cmd_address_data_unfold cmd_bytes_command on_hw_def)
qed

text \<open>Write enable, where the chip has it, and a command that changes the memory.\<close>

lemma write_enable:
  assumes chip: "nor_chip cfg ops v" and i: "idle v (hw s)"
  shows "\<exists>r w. (if HAS_WREN cfg then on_hw (spi_write ops [CMD_WREN cfg]) s else (0, s)) = (r, s\<lparr>hw := w\<rparr>) \<and> 0 \<le> r \<and>
    idle v w \<and> (HAS_WREN cfg \<longrightarrow> write_enabled v w) \<and> chip_mem v w = chip_mem v (hw s)"
proof (cases "HAS_WREN cfg")
  case True
  obtain r w where t: "spi_write ops [CMD_WREN cfg] (hw s) = (r, w)" by fastforce
  have "control_laws cfg ops v" using chip by (simp add: nor_chip_def)
  from this [unfolded control_laws_def Let_def, rule_format, of "hw s", THEN conjunct2, THEN conjunct2, THEN conjunct1]
  have "0 \<le> r" "quiet v (hw s) w" "write_enabled v w" using True i unfolding t prod.case by simp_all
  with True t quiet_idle [OF _ i] show ?thesis by (auto simp: on_hw_def quiet_def calm_def)
next
  case False
  with i show ?thesis by (intro exI [of _ 0] exI [of _ "hw s"]) simp
qed

lemma write_transaction:
  assumes chip: "nor_chip cfg ops v" and s: "in_session cfg v (hw s)" "busy_reads v (hw s) = 0"
    and change: "\<And>w. idle v w \<Longrightarrow> (HAS_WREN cfg \<longrightarrow> write_enabled v w) \<Longrightarrow> chip_mem v w = chip_mem v (hw s) \<Longrightarrow>
      changes v w f n (spi_transfer ops (Tx (cmd_bytes cfg cmd a 0) # (if bs = [] then [] else [Tx bs])) w)"
  shows "\<exists>rx w. spi_cmd_address_data cfg ops cmd a True (Inl bs) 0 s = ((0, rx), s\<lparr>hw := w\<rparr>) \<and>
    chip_mem v w = f (chip_mem v (hw s)) \<and> in_session cfg v w \<and> busy_reads v w < unat n"
proof -
  obtain w1 where w1: "begin_transaction cfg ops s = (0, s\<lparr>hw := w1\<rparr>)" "calm v (hw s) w1" "listening v w1"
    using begin_ok [OF chip s(1)] by blast
  have i1: "idle v w1" using w1(2,3) s(2) by (simp add: idle_def calm_def)
  obtain w2 where w2: "flash_is_busy cfg ops (s\<lparr>hw := w1\<rparr>) = (0, s\<lparr>hw := w2\<rparr>)" "quiet v w1 w2"
    using not_busy [OF chip, of "s\<lparr>hw := w1\<rparr>"] i1 by auto
  have i2: "idle v w2" by (rule quiet_idle [OF w2(2) i1])
  have m2: "chip_mem v w2 = chip_mem v (hw s)" using w1(2) w2(2) by (simp add: quiet_def calm_def)
  obtain r w3 where w3: "(if HAS_WREN cfg then on_hw (spi_write ops [CMD_WREN cfg]) (s\<lparr>hw := w2\<rparr>) else (0, s\<lparr>hw := w2\<rparr>)) = (r, s\<lparr>hw := w3\<rparr>)"
      "0 \<le> r" "idle v w3" "HAS_WREN cfg \<longrightarrow> write_enabled v w3" "chip_mem v w3 = chip_mem v (hw s)"
    using write_enable [OF chip, of "s\<lparr>hw := w2\<rparr>"] i2 m2 by auto
  obtain q rx w4 where t: "spi_transfer ops (Tx (cmd_bytes cfg cmd a 0) # (if bs = [] then [] else [Tx bs])) w3 = ((q, rx), w4)"
    by (metis prod.exhaust)
  have w4: "q = 0" "chip_mem v w4 = f (chip_mem v (hw s))" "listening v w4" "busy_reads v w4 < unat n"
    using change [OF w3(3-5)] unfolding t changes_def Let_def prod.case w3(5) by simp_all
  obtain w5 where w5: "end_transaction cfg ops (s\<lparr>hw := w4\<rparr>) = s\<lparr>hw := w5\<rparr>" "calm v w4 w5" "in_session cfg v w5"
    using end_ok [OF chip, of "s\<lparr>hw := w4\<rparr>"] w4(3) by auto
  have "spi_cmd_address_data cfg ops cmd a True (Inl bs) 0 s = ((0, rx), s\<lparr>hw := w5\<rparr>)"
    using w1(1) w2(1) w3(1,2) w4(1) t w5(1) by (simp add: cmd_address_data_unfold on_hw_def)
  with w4 w5 show ?thesis by (fastforce simp: calm_def)
qed

section \<open>Polling and single commands\<close>

lemma wait_unfold:
  "wait_until_not_busy cfg ops retry_cnt d status s =
     (let (r, s2) = begin_transaction cfg ops (upd_hw (delay_ms ops d) s)
      in if r < 0 then Some (if retry_cnt = 0 then - EIO else r, s2)
         else let ((r, rx), s3) = read_register ops (CMD_RDSR cfg) 1 s2;
                  status = (case rx of b # _ \<Rightarrow> b | [] \<Rightarrow> status);
                  s4 = end_transaction cfg ops s3
              in if and status (M_STAT_BUSY_BIT cfg) = M_STAT_READY_VALUE cfg
                 then Some (if retry_cnt = 0 then - EIO else r, s4)
                 else if retry_cnt - 1 > 0 \<and> r \<ge> 0 then wait_until_not_busy cfg ops (retry_cnt - 1) d status s4
                 else Some (if retry_cnt - 1 = 0 then - EIO else r, s4))"
  unfolding begin_transaction_def end_transaction_def by (subst wait_until_not_busy.simps) (simp only: Let_def)

lemma wait_ready:
  assumes chip: "nor_chip cfg ops v"
  shows "in_session cfg v (hw s) \<Longrightarrow> busy_reads v (hw s) < unat retry_cnt \<Longrightarrow>
    \<exists>w. wait_until_not_busy cfg ops retry_cnt d st s = Some (0, s\<lparr>hw := w\<rparr>) \<and>
      chip_mem v w = chip_mem v (hw s) \<and> busy_reads v w = 0 \<and> in_session cfg v w"
proof (induction "busy_reads v (hw s)" arbitrary: retry_cnt st s rule: less_induct)
  case less
  let ?w0 = "delay_ms ops d (hw s)"
  have bus: "bus_laws cfg ops v" using chip by (simp add: nor_chip_def)
  have w0: "quiet v (hw s) ?w0" using bus unfolding bus_laws_def by blast
  obtain w1 where w1: "begin_transaction cfg ops (s\<lparr>hw := ?w0\<rparr>) = (0, s\<lparr>hw := w1\<rparr>)" "calm v ?w0 w1" "listening v w1"
    using begin_ok [OF chip, of "s\<lparr>hw := ?w0\<rparr>"] quiet_session [OF w0 less.prems(1)] by auto
  obtain b w2 where w2: "read_register ops (CMD_RDSR cfg) 1 (s\<lparr>hw := w1\<rparr>) = ((0, [b]), s\<lparr>hw := w2\<rparr>)" "quiet v w1 w2"
      "busy_reads v w1 = 0 \<longrightarrow> and b (M_STAT_BUSY_BIT cfg) = M_STAT_READY_VALUE cfg"
      "busy_reads v w1 \<noteq> 0 \<longrightarrow> and b (M_STAT_BUSY_BIT cfg) = M_STAT_BUSY_VALUE cfg \<and> busy_reads v w2 < busy_reads v w1"
    using status_read [OF chip, of "s\<lparr>hw := w1\<rparr>"] w1(3) by auto
  obtain w3 where w3: "end_transaction cfg ops (s\<lparr>hw := w2\<rparr>) = s\<lparr>hw := w3\<rparr>" "calm v w2 w3" "in_session cfg v w3"
    using end_ok [OF chip, of "s\<lparr>hw := w2\<rparr>"] quiet_listening [OF w2(2) w1(3)] by auto
  have mem: "chip_mem v w3 = chip_mem v (hw s)" using w0 w1(2) w2(2) w3(2) by (simp add: quiet_def calm_def)
  have busy: "busy_reads v w1 \<le> busy_reads v (hw s)" "busy_reads v w3 \<le> busy_reads v w2" "busy_reads v w2 \<le> busy_reads v w1"
    using w0 w1(2) w2(2) w3(2) by (auto simp: quiet_def calm_def)
  have step: "wait_until_not_busy cfg ops retry_cnt d st s =
      (if and b (M_STAT_BUSY_BIT cfg) = M_STAT_READY_VALUE cfg then Some (if retry_cnt = 0 then - EIO else 0, s\<lparr>hw := w3\<rparr>)
       else if retry_cnt - 1 > 0 then wait_until_not_busy cfg ops (retry_cnt - 1) d b (s\<lparr>hw := w3\<rparr>)
       else Some (if retry_cnt - 1 = 0 then - EIO else 0, s\<lparr>hw := w3\<rparr>))"
    by (simp add: wait_unfold [of cfg ops retry_cnt] upd_hw_def w1(1) w2(1) w3(1) del: One_nat_def)
  have pos: "retry_cnt \<noteq> 0" using less.prems(2) by auto
  show ?case
  proof (cases "busy_reads v w1 = 0")
    case True
    with w2(3) busy have "busy_reads v w3 = 0" by simp
    with True w2(3) step pos mem w3(3) show ?thesis by (intro exI [of _ w3]) simp
  next
    case False
    have ne: "M_STAT_BUSY_VALUE cfg \<noteq> M_STAT_READY_VALUE cfg" using chip by (auto simp: nor_chip_def chip_config_def)
    from False w2(4) have b: "and b (M_STAT_BUSY_BIT cfg) = M_STAT_BUSY_VALUE cfg" "busy_reads v w2 < busy_reads v w1" by simp_all
    have n: "unat (retry_cnt - 1) = unat retry_cnt - 1" using pos by (simp add: unat_minus_one)
    have lt: "busy_reads v w3 < busy_reads v (hw s)" "busy_reads v w3 < unat (retry_cnt - 1)"
      using busy b(2) less.prems(2) n by linarith+
    then have "retry_cnt - 1 > 0" by (simp add: word_less_nat_alt)
    moreover obtain w where "wait_until_not_busy cfg ops (retry_cnt - 1) d b (s\<lparr>hw := w3\<rparr>) = Some (0, s\<lparr>hw := w\<rparr>)"
        "chip_mem v w = chip_mem v w3" "busy_reads v w = 0" "in_session cfg v w"
      using less.hyps [of "s\<lparr>hw := w3\<rparr>" "retry_cnt - 1" b] lt w3(3) by auto
    ultimately show ?thesis using step b(1) ne mem by auto
  qed
qed

lemma polled:
  assumes "nor_chip cfg ops v" "in_session cfg v w" "busy_reads v w < unat retry_cnt"
  shows "\<exists>w'. wait_until_not_busy cfg ops retry_cnt d st (s\<lparr>hw := w\<rparr>) = Some (0, s\<lparr>hw := w'\<rparr>) \<and>
    chip_mem v w' = chip_mem v w \<and> busy_reads v w' = 0 \<and> in_session cfg v w'"
  using wait_ready [OF assms(1), of "s\<lparr>hw := w\<rparr>" retry_cnt d st] assms(2,3) by simp

text \<open>What every command that changes the memory achieves, with the polling behind it.\<close>

definition achieves :: "flash_spi_cfg \<Rightarrow> 'w nor_view \<Rightarrow> (u8 list \<Rightarrow> u8 list) \<Rightarrow> 'w spi_flash \<Rightarrow> 'w \<Rightarrow> bool" where
  "achieves cfg v f s w \<longleftrightarrow> chip_mem v w = f (chip_mem v (hw s)) \<and> busy_reads v w = 0 \<and> in_session cfg v w"

lemma write_internal_programs:
  assumes chip: "nor_chip cfg ops v" and s: "in_session cfg v (hw s)" "busy_reads v (hw s) = 0"
    and a: "unat a + length xs \<le> length (chip_mem v (hw s))" "unat a < unat (SPI_SIZE cfg)"
    and page: "within_page (unat (SPI_WRITE_SIZE cfg)) (a, xs)"
  shows "\<exists>w. write_internal cfg ops a xs s = Some (0, s\<lparr>hw := w\<rparr>) \<and> achieves cfg v (program (unat a) xs) s w"
proof -
  let ?b = "address_bytes cfg a"
  have ad: "chip_address cfg ?b = unat a" using chip a(2) by (simp add: nor_chip_def chip_address_bytes)
  have laws: "memory_laws cfg ops v" using chip by (simp add: nor_chip_def)
  have "changes v w (program (unat a) xs) (fst (PP_DELAY cfg))
      (spi_transfer ops (Tx (cmd_bytes cfg (CMD_PP cfg) a 0) # (if xs = [] then [] else [Tx xs])) w)"
    if w: "idle v w" "HAS_WREN cfg \<longrightarrow> write_enabled v w" "chip_mem v w = chip_mem v (hw s)" for w
    using laws [unfolded memory_laws_def, rule_format, OF w(1), THEN conjunct2, rule_format, THEN conjunct1, rule_format, of ?b xs]
      w(2,3) a(1) page by (simp add: ad within_page_def cmd_bytes_command)
  from write_transaction [OF chip s this]
  obtain rx w1 where w1: "spi_cmd_address_data cfg ops (CMD_PP cfg) a True (Inl xs) 0 s = ((0, rx), s\<lparr>hw := w1\<rparr>)"
    "chip_mem v w1 = program (unat a) xs (chip_mem v (hw s))" "in_session cfg v w1" "busy_reads v w1 < unat (fst (PP_DELAY cfg))"
    by blast
  from wait_ready [OF chip, of "s\<lparr>hw := w1\<rparr>"] w1 show ?thesis
    by (auto simp: write_internal_def achieves_def)
qed

lemma erase_sector_blanks:
  assumes chip: "nor_chip cfg ops v" and s: "in_session cfg v (hw s)" "busy_reads v (hw s) = 0"
    and a: "unat a + unat (sector_size cfg sub) \<le> length (chip_mem v (hw s))" "unat a < unat (SPI_SIZE cfg)"
    and al: "unat (sector_size cfg sub) dvd unat a"
  shows "\<exists>w. erase_sector cfg ops a sub s = Some (0, s\<lparr>hw := w\<rparr>) \<and> achieves cfg v (blank (unat a) (unat (sector_size cfg sub))) s w"
proof -
  let ?b = "address_bytes cfg a" and ?cmd = "if sub then CMD_SSE cfg else CMD_SE cfg"
  let ?d = "if sub then SSE_DELAY cfg else SE_DELAY cfg"
  have ad: "chip_address cfg ?b = unat a" using chip a(2) by (simp add: nor_chip_def chip_address_bytes)
  have laws: "memory_laws cfg ops v" using chip by (simp add: nor_chip_def)
  have "changes v w (blank (unat a) (unat (sector_size cfg sub))) (fst ?d)
      (spi_transfer ops (Tx (cmd_bytes cfg ?cmd a 0) # (if ([] :: u8 list) = [] then [] else [Tx []])) w)"
    if w: "idle v w" "HAS_WREN cfg \<longrightarrow> write_enabled v w" "chip_mem v w = chip_mem v (hw s)" for w
    using laws [unfolded memory_laws_def, rule_format, OF w(1), THEN conjunct2, rule_format, THEN conjunct2, THEN conjunct1,
        rule_format, of ?b sub] w(2,3) a(1) al by (simp add: ad cmd_bytes_command)
  from write_transaction [OF chip s this]
  obtain rx w1 where w1: "spi_cmd_address_data cfg ops ?cmd a True (Inl []) 0 s = ((0, rx), s\<lparr>hw := w1\<rparr>)"
    "chip_mem v w1 = blank (unat a) (unat (sector_size cfg sub)) (chip_mem v (hw s))" "in_session cfg v w1"
    "busy_reads v w1 < unat (fst ?d)"
    by blast
  from wait_ready [OF chip, of "s\<lparr>hw := w1\<rparr>" "fst ?d" "snd ?d"] w1 show ?thesis
    by (cases ?d) (auto simp: erase_sector_def achieves_def)
qed

lemma bulk_erase_blanks:
  assumes chip: "nor_chip cfg ops v" and s: "in_session cfg v (hw s)" "busy_reads v (hw s) = 0"
  shows "\<exists>w. bulk_erase cfg ops retlen s = Some ((0, SPI_SIZE cfg), s\<lparr>hw := w\<rparr>) \<and>
    achieves cfg v (\<lambda>m. replicate (length m) (-1)) s w"
proof -
  let ?f = "\<lambda>m. replicate (length m) (-1) :: u8 list"
  have laws: "memory_laws cfg ops v" and config: "chip_config cfg" using chip by (simp_all add: nor_chip_def)
  have change: "changes v w ?f (fst (BE_DELAY cfg)) (spi_transfer ops [Tx (chip_erase_bytes cfg)] w)"
    if w: "idle v w" "HAS_WREN cfg \<longrightarrow> write_enabled v w" for w
    using laws [unfolded memory_laws_def, rule_format, OF w(1), THEN conjunct2] w(2) by blast
  define part where "part = (if HAS_BE_ADDR cfg
         then let ((r, _), t) = spi_cmd_address_data cfg ops (CMD_BE cfg) (CMD_BE_ADDR cfg) True (Inl []) 0 s in (r, t)
         else let (r, t) = on_hw (spi_write ops [CMD_WREN cfg]) s
              in if r < 0 then (r, t) else let ((r', _), t') = on_hw (spi_transfer ops [Tx [CMD_BE cfg]]) t in (r', t'))"
  obtain w1 where w1: "part = (0, s\<lparr>hw := w1\<rparr>)" "chip_mem v w1 = ?f (chip_mem v (hw s))" "in_session cfg v w1"
    "busy_reads v w1 < unat (fst (BE_DELAY cfg))"
  proof (cases "HAS_BE_ADDR cfg")
    case True
    then have "cmd_bytes cfg (CMD_BE cfg) (CMD_BE_ADDR cfg) 0 = chip_erase_bytes cfg"
      using config by (simp add: chip_config_def cmd_bytes_def chip_erase_bytes_def Let_def)
    with write_transaction [OF chip s, where bs = "[]" and cmd = "CMD_BE cfg" and a = "CMD_BE_ADDR cfg" and f = ?f
        and n = "fst (BE_DELAY cfg)"] change
    obtain rx w1 where "spi_cmd_address_data cfg ops (CMD_BE cfg) (CMD_BE_ADDR cfg) True (Inl []) 0 s = ((0, rx), s\<lparr>hw := w1\<rparr>)"
      "chip_mem v w1 = ?f (chip_mem v (hw s))" "in_session cfg v w1" "busy_reads v w1 < unat (fst (BE_DELAY cfg))" by auto
    with True that show ?thesis by (simp add: part_def)
  next
    case False
    then have c: "HAS_WREN cfg" "\<not> SPLIT_TRANSACTIONS cfg" using config by (auto simp: chip_config_def)
    then have "idle v (hw s)" using s by (simp add: idle_def in_session_def listening_def)
    with write_enable [OF chip, of s] c(1) obtain r w0 where w0: "on_hw (spi_write ops [CMD_WREN cfg]) s = (r, s\<lparr>hw := w0\<rparr>)"
      "0 \<le> r" "idle v w0" "write_enabled v w0" "chip_mem v w0 = chip_mem v (hw s)" by auto
    obtain q rx w1 where t: "spi_transfer ops [Tx (chip_erase_bytes cfg)] w0 = ((q, rx), w1)" by (metis prod.exhaust)
    have w1: "q = 0" "chip_mem v w1 = ?f (chip_mem v (hw s))" "listening v w1" "busy_reads v w1 < unat (fst (BE_DELAY cfg))"
      using change [OF w0(3)] w0(4) unfolding t changes_def Let_def prod.case w0(5) by simp_all
    have "on_hw (spi_transfer ops [Tx [CMD_BE cfg]]) (s\<lparr>hw := w0\<rparr>) = ((0, rx), s\<lparr>hw := w1\<rparr>)"
      using t w1(1) False by (simp add: on_hw_def chip_erase_bytes_def)
    then have "part = (0, s\<lparr>hw := w1\<rparr>)" using False w0(1,2) by (simp add: part_def)
    then show ?thesis by (rule that [OF _ w1(2) listening_session [OF w1(3)] w1(4)])
  qed
  obtain w where "wait_until_not_busy cfg ops (fst (BE_DELAY cfg)) (snd (BE_DELAY cfg)) 0 (s\<lparr>hw := w1\<rparr>) = Some (0, s\<lparr>hw := w\<rparr>)"
    "chip_mem v w = chip_mem v w1" "busy_reads v w = 0" "in_session cfg v w"
    using polled [OF chip w1(3,4)] by blast
  with w1(1,2) show ?thesis
    by (intro exI [of _ w]) (simp add: bulk_erase_def achieves_def part_def [symmetric])
qed

section \<open>Requesting and releasing the chip\<close>

lemma chip_identified:
  assumes chip: "nor_chip cfg ops v" and s: "in_session cfg v (hw s)" "busy_reads v (hw s) = 0"
  shows "\<exists>w. check_chip_id cfg ops s = (0, s\<lparr>hw := w\<rparr>) \<and> calm v (hw s) w \<and> in_session cfg v w"
proof -
  obtain w1 where w1: "begin_transaction cfg ops s = (0, s\<lparr>hw := w1\<rparr>)" "calm v (hw s) w1" "listening v w1"
    using begin_ok [OF chip s(1)] by blast
  have i1: "idle v w1" using w1(2,3) s(2) by (simp add: idle_def calm_def)
  obtain r rx w2 where t: "spi_transfer ops [Tx [CMD_RDID cfg], Rx (READ_ID_SIZE cfg)] w1 = ((r, rx), w2)" by (metis prod.exhaust)
  have "control_laws cfg ops v" using chip by (simp add: nor_chip_def)
  from this [unfolded control_laws_def Let_def, rule_format, of w1, THEN conjunct2, THEN conjunct2, THEN conjunct2, THEN conjunct1]
  obtain a b c id where w2: "r = 0" "quiet v w1 w2" "rx = a # b # c # id" "(a, b, c) \<in> set (CHIP_IDS cfg)"
    using i1 unfolding t prod.case by blast
  obtain w3 where w3: "end_transaction cfg ops (s\<lparr>hw := w2\<rparr>) = s\<lparr>hw := w3\<rparr>" "calm v w2 w3" "in_session cfg v w3"
    using end_ok [OF chip, of "s\<lparr>hw := w2\<rparr>"] quiet_listening [OF w2(2) w1(3)] by auto
  have "check_chip_id cfg ops s = (0, s\<lparr>hw := w3\<rparr>)"
    using w1(1) t w2(1,3,4) w3(1)
    by (auto simp: check_chip_id_def begin_transaction_def end_transaction_def read_register_def on_hw_def Let_def split: if_splits)
  with w1(2) w2(2) w3 show ?thesis by (meson calm_trans quiet_calm)
qed

text \<open>Between the operations of the driver, no client holds it and the chip has finished its work.\<close>

definition at_rest :: "'w nor_view \<Rightarrow> 'w spi_flash \<Rightarrow> bool" where
  "at_rest v s \<longleftrightarrow> enable_ref s = 0 \<and> busy_reads v (hw s) = 0"

lemma request_ok:
  assumes chip: "nor_chip cfg ops v" and s: "at_rest v s"
  shows "\<exists>w. nlflash_spi_request cfg ops s = Some (0, s\<lparr>enable_ref := 1, hw := w\<rparr>) \<and> achieves cfg v (\<lambda>m. m) s w"
proof -
  let ?s1 = "s\<lparr>enable_ref := 1\<rparr>"
  have config: "chip_config cfg" and bus: "bus_laws cfg ops v" and ctl: "control_laws cfg ops v"
    using chip by (simp_all add: nor_chip_def)
  obtain n m where n: "REQUEST_ATTEMPTS cfg = Suc n" and m: "MAX_CHIP_ID_CHECK_COUNT cfg = Suc m"
    using config by (auto simp: chip_config_def gr0_conv_Suc)
  define power where "power = (if SPLIT_TRANSACTIONS cfg then (0, upd_hw (slave_enable ops) ?s1) else on_hw (spi_request ops) ?s1)"
  obtain w1 where w1: "power = (0, ?s1\<lparr>hw := w1\<rparr>)" "calm v (hw s) w1" "SPLIT_TRANSACTIONS cfg \<or> bus_owned v w1"
    "\<not> USE_POWERDOWN cfg \<longrightarrow> awake v w1"
  proof (cases "SPLIT_TRANSACTIONS cfg")
    case True
    with bus that [of "slave_enable ops (hw s)"] show ?thesis
      unfolding bus_laws_def by (simp add: power_def upd_hw_def)
  next
    case False
    obtain r w where "spi_request ops (hw s) = (r, w)" by fastforce
    moreover from this bus have "r = 0" "calm v (hw s) w" "bus_owned v w" "\<not> USE_POWERDOWN cfg \<longrightarrow> awake v w"
      using False unfolding bus_laws_def Let_def by (metis (mono_tags, lifting) case_prod_conv)+
    ultimately show ?thesis using False that [of w] by (simp add: power_def on_hw_def)
  qed
  define wake where "wake = (if USE_POWERDOWN cfg then on_hw (spi_write ops [CMD_RDP cfg]) (?s1\<lparr>hw := w1\<rparr>) else (0, ?s1\<lparr>hw := w1\<rparr>))"
  obtain r w2 where w2: "wake = (r, ?s1\<lparr>hw := w2\<rparr>)" "0 \<le> r" "calm v w1 w2" "in_session cfg v w2"
  proof (cases "USE_POWERDOWN cfg")
    case True
    then have owned: "bus_owned v w1" using config w1(3) by (auto simp: chip_config_def)
    obtain r w where t: "spi_write ops [CMD_RDP cfg] w1 = (r, w)" by fastforce
    from ctl [unfolded control_laws_def Let_def, rule_format, of w1, THEN conjunct1]
    have r: "0 \<le> r" "calm v w1 w" "listening v w" using True owned unfolding t prod.case by simp_all
    with True t show ?thesis by (intro that [of r w]) (simp_all add: wake_def on_hw_def listening_session)
  next
    case False
    with w1 that [of 0 w1] show ?thesis by (simp add: wake_def in_session_def)
  qed
  have c2: "calm v (hw s) w2" by (rule calm_trans [OF w1(2) w2(3)])
  then have "busy_reads v w2 = 0" using s by (simp add: at_rest_def calm_def)
  then obtain w3 where w3: "check_chip_id cfg ops (?s1\<lparr>hw := w2\<rparr>) = (0, ?s1\<lparr>hw := w3\<rparr>)" "calm v w2 w3" "in_session cfg v w3"
    using chip_identified [OF chip, of "?s1\<lparr>hw := w2\<rparr>"] w2(4) by auto
  have "request_attempts cfg ops (REQUEST_ATTEMPTS cfg) ?s1 = (0, ?s1\<lparr>hw := w3\<rparr>)"
    using w1(1) w2(1,2) w3(1) by (simp add: n m power_def [symmetric] wake_def [symmetric])
  then have "nlflash_spi_request cfg ops s = Some (0, s\<lparr>enable_ref := 1, hw := w3\<rparr>)"
    using s by (simp add: nlflash_spi_request_def at_rest_def)
  moreover have "achieves cfg v (\<lambda>m. m) s w3"
    using calm_trans [OF c2 w3(2)] w3(3) s by (simp add: achieves_def at_rest_def calm_def)
  ultimately show ?thesis by blast
qed

lemma release_ok:
  assumes chip: "nor_chip cfg ops v" and s: "in_session cfg v (hw s)" "busy_reads v (hw s) = 0" "enable_ref s = 1"
  shows "\<exists>w. nlflash_spi_release cfg ops s = Some (0, s\<lparr>enable_ref := 0, hw := w\<rparr>) \<and> calm v (hw s) w"
proof -
  let ?s1 = "s\<lparr>enable_ref := 0\<rparr>"
  have config: "chip_config cfg" and bus: "bus_laws cfg ops v" and ctl: "control_laws cfg ops v"
    using chip by (simp_all add: nor_chip_def)
  define sleep where "sleep = (if USE_POWERDOWN cfg then snd (on_hw (spi_write ops [CMD_DP cfg]) ?s1) else ?s1)"
  obtain w1 where w1: "sleep = ?s1\<lparr>hw := w1\<rparr>" "calm v (hw s) w1"
  proof (cases "USE_POWERDOWN cfg")
    case True
    then have i: "idle v (hw s)" using config s by (auto simp: chip_config_def in_session_def idle_def listening_def)
    obtain r w where t: "spi_write ops [CMD_DP cfg] (hw s) = (r, w)" by fastforce
    from ctl [unfolded control_laws_def Let_def, rule_format, of "hw s", THEN conjunct2, THEN conjunct1]
    have "calm v (hw s) w" using True i unfolding t prod.case by simp
    with True t that [of w] show ?thesis by (simp add: sleep_def on_hw_def)
  next
    case False
    with that [of "hw s"] show ?thesis by (simp add: sleep_def)
  qed
  define off where "off = (if SPLIT_TRANSACTIONS cfg then upd_hw (slave_disable ops) sleep else snd (on_hw (spi_release ops) sleep))"
  obtain w2 where w2: "off = ?s1\<lparr>hw := w2\<rparr>" "calm v w1 w2"
  proof (cases "SPLIT_TRANSACTIONS cfg")
    case True
    with bus that [of "slave_disable ops w1"] w1(1) show ?thesis unfolding bus_laws_def by (simp add: off_def upd_hw_def)
  next
    case False
    obtain r w where "spi_release ops w1 = (r, w)" by fastforce
    moreover from this bus have "calm v w1 w"
      unfolding bus_laws_def Let_def by (metis (mono_tags, lifting) case_prod_conv)
    ultimately show ?thesis using False that [of w] w1(1) by (simp add: off_def on_hw_def)
  qed
  have "nlflash_spi_release cfg ops s = Some (0, off)"
    using s(3) by (simp add: nlflash_spi_release_def off_def sleep_def Let_def)
  with w2 calm_trans [OF w1(2) w2(2)] show ?thesis by auto
qed

section \<open>Sequences of programs and erases\<close>

lemma program_length: "a + length xs \<le> length m \<Longrightarrow> length (program a xs m) = length m"
  by (simp add: program_def)

lemma blank_length: "a + n \<le> length m \<Longrightarrow> length (blank a n m) = length m"
  by (simp add: blank_def)

lemma program_Nil: "program a [] m = m"
  by (simp add: program_def)

lemma blank_0: "blank a 0 m = m"
  by (simp add: blank_def)

lemma program_append:
  assumes "a + length xs + length ys \<le> length m"
  shows "program (a + length xs) ys (program a xs m) = program a (xs @ ys) m"
proof -
  let ?x = "map2 (and) (take (length xs) (drop a m)) xs"
  have x: "length ?x = length xs" using assms by simp
  have "take (length xs + length ys) (drop a m) = take (length xs) (drop a m) @ take (length ys) (drop (a + length xs) m)"
    by (simp add: take_add add.commute)
  then have z: "map2 (and) (take (length (xs @ ys)) (drop a m)) (xs @ ys) =
      ?x @ map2 (and) (take (length ys) (drop (a + length xs) m)) ys"
    using assms by (simp add: zip_append)
  have "program a xs m = (take a m @ ?x) @ drop (a + length xs) m" by (simp add: program_def)
  moreover have "length (take a m @ ?x) = a + length xs" using assms x by simp
  ultimately show ?thesis
    unfolding program_def [of _ ys] program_def [of a "xs @ ys"] z
    by (simp add: add.assoc add.commute [of "length ys"])
qed

lemma blank_append:
  assumes "a + n + k \<le> length m"
  shows "blank (a + n) k (blank a n m) = blank a (n + k) m"
proof -
  have "blank a n m = (take a m @ replicate n (-1)) @ drop (a + n) m" by (simp add: blank_def)
  moreover have "length (take a m @ replicate n (-1 :: u8)) = a + n" using assms by simp
  ultimately show ?thesis
    unfolding blank_def [of _ k] blank_def [of a "n + k"]
    by (simp add: replicate_add add.assoc add.commute [of k])
qed

lemma run_chunks_programs:
  assumes chip: "nor_chip cfg ops v"
  shows "in_session cfg v (hw s) \<Longrightarrow> busy_reads v (hw s) = 0 \<Longrightarrow> length (chip_mem v (hw s)) = unat (SPI_SIZE cfg) \<Longrightarrow>
    contiguous a cs \<Longrightarrow> list_all (within_page (unat (SPI_WRITE_SIZE cfg))) cs \<Longrightarrow>
    list_all (\<lambda>c. unat (fst c) < unat (SPI_SIZE cfg)) cs \<Longrightarrow>
    unat a + length (concat (map snd cs)) \<le> unat (SPI_SIZE cfg) \<Longrightarrow>
    \<exists>w. run_chunks cfg ops cs l s = Some ((0, l + word_of_nat (length (concat (map snd cs)))), s\<lparr>hw := w\<rparr>) \<and>
      achieves cfg v (program (unat a) (concat (map snd cs))) s w"
proof (induction cs arbitrary: a l s)
  case Nil
  then show ?case by (intro exI [of _ "hw s"]) (simp add: achieves_def program_Nil)
next
  case (Cons c cs)
  obtain b xs where c: "c = (b, xs)" by fastforce
  then have b: "b = a" using Cons.prems(4) by simp
  let ?rest = "concat (map snd cs)"
  have fits: "unat a + length xs + length ?rest \<le> unat (SPI_SIZE cfg)" using Cons.prems(7) c by simp
  obtain w1 where w1: "write_internal cfg ops a xs s = Some (0, s\<lparr>hw := w1\<rparr>)" "achieves cfg v (program (unat a) xs) s w1"
    using write_internal_programs [OF chip Cons.prems(1,2), of a xs] Cons.prems(3,5,6) fits c b by auto
  have a: "unat (a + of_nat (length xs)) = unat a + length xs"
    using fits unat_lt_word32 [of "SPI_SIZE cfg"] by (simp add: unat_word_ariths unat_of_nat take_bit_nat_eq_self)
  have m1: "length (chip_mem v w1) = unat (SPI_SIZE cfg)"
    using w1(2) Cons.prems(3) fits by (simp add: achieves_def program_length)
  obtain w2 where w2: "run_chunks cfg ops cs (l + of_nat (length xs)) (s\<lparr>hw := w1\<rparr>) =
      Some ((0, l + of_nat (length xs) + word_of_nat (length ?rest)), s\<lparr>hw := w2\<rparr>)"
      "achieves cfg v (program (unat a + length xs) ?rest) (s\<lparr>hw := w1\<rparr>) w2"
    using Cons.IH [of "s\<lparr>hw := w1\<rparr>" "a + of_nat (length xs)" "l + of_nat (length xs)"] w1(2) m1 Cons.prems(4-6) c b fits
    by (auto simp: achieves_def a)
  have "achieves cfg v (program (unat a) (xs @ ?rest)) s w2"
    using w1(2) w2(2) program_append [of "unat a" xs ?rest "chip_mem v (hw s)"] fits Cons.prems(3) by (simp add: achieves_def)
  with w1(1) w2(1) c b show ?case by (intro exI [of _ w2]) (simp add: add.assoc)
qed

text \<open>The first of several sectors that tile a range begins the range.\<close>

lemma first_tile:
  assumes "concat (map (span cfg) (x # xs)) = [a..<b]" "0 < unat (sector_size cfg (snd x))"
  shows "unat (fst x) = a" "a + unat (sector_size cfg (snd x)) \<le> b"
    "concat (map (span cfg) xs) = [a + unat (sector_size cfg (snd x))..<b]"
proof -
  let ?p = "unat (fst x)" and ?z = "unat (sector_size cfg (snd x))"
  have e: "[?p..<?p + ?z] @ concat (map (span cfg) xs) = [a..<b]" using assms(1) by (simp add: span_def)
  then have "length ([?p..<?p + ?z] @ concat (map (span cfg) xs)) = length [a..<b]" by (rule arg_cong)
  then have z: "?z + length (concat (map (span cfg) xs)) = b - a" by simp
  with assms(2) have "a < b" by simp
  with e assms(2) show p: "?p = a" by (simp add: upt_conv_Cons)
  show le: "a + ?z \<le> b" using z \<open>a < b\<close> by linarith
  have "[a..<a + ?z] @ concat (map (span cfg) xs) = [a..<a + ?z] @ [a + ?z..<b]"
    using e p le by (simp add: upt_join)
  then show "concat (map (span cfg) xs) = [a + ?z..<b]" by simp
qed

lemma run_sectors_blanks:
  assumes chip: "nor_chip cfg ops v"
  shows "in_session cfg v (hw s) \<Longrightarrow> busy_reads v (hw s) = 0 \<Longrightarrow> length (chip_mem v (hw s)) = unat (SPI_SIZE cfg) \<Longrightarrow>
    concat (map (span cfg) xs) = [a..<b] \<Longrightarrow> a \<le> b \<Longrightarrow> b \<le> unat (SPI_SIZE cfg) \<Longrightarrow> unat (SPI_ERASE_SIZE cfg) dvd a \<Longrightarrow>
    \<forall>p. (p, False) \<in> set xs \<longrightarrow> unat (SPI_FAST_ERASE_SIZE cfg) dvd unat p \<Longrightarrow>
    \<exists>w. run_sectors cfg ops None xs 0 l s = Some ((0, l + word_of_nat (b - a)), s\<lparr>hw := w\<rparr>) \<and>
      achieves cfg v (blank a (b - a)) s w"
proof (induction xs arbitrary: a l s)
  case Nil
  then have "b = a" by (cases "a < b") (simp_all add: upt_conv_Cons)
  with Nil show ?case by (intro exI [of _ "hw s"]) (simp add: achieves_def blank_0)
next
  case (Cons x xs)
  obtain p sub where x: "x = (p, sub)" by fastforce
  let ?z = "unat (sector_size cfg sub)"
  have config: "chip_config cfg" using chip by (simp add: nor_chip_def)
  then have z: "0 < ?z" "unat (SPI_ERASE_SIZE cfg) dvd ?z"
    by (auto simp: chip_config_def sector_size_def word_less_nat_alt)
  from first_tile [OF Cons.prems(4)] z(1) x have t: "unat p = a" "a + ?z \<le> b" "concat (map (span cfg) xs) = [a + ?z..<b]" by auto
  have al: "?z dvd unat p"
    using Cons.prems(7,8) x t(1) by (cases sub) (auto simp: sector_size_def)
  obtain w1 where w1: "erase_sector cfg ops p sub s = Some (0, s\<lparr>hw := w1\<rparr>)" "achieves cfg v (blank (unat p) ?z) s w1"
    using erase_sector_blanks [OF chip Cons.prems(1,2) _ _ al] Cons.prems(3,6) t(1,2) z(1) by auto
  have m1: "length (chip_mem v w1) = unat (SPI_SIZE cfg)"
    using w1(2) Cons.prems(3,6) t(1,2) by (simp add: achieves_def blank_length)
  have "unat (SPI_ERASE_SIZE cfg) dvd a + ?z" using Cons.prems(7) z(2) by simp
  with Cons.IH [of "s\<lparr>hw := w1\<rparr>" "a + ?z" "l + sector_size cfg sub"] w1(2) m1 t Cons.prems(6,8)
  obtain w2 where w2: "run_sectors cfg ops None xs 0 (l + sector_size cfg sub) (s\<lparr>hw := w1\<rparr>) =
      Some ((0, l + sector_size cfg sub + word_of_nat (b - (a + ?z))), s\<lparr>hw := w2\<rparr>)"
      "achieves cfg v (blank (a + ?z) (b - (a + ?z))) (s\<lparr>hw := w1\<rparr>) w2"
    by (auto simp: achieves_def)
  have "achieves cfg v (blank a (b - a)) s w2"
    using w1(2) w2(2) blank_append [of a ?z "b - (a + ?z)" "chip_mem v (hw s)"] t(1,2) Cons.prems(3,6) by (simp add: achieves_def)
  moreover have "sector_size cfg sub + word_of_nat (b - (a + ?z)) = word_of_nat (b - a)"
  proof -
    have "word_of_nat (b - a) = (word_of_nat (?z + (b - (a + ?z))) :: u32)" using t(2) by simp
    then show ?thesis by (simp del: of_nat_diff)
  qed
  ultimately show ?case using w1(1) w2(1) x by (intro exI [of _ w2]) (simp add: add.assoc)
qed

section \<open>The driver as a store\<close>

definition driver_ready :: "flash_spi_cfg \<Rightarrow> 'w spi_ops \<Rightarrow> 'w nor_view \<Rightarrow> 'w spi_flash \<Rightarrow> bool" where
  "driver_ready cfg ops v s \<longleftrightarrow> nor_chip cfg ops v \<and> at_rest v s \<and> length (chip_mem v (hw s)) = unat (SPI_SIZE cfg)"

text \<open>Releasing the chip after an operation that achieved \<open>f\<close>.\<close>

lemma after_release:
  assumes "driver_ready cfg ops v s" "achieves cfg v f s w" "\<And>m. length m = unat (SPI_SIZE cfg) \<Longrightarrow> length (f m) = length m"
  shows "\<exists>t. nlflash_spi_release cfg ops (s\<lparr>enable_ref := 1, hw := w\<rparr>) = Some (0, t) \<and> driver_ready cfg ops v t \<and>
    chip_mem v (hw t) = f (chip_mem v (hw s))"
proof -
  have chip: "nor_chip cfg ops v" using assms(1) by (simp add: driver_ready_def)
  obtain w' where "nlflash_spi_release cfg ops (s\<lparr>enable_ref := 1, hw := w\<rparr>) = Some (0, s\<lparr>enable_ref := 0, hw := w'\<rparr>)" "calm v w w'"
    using release_ok [OF chip, of "s\<lparr>enable_ref := 1, hw := w\<rparr>"] assms(2) by (auto simp: achieves_def)
  with assms show ?thesis by (auto simp: driver_ready_def at_rest_def achieves_def calm_def)
qed

text \<open>The operation that is run between request and release begins in the state \<open>s\<lparr>enable_ref := 1, hw := w\<rparr>\<close>.\<close>

lemma after_request:
  assumes "driver_ready cfg ops v s"
  obtains w where "nlflash_spi_request cfg ops s = Some (0, s\<lparr>enable_ref := 1, hw := w\<rparr>)"
    "in_session cfg v w" "busy_reads v w = 0" "chip_mem v w = chip_mem v (hw s)"
  using request_ok assms unfolding driver_ready_def achieves_def by blast

lemma achieves_after:
  "achieves cfg v f (s\<lparr>enable_ref := 1, hw := w\<rparr>) w' \<Longrightarrow> chip_mem v w = chip_mem v (hw s) \<Longrightarrow> achieves cfg v f s w'"
  by (simp add: achieves_def)

lemma driver_reads:
  assumes s: "driver_ready cfg ops v s" and fits: "unat a + n \<le> length (chip_mem v (hw s))"
  shows "\<exists>t. nlflash_spi_read cfg ops a n s = Some ((0, word_of_nat n, take n (drop (unat a) (chip_mem v (hw s)))), t) \<and>
    driver_ready cfg ops v t \<and> chip_mem v (hw t) = chip_mem v (hw s)"
proof -
  have chip: "nor_chip cfg ops v" and size: "length (chip_mem v (hw s)) = unat (SPI_SIZE cfg)"
    using s by (simp_all add: driver_ready_def)
  obtain w1 where w1: "nlflash_spi_request cfg ops s = Some (0, s\<lparr>enable_ref := 1, hw := w1\<rparr>)"
    "in_session cfg v w1" "busy_reads v w1 = 0" "chip_mem v w1 = chip_mem v (hw s)" by (rule after_request [OF s])
  obtain w2 where w2: "spi_cmd_address_data cfg ops (CMD_READ cfg) a False (Inr n) (READ_DUMMY cfg) (s\<lparr>enable_ref := 1, hw := w1\<rparr>) =
      ((0, take n (drop (unat a) (chip_mem v (hw s)))), s\<lparr>enable_ref := 1, hw := w2\<rparr>)" "calm v w1 w2" "in_session cfg v w2"
    using read_transaction [OF chip, of "s\<lparr>enable_ref := 1, hw := w1\<rparr>" a n] w1(2-4) fits size by auto
  have "achieves cfg v (\<lambda>m. m) s w2" using w1(3,4) w2(2,3) by (simp add: achieves_def calm_def)
  from after_release [OF s this] obtain t where
    "nlflash_spi_release cfg ops (s\<lparr>enable_ref := 1, hw := w2\<rparr>) = Some (0, t)" "driver_ready cfg ops v t"
    "chip_mem v (hw t) = chip_mem v (hw s)" by auto
  with w1(1) w2(1) show ?thesis by (simp add: nlflash_spi_read_def)
qed

lemma aligned_chunks_inside:
  assumes "0 < P" "unat a + length b \<le> n" "n < 2 ^ 32"
  shows "list_all (\<lambda>c. unat (fst c) < n) (aligned_chunks P a b)"
  using assms
proof (induction P a b rule: aligned_chunks.induct)
  case (1 P a b)
  show ?case
  proof (cases "length b < P")
    case True
    with 1(3) show ?thesis by (simp add: aligned_chunks.simps [of P a b]) (cases b; simp)
  next
    case False
    have "unat (a + of_nat P) = unat a + P"
      using 1(3,4) False by (simp add: unat_word_ariths unat_of_nat take_bit_nat_eq_self)
    with 1 False show ?thesis by (simp add: aligned_chunks.simps [of P a b])
  qed
qed

lemma write_plan_inside:
  assumes "0 < P" "P dvd n" "unat a + length b \<le> n" "n < 2 ^ 32"
  shows "list_all (\<lambda>c. unat (fst c) < n) (write_plan P a b)"
proof (cases "unat a mod P = 0")
  case True
  with aligned_chunks_inside [OF assms(1,3,4)] show ?thesis by (simp add: write_plan_def)
next
  case False
  let ?n = "min (P - unat a mod P) (length b)"
  have "unat a \<noteq> n" using False assms(2) by auto
  then have a: "unat a < n" using assms(3) by linarith
  have "unat (a + of_nat ?n) = unat a + ?n"
    using assms(3,4) by (simp add: unat_word_ariths unat_of_nat take_bit_nat_eq_self)
  then have "unat (a + of_nat ?n) + length (drop ?n b) \<le> n" using assms(3) by simp
  from aligned_chunks_inside [OF assms(1) this assms(4)] a False show ?thesis by (simp add: write_plan_def Let_def)
qed

lemma driver_writes:
  assumes s: "driver_ready cfg ops v s" and fits: "unat a + length xs \<le> length (chip_mem v (hw s))"
  shows "\<exists>t. nlflash_spi_write cfg ops a xs s = Some ((0, word_of_nat (length xs)), t) \<and>
    driver_ready cfg ops v t \<and> chip_mem v (hw t) = program (unat a) xs (chip_mem v (hw s))"
proof -
  let ?P = "unat (SPI_WRITE_SIZE cfg)" and ?N = "unat (SPI_SIZE cfg)"
  let ?plan = "write_plan ?P a xs"
  have chip: "nor_chip cfg ops v" and size: "length (chip_mem v (hw s)) = ?N"
    using s by (simp_all add: driver_ready_def)
  then have P: "0 < ?P" "?P dvd ?N" "0 < fst (PP_DELAY cfg)" and z: "zero_or_error ops"
    by (auto simp: nor_chip_def chip_config_def word_less_nat_alt bus_laws_def zero_or_error_def)
  have N: "?N < 2 ^ 32" by (rule unat_lt_word32)
  have top: "unat a + length xs < 2 ^ 32" using fits size N by linarith
  obtain w1 where w1: "nlflash_spi_request cfg ops s = Some (0, s\<lparr>enable_ref := 1, hw := w1\<rparr>)"
    "in_session cfg v w1" "busy_reads v w1 = 0" "chip_mem v w1 = chip_mem v (hw s)" by (rule after_request [OF s])
  note plan = write_plan_facts [OF P(1) top]
  have inside: "list_all (\<lambda>c. unat (fst c) < ?N) ?plan" by (rule write_plan_inside [OF P(1,2) _ N]) (use fits size in simp)
  obtain w2 where w2: "run_chunks cfg ops ?plan 0 (s\<lparr>enable_ref := 1, hw := w1\<rparr>) =
      Some ((0, word_of_nat (length xs)), s\<lparr>enable_ref := 1, hw := w2\<rparr>)"
      "achieves cfg v (program (unat a) xs) (s\<lparr>enable_ref := 1, hw := w1\<rparr>) w2"
    using run_chunks_programs [OF chip, of "s\<lparr>enable_ref := 1, hw := w1\<rparr>" a ?plan 0] w1(2-4) plan inside size fits by auto
  have "achieves cfg v (program (unat a) xs) s w2" by (rule achieves_after [OF w2(2) w1(4)])
  from after_release [OF s this] fits size obtain t where
    "nlflash_spi_release cfg ops (s\<lparr>enable_ref := 1, hw := w2\<rparr>) = Some (0, t)" "driver_ready cfg ops v t"
    "chip_mem v (hw t) = program (unat a) xs (chip_mem v (hw s))" by (auto simp: program_length)
  with spi_write_chunks [OF z P(3,1) top w1(1) refl] w2(1) show ?thesis by simp
qed

lemma driver_erases:
  assumes s: "driver_ready cfg ops v s" and fits: "unat a + unat n \<le> length (chip_mem v (hw s))"
    and al: "a mod SPI_ERASE_SIZE cfg = 0" "n mod SPI_ERASE_SIZE cfg = 0"
  shows "\<exists>t. nlflash_spi_erase cfg ops None a n r s = Some ((0, n), t) \<and>
    driver_ready cfg ops v t \<and> chip_mem v (hw t) = blank (unat a) (unat n) (chip_mem v (hw s))"
proof -
  let ?N = "unat (SPI_SIZE cfg)" and ?E = "unat (SPI_ERASE_SIZE cfg)"
  have chip: "nor_chip cfg ops v" and size: "length (chip_mem v (hw s)) = ?N"
    using s by (simp_all add: driver_ready_def)
  obtain w1 where w1: "nlflash_spi_request cfg ops s = Some (0, s\<lparr>enable_ref := 1, hw := w1\<rparr>)"
    "in_session cfg v w1" "busy_reads v w1 = 0" "chip_mem v w1 = chip_mem v (hw s)" by (rule after_request [OF s])
  let ?s1 = "s\<lparr>enable_ref := 1, hw := w1\<rparr>"
  have rel: "\<exists>t. nlflash_spi_release cfg ops (s\<lparr>enable_ref := 1, hw := w\<rparr>) = Some (0, t) \<and> driver_ready cfg ops v t \<and>
      chip_mem v (hw t) = blank (unat a) (unat n) (chip_mem v (hw s))"
    if "achieves cfg v (blank (unat a) (unat n)) ?s1 w" for w
    using after_release [OF s achieves_after [OF that w1(4)]] fits size by (auto simp: blank_length)
  show ?thesis
  proof (cases "a = 0 \<and> n = SPI_SIZE cfg")
    case True
    obtain w2 where w2: "bulk_erase cfg ops r ?s1 = Some ((0, SPI_SIZE cfg), s\<lparr>enable_ref := 1, hw := w2\<rparr>)"
      "achieves cfg v (\<lambda>m. replicate (length m) (-1)) ?s1 w2"
      using bulk_erase_blanks [OF chip, of ?s1 r] w1(2,3) by auto
    then have "achieves cfg v (blank (unat a) (unat n)) ?s1 w2"
      using True size w1(4) by (simp add: achieves_def blank_def)
    with rel [OF this] w1(1) w2(1) True show ?thesis by (auto simp: nlflash_spi_erase_def)
  next
    case False
    have config: "chip_config cfg" using chip by (simp add: nor_chip_def)
    have "?E dvd unat a" "?E dvd unat n"
      using al by (simp_all add: dvd_eq_mod_eq_0 flip: unat_mod_distrib)
    then have e: "erasable cfg a n"
      using config fits size unat_lt_word32 [of "SPI_SIZE cfg"] by (auto simp: erasable_def chip_config_def word_less_nat_alt)
    note E = spi_erase_sectors [OF e w1(1) order_refl False]
    obtain w2 where w2: "run_sectors cfg ops None (erase_plan cfg a n) 0 0 ?s1 =
        Some ((0, 0 + word_of_nat (unat a + unat n - unat a)), ?s1\<lparr>hw := w2\<rparr>)"
        "achieves cfg v (blank (unat a) (unat a + unat n - unat a)) ?s1 w2"
      using run_sectors_blanks [OF chip, of ?s1 "erase_plan cfg a n" "unat a" "unat a + unat n" 0]
        w1(2-4) size E fits \<open>?E dvd unat a\<close> by auto
    with rel [of w2] E show ?thesis by auto
  qed
qed

interpretation spi_store: flash_store
  "\<lambda>a n out s. nlflash_spi_read cfg ops a (unat n) s"
  "\<lambda>a xs r s. nlflash_spi_write cfg ops a xs s" "\<lambda>a n r s. nlflash_spi_erase cfg ops None a n r s"
  "\<lambda>s. Some ((0, ()), s)" "driver_ready cfg ops v" "\<lambda>s. chip_mem v (hw s)" "SPI_ERASE_SIZE cfg"
  for cfg and ops :: "'w spi_ops" and v
proof (unfold_locales, goal_cases)
  case (1 s a n out)
  from driver_reads [OF this] show ?case by auto
next
  case (2 s a xs r)
  from driver_writes [OF this] show ?case .
next
  case (3 s a n r)
  from driver_erases [OF this] show ?case .
next
  case (4 s)
  then show ?case by simp
qed

text \<open>
  C3: on a chip that understands its commands, with a well-formed description of its sizes and
  commands (\<open>chip_config\<close>), the driver is a NOR flash store: inside the chip, a read
  yields the bytes of the memory and changes none, a write of any length from any address programs
  exactly its bytes, across page boundaries, an erase of whole sub-sectors blanks exactly its range,
  whether it uses sectors, sub-sectors or the chip erase; each reports success and the full length, and
  leaves the chip released, idle and ready for the next call.
\<close>

theorem nlflash_spi_is_store:
  assumes "driver_ready cfg ops v s"
  shows "(unat a + n \<le> unat (SPI_SIZE cfg) \<longrightarrow>
      (\<exists>t. nlflash_spi_read cfg ops a n s = Some ((0, word_of_nat n, take n (drop (unat a) (chip_mem v (hw s)))), t) \<and>
        driver_ready cfg ops v t \<and> chip_mem v (hw t) = chip_mem v (hw s))) \<and>
    (unat a + length xs \<le> unat (SPI_SIZE cfg) \<longrightarrow>
      (\<exists>t. nlflash_spi_write cfg ops a xs s = Some ((0, word_of_nat (length xs)), t) \<and>
        driver_ready cfg ops v t \<and> chip_mem v (hw t) = program (unat a) xs (chip_mem v (hw s)))) \<and>
    (unat a + unat len \<le> unat (SPI_SIZE cfg) \<and> a mod SPI_ERASE_SIZE cfg = 0 \<and> len mod SPI_ERASE_SIZE cfg = 0 \<longrightarrow>
      (\<exists>t. nlflash_spi_erase cfg ops None a len r s = Some ((0, len), t) \<and>
        driver_ready cfg ops v t \<and> chip_mem v (hw t) = blank (unat a) (unat len) (chip_mem v (hw s))))"
proof -
  have "length (chip_mem v (hw s)) = unat (SPI_SIZE cfg)" using assms by (simp add: driver_ready_def)
  with driver_reads [OF assms, of a n] driver_writes [OF assms, of a xs] driver_erases [OF assms, of a len r]
  show ?thesis by simp
qed

section \<open>Witnesses\<close>

text \<open>A chip of 64 bytes that is busy for two status reads after each change, with either kind of transactions.\<close>

record sim_nor =
  sim_cells :: "u8 list"
  sim_latch :: bool
  sim_busy :: nat
  sim_held :: bool
  sim_awake :: bool

definition sim_view :: "sim_nor nor_view" where
  "sim_view = \<lparr>chip_mem = sim_cells, awake = sim_awake, write_enabled = sim_latch, busy_reads = sim_busy, bus_owned = sim_held\<rparr>"

definition sim_transfer :: "xfer list \<Rightarrow> sim_nor \<Rightarrow> (int \<times> u8 list) \<times> sim_nor" where
  "sim_transfer xs w = (case xs of
     Tx (c # bs) # rest \<Rightarrow>
       (let a = (case bs of h # m # l # _ \<Rightarrow> unat h * 65536 + unat m * 256 + unat l | _ \<Rightarrow> 0);
            n = (case rest of Rx n # _ \<Rightarrow> n | _ \<Rightarrow> 0);
            data = (case rest of Tx ys # _ \<Rightarrow> ys | _ \<Rightarrow> []);
            done' = w\<lparr>sim_latch := False, sim_busy := 2\<rparr>
        in if c = 5 then ((0, [if sim_busy w = 0 then 0 else 1]), w\<lparr>sim_busy := sim_busy w - 1\<rparr>)
           else if c = 0x9f then ((0, replicate n 0), w)
           else if c = 3 then ((0, take n (drop a (sim_cells w))), w)
           else if c = 2 then ((0, []), done'\<lparr>sim_cells := program a data (sim_cells w)\<rparr>)
           else if c = 0x20 then ((0, []), done'\<lparr>sim_cells := blank a 4 (sim_cells w)\<rparr>)
           else if c = 0xd8 then ((0, []), done'\<lparr>sim_cells := blank a 16 (sim_cells w)\<rparr>)
           else if c = 0xc7 then ((0, []), done'\<lparr>sim_cells := replicate (length (sim_cells w)) (-1)\<rparr>)
           else ((- 1, []), w))
   | _ \<Rightarrow> ((- 1, []), w))"

definition sim_spi :: "bool \<Rightarrow> sim_nor spi_ops" where
  "sim_spi split = \<lparr>spi_request = (\<lambda>w. (0, w\<lparr>sim_held := True, sim_awake := sim_awake w \<or> \<not> split\<rparr>)),
     spi_release = (\<lambda>w. (0, w\<lparr>sim_held := False, sim_awake := sim_awake w \<and> split\<rparr>)),
     slave_enable = sim_awake_update (\<lambda>_. True), slave_disable = sim_awake_update (\<lambda>_. False),
     spi_write = (\<lambda>bs w. (0, if bs = [6] then w\<lparr>sim_latch := True\<rparr> else w)),
     spi_transfer = sim_transfer, delay_ms = (\<lambda>n w. w\<lparr>sim_busy := sim_busy w - n\<rparr>)\<rparr>"

lemmas sim_defs = demo_chip_def sim_spi_def sim_view_def

lemma sim_bus_laws: "bus_laws (demo_chip split) (sim_spi split) sim_view"
proof -
  have "fst (fst (sim_transfer xs w)) \<le> 0" for xs w
    by (auto simp: sim_transfer_def Let_def split: list.splits xfer.splits)
  then show ?thesis by (simp add: bus_laws_def calm_def quiet_def sim_defs Let_def)
qed

lemma sim_control_laws: "control_laws (demo_chip split) (sim_spi split) sim_view"
  by (simp add: control_laws_def calm_def quiet_def listening_def idle_def sim_defs sim_transfer_def Let_def numeral_3_eq_3)

lemma sim_memory_laws: "memory_laws (demo_chip split) (sim_spi split) sim_view"
  unfolding memory_laws_def
proof (intro allI impI conjI, goal_cases)
  case (1 w b n dummy)
  then show ?case by (simp add: calm_def quiet_def listening_def idle_def sim_defs sim_transfer_def Let_def command_def chip_address_def split: if_splits)
next
  case (2 w b xs)
  then show ?case by (simp add: changes_def listening_def idle_def sim_defs sim_transfer_def Let_def command_def chip_address_def)
next
  case (3 w b sub)
  then show ?case by (cases sub) (simp_all add: changes_def listening_def idle_def sim_defs sim_transfer_def Let_def command_def chip_address_def sector_size_def)
next
  case (4 w)
  then show ?case by (simp add: changes_def listening_def idle_def sim_defs sim_transfer_def Let_def chip_erase_bytes_def)
qed

lemma sim_nor_chip: "nor_chip (demo_chip split) (sim_spi split) sim_view"
  using sim_bus_laws sim_control_laws sim_memory_laws by (simp add: nor_chip_def chip_config_def demo_chip_def)

definition sim_idle :: "sim_nor spi_flash" where
  "sim_idle = \<lparr>partial_page = [], partial_page_index = 0, write_loc = 0, enable_ref = 0,
     hw = \<lparr>sim_cells = replicate 64 0, sim_latch = False, sim_busy = 0, sim_held = False, sim_awake = False\<rparr>\<rparr>"

lemma sim_ready: "driver_ready (demo_chip split) (sim_spi split) sim_view sim_idle"
  using sim_nor_chip by (simp add: driver_ready_def at_rest_def sim_idle_def sim_view_def demo_chip_def)

lemma nlflash_spi_is_store_witness:
  "(\<exists>t. nlflash_spi_write (demo_chip True) (sim_spi True) 6 [1, 2, 3] sim_idle = Some ((0, 3), t) \<and>
      chip_mem sim_view (hw t) = program 6 [1, 2, 3] (replicate 64 0)) \<and>
   (\<exists>t. nlflash_spi_erase (demo_chip True) (sim_spi True) None 12 40 0 sim_idle = Some ((0, 40), t) \<and>
      chip_mem sim_view (hw t) = replicate 12 0 @ replicate 40 (-1) @ replicate 12 0)"
proof -
  have m: "chip_mem sim_view (hw sim_idle) = replicate 64 0" "SPI_SIZE (demo_chip True) = 64" "SPI_ERASE_SIZE (demo_chip True) = 4"
    by (simp_all add: sim_idle_def sim_view_def demo_chip_def)
  from nlflash_spi_is_store [OF sim_ready [of True], of 6 0 "[1, 2, 3]" 0 0]
    nlflash_spi_is_store [OF sim_ready [of True], of 12 0 "[]" 40 0] m
  show ?thesis by (auto simp: blank_def)
qed

end
