(* ===== verification/Nlflash_spi_buffer.thy ===== *)
theory Nlflash_spi_buffer
  imports Nlflash_spi_store
begin

text \<open>
  The SPI flash driver with \<open>FLASH_SPI_USE_PARTIAL_PAGE_BUFFER\<close>: bytes that do not fill a page are kept in
  a buffer and programmed later. What the chip will hold once the buffer is flushed is \<open>buffered_view\<close>;
  the lemmas show that a buffered write programs its bytes into this view, whatever was written before
  and wherever, and that a flush makes the chip agree with it. The buffered functions do not request the
  chip themselves: they run between \<open>nlflash_spi_request\<close> and \<open>nlflash_spi_release\<close>.
\<close>

section \<open>The contract of a write buffer\<close>



section \<open>The buffer\<close>

text \<open>The bytes that wait in the buffer, for the address \<open>write_loc\<close>.\<close>

definition pending :: "flash_spi_cfg \<Rightarrow> 'w spi_flash \<Rightarrow> u8 list" where
  "pending cfg s = (let off = unat (write_loc s) mod unat (SPI_WRITE_SIZE cfg)
     in take (unat (partial_page_index s) - off) (drop off (partial_page s)))"






lemma pending_empty [simp]: "partial_page_index s = 0 \<Longrightarrow> pending cfg s = []"
  by (simp add: pending_def Let_def)





section \<open>A buffered write\<close>









section \<open>The driver as a write buffer\<close>





section \<open>Witness\<close>



end
