(* ===== verification/Flash_chips.thy ===== *)
theory Flash_chips
  imports Nlflash_spi_store
begin

text \<open>
  The flash chips that the repository describes, \<open>src/include/spi_flash/*.h\<close>. A product includes one of
  the headers; the definitions below are what each header makes of the configuration \<open>p\<close> of the product,
  with \<open>hz\<close> the frequency of the bus. A constant that a header does not define is left to the product or
  to the default of the driver.

  The lemmas show which chips the driver fits, as \<open>Nlflash_spi_store\<close> needs it, and that polling lasts as
  long as the chips may take, by the figures that the headers quote.
\<close>

section \<open>The descriptions\<close>

text \<open>
  \<open>nlflash_spi_read\<close> uses the fast command, with its dummy byte, on a bus that is too fast for the other.
\<close>

definition reads_with :: "nat \<Rightarrow> nat \<Rightarrow> u8 \<Rightarrow> u8 \<Rightarrow> flash_spi_cfg \<Rightarrow> flash_spi_cfg" where
  "reads_with hz READ_FREQ_HZ fast slow p =
     (if hz > READ_FREQ_HZ then p\<lparr>CMD_READ := fast, READ_DUMMY := 1\<rparr> else p\<lparr>CMD_READ := slow, READ_DUMMY := 0\<rparr>)"

definition at45db041e :: "nat \<Rightarrow> flash_spi_cfg \<Rightarrow> flash_spi_cfg" where
  "at45db041e hz p = reads_with hz 15000000 0xb 1 (p\<lparr>
     HAS_WREN := False, HAS_BE_ADDR := True, CMD_BE_ADDR := 0x94809A,
     USE_PAGE_OFFSET_ADDRESSING := True, NUM_OFFSET_BITS := 9, READ_ID_SIZE := 3,
     CHIP_IDS := [(0x1f, 0x24, 0)], SPI_WRITE_SIZE := 264, SPI_SIZE := 2048 * 264,
     SPI_ERASE_SIZE := 264, SPI_FAST_ERASE_SIZE := 256 * 264, CMD_RDSR := 0xd7, CMD_RDID := 0x9f,
     CMD_DP := 0x79, CMD_RDP := 0xab, CMD_PP := 2, CMD_SSE := 0x81, CMD_SE := 0x7c, CMD_BE := 0xc7,
     M_STAT_BUSY_BIT := 0x80, M_STAT_READY_VALUE := 0x80, M_STAT_BUSY_VALUE := 0, PP_DELAY := (5, 1),
     SSE_DELAY := (5, 10), SE_DELAY := (20, 100), BE_DELAY := (40, 500)\<rparr>)"

definition gd25le16c :: "nat \<Rightarrow> flash_spi_cfg \<Rightarrow> flash_spi_cfg" where
  "gd25le16c hz p = reads_with hz 80000000 0xb 3 (p\<lparr>
     HAS_WREN := True, CMD_WREN := 6, HAS_BE_ADDR := False, USE_PAGE_OFFSET_ADDRESSING := False,
     MAX_CHIP_ID_CHECK_COUNT := 20, READ_ID_SIZE := 3, CHIP_IDS := [(0xc8, 0x60, 0x15)],
     SPI_SIZE := 0x200000, SPI_ERASE_SIZE := 4096, SPI_FAST_ERASE_SIZE := 0x10000,
     SPI_WRITE_SIZE := 256, CMD_RDSR := 5, CMD_RDID := 0x9f, CMD_DP := 0xb9, CMD_RDP := 0xab,
     CMD_PP := 2, CMD_SSE := 0x20, CMD_SE := 0xd8, CMD_BE := 0xc7, M_STAT_BUSY_BIT := 1,
     M_STAT_READY_VALUE := 0, M_STAT_BUSY_VALUE := 1, PP_DELAY := (4, 1), SSE_DELAY := (35, 10),
     SE_DELAY := (15, 75), BE_DELAY := (21, 500)\<rparr>)"

definition mx25r1635 :: "nat \<Rightarrow> flash_spi_cfg \<Rightarrow> flash_spi_cfg" where
  "mx25r1635 hz p = reads_with hz 33000000 0xb 3 (p\<lparr>
     HAS_WREN := True, CMD_WREN := 6, HAS_BE_ADDR := False, USE_PAGE_OFFSET_ADDRESSING := False,
     MAX_CHIP_ID_CHECK_COUNT := 20, READ_ID_SIZE := 3, CHIP_IDS := [(0xc2, 0x28, 0x15)],
     SPI_SIZE := 0x200000, SPI_ERASE_SIZE := 4096, SPI_FAST_ERASE_SIZE := 0x10000,
     SPI_WRITE_SIZE := 256, CMD_RDSR := 5, CMD_RDID := 0x9f, CMD_DP := 0xb9, CMD_RDP := 0xab,
     CMD_PP := 2, CMD_SSE := 0x20, CMD_SE := 0xd8, CMD_BE := 0xc7, M_STAT_BUSY_BIT := 1,
     M_STAT_READY_VALUE := 0, M_STAT_BUSY_VALUE := 1, PP_DELAY := (10, 1), SSE_DELAY := (65, 10),
     SE_DELAY := (45, 75), BE_DELAY := (305, 500)\<rparr>)"

definition mx25r3235 :: "nat \<Rightarrow> flash_spi_cfg \<Rightarrow> flash_spi_cfg" where
  "mx25r3235 hz p = reads_with hz 33000000 0xb 3 (p\<lparr>
     HAS_WREN := True, CMD_WREN := 6, HAS_BE_ADDR := False, USE_PAGE_OFFSET_ADDRESSING := False,
     MAX_CHIP_ID_CHECK_COUNT := 20, READ_ID_SIZE := 3, CHIP_IDS := [(0xc2, 0x28, 0x16)],
     SPI_SIZE := 0x400000, SPI_ERASE_SIZE := 4096, SPI_FAST_ERASE_SIZE := 0x10000,
     SPI_WRITE_SIZE := 256, CMD_RDSR := 5, CMD_RDID := 0x9f, CMD_DP := 0xb9, CMD_RDP := 0,
     CMD_PP := 2, CMD_SSE := 0x20, CMD_SE := 0xd8, CMD_BE := 0xc7, M_STAT_BUSY_BIT := 1,
     M_STAT_READY_VALUE := 0, M_STAT_BUSY_VALUE := 1, PP_DELAY := (12, 1), SSE_DELAY := (25, 10),
     SE_DELAY := (50, 75), BE_DELAY := (125, 1000)\<rparr>)"

definition mx25r6435 :: "nat \<Rightarrow> flash_spi_cfg \<Rightarrow> flash_spi_cfg" where
  "mx25r6435 hz p = reads_with hz 33000000 0xb 3 (p\<lparr>
     HAS_WREN := True, CMD_WREN := 6, HAS_BE_ADDR := False, USE_PAGE_OFFSET_ADDRESSING := False,
     MAX_CHIP_ID_CHECK_COUNT := 20, READ_ID_SIZE := 3, CHIP_IDS := [(0xc2, 0x28, 0x17)],
     SPI_SIZE := 0x800000, SPI_ERASE_SIZE := 4096, SPI_FAST_ERASE_SIZE := 0x10000,
     SPI_WRITE_SIZE := 256, CMD_RDSR := 5, CMD_RDID := 0x9f, CMD_DP := 0xb9, CMD_RDP := 0,
     CMD_PP := 2, CMD_SSE := 0x20, CMD_SE := 0xd8, CMD_BE := 0xc7, M_STAT_BUSY_BIT := 1,
     M_STAT_READY_VALUE := 0, M_STAT_BUSY_VALUE := 1, PP_DELAY := (8, 1), SSE_DELAY := (30, 10),
     SE_DELAY := (50, 75), BE_DELAY := (15, 10000)\<rparr>)"

definition mx25u1635 :: "nat \<Rightarrow> flash_spi_cfg \<Rightarrow> flash_spi_cfg" where
  "mx25u1635 hz p = reads_with hz 50000000 0xb 3 (p\<lparr>
     HAS_WREN := True, CMD_WREN := 6, HAS_BE_ADDR := False, USE_PAGE_OFFSET_ADDRESSING := False,
     MAX_CHIP_ID_CHECK_COUNT := 20, READ_ID_SIZE := 3, CHIP_IDS := [(0xc2, 0x25, 0x35)],
     SPI_SIZE := 0x200000, SPI_ERASE_SIZE := 4096, SPI_FAST_ERASE_SIZE := 0x10000,
     SPI_WRITE_SIZE := 256, CMD_RDSR := 5, CMD_RDID := 0x9f, CMD_DP := 0xb9, CMD_RDP := 0xab,
     CMD_PP := 2, CMD_SSE := 0x20, CMD_SE := 0xd8, CMD_BE := 0xc7, M_STAT_BUSY_BIT := 1,
     M_STAT_READY_VALUE := 0, M_STAT_BUSY_VALUE := 1, PP_DELAY := (2, 1), SSE_DELAY := (25, 10),
     SE_DELAY := (50, 50), BE_DELAY := (50, 500)\<rparr>)"

definition mx25u3235 :: "nat \<Rightarrow> flash_spi_cfg \<Rightarrow> flash_spi_cfg" where
  "mx25u3235 hz p = reads_with hz 50000000 0xb 3 (p\<lparr>
     HAS_WREN := True, CMD_WREN := 6, HAS_BE_ADDR := False, USE_PAGE_OFFSET_ADDRESSING := False,
     MAX_CHIP_ID_CHECK_COUNT := 20, READ_ID_SIZE := 3, CHIP_IDS := [(0xc2, 0x25, 0x36)],
     SPI_SIZE := 0x400000, SPI_ERASE_SIZE := 4096, SPI_FAST_ERASE_SIZE := 0x10000,
     SPI_WRITE_SIZE := 256, CMD_RDSR := 5, CMD_RDID := 0x9f, CMD_DP := 0xb9, CMD_RDP := 0xab,
     CMD_PP := 2, CMD_SSE := 0x20, CMD_SE := 0xd8, CMD_BE := 0xc7, M_STAT_BUSY_BIT := 1,
     M_STAT_READY_VALUE := 0, M_STAT_BUSY_VALUE := 1, PP_DELAY := (4, 1), SSE_DELAY := (25, 10),
     SE_DELAY := (50, 50), BE_DELAY := (70, 1000)\<rparr>)"

definition n25q :: "nat \<Rightarrow> flash_spi_cfg \<Rightarrow> flash_spi_cfg" where
  "n25q hz p = reads_with hz 50000000 0xb 3 (p\<lparr>
     HAS_WREN := True, CMD_WREN := 6, HAS_BE_ADDR := False, USE_PAGE_OFFSET_ADDRESSING := False,
     READ_ID_SIZE := 20, CHIP_IDS := [(0x20, 0xbb, 0x15)], SPI_SIZE := 0x200000,
     SPI_ERASE_SIZE := 4096, SPI_FAST_ERASE_SIZE := 0x10000, CMD_RDSR := 5, CMD_RDID := 0x9e,
     CMD_PP := 2, CMD_SSE := 0x20, CMD_SE := 0xd8, CMD_BE := 0xc7, M_STAT_BUSY_BIT := 1,
     M_STAT_READY_VALUE := 0, M_STAT_BUSY_VALUE := 1, PP_DELAY := (200, 1), SSE_DELAY := (2000, 2),
     SE_DELAY := (2000, 2), BE_DELAY := (15000, 2)\<rparr>)"

datatype flash_chip = AT45DB041E | GD25LE16C | MX25R1635 | MX25R3235 | MX25R6435 | MX25U1635 | MX25U3235 | N25Q
datatype flash_op = Page_program | Subsector_erase | Sector_erase | Chip_erase

fun chip :: "flash_chip \<Rightarrow> nat \<Rightarrow> flash_spi_cfg \<Rightarrow> flash_spi_cfg" where
  "chip AT45DB041E = at45db041e"
| "chip GD25LE16C = gd25le16c"
| "chip MX25R1635 = mx25r1635"
| "chip MX25R3235 = mx25r3235"
| "chip MX25R6435 = mx25r6435"
| "chip MX25U1635 = mx25u1635"
| "chip MX25U3235 = mx25u3235"
| "chip N25Q = n25q"

text \<open>The number of status reads and the delay before each of them, in milliseconds.\<close>

definition polls :: "flash_spi_cfg \<Rightarrow> flash_op \<Rightarrow> u32 \<times> nat" where
  "polls cfg op = (case op of Page_program \<Rightarrow> PP_DELAY cfg | Subsector_erase \<Rightarrow> SSE_DELAY cfg
     | Sector_erase \<Rightarrow> SE_DELAY cfg | Chip_erase \<Rightarrow> BE_DELAY cfg)"

text \<open>
  The longest that each operation may take, in milliseconds and rounded up: programming a page, erasing a
  sub-sector, a sector, and the chip. The figures are those of the comments in the headers.
\<close>

fun slowest :: "flash_chip \<Rightarrow> flash_op \<Rightarrow> nat" where
  "slowest AT45DB041E Page_program = 3"
| "slowest AT45DB041E Subsector_erase = 35"
| "slowest AT45DB041E Sector_erase = 1100"
| "slowest AT45DB041E Chip_erase = 17000"
| "slowest GD25LE16C Page_program = 3"
| "slowest GD25LE16C Subsector_erase = 300"
| "slowest GD25LE16C Sector_erase = 1000"
| "slowest GD25LE16C Chip_erase = 10000"
| "slowest MX25R1635 Page_program = 8"
| "slowest MX25R1635 Subsector_erase = 600"
| "slowest MX25R1635 Sector_erase = 6000"
| "slowest MX25R1635 Chip_erase = 150000"
| "slowest MX25R3235 Page_program = 10"
| "slowest MX25R3235 Subsector_erase = 240"
| "slowest MX25R3235 Sector_erase = 3500"
| "slowest MX25R3235 Chip_erase = 120000"
| "slowest MX25R6435 Page_program = 4"
| "slowest MX25R6435 Subsector_erase = 240"
| "slowest MX25R6435 Sector_erase = 3000"
| "slowest MX25R6435 Chip_erase = 150000"
| "slowest MX25U1635 Page_program = 2"
| "slowest MX25U1635 Subsector_erase = 200"
| "slowest MX25U1635 Sector_erase = 2000"
| "slowest MX25U1635 Chip_erase = 20000"
| "slowest MX25U3235 Page_program = 3"
| "slowest MX25U3235 Subsector_erase = 200"
| "slowest MX25U3235 Sector_erase = 2000"
| "slowest MX25U3235 Chip_erase = 50000"
| "slowest N25Q Page_program = 200"
| "slowest N25Q Subsector_erase = 4000"
| "slowest N25Q Sector_erase = 4000"
| "slowest N25Q Chip_erase = 150000"

lemmas chip_defs = at45db041e_def gd25le16c_def mx25r1635_def mx25r3235_def mx25r6435_def mx25u1635_def mx25u3235_def n25q_def reads_with_def

section \<open>Polling a chip that takes its time\<close>

text \<open>
  \<open>el\<close> is the time since the command was sent. The chip answers that it is busy until \<open>T\<close> milliseconds
  have passed; a status read takes no whole millisecond, and the controller is granted.
\<close>

definition takes :: "flash_spi_cfg \<Rightarrow> 'w spi_ops \<Rightarrow> ('w \<Rightarrow> nat) \<Rightarrow> nat \<Rightarrow> bool" where
  "takes cfg ops el T \<longleftrightarrow> (\<forall>w.
     (\<forall>n. el (delay_ms ops n w) = el w + n) \<and>
     (let (r, w') = spi_request ops w in r = 0 \<and> el w' = el w) \<and> el (snd (spi_release ops w)) = el w \<and>
     (let ((r, rx), w') = spi_transfer ops [Tx [CMD_RDSR cfg], Rx 1] w
      in r = 0 \<and> el w' = el w \<and> (\<exists>st. rx = [st] \<and>
           and st (M_STAT_BUSY_BIT cfg) = (if T \<le> el w then M_STAT_READY_VALUE cfg else M_STAT_BUSY_VALUE cfg))))"

text \<open>One round of the loop: the delay and one status read.\<close>

lemma poll_round:
  assumes t: "takes cfg ops el T" and b: "M_STAT_BUSY_VALUE cfg \<noteq> M_STAT_READY_VALUE cfg"
  shows "\<exists>st' s'. el (hw s') = el (hw s) + d \<and> wait_until_not_busy cfg ops n d st s =
    (if T \<le> el (hw s) + d then Some (if n = 0 then - EIO else 0, s')
     else if n - 1 > 0 then wait_until_not_busy cfg ops (n - 1) d st' s' else Some (- EIO, s'))"
proof -
  let ?w1 = "delay_ms ops d (hw s)"
  define w2 where "w2 = (if SPLIT_TRANSACTIONS cfg then snd (spi_request ops ?w1) else ?w1)"
  have q: "fst (spi_request ops w) = 0 \<and> el (snd (spi_request ops w)) = el w \<and> el (snd (spi_release ops w)) = el w"
    and x: "fst (fst (spi_transfer ops [Tx [CMD_RDSR cfg], Rx 1] w)) = 0 \<and> el (snd (spi_transfer ops [Tx [CMD_RDSR cfg], Rx 1] w)) = el w \<and>
      (\<exists>st. snd (fst (spi_transfer ops [Tx [CMD_RDSR cfg], Rx 1] w)) = [st] \<and>
        and st (M_STAT_BUSY_BIT cfg) = (if T \<le> el w then M_STAT_READY_VALUE cfg else M_STAT_BUSY_VALUE cfg))" for w
    using spec [OF t [unfolded takes_def], of w] by (auto simp: Let_def split: prod.splits)
  obtain r rx w3 where "spi_transfer ops [Tx [CMD_RDSR cfg], Rx 1] w2 = ((r, rx), w3)" by (metis surj_pair)
  with x [of w2] obtain st where x: "spi_transfer ops [Tx [CMD_RDSR cfg], Rx 1] w2 = ((0, [st]), w3)" "el w3 = el w2"
    "and st (M_STAT_BUSY_BIT cfg) = (if T \<le> el w2 then M_STAT_READY_VALUE cfg else M_STAT_BUSY_VALUE cfg)" by auto
  have e: "el w2 = el (hw s) + d" using t q by (auto simp: w2_def takes_def)
  define w4 where "w4 = (if SPLIT_TRANSACTIONS cfg then snd (spi_release ops w3) else w3)"
  have "el w4 = el (hw s) + d" using q x(2) e by (simp add: w4_def)
  moreover have "wait_until_not_busy cfg ops n d st0 s =
      (if T \<le> el (hw s) + d then Some (if n = 0 then - EIO else 0, s\<lparr>hw := w4\<rparr>)
       else if n - 1 > 0 then wait_until_not_busy cfg ops (n - 1) d st (s\<lparr>hw := w4\<rparr>) else Some (- EIO, s\<lparr>hw := w4\<rparr>))" for st0
  proof -
    obtain q1 p1 where "spi_request ops ?w1 = (q1, p1)" by fastforce
    moreover from this q [of ?w1] have "q1 = 0" by simp
    moreover obtain q2 p2 where "spi_release ops w3 = (q2, p2)" by fastforce
    ultimately show ?thesis using x b e
      by (subst wait_until_not_busy.simps, cases "SPLIT_TRANSACTIONS cfg")
        (simp_all add: upd_hw_def on_hw_def read_register_def Let_def w2_def w4_def word_greater_zero_iff)
  qed
  ultimately show ?thesis by (intro exI [of _ st] exI [of _ "s\<lparr>hw := w4\<rparr>"]) simp
qed

text \<open>Polling succeeds if and only if the chip is ready before the rounds are used up.\<close>

lemma polling_time:
  assumes t: "takes cfg ops el T" and b: "M_STAT_BUSY_VALUE cfg \<noteq> M_STAT_READY_VALUE cfg"
  shows "0 < n \<Longrightarrow> \<exists>s'. wait_until_not_busy cfg ops n d st s =
    Some (if T \<le> el (hw s) + unat n * d then 0 else - EIO, s')"
proof (induction "unat n" arbitrary: n st s rule: less_induct)
  case less
  have n: "unat n = unat (n - 1) + 1" using less.prems by (simp add: unat_minus_one word_greater_zero_iff unat_gt_0)
  obtain st' s' where r: "el (hw s') = el (hw s) + d" "wait_until_not_busy cfg ops n d st s =
      (if T \<le> el (hw s) + d then Some (if n = 0 then - EIO else 0, s')
       else if n - 1 > 0 then wait_until_not_busy cfg ops (n - 1) d st' s' else Some (- EIO, s'))"
    using poll_round [OF t b] by blast
  consider "T \<le> el (hw s) + d" | "\<not> T \<le> el (hw s) + d" "0 < n - 1" | "\<not> T \<le> el (hw s) + d" "n - 1 = 0"
    by (auto simp: word_greater_zero_iff)
  then show ?case
  proof cases
    case 1
    then have "T \<le> el (hw s) + unat n * d" using n by simp
    with 1 r(2) less.prems show ?thesis by auto
  next
    case 2
    obtain s'' where "wait_until_not_busy cfg ops (n - 1) d st' s' =
        Some (if T \<le> el (hw s') + unat (n - 1) * d then 0 else - EIO, s'')"
      using less.hyps [OF _ 2(2), of st' s'] n by auto
    with 2 r n show ?thesis by (auto simp: add.assoc)
  next
    case 3
    with r n show ?thesis by auto
  qed
qed

text \<open>Two figures that the polling loops of their headers do not reach.\<close>

definition underestimated :: "(flash_chip \<times> flash_op) list" where
  "underestimated = [(MX25R1635, Sector_erase), (N25Q, Chip_erase)]"

lemma polls_cover:
  "slowest c op \<le> unat (fst (polls (chip c hz p) op)) * snd (polls (chip c hz p) op) \<longleftrightarrow> (c, op) \<notin> set underestimated"
  "0 < fst (polls (chip c hz p) op)"
  by (cases c; cases op; simp add: polls_def chip_defs underestimated_def)+

lemma chip_status: "M_STAT_BUSY_VALUE (chip c hz p) \<noteq> M_STAT_READY_VALUE (chip c hz p)"
  by (cases c) (simp_all add: chip_defs)

text \<open>
  For each chip that the repository describes, the driver waits long enough: if a page program, a
  sub-sector or sector erase or a chip erase takes no longer than the header says it may, polling ends
  with success, with whatever the product adds to the configuration; and with failure, when the
  operation takes longer than the polling lasts. Two figures are left out: the sector erase
  of the MX25R1635 at low power and the chip erase of the N25Q, where polling fails too early.
\<close>

theorem flash_chips_polled_long_enough:
  assumes "takes (chip c hz p) ops el T" "el (hw s) = 0"
  shows "\<exists>r s'. wait_until_not_busy (chip c hz p) ops (fst (polls (chip c hz p) op)) (snd (polls (chip c hz p) op)) st s =
      Some (r, s') \<and>
    (T \<le> slowest c op \<and> (c, op) \<notin> set underestimated \<longrightarrow> r = 0) \<and>
    (T = slowest c op \<and> (c, op) \<in> set underestimated \<longrightarrow> r = - EIO)"
proof -
  let ?p = "polls (chip c hz p) op"
  have pos: "0 < fst ?p" by (rule polls_cover(2))
  have "\<exists>s'. wait_until_not_busy (chip c hz p) ops (fst ?p) (snd ?p) st s =
      Some (if T \<le> unat (fst ?p) * snd ?p then 0 else - EIO, s')"
    using polling_time [OF assms(1) chip_status pos, where st = st and s = s] assms(2) by simp
  moreover have "T \<le> slowest c op \<Longrightarrow> (c, op) \<notin> set underestimated \<Longrightarrow> T \<le> unat (fst ?p) * snd ?p"
    using polls_cover(1) by (meson order_trans)
  moreover have "(c, op) \<in> set underestimated \<Longrightarrow> \<not> slowest c op \<le> unat (fst ?p) * snd ?p"
    using polls_cover(1) by blast
  ultimately show ?thesis by auto
qed

section \<open>Which chips the driver fits\<close>

text \<open>
  Without split transactions the driver fits every chip but the AT45: the chip erase of the others is
  sent without the controller being requested, when transactions are split.
\<close>

lemma chip_fits_driver:
  assumes "c \<noteq> AT45DB041E" "c = N25Q \<longrightarrow> SPI_WRITE_SIZE p = 256 \<and> 0 < MAX_CHIP_ID_CHECK_COUNT p"
  shows "chip_config (chip c hz p) \<longleftrightarrow>
    \<not> SPLIT_TRANSACTIONS p \<and> 0 < REQUEST_ATTEMPTS p \<and> (READ_DUMMY (chip c hz p) \<le> length (stack_garbage p))"
  using assms by (cases c) (auto simp: chip_config_def chip_defs)

text \<open>The bytes of the AT45's chip erase, \<open>C7 94 80 9A\<close>, are taken for an address and reach the chip as others.\<close>

lemma at45_chip_erase_bytes:
  "cmd_bytes (at45db041e hz p) (CMD_BE (at45db041e hz p)) (CMD_BE_ADDR (at45db041e hz p)) 0 = [0xC7, 0x20, 0x00, 0x9A]"
  by (simp add: cmd_bytes_def at45db041e_def reads_with_def Let_def)

section \<open>Witness\<close>

text \<open>A chip with a clock as its world.\<close>

definition clock_spi :: "flash_spi_cfg \<Rightarrow> nat \<Rightarrow> nat spi_ops" where
  "clock_spi cfg T = \<lparr>spi_request = (\<lambda>w. (0, w)), spi_release = (\<lambda>w. (0, w)), slave_enable = id, slave_disable = id,
     spi_write = (\<lambda>b w. (0, w)),
     spi_transfer = (\<lambda>xs w. ((0, [if T \<le> w then M_STAT_READY_VALUE cfg else M_STAT_BUSY_VALUE cfg]), w)),
     delay_ms = (\<lambda>n w. w + n)\<rparr>"

theorem flash_chips_polled_long_enough_witness:
  "(\<exists>s'. wait_until_not_busy (mx25r3235 0 (demo_chip False)) (clock_spi (mx25r3235 0 (demo_chip False)) 3500) 50 75 0
      \<lparr>partial_page = [], partial_page_index = 0, write_loc = 0, enable_ref = 0, hw = 0\<rparr> = Some (0, s')) \<and>
   (\<exists>s'. wait_until_not_busy (mx25r1635 0 (demo_chip False)) (clock_spi (mx25r1635 0 (demo_chip False)) 6000) 45 75 0
      \<lparr>partial_page = [], partial_page_index = 0, write_loc = 0, enable_ref = 0, hw = 0\<rparr> = Some (- EIO, s'))"
proof -
  have t: "takes (chip c hz p) (clock_spi (chip c hz p) T) id T" for c hz p T
    by (cases c) (auto simp: takes_def clock_spi_def chip_defs)
  let ?s = "\<lparr>partial_page = [], partial_page_index = 0, write_loc = 0, enable_ref = 0, hw = 0\<rparr> :: nat spi_flash"
  from flash_chips_polled_long_enough [OF t [of MX25R3235 0 "demo_chip False" 3500], of ?s Sector_erase 0]
    flash_chips_polled_long_enough [OF t [of MX25R1635 0 "demo_chip False" 6000], of ?s Sector_erase 0]
  show ?thesis by (auto simp: underestimated_def polls_def chip_defs)
qed

end
