(* ===== verification/Nlspi_ipc.thy ===== *)
theory Nlspi_ipc
  imports NL_Prelude
begin

text \<open>
  The SPI link to a second processor, \<open>src/src/nlspi_ipc.c\<close>, in all its builds: with and without the
  RTOS, with and without the acknowledge mode. The macros are the fields of \<open>ipc_cfg\<close>. What is outside
  the file is \<open>ipc_ops\<close>, on an environment \<open>'w\<close>: the slave, the SPI controller, the pins and the CRC of
  the utility library. The calls the code makes to the mutex, the bus, the interrupt controller, the
  pins and the client's handlers are logged in \<open>calls\<close>. \<open>None\<close> is an access outside \<open>rx_buffer\<close>, a
  notification of no task, or a wait that never ends.

  The rising edge of SRDY can come before the waiting task has entered itself (\<open>Early\<close>), while it
  waits (\<open>Waiting\<close>), after the wait is over (\<open>Late\<close>) or not at all (\<open>Never\<close>).
  \<open>ulTaskNotifyTake(pdTRUE, t)\<close> returns the notification value of the task and clears it.

  The lemmas show that both entry points use mutex, bus, pins and interrupt in a fixed protocol, what
  is sent and what is delivered, and the inputs on which the receive buffer is left or errors are lost.
\<close>

section \<open>Configuration, environment and state\<close>

record ipc_cfg =
  NO_RTOS :: bool
  HAS_ACK_MODE :: bool
  CONFIG_RELEASE :: bool
  OPCODE_ACK :: u8
  OPCODE_NAK :: u8
  OPCODE_ENABLE_ACK_MODE :: u8

datatype srdy_edge = Early | Waiting | Late | Never

datatype irq_trigger = IRQF_TRIGGER_LOW | IRQF_TRIGGER_RISING

datatype ipc_call =
    Create_mutex | Take_mutex | Give_mutex
  | Spi_request | Spi_release
  | Irq_request irq_trigger | Irq_release
  | Mrdy_request | Mrdy_release
  | Srdy_timeout | Rx_pending
  | Rx_data u8 "u8 list" | Rx_corrupt u8 "u8 list"

text \<open>
  \<open>xfer_fetch cb n\<close> is the transfer of \<open>nlspi_ipc_work\<close>: a header of two bytes, then \<open>n\<close> bytes; \<open>cb\<close> is
  the callback after the header. It yields the result, the header, the final \<open>num\<close> of the second
  transfer and the bytes stored at the start of \<open>rx_buffer\<close>. \<open>xfer_send segs\<close> sends the segments and
  yields the result, the header and the bytes received during the later segments; \<open>xfer_recv n\<close>
  receives \<open>n\<close> more bytes.
\<close>

record 'w ipc_ops =
  slave_connected :: "'w \<Rightarrow> bool \<times> 'w"
  srdy_value :: "'w \<Rightarrow> bool \<times> 'w"
  srdy_rises :: "'w \<Rightarrow> srdy_edge \<times> 'w"
  xfer_fetch :: "(u8 \<times> u8 \<Rightarrow> int \<Rightarrow> nat \<Rightarrow> int \<times> nat) \<Rightarrow> nat \<Rightarrow> 'w \<Rightarrow> (int \<times> (u8 \<times> u8) \<times> nat \<times> u8 list) \<times> 'w"
  xfer_send :: "u8 list list \<Rightarrow> 'w \<Rightarrow> (int \<times> (u8 \<times> u8) \<times> u8 list) \<times> 'w"
  xfer_recv :: "nat \<Rightarrow> 'w \<Rightarrow> (int \<times> u8 list) \<times> 'w"
  crc8_ccitt :: "u8 list \<Rightarrow> u8"
  crc8_ccitt_append :: "u8 \<Rightarrow> u8 list \<Rightarrow> u8"

record 'w ipc_state =
  sInitialized :: bool
  irq_registered :: nat
  s_use_ack_nak_mode :: bool
  rx_buffer :: "u8 list"
  sTaskToNotify :: "nat option"
  notified :: "nat \<Rightarrow> nat"
  srdy_edge_triggered :: bool
  calls :: "ipc_call list"
  env :: 'w

definition MAX_IPC_DATA_LEN_FROM_SLAVE :: nat where
  "MAX_IPC_DATA_LEN_FROM_SLAVE = 244"

definition IPC_RESULT_RX_BUF_TOO_SMALL :: int where "IPC_RESULT_RX_BUF_TOO_SMALL = -2"
definition IPC_RESULT_NO_MSG :: int where "IPC_RESULT_NO_MSG = -3"
definition IPC_RESULT_NOT_INITIALIZED :: int where "IPC_RESULT_NOT_INITIALIZED = -4"
definition IPC_RESULT_NO_SLAVE :: int where "IPC_RESULT_NO_SLAVE = -5"
definition IPC_RESULT_SRDY_TIMEOUT :: int where "IPC_RESULT_SRDY_TIMEOUT = -6"

lemmas ipc_results =
  IPC_RESULT_RX_BUF_TOO_SMALL_def IPC_RESULT_NO_MSG_def IPC_RESULT_NOT_INITIALIZED_def
  IPC_RESULT_NO_SLAVE_def IPC_RESULT_SRDY_TIMEOUT_def

definition say :: "ipc_call list \<Rightarrow> 'w ipc_state \<Rightarrow> 'w ipc_state" where
  "say cs s = s\<lparr>calls := calls s @ cs\<rparr>"

definition ask :: "('w \<Rightarrow> 'r \<times> 'w) \<Rightarrow> 'w ipc_state \<Rightarrow> 'r \<times> 'w ipc_state" where
  "ask f s = (let (r, w) = f (env s) in (r, s\<lparr>env := w\<rparr>))"

section \<open>Interrupts and the length callback\<close>

definition srdy_deasserted_isr :: "ipc_cfg \<Rightarrow> 'w ipc_state \<Rightarrow> 'w ipc_state option" where
  "srdy_deasserted_isr cfg s0 =
     (let s = say [Irq_release] (s0\<lparr>irq_registered := 0\<rparr>) in
      if NO_RTOS cfg then Some (s\<lparr>srdy_edge_triggered := True\<rparr>)
      else case sTaskToNotify s of
          None \<Rightarrow> None
        | Some t \<Rightarrow> Some (s\<lparr>notified := (notified s)(t := notified s t + 1)\<rparr>))"

definition srdy_asserted_isr :: "'w ipc_state \<Rightarrow> 'w ipc_state" where
  "srdy_asserted_isr s = say [Irq_release, Rx_pending] (s\<lparr>irq_registered := 0\<rparr>)"

definition fetch_rx_len_func :: "u8 \<times> u8 \<Rightarrow> int \<Rightarrow> nat \<Rightarrow> int \<times> nat" where
  "fetch_rx_len_func rx res num =
     (if res < 0 then (res, num)
      else if fst rx = 0 then (IPC_RESULT_NO_MSG, num)
      else let len = fst rx - 2 in
        if unat len > num then (IPC_RESULT_RX_BUF_TOO_SMALL, num) else (0, unat len))"

definition nlspi_ipc_init :: "ipc_cfg \<Rightarrow> 'w ipc_state \<Rightarrow> 'w ipc_state" where
  "nlspi_ipc_init cfg s =
     (if NO_RTOS cfg then s
      else let s1 = (if sInitialized s then s else say [Create_mutex] (s\<lparr>sInitialized := True\<rparr>))
           in say [Irq_request IRQF_TRIGGER_LOW] (s1\<lparr>irq_registered := 1\<rparr>))"

section \<open>Checking and dispatching a received frame\<close>

definition crc_matches ::
  "ipc_cfg \<Rightarrow> u8 \<Rightarrow> u8 list \<Rightarrow> nat \<Rightarrow> bool option" where
  "crc_matches cfg crc_calc rx_buf n = do {
     a \<leftarrow> arr_get rx_buf n;
     if CONFIG_RELEASE cfg
     then if crc_calc = a then Some True else do { b \<leftarrow> arr_get rx_buf (n + 1); Some (crc_calc = b) }
     else if crc_calc = a then do { b \<leftarrow> arr_get rx_buf (n + 1); Some (crc_calc = b) } else Some False }"

definition check_crc_and_dispatch ::
  "ipc_cfg \<Rightarrow> 'w ipc_ops \<Rightarrow> u8 \<times> u8 \<Rightarrow> u8 \<Rightarrow> 'w ipc_state \<Rightarrow> (int \<times> 'w ipc_state) option" where
  "check_crc_and_dispatch cfg ops length_and_opcode rx_len s =
     (if fst length_and_opcode = 0 then Some (0, s)
      else do {
        let ack = (HAS_ACK_MODE cfg \<and> s_use_ack_nak_mode s);
        let rx_data_len = (if ack then rx_len - 1 else rx_len);
        let opcode = snd length_and_opcode;
        data \<leftarrow> mem_read (rx_buffer s) 0 (unat rx_data_len);
        let crc_calc = crc8_ccitt_append ops (crc8_ccitt ops [fst length_and_opcode, opcode]) data;
        if ack
        then do {
          ok \<leftarrow> crc_matches cfg crc_calc (rx_buffer s) (unat rx_data_len);
          Some (if ok then (1, say [Rx_data opcode data] s) else (-1, say [Rx_corrupt opcode data] s)) }
        else do {
          c \<leftarrow> arr_get (rx_buffer s) (unat rx_data_len);
          Some (0, say [if crc_calc \<noteq> c then Rx_corrupt opcode data else Rx_data opcode data] s) } })"

section \<open>The handshake\<close>

text \<open>Request the bus, register for the rising edge of SRDY, assert MRDY.\<close>

definition begin_handshake :: "nat \<Rightarrow> 'w ipc_state \<Rightarrow> 'w ipc_state" where
  "begin_handshake tag s =
     say [Irq_request IRQF_TRIGGER_RISING, Mrdy_request]
       ((say (Spi_request # (if irq_registered s \<noteq> 0 then [Irq_release] else [])) s)
          \<lparr>irq_registered := tag, srdy_edge_triggered := False\<rparr>)"

text \<open>Wait for the edge; the result says whether it was seen.\<close>

definition await_srdy :: "ipc_cfg \<Rightarrow> 'w ipc_ops \<Rightarrow> nat \<Rightarrow> 'w ipc_state \<Rightarrow> (bool \<times> 'w ipc_state) option" where
  "await_srdy cfg ops task s = do {
     let (edge, s1) = ask (srdy_rises ops) s;
     s2 \<leftarrow> (if edge = Early then srdy_deasserted_isr cfg s1 else Some s1);
     if NO_RTOS cfg
     then do {
       s3 \<leftarrow> (if edge = Waiting then srdy_deasserted_isr cfg s2 else Some s2);
       if srdy_edge_triggered s3 then Some (True, s3) else None }
     else do {
       let s3 = s2\<lparr>sTaskToNotify := Some task\<rparr>;
       s4 \<leftarrow> (if edge = Waiting then srdy_deasserted_isr cfg s3 else Some s3);
       let taken = notified s4 task;
       let s5 = s4\<lparr>notified := (notified s4)(task := 0)\<rparr>;
       s6 \<leftarrow> (if edge = Late then srdy_deasserted_isr cfg s5 else Some s5);
       Some (taken = 1, s6) } }"

definition give_up :: "'w ipc_state \<Rightarrow> 'w ipc_state" where
  "give_up s = say [Mrdy_release, Irq_release, Spi_release, Srdy_timeout, Give_mutex] (s\<lparr>irq_registered := 0\<rparr>)"

text \<open>Register for the slave's next request and give pin and bus back.\<close>

definition end_handshake :: "ipc_cfg \<Rightarrow> nat \<Rightarrow> 'w ipc_state \<Rightarrow> 'w ipc_state" where
  "end_handshake cfg tag s =
     (if NO_RTOS cfg then say [Mrdy_release, Spi_release] s
      else say [Irq_request IRQF_TRIGGER_LOW, Mrdy_release, Spi_release] (s\<lparr>irq_registered := tag\<rparr>))"

section \<open>Sending\<close>

text \<open>
  The segments of a frame, and the transfers of \<open>nlspi_ipc_send\<close>: the result, the received header and
  \<open>rx_data_len\<close>.
\<close>

definition frame_segs :: "'w ipc_ops \<Rightarrow> u8 \<Rightarrow> u8 list \<Rightarrow> u8 list list" where
  "frame_segs ops opcode data =
     (let data_len = (word_of_nat (length data) :: u8);
          len_opcode_tx = [data_len + 3, opcode];
          crc_calc = crc8_ccitt ops len_opcode_tx
      in if data_len \<noteq> 0 then [len_opcode_tx, data, [crc8_ccitt_append ops crc_calc data]]
         else [len_opcode_tx, [crc_calc]])"

definition ipc_exchange ::
  "'w ipc_ops \<Rightarrow> u8 \<Rightarrow> u8 list \<Rightarrow> 'w ipc_state \<Rightarrow> ((int \<times> (u8 \<times> u8) \<times> u8) \<times> 'w ipc_state) option" where
  "ipc_exchange ops opcode data s = do {
     let data_len = (word_of_nat (length data) :: u8);
     let ((result, hdr, rx), s1) = ask (xfer_send ops (frame_segs ops opcode data)) s;
     buf \<leftarrow> mem_write (rx_buffer s1) 0 rx;
     let s2 = s1\<lparr>rx_buffer := buf\<rparr>;
     if result \<noteq> 0 then Some ((result, hdr, 0), s2)
     else if fst hdr = 0 then Some ((result, hdr, 0), s2)
     else do {
       let rx_data_len = fst hdr - 3;
       if unat rx_data_len \<le> length (rx_buffer s2)
       then if rx_data_len > data_len
         then do {
           let ((result, more), s3) = ask (xfer_recv ops (unat (rx_data_len - data_len))) s2;
           buf \<leftarrow> mem_write (rx_buffer s3) (unat data_len + 1) more;
           Some ((result, hdr, rx_data_len), s3\<lparr>rx_buffer := buf\<rparr>) }
         else Some ((result, hdr, rx_data_len), s2)
       else Some ((IPC_RESULT_RX_BUF_TOO_SMALL, hdr, rx_data_len), s2) } }"

definition lock_calls :: "ipc_cfg \<Rightarrow> ipc_call \<Rightarrow> ipc_call list" where
  "lock_calls cfg c = (if NO_RTOS cfg then [] else [c])"

partial_function (option) nlspi_ipc_send ::
  "ipc_cfg \<Rightarrow> 'w ipc_ops \<Rightarrow> nat \<Rightarrow> u8 \<Rightarrow> u8 list \<Rightarrow> 'w ipc_state \<Rightarrow> (int \<times> 'w ipc_state) option" where
  "nlspi_ipc_send cfg ops task opcode data s =
     (if \<not> NO_RTOS cfg \<and> \<not> sInitialized s then Some (IPC_RESULT_NOT_INITIALIZED, s)
      else let (conn, s1) = ask (slave_connected ops) s in
        if \<not> conn then Some (IPC_RESULT_NO_SLAVE, s1)
        else do {
          (seen, s2) \<leftarrow> await_srdy cfg ops task (begin_handshake 5 (say (lock_calls cfg Take_mutex) s1));
          if \<not> seen then Some (IPC_RESULT_SRDY_TIMEOUT, give_up s2)
          else do {
            ((_, hdr, rx_data_len), s3) \<leftarrow> ipc_exchange ops opcode data s2;
            (result, s4) \<leftarrow> check_crc_and_dispatch cfg ops hdr rx_data_len (end_handshake cfg 6 s3);
            let s5 = say (lock_calls cfg Give_mutex) s4;
            if \<not> NO_RTOS cfg \<and> HAS_ACK_MODE cfg \<and> (result = -1 \<or> result = 1)
            then do {
              (_, s6) \<leftarrow> nlspi_ipc_send cfg ops task (if result = 1 then OPCODE_ACK cfg else OPCODE_NAK cfg) [] s5;
              Some (result, s6) }
            else Some (result, s5) } })"

definition nlspi_ipc_enable_ack_mode ::
  "ipc_cfg \<Rightarrow> 'w ipc_ops \<Rightarrow> nat \<Rightarrow> 'w ipc_state \<Rightarrow> 'w ipc_state option" where
  "nlspi_ipc_enable_ack_mode cfg ops task s = do {
     (_, s1) \<leftarrow> nlspi_ipc_send cfg ops task (OPCODE_ENABLE_ACK_MODE cfg) [] s;
     Some (s1\<lparr>s_use_ack_nak_mode := True\<rparr>) }"

section \<open>Receiving\<close>

definition nlspi_ipc_work :: "ipc_cfg \<Rightarrow> 'w ipc_ops \<Rightarrow> nat \<Rightarrow> 'w ipc_state \<Rightarrow> 'w ipc_state option" where
  "nlspi_ipc_work cfg ops task s =
     (if \<not> sInitialized s then Some s
      else let (high, s1) = ask (srdy_value ops) (say [Take_mutex] s) in
        if high
        then Some (say [Irq_request IRQF_TRIGGER_LOW, Give_mutex]
                    ((say (if irq_registered s1 \<noteq> 0 then [Irq_release] else []) s1)\<lparr>irq_registered := 2\<rparr>))
        else do {
          (seen, s2) \<leftarrow> await_srdy cfg ops task (begin_handshake 3 s1);
          if \<not> seen then Some (give_up s2)
          else do {
            let ((_, hdr, num, rx), s3) = ask (xfer_fetch ops fetch_rx_len_func (length (rx_buffer s2))) s2;
            buf \<leftarrow> mem_write (rx_buffer s3) 0 rx;
            (result, s4) \<leftarrow> check_crc_and_dispatch cfg ops hdr (word_of_nat num - 1)
                              (end_handshake cfg 4 (s3\<lparr>rx_buffer := buf\<rparr>));
            let s5 = say [Give_mutex] s4;
            if HAS_ACK_MODE cfg \<and> (result = -1 \<or> result = 1)
            then do {
              (_, s6) \<leftarrow> nlspi_ipc_send cfg ops task (if result = 1 then OPCODE_ACK cfg else OPCODE_NAK cfg) [] s5;
              Some s6 }
            else Some s5 } })"

section \<open>The protocol of the shared lines\<close>

text \<open>
  What the mutex, the bus, the MRDY pin and the SRDY interrupt allow: nothing is taken twice, nothing
  is given back that is not held, and the mutex is given back last.
\<close>

record lines =
  l_mutex :: bool
  l_bus :: bool
  l_mrdy :: bool
  l_irq :: "irq_trigger option"

fun line_step :: "ipc_call \<Rightarrow> lines \<Rightarrow> lines option" where
  "line_step Take_mutex l = (if l_mutex l then None else Some (l\<lparr>l_mutex := True\<rparr>))"
| "line_step Give_mutex l =
     (if l_mutex l \<and> \<not> l_bus l \<and> \<not> l_mrdy l then Some (l\<lparr>l_mutex := False\<rparr>) else None)"
| "line_step Spi_request l = (if l_bus l then None else Some (l\<lparr>l_bus := True\<rparr>))"
| "line_step Spi_release l = (if l_bus l then Some (l\<lparr>l_bus := False\<rparr>) else None)"
| "line_step Mrdy_request l = (if l_mrdy l \<or> \<not> l_bus l then None else Some (l\<lparr>l_mrdy := True\<rparr>))"
| "line_step Mrdy_release l = (if l_mrdy l then Some (l\<lparr>l_mrdy := False\<rparr>) else None)"
| "line_step (Irq_request t) l = (if l_irq l = None then Some (l\<lparr>l_irq := Some t\<rparr>) else None)"
| "line_step Irq_release l = (if l_irq l = None then None else Some (l\<lparr>l_irq := None\<rparr>))"
| "line_step _ l = Some l"

primrec follow :: "ipc_call list \<Rightarrow> lines \<Rightarrow> lines option" where
  "follow [] l = Some l"
| "follow (c # cs) l = Option.bind (line_step c l) (follow cs)"

lemma follow_append [simp]: "follow (xs @ ys) l = Option.bind (follow xs l) (follow ys)"
  by (induction xs arbitrary: l) (simp_all, metis bind_assoc)

definition all_free :: lines where
  "all_free = \<lparr>l_mutex = False, l_bus = False, l_mrdy = False, l_irq = None\<rparr>"

definition lines_now :: "'w ipc_state \<Rightarrow> lines option" where
  "lines_now s = follow (calls s) all_free"

text \<open>Between the operations only the interrupt is in use, exactly when \<open>irq_registered\<close> says so.\<close>

definition ipc_inv :: "'w ipc_state \<Rightarrow> bool" where
  "ipc_inv s \<longleftrightarrow>
     (\<exists>irq. lines_now s = Some (all_free\<lparr>l_irq := irq\<rparr>) \<and> (irq = None \<longleftrightarrow> irq_registered s = 0)) \<and>
     length (rx_buffer s) = MAX_IPC_DATA_LEN_FROM_SLAVE + 1 \<and> notified s = (\<lambda>_. 0)"

text \<open>In the middle of a handshake bus, MRDY and, with the RTOS, the mutex are held.\<close>

definition in_handshake :: "ipc_cfg \<Rightarrow> irq_trigger option \<Rightarrow> 'w ipc_state \<Rightarrow> bool" where
  "in_handshake cfg irq s \<longleftrightarrow>
     lines_now s = Some \<lparr>l_mutex = (\<not> NO_RTOS cfg), l_bus = True, l_mrdy = True, l_irq = irq\<rparr> \<and>
     (irq = None \<longleftrightarrow> irq_registered s = 0) \<and>
     length (rx_buffer s) = MAX_IPC_DATA_LEN_FROM_SLAVE + 1 \<and> notified s = (\<lambda>_. 0)"

text \<open>The edge of SRDY comes while the task waits for it, or not at all.\<close>

definition edges_in_time :: "'w ipc_ops \<Rightarrow> bool" where
  "edges_in_time ops \<longleftrightarrow> (\<forall>w. fst (srdy_rises ops w) \<in> {Waiting, Never})"

lemma lines_say [simp]: "lines_now (say cs s) = Option.bind (lines_now s) (follow cs)"
  by (simp add: lines_now_def say_def)

lemma say_fields [simp]:
  "sInitialized (say cs s) = sInitialized s" "irq_registered (say cs s) = irq_registered s"
  "s_use_ack_nak_mode (say cs s) = s_use_ack_nak_mode s" "rx_buffer (say cs s) = rx_buffer s"
  "sTaskToNotify (say cs s) = sTaskToNotify s" "notified (say cs s) = notified s"
  "srdy_edge_triggered (say cs s) = srdy_edge_triggered s" "env (say cs s) = env s"
  "calls (say cs s) = calls s @ cs"
  by (simp_all add: say_def)

lemma lines_unchanged [simp]:
  "lines_now (s\<lparr>irq_registered := n\<rparr>) = lines_now s" "lines_now (s\<lparr>env := w\<rparr>) = lines_now s"
  "lines_now (s\<lparr>rx_buffer := b\<rparr>) = lines_now s" "lines_now (s\<lparr>sInitialized := i\<rparr>) = lines_now s"
  "lines_now (s\<lparr>sTaskToNotify := t\<rparr>) = lines_now s" "lines_now (s\<lparr>notified := f\<rparr>) = lines_now s"
  "lines_now (s\<lparr>srdy_edge_triggered := e\<rparr>) = lines_now s"
  "lines_now (s\<lparr>s_use_ack_nak_mode := a\<rparr>) = lines_now s"
  by (simp_all add: lines_now_def)

lemma ask_inv:
  assumes "ask f s = (r, s1)"
  shows "ipc_inv s1 = ipc_inv s" "in_handshake cfg irq s1 = in_handshake cfg irq s"
    "rx_buffer s1 = rx_buffer s" "s_use_ack_nak_mode s1 = s_use_ack_nak_mode s" "calls s1 = calls s"
    "sInitialized s1 = sInitialized s"
  using assms by (auto simp: ask_def ipc_inv_def in_handshake_def Let_def split: prod.splits)

lemma begin_handshake_inv:
  assumes "ipc_inv s" "tag \<noteq> 0"
  shows "in_handshake cfg (Some IRQF_TRIGGER_RISING) (begin_handshake tag (say (lock_calls cfg Take_mutex) s))"
  using assms by (auto simp: ipc_inv_def in_handshake_def begin_handshake_def lock_calls_def all_free_def)

lemma isr_inv:
  assumes "in_handshake cfg (Some t) s" "\<not> NO_RTOS cfg \<Longrightarrow> sTaskToNotify s = Some task"
  shows "\<exists>s'. srdy_deasserted_isr cfg s = Some s' \<and>
    in_handshake cfg None (s'\<lparr>notified := (notified s')(task := 0)\<rparr>) \<and> rx_buffer s' = rx_buffer s \<and>
    (NO_RTOS cfg \<longrightarrow> srdy_edge_triggered s' \<and> in_handshake cfg None s') \<and>
    (\<not> NO_RTOS cfg \<longrightarrow> notified s' task = 1)"
  using assms by (cases "NO_RTOS cfg") (auto simp: srdy_deasserted_isr_def in_handshake_def Let_def fun_eq_iff)

lemma await_srdy_inv:
  assumes "edges_in_time ops" "in_handshake cfg (Some t) s" "await_srdy cfg ops task s = Some (seen, s')"
    "NO_RTOS cfg \<Longrightarrow> \<not> srdy_edge_triggered s"
  shows "in_handshake cfg (if seen then None else Some t) s'" "rx_buffer s' = rx_buffer s"
proof -
  obtain edge s1 where ask: "ask (srdy_rises ops) s = (edge, s1)" by fastforce
  then have edge: "edge = Waiting \<or> edge = Never"
    using assms(1) by (auto simp: ask_def edges_in_time_def split: prod.splits) (metis fst_conv)
  note s1 = ask_inv [OF ask]
  have hs2: "in_handshake cfg (Some t) s1" using s1(2) assms(2) by simp
  then have "in_handshake cfg (Some t) (s1\<lparr>sTaskToNotify := Some task\<rparr>)" by (simp add: in_handshake_def)
  note hs = this hs2
  have trig: "srdy_edge_triggered s1 = srdy_edge_triggered s"
    using ask by (auto simp: ask_def split: prod.splits)
  from edge have "in_handshake cfg (if seen then None else Some t) s' \<and> rx_buffer s' = rx_buffer s"
  proof
    assume e: "edge = Waiting"
    show ?thesis
      using assms(3) ask e s1(3) isr_inv [OF hs(1), of task] isr_inv [OF hs(2), of task]
      by (cases "NO_RTOS cfg") (auto simp: await_srdy_def Let_def)
  next
    assume e: "edge = Never"
    have "notified s1 = (\<lambda>_. 0)" using hs(2) by (simp add: in_handshake_def)
    with assms(3,4) ask e s1(3) hs trig show ?thesis
      by (cases "NO_RTOS cfg") (auto simp: await_srdy_def Let_def in_handshake_def)
  qed
  then show "in_handshake cfg (if seen then None else Some t) s'" "rx_buffer s' = rx_buffer s" by auto
qed

lemma give_up_inv: "in_handshake cfg (Some t) s \<Longrightarrow> \<not> NO_RTOS cfg \<Longrightarrow> ipc_inv (give_up s)"
  by (auto simp: in_handshake_def ipc_inv_def give_up_def all_free_def)


lemma end_handshake_inv:
  assumes "in_handshake cfg None s" "tag \<noteq> 0"
  shows "lines_now (end_handshake cfg tag s) = Some \<lparr>l_mutex = (\<not> NO_RTOS cfg), l_bus = False, l_mrdy = False,
      l_irq = (if NO_RTOS cfg then None else Some IRQF_TRIGGER_LOW)\<rparr>"
    "irq_registered (end_handshake cfg tag s) = (if NO_RTOS cfg then 0 else tag)"
    "rx_buffer (end_handshake cfg tag s) = rx_buffer s" "notified (end_handshake cfg tag s) = (\<lambda>_. 0)"
    "s_use_ack_nak_mode (end_handshake cfg tag s) = s_use_ack_nak_mode s"
    "calls (end_handshake cfg tag s) = calls s @ (if NO_RTOS cfg then [] else [Irq_request IRQF_TRIGGER_LOW]) @ [Mrdy_release, Spi_release]"
  using assms by (auto simp: in_handshake_def end_handshake_def)

text \<open>A dispatch adds one call of a handler, or none, and changes nothing else.\<close>

lemma dispatch_calls:
  assumes "check_crc_and_dispatch cfg ops hdr n s = Some (r, s')"
  shows "\<exists>cs. s' = say cs s \<and> (cs = [] \<or> (\<exists>d. cs = [Rx_data (snd hdr) d] \<or> cs = [Rx_corrupt (snd hdr) d]))"
    "r \<in> {0, 1, -1}"
proof -
  have "s' = s \<or> (\<exists>d. s' = say [Rx_data (snd hdr) d] s \<or> s' = say [Rx_corrupt (snd hdr) d] s)"
    using assms by (auto simp: check_crc_and_dispatch_def Let_def elim!: bind_SomeE split: if_splits) metis+
  moreover have "s = say [] s" by (simp add: say_def)
  ultimately show "\<exists>cs. s' = say cs s \<and> (cs = [] \<or> (\<exists>d. cs = [Rx_data (snd hdr) d] \<or> cs = [Rx_corrupt (snd hdr) d]))"
    by metis
  show "r \<in> {0, 1, -1}"
    using assms by (auto simp: check_crc_and_dispatch_def Let_def elim!: bind_SomeE split: if_splits)
qed

lemma dispatch_inv:
  assumes "in_handshake cfg None s" "tag \<noteq> 0"
    and "check_crc_and_dispatch cfg ops hdr n (end_handshake cfg tag s) = Some (r, s')"
  shows "ipc_inv (say (lock_calls cfg Give_mutex) s')"
proof -
  obtain cs where cs: "s' = say cs (end_handshake cfg tag s)"
      "cs = [] \<or> (\<exists>d. cs = [Rx_data (snd hdr) d] \<or> cs = [Rx_corrupt (snd hdr) d])"
    using dispatch_calls(1) [OF assms(3)] by blast
  from cs(2) have "follow cs l = Some l" for l by auto
  with cs(1) end_handshake_inv [OF assms(1,2)] assms(1,2) show ?thesis
    by (auto simp: ipc_inv_def lock_calls_def all_free_def in_handshake_def)
qed

lemma buf_in_handshake:
  "in_handshake cfg irq s \<Longrightarrow> mem_write (rx_buffer s) k ys = Some b \<Longrightarrow> in_handshake cfg irq (s\<lparr>rx_buffer := b\<rparr>)"
  by (auto simp: in_handshake_def dest: mem_write_length)

lemma env_in_handshake: "ask f s = (x, s') \<Longrightarrow> in_handshake cfg irq s \<Longrightarrow> in_handshake cfg irq s'"
  using ask_inv(2) by metis

lemma exchange_inv:
  assumes "ipc_exchange ops opcode data s = Some (r, s')" "in_handshake cfg irq s"
  shows "in_handshake cfg irq s'"
proof -
  obtain result hdr rx s1 where a1: "ask (xfer_send ops (frame_segs ops opcode data)) s = ((result, hdr, rx), s1)"
    by (metis prod.exhaust)
  then obtain buf where buf: "mem_write (rx_buffer s1) 0 rx = Some buf"
    using assms(1) by (auto simp: ipc_exchange_def Let_def elim!: bind_SomeE)
  define s2 where "s2 = s1\<lparr>rx_buffer := buf\<rparr>"
  have s2: "in_handshake cfg irq s2"
    unfolding s2_def using buf_in_handshake [OF env_in_handshake [OF a1 assms(2)] buf] .
  obtain res2 more s3 where a2: "ask (xfer_recv ops (unat (fst hdr - 3 - word_of_nat (length data)))) s2 = ((res2, more), s3)"
    by (metis prod.exhaust)
  note s3 = buf_in_handshake [OF env_in_handshake [OF a2 s2]]
  show ?thesis
    using assms(1) a1 buf a2 s2 s3 unfolding s2_def
    by (auto simp: ipc_exchange_def Let_def elim!: bind_SomeE split: if_splits)
qed

text \<open>The common part of both entry points, from the lock to the outcome of the wait.\<close>

lemma handshake_inv:
  assumes "edges_in_time ops" "ipc_inv s" "tag \<noteq> 0"
    and "await_srdy cfg ops task (begin_handshake tag (say (lock_calls cfg Take_mutex) s)) = Some (seen, s')"
  shows "seen \<Longrightarrow> in_handshake cfg None s'" "\<not> seen \<Longrightarrow> \<not> NO_RTOS cfg \<and> ipc_inv (give_up s')"
proof -
  note b = begin_handshake_inv [OF assms(2,3), of cfg]
  have "\<not> srdy_edge_triggered (begin_handshake tag (say (lock_calls cfg Take_mutex) s))"
    by (simp add: begin_handshake_def)
  note a = await_srdy_inv [OF assms(1) b assms(4) this]
  show "seen \<Longrightarrow> in_handshake cfg None s'" using a(1) by simp
  assume "\<not> seen"
  moreover have "\<not> NO_RTOS cfg" using assms(4) \<open>\<not> seen\<close>
    by (auto simp: await_srdy_def Let_def elim!: bind_SomeE split: prod.splits if_splits)
  ultimately show "\<not> NO_RTOS cfg \<and> ipc_inv (give_up s')" using a(1) give_up_inv by simp
qed

lemma nlspi_ipc_send_keeps:
  assumes "nlspi_ipc_send cfg ops task opcode data s = Some rs"
  shows "edges_in_time ops \<longrightarrow> ipc_inv s \<longrightarrow> ipc_inv (snd rs)"
  using assms
proof (induction cfg ops task opcode data s rs rule: nlspi_ipc_send.raw_induct [rotated, consumes 1, case_names 1])
  case (1 send cfg ops task opcode data s rs)
  show ?case
  proof (intro impI)
    assume ok: "edges_in_time ops" and inv: "ipc_inv s"
    obtain conn s1 where a: "ask (slave_connected ops) s = (conn, s1)" by fastforce
    have inv1: "ipc_inv s1" using ask_inv(1) [OF a] inv by simp
    show "ipc_inv (snd rs)"
    proof (cases "(\<not> NO_RTOS cfg \<and> \<not> sInitialized s) \<or> \<not> conn")
      case True
      with 1(2) a inv inv1 show ?thesis by (auto split: if_splits)
    next
      case False
      with 1(2) a obtain seen s2
        where w: "await_srdy cfg ops task (begin_handshake 5 (say (lock_calls cfg Take_mutex) s1)) = Some (seen, s2)"
        by (auto elim!: bind_SomeE split: if_splits)
      note h = handshake_inv [OF ok inv1 _ w, simplified]
      show ?thesis
      proof (cases seen)
        case True
        with 1(2) a False w obtain r hdr n s3 res s4
          where x: "ipc_exchange ops opcode data s2 = Some ((r, hdr, n), s3)"
            and c: "check_crc_and_dispatch cfg ops hdr n (end_handshake cfg 6 s3) = Some (res, s4)"
          by (auto elim!: bind_SomeE split: if_splits)
        have "ipc_inv (say (lock_calls cfg Give_mutex) s4)"
          using dispatch_inv [OF exchange_inv [OF x h(1) [OF True]] _ c] by simp
        moreover from 1(2) a False w True x c
        have "rs = (res, say (lock_calls cfg Give_mutex) s4) \<or> (\<exists>op r s6. rs = (res, s6) \<and>
            send cfg ops task op [] (say (lock_calls cfg Give_mutex) s4) = Some (r, s6))"
          by (auto simp: Let_def elim!: bind_SomeE split: if_splits)
        ultimately show ?thesis using 1(1) ok by fastforce
      qed (use 1(2) a False w h(2) in \<open>auto split: if_splits\<close>)
    qed
  qed
qed

lemma nlspi_ipc_send_inv:
  assumes "edges_in_time ops" "nlspi_ipc_send cfg ops task opcode data s = Some (r, s')" "ipc_inv s"
  shows "ipc_inv s'"
  using nlspi_ipc_send_keeps [OF assms(2)] assms(1,3) by simp

lemma nlspi_ipc_work_inv:
  assumes ok: "edges_in_time ops" and rtos: "\<not> NO_RTOS cfg"
    and run: "nlspi_ipc_work cfg ops task s = Some s'" and inv: "ipc_inv s"
  shows "ipc_inv s'"
proof (cases "sInitialized s")
  case True
  have lock: "lock_calls cfg c = [c]" for c using rtos by (simp add: lock_calls_def)
  obtain high s1 where a: "ask (srdy_value ops) (say [Take_mutex] s) = (high, s1)" by fastforce
  define s0 where "s0 = s\<lparr>env := env s1\<rparr>"
  have s0: "ipc_inv s0" "s1 = say [Take_mutex] s0"
    using inv a by (auto simp: s0_def ipc_inv_def ask_def say_def split: prod.splits)
  show ?thesis
  proof (cases high)
    case high: True
    with True run a s0 show ?thesis
      by (auto simp: nlspi_ipc_work_def ipc_inv_def all_free_def)
  next
    case low: False
    with True run a obtain seen s2 where w: "await_srdy cfg ops task (begin_handshake 3 s1) = Some (seen, s2)"
      by (auto simp: nlspi_ipc_work_def elim!: bind_SomeE)
    note h = handshake_inv [OF ok s0(1) _ w [unfolded s0(2) lock [symmetric]], simplified]
    show ?thesis
    proof (cases seen)
      case seen: True
      obtain r hdr num rx s3 where x: "ask (xfer_fetch ops fetch_rx_len_func (length (rx_buffer s2))) s2 = ((r, hdr, num, rx), s3)"
        by (metis prod.exhaust)
      with True low seen run a w obtain buf res s4 where m: "mem_write (rx_buffer s3) 0 rx = Some buf"
          and c: "check_crc_and_dispatch cfg ops hdr (word_of_nat num - 1) (end_handshake cfg 4 (s3\<lparr>rx_buffer := buf\<rparr>)) = Some (res, s4)"
        by (auto simp: nlspi_ipc_work_def elim!: bind_SomeE)
      have "ipc_inv (say [Give_mutex] s4)"
        using dispatch_inv [OF buf_in_handshake [OF env_in_handshake [OF x h(1) [OF seen]] m] _ c] lock by simp
      moreover from True low seen run a w x m c
      have "s' = say [Give_mutex] s4 \<or> (\<exists>op r. nlspi_ipc_send cfg ops task op [] (say [Give_mutex] s4) = Some (r, s'))"
        by (auto simp: nlspi_ipc_work_def Let_def elim!: bind_SomeE split: if_splits)
      ultimately show ?thesis using nlspi_ipc_send_inv [OF ok] by blast
    qed (use True low run a w h(2) in \<open>auto simp: nlspi_ipc_work_def\<close>)
  qed
qed (use run inv in \<open>simp add: nlspi_ipc_work_def\<close>)

text \<open>The link as a transition system: its clients' calls, and the interrupt while it is registered.\<close>

inductive ipc_step :: "ipc_cfg \<Rightarrow> 'w ipc_ops \<Rightarrow> 'w ipc_state \<Rightarrow> 'w ipc_state \<Rightarrow> bool" for cfg ops where
  send: "nlspi_ipc_send cfg ops task opcode data s = Some (r, s') \<Longrightarrow> ipc_step cfg ops s s'"
| work: "\<not> NO_RTOS cfg \<Longrightarrow> nlspi_ipc_work cfg ops task s = Some s' \<Longrightarrow> ipc_step cfg ops s s'"
| ack_mode: "nlspi_ipc_enable_ack_mode cfg ops task s = Some s' \<Longrightarrow> ipc_step cfg ops s s'"
| request: "lines_now s = Some l \<Longrightarrow> l_irq l = Some IRQF_TRIGGER_LOW \<Longrightarrow> ipc_step cfg ops s (srdy_asserted_isr s)"

definition ipc_boot :: "ipc_cfg \<Rightarrow> 'w ipc_state \<Rightarrow> bool" where
  "ipc_boot cfg s \<longleftrightarrow> (\<exists>s0. s = nlspi_ipc_init cfg s0 \<and> \<not> sInitialized s0 \<and> irq_registered s0 = 0 \<and> calls s0 = [] \<and>
     length (rx_buffer s0) = MAX_IPC_DATA_LEN_FROM_SLAVE + 1 \<and> notified s0 = (\<lambda>_. 0))"

lemma ipc_boot_inv: "ipc_boot cfg s \<Longrightarrow> ipc_inv s"
  by (auto simp: ipc_boot_def ipc_inv_def nlspi_ipc_init_def lines_now_def all_free_def)

lemma ipc_step_inv:
  assumes "edges_in_time ops" "ipc_inv s" "ipc_step cfg ops s t"
  shows "ipc_inv t"
  using assms(3)
proof cases
  case (send task opcode data r)
  then show ?thesis using nlspi_ipc_send_inv assms(1,2) by blast
next
  case (work task)
  then show ?thesis using nlspi_ipc_work_inv assms(1,2) by blast
next
  case (ack_mode task)
  then obtain r s1 where "nlspi_ipc_send cfg ops task (OPCODE_ENABLE_ACK_MODE cfg) [] s = Some (r, s1)"
      "t = s1\<lparr>s_use_ack_nak_mode := True\<rparr>"
    by (auto simp: nlspi_ipc_enable_ack_mode_def elim!: bind_SomeE)
  with nlspi_ipc_send_inv [OF assms(1) _ assms(2)] have "ipc_inv s1" by blast
  with \<open>t = _\<close> show ?thesis by (simp add: ipc_inv_def)
next
  case (request l)
  with assms(2) show ?thesis by (auto simp: ipc_inv_def srdy_asserted_isr_def all_free_def)
qed

interpretation ipc: invariant_system "\<lambda>s. edges_in_time ops \<and> ipc_boot cfg s" "ipc_step cfg ops"
  "\<lambda>s. edges_in_time ops \<and> ipc_inv s" for cfg ops
  by unfold_locales (auto intro: ipc_boot_inv ipc_step_inv)

section \<open>What is sent and what is delivered\<close>

text \<open>The calls up to the rising edge of SRDY and those after the transfer.\<close>

definition open_calls :: "'w ipc_state \<Rightarrow> ipc_call list" where
  "open_calls s = [Take_mutex, Spi_request] @ (if irq_registered s \<noteq> 0 then [Irq_release] else []) @
     [Irq_request IRQF_TRIGGER_RISING, Mrdy_request, Irq_release]"

definition close_calls :: "ipc_call list" where
  "close_calls = [Irq_request IRQF_TRIGGER_LOW, Mrdy_release, Spi_release]"

lemma handshake_runs:
  assumes "ipc_inv s" "\<not> NO_RTOS cfg" "srdy_rises ops (env s) = (Waiting, w)"
  shows "\<exists>s2. await_srdy cfg ops task (begin_handshake tag (say [Take_mutex] s)) = Some (True, s2) \<and>
    rx_buffer s2 = rx_buffer s \<and> env s2 = w \<and> s_use_ack_nak_mode s2 = s_use_ack_nak_mode s \<and>
    calls s2 = calls s @ open_calls s"
  using assms
  by (auto simp: await_srdy_def begin_handshake_def ask_def srdy_deasserted_isr_def ipc_inv_def open_calls_def)

lemma end_handshake_fields:
  assumes "\<not> NO_RTOS cfg"
  shows "rx_buffer (end_handshake cfg tag s) = rx_buffer s"
    "s_use_ack_nak_mode (end_handshake cfg tag s) = s_use_ack_nak_mode s"
    "calls (end_handshake cfg tag s) = calls s @ close_calls" "env (end_handshake cfg tag s) = env s"
  using assms by (simp_all add: end_handshake_def close_calls_def)

text \<open>
  The documented behaviour of a transfer with a callback: the callback decides after the header
  \<open>hdr\<close> whether to go on and with how many bytes; the bytes come from the slave's \<open>stream\<close>.
\<close>

definition slave_sends :: "'w ipc_ops \<Rightarrow> u8 \<times> u8 \<Rightarrow> u8 list \<Rightarrow> 'w \<Rightarrow> bool" where
  "slave_sends ops hdr stream w \<longleftrightarrow> (\<exists>w'. \<forall>cb n. xfer_fetch ops cb n w =
     (let (r, m) = cb hdr 0 n in ((r, hdr, m, if r \<noteq> 0 then [] else take m stream), w')))"

definition listening :: "ipc_cfg \<Rightarrow> 'w ipc_ops \<Rightarrow> 'w ipc_state \<Rightarrow> u8 \<times> u8 \<Rightarrow> u8 list \<Rightarrow> bool" where
  "listening cfg ops s hdr stream \<longleftrightarrow> ipc_inv s \<and> sInitialized s \<and> \<not> NO_RTOS cfg \<and>
     (\<exists>w1 w2. srdy_value ops (env s) = (False, w1) \<and> srdy_rises ops w1 = (Waiting, w2) \<and> slave_sends ops hdr stream w2)"

text \<open>With a slave that sends, the work function is the dispatch of what the callback let through, then the answer.\<close>

lemma work_fetches:
  assumes "listening cfg ops s hdr stream"
  shows "\<exists>s3. rx_buffer s3 = rx_buffer s \<and> calls s3 = calls s @ open_calls s @ close_calls \<and>
    s_use_ack_nak_mode s3 = s_use_ack_nak_mode s \<and>
    nlspi_ipc_work cfg ops task s =
      (let (r, m) = fetch_rx_len_func hdr 0 245 in do {
         buf \<leftarrow> mem_write (rx_buffer s) 0 (if r \<noteq> 0 then [] else take m stream);
         (result, s4) \<leftarrow> check_crc_and_dispatch cfg ops hdr (word_of_nat m - 1) (s3\<lparr>rx_buffer := buf\<rparr>);
         if HAS_ACK_MODE cfg \<and> (result = -1 \<or> result = 1)
         then do {
           (_, s6) \<leftarrow> nlspi_ipc_send cfg ops task (if result = 1 then OPCODE_ACK cfg else OPCODE_NAK cfg) [] (say [Give_mutex] s4);
           Some s6 }
         else Some (say [Give_mutex] s4) })"
proof -
  from assms(1) obtain w1 w2 w3 where env: "srdy_value ops (env s) = (False, w1)" "srdy_rises ops w1 = (Waiting, w2)"
      and x: "\<And>cb n. xfer_fetch ops cb n w2 = (let (r, m) = cb hdr 0 n in ((r, hdr, m, if r \<noteq> 0 then [] else take m stream), w3))"
      and inv: "ipc_inv s" and init: "sInitialized s" and rtos: "\<not> NO_RTOS cfg"
    unfolding listening_def slave_sends_def by blast
  have inv1: "ipc_inv (s\<lparr>env := w1\<rparr>)" using inv by (simp add: ipc_inv_def)
  then obtain s2 where s2: "await_srdy cfg ops task (begin_handshake 3 (say [Take_mutex] (s\<lparr>env := w1\<rparr>))) = Some (True, s2)"
      "rx_buffer s2 = rx_buffer s" "env s2 = w2" "s_use_ack_nak_mode s2 = s_use_ack_nak_mode s" "calls s2 = calls s @ open_calls s"
    using handshake_runs [OF inv1 rtos, of ops w2 task 3] env(2) by (auto simp: open_calls_def)
  have upd: "(say [Take_mutex] s)\<lparr>env := w1\<rparr> = say [Take_mutex] (s\<lparr>env := w1\<rparr>)" by (simp add: say_def)
  have len: "length (rx_buffer s) = 245" using inv by (simp add: ipc_inv_def MAX_IPC_DATA_LEN_FROM_SLAVE_def)
  define s3 where "s3 = end_handshake cfg 4 (s2\<lparr>env := w3\<rparr>)"
  have s3: "(s3\<lparr>rx_buffer := buf\<rparr>) = end_handshake cfg 4 (s2\<lparr>env := w3, rx_buffer := buf\<rparr>)" for buf
    using rtos by (simp add: s3_def end_handshake_def say_def)
  obtain r m where f: "fetch_rx_len_func hdr 0 245 = (r, m)" by fastforce
  have "nlspi_ipc_work cfg ops task s = do {
         buf \<leftarrow> mem_write (rx_buffer s) 0 (if r \<noteq> 0 then [] else take m stream);
         (result, s4) \<leftarrow> check_crc_and_dispatch cfg ops hdr (word_of_nat m - 1) (s3\<lparr>rx_buffer := buf\<rparr>);
         if HAS_ACK_MODE cfg \<and> (result = -1 \<or> result = 1)
         then do {
           (_, s6) \<leftarrow> nlspi_ipc_send cfg ops task (if result = 1 then OPCODE_ACK cfg else OPCODE_NAK cfg) [] (say [Give_mutex] s4);
           Some s6 }
         else Some (say [Give_mutex] s4) }"
    by (simp add: nlspi_ipc_work_def ask_def init env(1) upd s2 x len f s3 Let_def)
  then show ?thesis
    using f s2 by (intro exI [of _ s3]) (simp add: s3_def end_handshake_fields [OF rtos])
qed

text \<open>In plain mode there is no answer.\<close>

lemma dispatch_plain_result:
  "\<not> (HAS_ACK_MODE cfg \<and> s_use_ack_nak_mode s) \<Longrightarrow> check_crc_and_dispatch cfg ops hdr k s = Some (res, s4) \<Longrightarrow> res = 0"
  by (auto simp: check_crc_and_dispatch_def Let_def elim!: bind_SomeE split: if_splits)

lemma work_dispatches:
  assumes "listening cfg ops s hdr stream" "\<not> (HAS_ACK_MODE cfg \<and> s_use_ack_nak_mode s)"
  shows "\<exists>s3. rx_buffer s3 = rx_buffer s \<and> calls s3 = calls s @ open_calls s @ close_calls \<and> \<not> (HAS_ACK_MODE cfg \<and> s_use_ack_nak_mode s3) \<and>
    nlspi_ipc_work cfg ops task s =
      (let (r, m) = fetch_rx_len_func hdr 0 245 in do {
         buf \<leftarrow> mem_write (rx_buffer s) 0 (if r \<noteq> 0 then [] else take m stream);
         (_, s4) \<leftarrow> check_crc_and_dispatch cfg ops hdr (word_of_nat m - 1) (s3\<lparr>rx_buffer := buf\<rparr>);
         Some (say [Give_mutex] s4) })"
proof -
  obtain s3 where s3: "rx_buffer s3 = rx_buffer s" "calls s3 = calls s @ open_calls s @ close_calls"
    "s_use_ack_nak_mode s3 = s_use_ack_nak_mode s"
    and work: "nlspi_ipc_work cfg ops task s =
      (let (r, m) = fetch_rx_len_func hdr 0 245 in do {
         buf \<leftarrow> mem_write (rx_buffer s) 0 (if r \<noteq> 0 then [] else take m stream);
         (result, s4) \<leftarrow> check_crc_and_dispatch cfg ops hdr (word_of_nat m - 1) (s3\<lparr>rx_buffer := buf\<rparr>);
         if HAS_ACK_MODE cfg \<and> (result = -1 \<or> result = 1)
         then do {
           (_, s6) \<leftarrow> nlspi_ipc_send cfg ops task (if result = 1 then OPCODE_ACK cfg else OPCODE_NAK cfg) [] (say [Give_mutex] s4);
           Some s6 }
         else Some (say [Give_mutex] s4) })"
    using work_fetches [OF assms(1), of task] by blast
  obtain r m where f: "fetch_rx_len_func hdr 0 245 = (r, m)" by fastforce
  have plain: "\<not> (HAS_ACK_MODE cfg \<and> s_use_ack_nak_mode (s3\<lparr>rx_buffer := buf\<rparr>))" for buf using assms(2) s3(3) by simp
  have "nlspi_ipc_work cfg ops task s = do {
         buf \<leftarrow> mem_write (rx_buffer s) 0 (if r \<noteq> 0 then [] else take m stream);
         (_, s4) \<leftarrow> check_crc_and_dispatch cfg ops hdr (word_of_nat m - 1) (s3\<lparr>rx_buffer := buf\<rparr>);
         Some (say [Give_mutex] s4) }"
    unfolding work f Let_def prod.case
    by (intro Option.bind_cong refl) (auto dest!: dispatch_plain_result [OF plain])
  with f s3 assms(2) show ?thesis by (intro exI [of _ s3]) simp
qed

lemma fetch_rx_len_cases:
  "fetch_rx_len_func hdr 0 245 =
     (if fst hdr = 0 then (IPC_RESULT_NO_MSG, 245)
      else if unat (fst hdr - 2) > 245 then (IPC_RESULT_RX_BUF_TOO_SMALL, 245) else (0, unat (fst hdr - 2)))"
  by (simp add: fetch_rx_len_func_def MAX_IPC_DATA_LEN_FROM_SLAVE_def Let_def)

lemma unat_max8: "unat (-1 :: u8) = 255"
  by (simp add: unsigned_minus_1_eq_mask mask_eq_exp_minus_1)

lemma unat_pred8: "(x :: u8) \<noteq> 0 \<Longrightarrow> unat (x - 1) = unat x - 1"
  by (simp add: unat_minus_one)

text \<open>A dispatch in plain mode leaves the buffer exactly when the data and the CRC do not fit.\<close>

lemma dispatch_plain:
  assumes "\<not> (HAS_ACK_MODE cfg \<and> s_use_ack_nak_mode s)"
  shows "check_crc_and_dispatch cfg ops hdr n s =
    (if fst hdr = 0 then Some (0, s)
     else if unat n < length (rx_buffer s)
     then Some (0, say [if crc8_ccitt_append ops (crc8_ccitt ops [fst hdr, snd hdr]) (take (unat n) (rx_buffer s)) \<noteq> rx_buffer s ! unat n
                        then Rx_corrupt (snd hdr) (take (unat n) (rx_buffer s))
                        else Rx_data (snd hdr) (take (unat n) (rx_buffer s))] s)
     else None)"
  using assms by (auto simp: check_crc_and_dispatch_def mem_read_def arr_get_def)

text \<open>In acknowledge mode two bytes of CRC follow the data: a release build accepts either, another one wants both.\<close>

definition crcs_accepted :: "ipc_cfg \<Rightarrow> u8 \<Rightarrow> u8 \<Rightarrow> u8 \<Rightarrow> bool" where
  "crcs_accepted cfg crc c d \<longleftrightarrow> (if CONFIG_RELEASE cfg then c = crc \<or> d = crc else c = crc \<and> d = crc)"

lemma dispatch_acked:
  assumes "HAS_ACK_MODE cfg" "s_use_ack_nak_mode s" "fst hdr \<noteq> 0" "unat (n - 1) + 1 < length (rx_buffer s)"
  shows "check_crc_and_dispatch cfg ops hdr n s =
    (let k = unat (n - 1); data = take k (rx_buffer s);
         ok = crcs_accepted cfg (crc8_ccitt_append ops (crc8_ccitt ops [fst hdr, snd hdr]) data) (rx_buffer s ! k) (rx_buffer s ! (k + 1))
     in Some (if ok then 1 else -1, say [if ok then Rx_data (snd hdr) data else Rx_corrupt (snd hdr) data] s))"
  using assms by (auto simp: check_crc_and_dispatch_def mem_read_def arr_get_def crc_matches_def crcs_accepted_def Let_def)

text \<open>
  Whatever length byte the slave sends, receiving stays inside the receive buffer, with one
  exception: a length byte of 2, for which the data length wraps around to 255 and the CRC is computed
  over memory behind the buffer.
\<close>

theorem nlspi_ipc_work_bounds:
  assumes "listening cfg ops s hdr stream" "\<not> (HAS_ACK_MODE cfg \<and> s_use_ack_nak_mode s)"
  shows "nlspi_ipc_work cfg ops task s = None \<longleftrightarrow> fst hdr = 2"
proof -
  have len: "length (rx_buffer s) = 245"
    using assms(1) by (simp add: listening_def ipc_inv_def MAX_IPC_DATA_LEN_FROM_SLAVE_def)
  obtain s3 where s3: "rx_buffer s3 = rx_buffer s" "\<not> (HAS_ACK_MODE cfg \<and> s_use_ack_nak_mode s3)"
    "nlspi_ipc_work cfg ops task s =
      (let (r, m) = fetch_rx_len_func hdr 0 245 in do {
         buf \<leftarrow> mem_write (rx_buffer s) 0 (if r \<noteq> 0 then [] else take m stream);
         (_, s4) \<leftarrow> check_crc_and_dispatch cfg ops hdr (word_of_nat m - 1) (s3\<lparr>rx_buffer := buf\<rparr>);
         Some (say [Give_mutex] s4) })"
    using work_dispatches [OF assms, of task] by blast
  have wrap: "(word_of_nat (unat (fst hdr - 2)) :: u8) - 1 = fst hdr - 3" by simp
  have three: "unat (fst hdr - 3) < 245" if "fst hdr \<noteq> 2" "unat (fst hdr - 2) \<le> 245"
  proof -
    have "fst hdr - 2 \<noteq> 0" using that(1) by simp
    from unat_pred8 [OF this] that(2) show ?thesis by (simp add: diff_diff_eq)
  qed
  consider (none) "fst hdr = 0" | (two) "fst hdr = 2" | (long) "fst hdr \<noteq> 0" "fst hdr \<noteq> 2" "245 < unat (fst hdr - 2)"
    | (fits) "fst hdr \<noteq> 0" "fst hdr \<noteq> 2" "unat (fst hdr - 2) \<le> 245" by linarith
  then show ?thesis
  proof cases
    case fits
    then have "length (take (unat (fst hdr - 2)) stream) \<le> 245" by simp
    with fits s3 len three show ?thesis
      by (simp add: fetch_rx_len_cases dispatch_plain mem_write_def wrap)
  qed (use s3 len in \<open>simp_all add: fetch_rx_len_cases dispatch_plain mem_write_def ipc_results unat_max8\<close>)
qed


text \<open>The frame of a message, and what the callback lets through of it.\<close>

lemma frame_fields:
  assumes "concat (frame_segs ops opcode data) = [len, op] @ body @ [crc]" "length data \<le> MAX_IPC_DATA_LEN_FROM_SLAVE"
    and "\<And>c. crc8_ccitt_append ops c [] = c"
  shows "len = word_of_nat (length data) + 3" "op = opcode" "body = data"
    "crc = crc8_ccitt_append ops (crc8_ccitt ops [len, op]) data"
proof -
  have "unat (word_of_nat (length data) :: u8) = length data"
    using assms(2) by (simp add: MAX_IPC_DATA_LEN_FROM_SLAVE_def unat_of_nat take_bit_nat_eq_self)
  then have "(word_of_nat (length data) :: u8) = 0 \<longleftrightarrow> data = []" by (metis length_0_conv unat_eq_zero)
  then show "len = word_of_nat (length data) + 3" "op = opcode" "body = data"
     "crc = crc8_ccitt_append ops (crc8_ccitt ops [len, op]) data"
    using assms(1,3) by (auto simp: frame_segs_def Let_def split: if_splits)
qed

lemma unat_u8: "n < 256 \<Longrightarrow> unat (word_of_nat n :: u8) = n"
  by (simp add: unat_of_nat take_bit_nat_eq_self)

lemma work_delivers:
  assumes "length data \<le> MAX_IPC_DATA_LEN_FROM_SLAVE" "len = word_of_nat (length data) + 3"
    and slave: "listening cfg ops s (len, op) (data @ [c] @ rest)" "\<not> (HAS_ACK_MODE cfg \<and> s_use_ack_nak_mode s)"
  shows "\<exists>s'. nlspi_ipc_work cfg ops task s = Some s' \<and> calls s' = calls s @ open_calls s @ close_calls @
    [if c = crc8_ccitt_append ops (crc8_ccitt ops [len, op]) data then Rx_data op data else Rx_corrupt op data, Give_mutex]"
proof -
  have size: "length data < 245" using assms(1) by (simp add: MAX_IPC_DATA_LEN_FROM_SLAVE_def)
  have n: "unat (word_of_nat (length data) :: u8) = length data" using size by (intro unat_u8) simp
  have "len - 2 = word_of_nat (length data + 1)" using assms(2) by simp
  then have m: "unat (len - 2) = length data + 1" using size by (simp add: unat_u8 del: of_nat_add of_nat_Suc)
  then have ne: "len \<noteq> 0" using size by auto
  obtain s3 where s3: "rx_buffer s3 = rx_buffer s" "calls s3 = calls s @ open_calls s @ close_calls"
    "\<not> (HAS_ACK_MODE cfg \<and> s_use_ack_nak_mode s3)"
    "nlspi_ipc_work cfg ops task s =
      (let (r, m) = fetch_rx_len_func (len, op) 0 245 in do {
         buf \<leftarrow> mem_write (rx_buffer s) 0 (if r \<noteq> 0 then [] else take m (data @ [c] @ rest));
         (_, s4) \<leftarrow> check_crc_and_dispatch cfg ops (len, op) (word_of_nat m - 1) (s3\<lparr>rx_buffer := buf\<rparr>);
         Some (say [Give_mutex] s4) })"
    using work_dispatches [OF slave, of task] by blast
  have "length (rx_buffer s) = 245" using slave(1) by (simp add: listening_def ipc_inv_def MAX_IPC_DATA_LEN_FROM_SLAVE_def)
  with s3 size m ne n show ?thesis
    by (auto simp: fetch_rx_len_cases dispatch_plain mem_write_def nth_append)
qed

lemma work_delivers_acked:
  assumes "length data < MAX_IPC_DATA_LEN_FROM_SLAVE" "len = word_of_nat (length data) + 4"
    and slave: "listening cfg ops s (len, op) (data @ [c, d] @ rest)" "HAS_ACK_MODE cfg" "s_use_ack_nak_mode s"
  defines "ok \<equiv> crcs_accepted cfg (crc8_ccitt_append ops (crc8_ccitt ops [len, op]) data) c d"
  shows "\<exists>s4. calls s4 = calls s @ open_calls s @ close_calls @ [if ok then Rx_data op data else Rx_corrupt op data, Give_mutex] \<and>
    nlspi_ipc_work cfg ops task s =
      map_option snd (nlspi_ipc_send cfg ops task (if ok then OPCODE_ACK cfg else OPCODE_NAK cfg) [] s4)"
proof -
  have size: "length data < 244" using assms(1) by (simp add: MAX_IPC_DATA_LEN_FROM_SLAVE_def)
  have "len - 2 = word_of_nat (length data + 2)" using assms(2) by simp
  then have m: "unat (len - 2) = length data + 2" using size by (simp add: unat_u8 del: of_nat_add of_nat_Suc)
  then have ne: "len \<noteq> 0" using size by auto
  define k :: u8 where "k = word_of_nat (length data + 2) - 1"
  have "k - 1 = word_of_nat (length data)" by (simp add: k_def)
  moreover have "unat (word_of_nat (length data) :: u8) = length data" using size by (intro unat_u8) simp
  ultimately have n: "unat (k - 1) = length data" by simp
  obtain s3 where s3: "rx_buffer s3 = rx_buffer s" "calls s3 = calls s @ open_calls s @ close_calls" "s_use_ack_nak_mode s3"
    "nlspi_ipc_work cfg ops task s =
      (let (r, m) = fetch_rx_len_func (len, op) 0 245 in do {
         buf \<leftarrow> mem_write (rx_buffer s) 0 (if r \<noteq> 0 then [] else take m (data @ [c, d] @ rest));
         (result, s4) \<leftarrow> check_crc_and_dispatch cfg ops (len, op) (word_of_nat m - 1) (s3\<lparr>rx_buffer := buf\<rparr>);
         if HAS_ACK_MODE cfg \<and> (result = -1 \<or> result = 1)
         then do {
           (_, s6) \<leftarrow> nlspi_ipc_send cfg ops task (if result = 1 then OPCODE_ACK cfg else OPCODE_NAK cfg) [] (say [Give_mutex] s4);
           Some s6 }
         else Some (say [Give_mutex] s4) })"
    using work_fetches [OF slave(1), of task] slave(3) by blast
  have len: "length (rx_buffer s) = 245" using slave(1) by (simp add: listening_def ipc_inv_def MAX_IPC_DATA_LEN_FROM_SLAVE_def)
  define buf where "buf = data @ [c, d] @ drop (length data + 2) (rx_buffer s)"
  have buf: "mem_write (rx_buffer s) 0 (data @ [c, d]) = Some buf" "length buf = 245"
    "take (length data) buf = data" "buf ! length data = c" "buf ! (length data + 1) = d"
    using len size by (simp_all add: mem_write_def buf_def nth_append)
  define s4 where "s4 = say [if ok then Rx_data op data else Rx_corrupt op data] (s3\<lparr>rx_buffer := buf\<rparr>)"
  have disp: "check_crc_and_dispatch cfg ops (len, op) k (s3\<lparr>rx_buffer := buf\<rparr>) = Some (if ok then 1 else -1, s4)"
    using dispatch_acked [OF slave(2), of "s3\<lparr>rx_buffer := buf\<rparr>" "(len, op)" k ops] s3(3) ne buf size
    by (simp add: n ok_def s4_def Let_def)
  have fetch: "fetch_rx_len_func (len, op) 0 245 = (0, length data + 2)"
    using ne m size by (simp add: fetch_rx_len_cases)
  have "nlspi_ipc_work cfg ops task s = do {
      (_, s6) \<leftarrow> nlspi_ipc_send cfg ops task (if ok then OPCODE_ACK cfg else OPCODE_NAK cfg) [] (say [Give_mutex] s4); Some s6 }"
    unfolding s3(4) fetch Let_def prod.case k_def [symmetric] using slave(2) buf(1) disp by simp
  also have "\<dots> = map_option snd (nlspi_ipc_send cfg ops task (if ok then OPCODE_ACK cfg else OPCODE_NAK cfg) [] (say [Give_mutex] s4))"
    by (cases "nlspi_ipc_send cfg ops task (if ok then OPCODE_ACK cfg else OPCODE_NAK cfg) [] (say [Give_mutex] s4)") auto
  finally show ?thesis using s3(2) by (intro exI [of _ "say [Give_mutex] s4"]) (simp add: s4_def)
qed

text \<open>
  C16: a frame is delivered as it was sent, in the build with the RTOS and on an initialised link, when
  the task of \<open>nlspi_ipc_work\<close> finds SRDY low and the edge comes while it waits. Outside of the acknowledge
  mode, a slave that frames a message of at most 244 bytes as \<open>nlspi_ipc_send\<close> does has it handed to the
  receive handler with its opcode and its data, inside the bracket of mutex, bus and pins; with another
  CRC byte the corruption handler gets it. In acknowledge mode the slave's frame has a second byte of CRC,
  counted in its length, and at most 243 bytes of data: the receive handler gets it if the CRC bytes are
  accepted, either of them in a release build and both in another one, otherwise the corruption handler;
  and after the bracket the work function sends ACK or NAK accordingly and ends as this does. The CRC of
  the library does not change when nothing is appended, and a transfer behaves as documented: after the
  header its callback decides how many bytes of the slave's stream follow. What becomes in acknowledge
  mode of a frame with one CRC byte, as \<open>nlspi_ipc_send\<close> itself sends it, is not stated here.
\<close>

theorem nlspi_ipc_frame_roundtrip:
  assumes frame: "concat (frame_segs ops opcode data) = [len, op] @ body @ [crc]"
    and size: "length data \<le> MAX_IPC_DATA_LEN_FROM_SLAVE"
    and crc: "\<And>c. crc8_ccitt_append ops c [] = c"
  shows "(listening cfg ops s (len, op) (body @ [c] @ rest) \<and> \<not> (HAS_ACK_MODE cfg \<and> s_use_ack_nak_mode s) \<longrightarrow>
      (\<exists>s'. nlspi_ipc_work cfg ops task s = Some s' \<and>
        calls s' = calls s @ open_calls s @ close_calls @ [if c = crc then Rx_data opcode data else Rx_corrupt opcode data, Give_mutex])) \<and>
    (listening cfg ops s (len + 1, op) (body @ [c, d] @ rest) \<and> HAS_ACK_MODE cfg \<and> s_use_ack_nak_mode s \<and>
      length data < MAX_IPC_DATA_LEN_FROM_SLAVE \<longrightarrow>
      (let ok = crcs_accepted cfg (crc8_ccitt_append ops (crc8_ccitt ops [len + 1, op]) data) c d in
       \<exists>s4. calls s4 = calls s @ open_calls s @ close_calls @ [if ok then Rx_data opcode data else Rx_corrupt opcode data, Give_mutex] \<and>
         nlspi_ipc_work cfg ops task s =
           map_option snd (nlspi_ipc_send cfg ops task (if ok then OPCODE_ACK cfg else OPCODE_NAK cfg) [] s4)))"
proof -
  note f = frame_fields [OF frame size crc]
  have len: "len + 1 = word_of_nat (length data) + 4" using f(1) by simp
  show ?thesis
    using work_delivers [OF size f(1), of cfg ops s op c rest task]
      work_delivers_acked [of data "len + 1" cfg ops s op c d rest task] len
    unfolding Let_def f(2,3) f(4) [unfolded f(2)] by blast
qed

text \<open>A slave that is connected and answers: the edge comes in time and the transfer yields \<open>e\<close>, \<open>hdr\<close> and \<open>rx\<close>.\<close>

definition answering :: "ipc_cfg \<Rightarrow> 'w ipc_ops \<Rightarrow> 'w ipc_state \<Rightarrow> u8 \<Rightarrow> u8 list \<Rightarrow> int \<Rightarrow> u8 \<times> u8 \<Rightarrow> u8 list \<Rightarrow> bool" where
  "answering cfg ops s opcode data e hdr rx \<longleftrightarrow> ipc_inv s \<and> sInitialized s \<and> \<not> NO_RTOS cfg \<and>
     \<not> (HAS_ACK_MODE cfg \<and> s_use_ack_nak_mode s) \<and>
     (\<exists>w1 w2 w3. slave_connected ops (env s) = (True, w1) \<and> srdy_rises ops w1 = (Waiting, w2) \<and>
        xfer_send ops (frame_segs ops opcode data) w2 = ((e, hdr, rx), w3) \<and>
        (\<forall>n. length (snd (fst (xfer_recv ops n w3))) = n))"

lemma send_dispatches:
  assumes "answering cfg ops s opcode data e hdr rx"
  shows "\<exists>s2 w3. rx_buffer s2 = rx_buffer s \<and> \<not> (HAS_ACK_MODE cfg \<and> s_use_ack_nak_mode s2) \<and>
    ask (xfer_send ops (frame_segs ops opcode data)) s2 = ((e, hdr, rx), s2\<lparr>env := w3\<rparr>) \<and>
    (\<forall>n. length (snd (fst (xfer_recv ops n w3))) = n) \<and>
    nlspi_ipc_send cfg ops task opcode data s = do {
      ((_, h, n), s3) \<leftarrow> ipc_exchange ops opcode data s2;
      (result, s4) \<leftarrow> check_crc_and_dispatch cfg ops h n (end_handshake cfg 6 s3);
      let s5 = say [Give_mutex] s4;
      if HAS_ACK_MODE cfg \<and> (result = -1 \<or> result = 1)
      then do {
        (_, s6) \<leftarrow> nlspi_ipc_send cfg ops task (if result = 1 then OPCODE_ACK cfg else OPCODE_NAK cfg) [] s5;
        Some (result, s6) }
      else Some (result, s5) }"
proof -
  from assms obtain w1 w2 w3 where env: "slave_connected ops (env s) = (True, w1)" "srdy_rises ops w1 = (Waiting, w2)"
      "xfer_send ops (frame_segs ops opcode data) w2 = ((e, hdr, rx), w3)" "\<forall>n. length (snd (fst (xfer_recv ops n w3))) = n"
      and inv: "ipc_inv s" and init: "sInitialized s" "\<not> NO_RTOS cfg" "\<not> (HAS_ACK_MODE cfg \<and> s_use_ack_nak_mode s)"
    unfolding answering_def by blast
  have "ipc_inv (s\<lparr>env := w1\<rparr>)" using inv by (simp add: ipc_inv_def)
  from handshake_runs [OF this init(2), of ops w2 task 5] env(2)
  obtain s2 where s2: "await_srdy cfg ops task (begin_handshake 5 (say [Take_mutex] (s\<lparr>env := w1\<rparr>))) = Some (True, s2)"
      "rx_buffer s2 = rx_buffer s" "env s2 = w2" "s_use_ack_nak_mode s2 = s_use_ack_nak_mode s" by auto
  have lock: "lock_calls cfg c = [c]" for c using init(2) by (simp add: lock_calls_def)
  have "ask (xfer_send ops (frame_segs ops opcode data)) s2 = ((e, hdr, rx), s2\<lparr>env := w3\<rparr>)"
    using s2(3) env(3) by (simp add: ask_def)
  with s2 init env show ?thesis
    by (intro exI [of _ s2] exI [of _ w3]) (simp add: nlspi_ipc_send.simps [of cfg ops task opcode data s] ask_def lock)
qed

lemma dispatch_after_exchange:
  assumes "\<not> NO_RTOS cfg" "\<not> (HAS_ACK_MODE cfg \<and> s_use_ack_nak_mode s3)"
  shows "check_crc_and_dispatch cfg ops hdr n (end_handshake cfg 6 s3) = None \<longleftrightarrow>
      fst hdr \<noteq> 0 \<and> length (rx_buffer s3) \<le> unat n"
    "check_crc_and_dispatch cfg ops hdr n (end_handshake cfg 6 s3) = Some (r, s4) \<Longrightarrow> r = 0"
  using assms dispatch_plain [of cfg "end_handshake cfg 6 s3" ops hdr n]
  by (auto simp: end_handshake_fields [OF assms(1)] split: if_splits)

lemma exchange_frame:
  assumes "ipc_exchange ops opcode data s = Some (r, s')"
  shows "s_use_ack_nak_mode s' = s_use_ack_nak_mode s" "length (rx_buffer s') = length (rx_buffer s)"
  using assms
  by (auto simp: ipc_exchange_def Let_def ask_def dest!: mem_write_length elim!: bind_SomeE split: if_splits prod.splits)

text \<open>In plain mode sending returns 0 when the exchange stays in the buffer and leaves a frame that fits.\<close>

lemma send_outcome:
  assumes "answering cfg ops s opcode data e hdr rx"
  obtains s2 w3 where "rx_buffer s2 = rx_buffer s"
    "ask (xfer_send ops (frame_segs ops opcode data)) s2 = ((e, hdr, rx), s2\<lparr>env := w3\<rparr>)"
    "\<And>n. length (snd (fst (xfer_recv ops n w3))) = n"
    "ipc_exchange ops opcode data s2 = None \<Longrightarrow> nlspi_ipc_send cfg ops task opcode data s = None"
    "\<And>r h n s3. ipc_exchange ops opcode data s2 = Some ((r, h, n), s3) \<Longrightarrow> fst h \<noteq> 0 \<Longrightarrow> length (rx_buffer s) \<le> unat n \<Longrightarrow>
       nlspi_ipc_send cfg ops task opcode data s = None"
    "\<And>r h n s3. ipc_exchange ops opcode data s2 = Some ((r, h, n), s3) \<Longrightarrow> fst h = 0 \<or> unat n < length (rx_buffer s) \<Longrightarrow>
       \<exists>s'. nlspi_ipc_send cfg ops task opcode data s = Some (0, s')"
proof -
  obtain s2 w3 where s2: "rx_buffer s2 = rx_buffer s" "\<not> (HAS_ACK_MODE cfg \<and> s_use_ack_nak_mode s2)"
    "ask (xfer_send ops (frame_segs ops opcode data)) s2 = ((e, hdr, rx), s2\<lparr>env := w3\<rparr>)"
    "\<And>n. length (snd (fst (xfer_recv ops n w3))) = n"
    "nlspi_ipc_send cfg ops task opcode data s = do {
      ((_, h, n), s3) \<leftarrow> ipc_exchange ops opcode data s2;
      (result, s4) \<leftarrow> check_crc_and_dispatch cfg ops h n (end_handshake cfg 6 s3);
      let s5 = say [Give_mutex] s4;
      if HAS_ACK_MODE cfg \<and> (result = -1 \<or> result = 1)
      then do {
        (_, s6) \<leftarrow> nlspi_ipc_send cfg ops task (if result = 1 then OPCODE_ACK cfg else OPCODE_NAK cfg) [] s5;
        Some (result, s6) }
      else Some (result, s5) }"
    using send_dispatches [OF assms, of task] by blast
  have rtos: "\<not> NO_RTOS cfg" using assms by (simp add: answering_def)
  have x: "length (rx_buffer s3) = length (rx_buffer s)" "\<not> (HAS_ACK_MODE cfg \<and> s_use_ack_nak_mode s3)"
    if "ipc_exchange ops opcode data s2 = Some (r, s3)" for r s3
    using exchange_frame [OF that] s2(1,2) by auto
  show thesis
  proof (rule that [OF s2(1,3,4)])
    show "nlspi_ipc_send cfg ops task opcode data s = None" if "ipc_exchange ops opcode data s2 = None"
      using that s2(5) by simp
  next
    fix r h n s3
    assume e: "ipc_exchange ops opcode data s2 = Some ((r, h, n), s3)"
    note d = dispatch_after_exchange [OF rtos x(2) [OF e], of ops h n]
    show "nlspi_ipc_send cfg ops task opcode data s = None" if "fst h \<noteq> 0" "length (rx_buffer s) \<le> unat n"
      using that s2(5) e d(1) x(1) [OF e] by simp
    show "\<exists>s'. nlspi_ipc_send cfg ops task opcode data s = Some (0, s')" if "fst h = 0 \<or> unat n < length (rx_buffer s)"
    proof -
      have "check_crc_and_dispatch cfg ops h n (end_handshake cfg 6 s3) \<noteq> None"
        using that d(1) x(1) [OF e] by (auto simp: not_le)
      then obtain res s4 where c: "check_crc_and_dispatch cfg ops h n (end_handshake cfg 6 s3) = Some (res, s4)"
        by auto
      with d(2) s2(5) e show ?thesis by simp
    qed
  qed
qed

text \<open>The exchange of a frame, by the length byte of the answer: it stays in the buffer, or not.\<close>

lemma exchange_received:
  assumes len: "length (rx_buffer s) = 245" and rx: "length rx = length data + 1" and data: "length data \<le> 244"
    and sent: "ask (xfer_send ops (frame_segs ops opcode data)) s = ((0, hdr, rx), s\<lparr>env := w\<rparr>)"
    and recv: "\<And>n. length (snd (fst (xfer_recv ops n w))) = n"
  shows "if fst hdr = 0 \<or> unat (fst hdr - 3) \<le> 244
    then \<exists>r h n t. ipc_exchange ops opcode data s = Some ((r, h, n), t) \<and> (fst h = 0 \<or> unat n < 245)
    else ipc_exchange ops opcode data s = None \<or>
      (\<exists>r h n t. ipc_exchange ops opcode data s = Some ((r, h, n), t) \<and> fst h \<noteq> 0 \<and> 245 \<le> unat n)"
proof -
  let ?n = "fst hdr - 3" and ?d = "word_of_nat (length data) :: u8"
  have dl: "unat ?d = length data" using data by (simp add: unat_of_nat take_bit_nat_eq_self)
  obtain res more w4 where r: "xfer_recv ops (unat (?n - ?d)) w = ((res, more), w4)" by (metis prod.exhaust)
  with recv have more: "length more = unat (?n - ?d)" by (metis fst_conv snd_conv)
  define t where "t = s\<lparr>env := w, rx_buffer := rx @ drop (length rx) (rx_buffer s)\<rparr>"
  have t: "length (rx_buffer t) = 245" "env t = w" using rx len data by (simp_all add: t_def)
  have wr: "mem_write (rx_buffer t) (length data + 1) more = None \<longleftrightarrow> 244 < unat ?n" if "?d < ?n"
  proof -
    have "unat (?n - ?d) = unat ?n - length data" using that dl by (simp add: unat_sub order_less_imp_le)
    then have "length data + 1 + length more = unat ?n + 1"
      using more that dl by (simp add: word_less_nat_alt)
    then show ?thesis using t(1) by (auto simp: mem_write_def)
  qed
  have rx245: "length rx \<le> 245" using rx data by simp
  have first: "ipc_exchange ops opcode data s = (if fst hdr = 0 then Some ((0, hdr, 0), t)
     else if unat ?n \<le> 245 then if ?d < ?n
       then do { buf \<leftarrow> mem_write (rx_buffer t) (length data + 1) more; Some ((res, hdr, ?n), t\<lparr>env := w4, rx_buffer := buf\<rparr>) }
       else Some ((0, hdr, ?n), t)
     else Some ((IPC_RESULT_RX_BUF_TOO_SMALL, hdr, ?n), t))"
    using sent len rx245 dl r t(1) by (auto simp: ipc_exchange_def ask_def Let_def t(2) t_def [symmetric])
  show ?thesis
  proof (cases "fst hdr = 0 \<or> unat ?n \<le> 244")
    case True
    with first wr show ?thesis by (cases "?d < ?n") auto
  next
    case False
    then have "unat ?n = 245 \<and> ?d < ?n \<or> 245 < unat ?n"
      using dl data by (auto simp: word_less_nat_alt)
    with first wr False show ?thesis by (cases hdr) auto
  qed
qed

text \<open>
  C18: when sending stays inside the receive buffer. In the build with the RTOS, outside of the
  acknowledge mode, on an initialised link with a connected slave whose edge of SRDY comes while the task
  waits, for a message of at most 244 bytes, a first transfer that succeeds and receives as many bytes as
  are sent after the header, and a controller that receives what it is asked for: an answer is received
  inside the buffer when its data and CRC fit or it is empty (length byte 0), and sending then returns 0;
  for the length bytes 1 and 2 and those above 247 the code leaves the receive buffer, since the data
  length wraps around or the check admits one byte too many. In acknowledge mode, where a dispatch
  gives 1 or -1 and an ACK or NAK is sent after it, this is not stated.
\<close>

theorem nlspi_ipc_send_bounds:
  assumes "answering cfg ops s opcode data 0 hdr rx" "length rx = length data + 1"
    and "length data \<le> MAX_IPC_DATA_LEN_FROM_SLAVE"
  shows "if fst hdr = 0 \<or> unat (fst hdr - 3) \<le> MAX_IPC_DATA_LEN_FROM_SLAVE
         then \<exists>s'. nlspi_ipc_send cfg ops task opcode data s = Some (0, s')
         else nlspi_ipc_send cfg ops task opcode data s = None"
proof -
  have len: "length (rx_buffer s) = 245"
    using assms(1) by (simp add: answering_def ipc_inv_def MAX_IPC_DATA_LEN_FROM_SLAVE_def)
  obtain s2 w3 where s2: "rx_buffer s2 = rx_buffer s"
    "ask (xfer_send ops (frame_segs ops opcode data)) s2 = ((0, hdr, rx), s2\<lparr>env := w3\<rparr>)"
    "\<And>n. length (snd (fst (xfer_recv ops n w3))) = n"
    and out: "ipc_exchange ops opcode data s2 = None \<Longrightarrow> nlspi_ipc_send cfg ops task opcode data s = None"
    "\<And>r h n s3. ipc_exchange ops opcode data s2 = Some ((r, h, n), s3) \<Longrightarrow> fst h \<noteq> 0 \<Longrightarrow> length (rx_buffer s) \<le> unat n \<Longrightarrow>
       nlspi_ipc_send cfg ops task opcode data s = None"
    "\<And>r h n s3. ipc_exchange ops opcode data s2 = Some ((r, h, n), s3) \<Longrightarrow> fst h = 0 \<or> unat n < length (rx_buffer s) \<Longrightarrow>
       \<exists>s'. nlspi_ipc_send cfg ops task opcode data s = Some (0, s')"
    using send_outcome [OF assms(1), of task] by metis
  have "length data \<le> 244" using assms(3) by (simp add: MAX_IPC_DATA_LEN_FROM_SLAVE_def)
  note ex = exchange_received [OF len [folded s2(1)] assms(2) this s2(2,3)]
  show ?thesis
  proof (cases "fst hdr = 0 \<or> unat (fst hdr - 3) \<le> 244")
    case True
    with ex out(3) show ?thesis unfolding len by (auto simp: MAX_IPC_DATA_LEN_FROM_SLAVE_def)
  next
    case False
    with ex out(1,2) show ?thesis unfolding len by (auto simp: MAX_IPC_DATA_LEN_FROM_SLAVE_def)
  qed
qed

text \<open>
  A failed transfer is not reported: whatever error the controller returns, sending returns 0.
\<close>

theorem nlspi_ipc_send_hides_errors:
  assumes "answering cfg ops s opcode data e hdr rx" "length rx \<le> MAX_IPC_DATA_LEN_FROM_SLAVE" "e \<noteq> 0"
  shows "\<exists>s'. nlspi_ipc_send cfg ops task opcode data s = Some (0, s')"
proof -
  have len: "length (rx_buffer s) = 245" "length rx \<le> 245"
    using assms(1,2) by (simp_all add: answering_def ipc_inv_def MAX_IPC_DATA_LEN_FROM_SLAVE_def)
  obtain s2 w3 where s2: "rx_buffer s2 = rx_buffer s"
    "ask (xfer_send ops (frame_segs ops opcode data)) s2 = ((e, hdr, rx), s2\<lparr>env := w3\<rparr>)"
    and out: "\<And>r h n s3. ipc_exchange ops opcode data s2 = Some ((r, h, n), s3) \<Longrightarrow> fst h = 0 \<or> unat n < length (rx_buffer s) \<Longrightarrow>
       \<exists>s'. nlspi_ipc_send cfg ops task opcode data s = Some (0, s')"
    using send_outcome [OF assms(1), of task] by metis
  have "\<exists>s3. ipc_exchange ops opcode data s2 = Some ((e, hdr, 0), s3)"
    using s2 len assms(3) by (simp add: ipc_exchange_def mem_write_def)
  with out len show ?thesis by fastforce
qed


text \<open>
  When the edge of SRDY comes just after the wait has timed out, the interrupt is released twice
  and the notification stays pending, so that the next message of the same task is reported as timed
  out although the slave answers in time.
\<close>

theorem nlspi_ipc_late_edge:
  assumes "ipc_inv s" "sInitialized s" "\<not> NO_RTOS cfg"
    and "slave_connected ops (env s) = (True, w1)" "srdy_rises ops w1 = (Late, w2)"
    and "slave_connected ops w2 = (True, w3)" "srdy_rises ops w3 = (Waiting, w4)"
  shows "\<exists>s1 s2. nlspi_ipc_send cfg ops task opcode data s = Some (IPC_RESULT_SRDY_TIMEOUT, s1) \<and> lines_now s1 = None \<and>
    nlspi_ipc_send cfg ops task opcode' data' s1 = Some (IPC_RESULT_SRDY_TIMEOUT, s2)"
proof -
  have lock: "lock_calls cfg c = [c]" for c using assms(3) by (simp add: lock_calls_def)
  let ?b = "begin_handshake 5 (say [Take_mutex] (s\<lparr>env := w1\<rparr>))"
  have n: "notified ?b = (\<lambda>_. 0)" using assms(1) by (simp add: ipc_inv_def begin_handshake_def)
  have e: "env ?b = w1" "sInitialized ?b" using assms(2) by (simp_all add: begin_handshake_def)
  obtain u where u: "await_srdy cfg ops task ?b = Some (False, u)" "notified u task = 1" "env u = w2" "sInitialized u"
     "calls u = calls ?b @ [Irq_release]"
    using assms(3,5) n e by (simp add: await_srdy_def ask_def srdy_deasserted_isr_def)
  have s1: "nlspi_ipc_send cfg ops task opcode data s = Some (IPC_RESULT_SRDY_TIMEOUT, give_up u)"
    using assms(2,4) u(1) by (simp add: nlspi_ipc_send.simps [of cfg ops task opcode data s] ask_def lock)
  have "lines_now u = Option.bind (lines_now ?b) (follow [Irq_release])"
    using u(5) unfolding lines_now_def by (simp only: follow_append)
  moreover have "lines_now ?b = Some \<lparr>l_mutex = True, l_bus = True, l_mrdy = True, l_irq = Some IRQF_TRIGGER_RISING\<rparr>"
    using assms(1) by (auto simp: ipc_inv_def begin_handshake_def all_free_def)
  ultimately have bad: "lines_now (give_up u) = None" by (simp add: give_up_def)
  let ?c = "begin_handshake 5 (say [Take_mutex] ((give_up u)\<lparr>env := w3\<rparr>))"
  have c: "notified ?c task = 1" "env ?c = w3" "sInitialized ?c"
    using u by (simp_all add: begin_handshake_def give_up_def)
  have g: "env (give_up u) = w2" "sInitialized (give_up u)" using u by (simp_all add: give_up_def)
  obtain v where v: "await_srdy cfg ops task ?c = Some (False, v)"
    using assms(3,7) c by (simp add: await_srdy_def ask_def srdy_deasserted_isr_def)
  have "nlspi_ipc_send cfg ops task opcode' data' (give_up u) = Some (IPC_RESULT_SRDY_TIMEOUT, give_up v)"
    using assms(6) g v by (simp add: nlspi_ipc_send.simps [of cfg ops task opcode' data' "give_up u"] ask_def lock)
  with s1 bad show ?thesis by blast
qed

text \<open>
  C17: when every rising edge of SRDY comes while the task waits for it or not at all, mutex, bus, MRDY
  pin and SRDY interrupt are used in turn, in all builds, from initialisation over any sequence of whole
  operations that return (sending, the work function, switching on the acknowledge mode) and of requests of the slave
  between them: nothing is taken twice or given back twice, everything but the interrupt is free between
  two operations, and \<open>irq_registered\<close> tells whether an interrupt is registered. An edge just after the
  wait has timed out breaks it: the interrupt is then released twice (\<open>nlspi_ipc_late_edge\<close>). Operations
  of several tasks that overlap are not steps here; with the RTOS it is the mutex that keeps them apart.
\<close>

theorem nlspi_ipc_reachable_protocol:
  assumes "edges_in_time ops" "ipc_boot cfg s" "(ipc_step cfg ops)\<^sup>*\<^sup>* s t"
  shows "\<exists>irq. follow (calls t) all_free = Some (all_free\<lparr>l_irq := irq\<rparr>) \<and> (irq = None \<longleftrightarrow> irq_registered t = 0)"
  using ipc.reachable_inv [of ops cfg s t] assms by (auto simp: ipc_inv_def lines_now_def)

section \<open>Witnesses\<close>

definition demo_ipc :: "int \<Rightarrow> u8 \<times> u8 \<Rightarrow> u8 list \<Rightarrow> srdy_edge list ipc_ops" where
  "demo_ipc e hdr stream =
     \<lparr>slave_connected = (\<lambda>w. (True, w)), srdy_value = (\<lambda>w. (False, w)),
      srdy_rises = (\<lambda>w. case w of [] \<Rightarrow> (Never, []) | x # xs \<Rightarrow> (x, xs)),
      xfer_fetch = (\<lambda>cb n w. let (r, m) = cb hdr 0 n in ((r, hdr, m, if r \<noteq> 0 then [] else take m stream), w)),
      xfer_send = (\<lambda>segs w. ((e, hdr, replicate (length (concat segs) - 2) 0), w)),
      xfer_recv = (\<lambda>n w. ((0, replicate n 0), w)),
      crc8_ccitt = sum_list, crc8_ccitt_append = (\<lambda>c xs. c + sum_list xs)\<rparr>"

definition demo_cfg_ipc :: ipc_cfg where
  "demo_cfg_ipc = \<lparr>NO_RTOS = False, HAS_ACK_MODE = False, CONFIG_RELEASE = False,
     OPCODE_ACK = 1, OPCODE_NAK = 2, OPCODE_ENABLE_ACK_MODE = 3\<rparr>"

definition demo_link :: "srdy_edge list \<Rightarrow> srdy_edge list ipc_state" where
  "demo_link es = nlspi_ipc_init demo_cfg_ipc \<lparr>sInitialized = False, irq_registered = 0, s_use_ack_nak_mode = False,
     rx_buffer = replicate 245 0, sTaskToNotify = None, notified = (\<lambda>_. 0), srdy_edge_triggered = False,
     calls = [], env = es\<rparr>"

lemma demo_link_boot: "ipc_boot demo_cfg_ipc (demo_link es)"
  unfolding ipc_boot_def demo_link_def by (intro exI conjI, rule refl) (simp_all add: MAX_IPC_DATA_LEN_FROM_SLAVE_def)

lemma demo_link_fields:
  "ipc_inv (demo_link es)" "sInitialized (demo_link es)" "env (demo_link es) = es"
  "s_use_ack_nak_mode (demo_link es) = False" "\<not> NO_RTOS demo_cfg_ipc" "\<not> HAS_ACK_MODE demo_cfg_ipc"
  using ipc_boot_inv [OF demo_link_boot]
  by (simp_all add: demo_link_def nlspi_ipc_init_def demo_cfg_ipc_def)

lemma demo_listening: "listening demo_cfg_ipc (demo_ipc e hdr stream) (demo_link [Waiting]) hdr stream"
  by (auto simp: listening_def demo_link_fields slave_sends_def demo_ipc_def Let_def split: prod.splits)

lemma demo_answering:
  "answering demo_cfg_ipc (demo_ipc e hdr stream) (demo_link [Waiting]) opcode [7] e hdr [0, 0]"
  by (auto simp: answering_def demo_link_fields demo_ipc_def frame_segs_def)

theorem nlspi_ipc_work_bounds_witness:
  "nlspi_ipc_work demo_cfg_ipc (demo_ipc 0 (2, 9) []) 1 (demo_link [Waiting]) = None \<and>
   nlspi_ipc_work demo_cfg_ipc (demo_ipc 0 (4, 9) [5, 18]) 1 (demo_link [Waiting]) \<noteq> None"
  using nlspi_ipc_work_bounds [OF demo_listening [of 0 "(2, 9)" "[]"], of 1]
    nlspi_ipc_work_bounds [OF demo_listening [of 0 "(4, 9)" "[5, 18]"], of 1] demo_link_fields by simp

text \<open>One link outside of the acknowledge mode, and one in it.\<close>

definition demo_cfg_acks :: ipc_cfg where
  "demo_cfg_acks = demo_cfg_ipc\<lparr>HAS_ACK_MODE := True\<rparr>"

definition demo_link_acks :: "srdy_edge list \<Rightarrow> srdy_edge list ipc_state" where
  "demo_link_acks es = (demo_link es)\<lparr>s_use_ack_nak_mode := True\<rparr>"

lemma demo_listening_acks: "listening demo_cfg_acks (demo_ipc e hdr stream) (demo_link_acks (Waiting # es)) hdr stream"
proof -
  have "ipc_inv (demo_link_acks (Waiting # es))"
    using demo_link_fields(1) [of "Waiting # es"] by (simp add: demo_link_acks_def ipc_inv_def)
  then show ?thesis using demo_link_fields(2,3) [of "Waiting # es"] demo_link_fields(5)
    by (auto simp: listening_def demo_link_acks_def demo_cfg_acks_def slave_sends_def demo_ipc_def Let_def split: prod.splits)
qed

theorem nlspi_ipc_frame_roundtrip_witness:
  "(\<exists>s'. nlspi_ipc_work demo_cfg_ipc (demo_ipc 0 (4, 9) [5, 18]) 1 (demo_link [Waiting]) = Some s' \<and>
    calls s' = calls (demo_link [Waiting]) @ open_calls (demo_link [Waiting]) @ close_calls @ [Rx_data 9 [5], Give_mutex]) \<and>
   (\<exists>s4. calls s4 = calls (demo_link_acks [Waiting]) @ open_calls (demo_link_acks [Waiting]) @ close_calls @ [Rx_data 9 [5], Give_mutex] \<and>
     nlspi_ipc_work demo_cfg_acks (demo_ipc 0 (5, 9) [5, 19, 19]) 1 (demo_link_acks [Waiting]) =
       map_option snd (nlspi_ipc_send demo_cfg_acks (demo_ipc 0 (5, 9) [5, 19, 19]) 1 1 [] s4))"
  using nlspi_ipc_frame_roundtrip [of "demo_ipc 0 (4, 9) [5, 18]" 9 "[5]" 4 9 "[5]" 18 demo_cfg_ipc "demo_link [Waiting]" 18 "[]" 1]
    nlspi_ipc_frame_roundtrip [of "demo_ipc 0 (5, 9) [5, 19, 19]" 9 "[5]" 4 9 "[5]" 18 demo_cfg_acks "demo_link_acks [Waiting]" 19 "[]" 1 19]
    demo_listening [of 0 "(4, 9)" "[5, 18]"] demo_listening_acks [of 0 "(5, 9)" "[5, 19, 19]" "[]"] demo_link_fields
  by (simp add: frame_segs_def MAX_IPC_DATA_LEN_FROM_SLAVE_def demo_ipc_def crcs_accepted_def demo_cfg_acks_def demo_link_acks_def demo_cfg_ipc_def)

theorem nlspi_ipc_send_bounds_witness:
  "nlspi_ipc_send demo_cfg_ipc (demo_ipc 0 (1, 9) []) 1 8 [7] (demo_link [Waiting]) = None"
  using nlspi_ipc_send_bounds [OF demo_answering [of 0 "(1, 9)" "[]" 8], of 1]
  by (simp add: MAX_IPC_DATA_LEN_FROM_SLAVE_def)

theorem nlspi_ipc_send_hides_errors_witness:
  "\<exists>s'. nlspi_ipc_send demo_cfg_ipc (demo_ipc (-5) (0, 0) []) 1 8 [7] (demo_link [Waiting]) = Some (0, s')"
  using nlspi_ipc_send_hides_errors [OF demo_answering [of "-5" "(0, 0)" "[]" 8], of 1]
  by (simp add: MAX_IPC_DATA_LEN_FROM_SLAVE_def)

theorem nlspi_ipc_late_edge_witness:
  "\<exists>s1 s2. nlspi_ipc_send demo_cfg_ipc (demo_ipc 0 (0, 0) []) 1 8 [] (demo_link [Late, Waiting]) = Some (IPC_RESULT_SRDY_TIMEOUT, s1) \<and>
    lines_now s1 = None \<and> nlspi_ipc_send demo_cfg_ipc (demo_ipc 0 (0, 0) []) 1 8 [] s1 = Some (IPC_RESULT_SRDY_TIMEOUT, s2)"
  using nlspi_ipc_late_edge [of "demo_link [Late, Waiting]" demo_cfg_ipc "demo_ipc 0 (0, 0) []" "[Late, Waiting]" "[Waiting]" "[Waiting]" "[]" 1 8 "[]" 8 "[]"]
  by (simp add: demo_link_fields demo_ipc_def)

definition quick_slave :: "unit ipc_ops" where
  "quick_slave = \<lparr>slave_connected = (\<lambda>w. (True, w)), srdy_value = (\<lambda>w. (False, w)), srdy_rises = (\<lambda>w. (Waiting, w)),
     xfer_fetch = (\<lambda>cb n w. ((0, (0, 0), 0, []), w)), xfer_send = (\<lambda>segs w. ((0, (0, 0), []), w)),
     xfer_recv = (\<lambda>n w. ((0, []), w)), crc8_ccitt = sum_list, crc8_ccitt_append = (\<lambda>c xs. c + sum_list xs)\<rparr>"

theorem nlspi_ipc_reachable_protocol_witness:
  "\<exists>irq. follow (calls (nlspi_ipc_init demo_cfg_ipc \<lparr>sInitialized = False, irq_registered = 0, s_use_ack_nak_mode = False,
     rx_buffer = replicate 245 0, sTaskToNotify = None, notified = (\<lambda>_. 0), srdy_edge_triggered = False, calls = [], env = ()\<rparr>)) all_free
    = Some (all_free\<lparr>l_irq := irq\<rparr>)"
proof -
  let ?s0 = "\<lparr>sInitialized = False, irq_registered = 0, s_use_ack_nak_mode = False, rx_buffer = replicate 245 0,
     sTaskToNotify = None, notified = (\<lambda>_. 0), srdy_edge_triggered = False, calls = [], env = ()\<rparr>"
  have "edges_in_time quick_slave" by (simp add: edges_in_time_def quick_slave_def)
  moreover have "ipc_boot demo_cfg_ipc (nlspi_ipc_init demo_cfg_ipc ?s0)"
    unfolding ipc_boot_def by (intro exI [of _ ?s0]) (simp add: MAX_IPC_DATA_LEN_FROM_SLAVE_def)
  ultimately show ?thesis
    using nlspi_ipc_reachable_protocol [of quick_slave demo_cfg_ipc "nlspi_ipc_init demo_cfg_ipc ?s0" "nlspi_ipc_init demo_cfg_ipc ?s0"]
    by blast
qed

end
