(* ===== verification/Nlfs.thy ===== *)
theory Nlfs
  imports Nlflash
begin

text \<open>
  Files on flash partitions, \<open>src/src/nlfs.c\<close>, with the identifiers and the file record of
  \<open>src/include/nlfs.h\<close> and the partition table of \<open>src/include/nlpartition.h\<close>. The operations call the
  flash layer \<open>Nlflash\<close> as it is modelled there. What the product and other libraries provide are
  the fields of \<open>fs_env\<close>: the partition table, the file identifiers of the images, the environment
  variable with the current image, the CRC unit, the ELF loader that looks for a section, and the FAT
  library. \<open>None\<close> is a failing assertion or an index outside a table.

  The lemmas show that the position stays inside the file and every flash access inside the file's
  part of the partition, that what is written is read back, and what a failed open leaves behind.
\<close>

section \<open>Identifiers, partitions and files\<close>

definition GET_PARTITION_TYPE :: "u8 \<Rightarrow> u8" where
  "GET_PARTITION_TYPE x = and (drop_bit 6 x) 3"

definition GET_PARTITION_ID :: "u8 \<Rightarrow> u8" where
  "GET_PARTITION_ID x = and x 0x3f"

definition DEFINE_FILEID :: "u8 \<Rightarrow> u8 \<Rightarrow> u8" where
  "DEFINE_FILEID t i = or (push_bit 6 t) i"

definition PARTITION_TYPE_INT :: u8 where "PARTITION_TYPE_INT = 0"
definition PARTITION_TYPE_EXT :: u8 where "PARTITION_TYPE_EXT = 1"
definition PARTITION_TYPE_EXT_SUB :: u8 where "PARTITION_TYPE_EXT_SUB = 2"

datatype nlfs_file_mode_t = READ_ONLY | WRITE_ONLY
datatype nlfs_origin_pos_t = BEGINNING | CURRENT
datatype nlfs_image_location_t = IMAGE0 | IMAGE1 | INSTALLED | ALTERNATE

record nlpartition_t =
  part_offset :: u32
  part_size :: u32
  isReadOnly :: bool

record nlfs_file_t =
  f_offset :: u32
  currentPos :: u32
  f_len :: u32
  f_context :: u32
  partId :: u8
  partType :: u8
  chipId :: nat
  f_mode :: nlfs_file_mode_t
  isOpen :: bool
  isFat :: bool

text \<open>
  \<open>elf_find read crc seed image name\<close> is \<open>elf_find_section_crc\<close> on the reader that \<open>elf_loader_init\<close>
  sets up: it may call the read and the CRC function and yields its result, the size and the offset of
  the section and the offset of the ELF header.
\<close>

record 'w fs_env =
  flash_tab :: "'w flash_table"
  NLFLASH_INTERNAL :: nat
  NLFLASH_EXTERNAL :: nat
  g_flash_partitions :: "nlpartition_t list"
  g_sub_partition_info :: "cstr list"
  kImage :: u8
  kImage0 :: u8
  kImage1 :: u8
  kCustomAudio :: u8
  MAX_ALLOWED_WAV_LENGTH :: "u32 option"
  HAS_FAT_FILES :: bool
  kImageValue0 :: string
  kImageValue1 :: string
  env_get_current_image :: "'w flash_state \<Rightarrow> (int \<times> string) \<times> 'w flash_state"
  env_set_current_image :: "string \<Rightarrow> 'w flash_state \<Rightarrow> 'w flash_state"
  fs_crc_request :: "'w flash_state \<Rightarrow> 'w flash_state"
  fs_crc_release :: "'w flash_state \<Rightarrow> 'w flash_state"
  fs_crc_compute :: "u32 \<Rightarrow> u8 list \<Rightarrow> u32"
  NL_FS_CRC_SEED :: u32
  elf_find :: "(u32 \<Rightarrow> u32 \<Rightarrow> 'w flash_state \<Rightarrow> ((int \<times> u8 list) \<times> 'w flash_state) option) \<Rightarrow>
     (u8 list \<Rightarrow> u32 \<Rightarrow> int \<times> u32) \<Rightarrow> u32 \<Rightarrow> u32 \<Rightarrow> cstr \<Rightarrow> 'w flash_state \<Rightarrow>
     ((int \<times> u32 \<times> u32 \<times> u32) \<times> 'w flash_state) option"
  nl_fat_init_context :: "u32 \<Rightarrow> nat \<Rightarrow> 'w flash_state \<Rightarrow> int \<times> 'w flash_state"
  nl_fat_deinit_context :: "u32 \<Rightarrow> 'w flash_state \<Rightarrow> 'w flash_state"
  nl_fat_read_file :: "u32 \<Rightarrow> u32 \<Rightarrow> u32 \<Rightarrow> 'w flash_state \<Rightarrow> (int \<times> u8 list) \<times> 'w flash_state"

section \<open>Opening\<close>

definition readFile ::
  "'w fs_env \<Rightarrow> u32 \<Rightarrow> u32 \<Rightarrow> 'w flash_state \<Rightarrow> ((int \<times> u8 list) \<times> 'w flash_state) option" where
  "readFile e from len s = do {
     ((retval, _, buf), s1) \<leftarrow> nlflash_read (flash_tab e) (NLFLASH_EXTERNAL e) from len (0, []) s;
     Some ((retval, buf), s1) }"

definition calcCrc :: "'w fs_env \<Rightarrow> u8 list \<Rightarrow> u32 \<Rightarrow> int \<times> u32" where
  "calcCrc e buf crc_value = (let v = fs_crc_compute e crc_value buf in (sint v, v))"

definition fatfileinit_default :: "'w fs_env \<Rightarrow> u8 \<Rightarrow> u32 \<Rightarrow> 'w flash_state \<Rightarrow> int \<times> 'w flash_state" where
  "fatfileinit_default e part ctx s =
     nl_fat_init_context e ctx (if part = GET_PARTITION_ID (kImage0 e) then 0 else 1) s"

definition fatfiledeinit_default :: "'w fs_env \<Rightarrow> u32 \<Rightarrow> 'w flash_state \<Rightarrow> 'w flash_state" where
  "fatfiledeinit_default e ctx s = nl_fat_deinit_context e ctx s"

definition fatfileread_default ::
  "'w fs_env \<Rightarrow> u32 \<Rightarrow> u32 \<Rightarrow> u32 \<Rightarrow> 'w flash_state \<Rightarrow> (int \<times> u8 list) \<times> 'w flash_state" where
  "fatfileread_default e ctx from len s = nl_fat_read_file e ctx from len s"

definition get_image_offset ::
  "'w fs_env \<Rightarrow> nlfs_image_location_t \<Rightarrow> 'w flash_state \<Rightarrow> ((u8 \<times> u32) \<times> 'w flash_state) option" where
  "get_image_offset e loc s = do {
     let img0 = GET_PARTITION_ID (kImage0 e);
     let img1 = GET_PARTITION_ID (kImage1 e);
     let (part, s1) =
       (if loc = IMAGE1 then (img1, s)
        else if loc \<noteq> IMAGE0
        then let ((error, currentImage), t) = env_get_current_image e s
             in if error \<ge> 0
                then (if (currentImage = kImageValue0 e \<and> loc = ALTERNATE) \<or>
                         (currentImage = kImageValue1 e \<and> loc = INSTALLED) then img1 else img0, t)
                else (img0, env_set_current_image e (kImageValue0 e) t)
        else (img0, s));
     p \<leftarrow> arr_get (g_flash_partitions e) (unat part);
     Some ((part, part_offset p), s1) }"

text \<open>\<open>fileInit\<close> for a main partition, and for a section of an image; both on the partly filled file.\<close>

definition init_main_partition ::
  "'w fs_env \<Rightarrow> nlfs_image_location_t \<Rightarrow> nlfs_file_t \<Rightarrow> 'w flash_state \<Rightarrow>
   ((int \<times> nlfs_file_t) \<times> 'w flash_state) option" where
  "init_main_partition e loc f s =
     (if partId f \<noteq> GET_PARTITION_ID (kImage e)
      then do {
        p \<leftarrow> arr_get (g_flash_partitions e) (unat (partId f));
        let len = (case MAX_ALLOWED_WAV_LENGTH e of
                     None \<Rightarrow> part_size p
                   | Some m \<Rightarrow> if partId f = GET_PARTITION_ID (kCustomAudio e) then m else part_size p);
        Some ((0, f\<lparr>f_offset := part_offset p, f_len := len\<rparr>), s) }
      else do {
        ((part, off), s1) \<leftarrow> get_image_offset e loc s;
        p \<leftarrow> arr_get (g_flash_partitions e) (unat part);
        let f1 = f\<lparr>partId := part, f_offset := off, f_len := part_size p\<rparr>;
        let (retval, s2) = (if HAS_FAT_FILES e \<and> isFat f then fatfileinit_default e part (f_context f) s1 else (0, s1));
        Some ((retval, f1), s2) })"

definition find_section ::
  "'w fs_env \<Rightarrow> (u32 \<Rightarrow> u32 \<Rightarrow> 'w flash_state \<Rightarrow> ((int \<times> u8 list) \<times> 'w flash_state) option) \<Rightarrow> u32 \<Rightarrow> u8 \<Rightarrow>
   'w flash_state \<Rightarrow> ((int \<times> u32 \<times> u32 \<times> u32) \<times> 'w flash_state) option" where
  "find_section e reader imageOffset part s = do {
     name \<leftarrow> arr_get (g_sub_partition_info e) (unat part);
     (r, s1) \<leftarrow> elf_find e reader (calcCrc e) (NL_FS_CRC_SEED e) imageOffset name (fs_crc_request e s);
     Some (r, fs_crc_release e s1) }"

definition init_sub_partition ::
  "'w fs_env \<Rightarrow> nlfs_image_location_t \<Rightarrow> nlfs_file_t \<Rightarrow> 'w flash_state \<Rightarrow>
   ((int \<times> nlfs_file_t) \<times> 'w flash_state) option" where
  "init_sub_partition e loc f s = do {
     ((part, imageOffset), s1) \<leftarrow> get_image_offset e loc s;
     ((retval, size, offset, headerOffset), s2) \<leftarrow>
       (if \<not> isFat f
        then do {
          (_, s2) \<leftarrow> nlflash_request (flash_tab e) (NLFLASH_EXTERNAL e) s1;
          (r, s3) \<leftarrow> find_section e (readFile e) imageOffset (partId f) s2;
          (_, s4) \<leftarrow> nlflash_release (flash_tab e) (NLFLASH_EXTERNAL e) s3;
          Some (r, s4) }
        else if HAS_FAT_FILES e
        then let (retval, s2) = fatfileinit_default e part (f_context f) s1
             in if retval < 0 then Some ((retval, 0, 0, 0), s2)
                else find_section e (\<lambda>from len t. Some (fatfileread_default e (f_context f) from len t)) imageOffset (partId f) s2
        else Some ((- EINVAL, 0, 0, 0), s1));
     Some ((retval, if retval < 0 then f else f\<lparr>f_len := size, f_offset := headerOffset + offset\<rparr>), s2) }"

definition fileInit ::
  "'w fs_env \<Rightarrow> u8 \<Rightarrow> nlfs_file_mode_t \<Rightarrow> nlfs_image_location_t \<Rightarrow> bool \<Rightarrow> u32 \<Rightarrow> nlfs_file_t \<Rightarrow> 'w flash_state \<Rightarrow>
   ((int \<times> nlfs_file_t) \<times> 'w flash_state) option" where
  "fileInit e fid mode loc fat ctx f0 s =
     (let ty = GET_PARTITION_TYPE fid;
          f = f0\<lparr>currentPos := 0, partId := GET_PARTITION_ID fid, partType := ty,
                 chipId := (if ty = PARTITION_TYPE_INT then NLFLASH_INTERNAL e else NLFLASH_EXTERNAL e),
                 f_mode := mode, isOpen := True, f_context := ctx, isFat := fat\<rparr>
      in if ty \<noteq> PARTITION_TYPE_EXT_SUB then init_main_partition e loc f s else init_sub_partition e loc f s)"

definition nlfs_open_cb ::
  "'w fs_env \<Rightarrow> u8 \<Rightarrow> nlfs_file_mode_t \<Rightarrow> nlfs_image_location_t \<Rightarrow> bool \<Rightarrow> u32 \<Rightarrow> nlfs_file_t \<Rightarrow> 'w flash_state \<Rightarrow>
   ((int \<times> nlfs_file_t) \<times> 'w flash_state) option" where
  "nlfs_open_cb e fid mode loc fat ctx f0 s =
     (if mode \<noteq> READ_ONLY \<and> GET_PARTITION_TYPE fid = PARTITION_TYPE_EXT_SUB then Some ((- EINVAL, f0), s)
      else if loc \<noteq> INSTALLED \<and> GET_PARTITION_TYPE fid \<noteq> PARTITION_TYPE_EXT_SUB \<and>
              GET_PARTITION_ID fid \<noteq> GET_PARTITION_ID (kImage e) then Some ((- EINVAL, f0), s)
      else do {
        ((retval, f), s1) \<leftarrow> fileInit e fid mode loc fat ctx f0 s;
        if retval \<ge> 0 \<and> mode = WRITE_ONLY
        then do {
          p \<leftarrow> arr_get (g_flash_partitions e) (unat (partId f));
          if isReadOnly p then Some ((- EINVAL, f), s1)
          else do {
            ((retval, retlen), s2) \<leftarrow> nlflash_erase (flash_tab e) (chipId f) (f_offset f) (f_len f) 0 s1;
            Some ((if retval \<ge> 0 \<and> retlen \<noteq> f_len f then - EIO else retval, f), s2) } }
        else Some ((retval, f), s1) })"

section \<open>Reading, writing, positioning, closing\<close>

text \<open>\<open>size_t\<close> results; an error of \<open>nlfs_read_cb\<close> before the read is the unsigned image of \<open>-EINVAL\<close>.\<close>

definition clip :: "nlfs_file_t \<Rightarrow> u32 \<Rightarrow> u32" where
  "clip f bytes = (if currentPos f + bytes > f_len f then f_len f - currentPos f else bytes)"

definition nlfs_read_cb ::
  "'w fs_env \<Rightarrow> u32 \<Rightarrow> nlfs_file_t \<Rightarrow> 'w flash_state \<Rightarrow> ((u32 \<times> u8 list \<times> nlfs_file_t) \<times> 'w flash_state) option" where
  "nlfs_read_cb e bytes f s =
     (if \<not> isOpen f \<or> f_mode f \<noteq> READ_ONLY then Some ((word_of_int (- EINVAL), [], f), s)
      else do {
        let from = f_offset f + currentPos f;
        let len = clip f bytes;
        if \<not> isFat f
        then do {
          ((retval, retlen, buf), s1) \<leftarrow> nlflash_read (flash_tab e) (chipId f) from len (0, []) s;
          Some ((retlen, buf, if retval \<ge> 0 then f\<lparr>currentPos := currentPos f + retlen\<rparr> else f), s1) }
        else if HAS_FAT_FILES e
        then let ((retval, buf), s1) = fatfileread_default e (f_context f) from len s in Some ((0, buf, f), s1)
        else Some ((word_of_int (- EINVAL), [], f), s) })"

definition nlfs_write_cb ::
  "'w fs_env \<Rightarrow> u8 list \<Rightarrow> u32 \<Rightarrow> nlfs_file_t \<Rightarrow> 'w flash_state \<Rightarrow> ((u32 \<times> nlfs_file_t) \<times> 'w flash_state) option" where
  "nlfs_write_cb e buf bytes f s =
     (if \<not> isOpen f \<or> f_mode f \<noteq> WRITE_ONLY \<or> isFat f then Some ((0, f), s)
      else do {
        data \<leftarrow> mem_read buf 0 (unat (clip f bytes));
        ((retval, retlen), s1) \<leftarrow>
          nlflash_write (flash_tab e) (chipId f) (f_offset f + currentPos f) data 0 s;
        Some ((retlen, f\<lparr>currentPos := currentPos f + retlen\<rparr>), s1) })"

definition nlfs_close ::
  "'w fs_env \<Rightarrow> nlfs_file_t \<Rightarrow> 'w flash_state \<Rightarrow> ((int \<times> nlfs_file_t) \<times> 'w flash_state) option" where
  "nlfs_close e f s =
     (if \<not> isOpen f then Some ((- EINVAL, f), s)
      else do {
        ((retval, f1), s1) \<leftarrow>
          (if f_mode f = WRITE_ONLY
           then do {
             ((retval, _), s1) \<leftarrow> nlflash_flush (flash_tab e) (chipId f) s;
             Some ((retval, if retval \<ge> 0 then f\<lparr>isOpen := False\<rparr> else f), s1) }
           else Some ((0, f), s));
        Some ((retval, f1), if HAS_FAT_FILES e \<and> isFat f then fatfiledeinit_default e (f_context f) s1 else s1) })"

definition nlfs_seek :: "nlfs_file_t \<Rightarrow> u32 \<Rightarrow> nlfs_origin_pos_t \<Rightarrow> int \<times> nlfs_file_t" where
  "nlfs_seek f offset origin =
     (if \<not> isOpen f \<or> f_mode f \<noteq> READ_ONLY \<or> isFat f then (- EINVAL, f)
      else if origin = BEGINNING
      then if offset \<ge> f_len f then (- EINVAL, f) else (0, f\<lparr>currentPos := offset\<rparr>)
      else if currentPos f + offset \<ge> f_len f then (- EINVAL, f)
           else (0, f\<lparr>currentPos := currentPos f + offset\<rparr>))"

definition nlfs_getpos :: "nlfs_file_t \<Rightarrow> u32 \<Rightarrow> int \<times> u32" where
  "nlfs_getpos f out = (if \<not> isOpen f then (- EINVAL, out) else (0, currentPos f))"

definition nlfs_getlen :: "nlfs_file_t \<Rightarrow> u32 \<Rightarrow> int \<times> u32" where
  "nlfs_getlen f out = (if \<not> isOpen f \<or> f_mode f \<noteq> READ_ONLY then (- EINVAL, out) else (0, f_len f))"

definition nlfs_is_open :: "nlfs_file_t \<Rightarrow> bool" where
  "nlfs_is_open f = isOpen f"

section \<open>The position and the accessed range\<close>

text \<open>A file as a successful open leaves it: the position is inside, the file inside the address space.\<close>

definition file_ok :: "nlfs_file_t \<Rightarrow> bool" where
  "file_ok f \<longleftrightarrow> currentPos f \<le> f_len f \<and> unat (f_offset f) + unat (f_len f) < 2 ^ 32"

lemma clip_fits:
  assumes "file_ok f" "unat (currentPos f) + unat bytes < 2 ^ 32"
  shows "unat (clip f bytes) = min (unat bytes) (unat (f_len f) - unat (currentPos f))"
    "unat (f_offset f + currentPos f) = unat (f_offset f) + unat (currentPos f)"
proof -
  have sum: "unat (currentPos f + bytes) = unat (currentPos f) + unat bytes"
    using assms(2) by (simp add: unat_word_ariths)
  have le: "unat (currentPos f) \<le> unat (f_len f)" using assms(1) by (simp add: file_ok_def word_le_nat_alt)
  then have "unat (f_len f - currentPos f) = unat (f_len f) - unat (currentPos f)"
    by (simp add: unat_sub word_le_nat_alt)
  with sum le show "unat (clip f bytes) = min (unat bytes) (unat (f_len f) - unat (currentPos f))"
    by (auto simp: clip_def word_less_nat_alt)
  show "unat (f_offset f + currentPos f) = unat (f_offset f) + unat (currentPos f)"
    using assms(1) le by (auto simp: file_ok_def unat_word_ariths)
qed

text \<open>The device at most stores or yields what it was asked for.\<close>

definition counts_right :: "'w fs_env \<Rightarrow> nat \<Rightarrow> bool" where
  "counts_right e chip \<longleftrightarrow>
     (\<forall>a n s r k buf t. nlflash_read (flash_tab e) chip a n (0, []) s = Some ((r, k, buf), t) \<longrightarrow> k \<le> n) \<and>
     (\<forall>a xs s r k t. nlflash_write (flash_tab e) chip a xs 0 s = Some ((r, k), t) \<longrightarrow> unat k \<le> length xs)"

lemma advance_ok:
  assumes "file_ok f" "unat k \<le> unat (f_len f) - unat (currentPos f)"
  shows "file_ok (f\<lparr>currentPos := currentPos f + k\<rparr>)"
proof -
  have le: "unat (currentPos f) \<le> unat (f_len f)" using assms(1) by (simp add: file_ok_def word_le_nat_alt)
  with assms have "unat (currentPos f) + unat k < 2 ^ 32" using unat_lt_word32 [of "f_len f"] by linarith
  then have "unat (currentPos f + k) = unat (currentPos f) + unat k" by (simp add: unat_word_ariths)
  with assms le show ?thesis by (simp add: file_ok_def word_le_nat_alt)
qed

text \<open>The operations that move the position, as a step relation.\<close>

inductive file_step :: "'w fs_env \<Rightarrow> nlfs_file_t \<Rightarrow> nlfs_file_t \<Rightarrow> bool" for e where
  rd_step: "unat (currentPos f) + unat bytes < 2 ^ 32 \<Longrightarrow>
    nlfs_read_cb e bytes f s = Some ((n, buf, f'), s') \<Longrightarrow> file_step e f f'"
| wr_step: "unat (currentPos f) + unat bytes < 2 ^ 32 \<Longrightarrow>
    nlfs_write_cb e buf bytes f s = Some ((n, f'), s') \<Longrightarrow> file_step e f f'"
| seek_step: "nlfs_seek f offset origin = (r, f') \<Longrightarrow> file_step e f f'"
| close_step: "nlfs_close e f s = Some ((r, f'), s') \<Longrightarrow> file_step e f f'"

lemma file_step_ok:
  assumes "counts_right e (chipId f)" "file_ok f" "file_step e f f'"
  shows "file_ok f' \<and> chipId f' = chipId f \<and> f_offset f' = f_offset f \<and> f_len f' = f_len f"
  using assms(3)
proof cases
  case (rd_step bytes s n buf s')
  note clip = clip_fits(1) [OF assms(2) rd_step(1)]
  have "file_ok (f\<lparr>currentPos := currentPos f + k\<rparr>)" if "k \<le> clip f bytes" for k
    using that clip by (intro advance_ok [OF assms(2)]) (auto simp: word_le_nat_alt)
  with rd_step(2) assms(1,2) show ?thesis
    by (auto simp: nlfs_read_cb_def counts_right_def Let_def elim!: bind_SomeE split: if_splits prod.splits) blast+
next
  case (wr_step bytes buf s n s')
  note clip = clip_fits(1) [OF assms(2) wr_step(1)]
  have keep: "file_ok (f\<lparr>currentPos := currentPos f + k\<rparr>)" if "unat k \<le> unat (clip f bytes)" for k
    using that clip by (intro advance_ok [OF assms(2)]) auto
  show ?thesis
  proof (cases "\<not> isOpen f \<or> f_mode f \<noteq> WRITE_ONLY \<or> isFat f")
    case True
    with wr_step(2) assms(2) show ?thesis by (auto simp: nlfs_write_cb_def)
  next
    case False
    with wr_step(2) obtain data r k t where d: "mem_read buf 0 (unat (clip f bytes)) = Some data"
        "nlflash_write (flash_tab e) (chipId f) (f_offset f + currentPos f) data 0 s = Some ((r, k), t)"
        "f' = f\<lparr>currentPos := currentPos f + k\<rparr>"
      by (auto simp: nlfs_write_cb_def elim!: bind_SomeE)
    then have "length data = unat (clip f bytes)" by (auto simp: mem_read_def split: if_splits)
    moreover have "unat k \<le> length data" using assms(1) d(2) unfolding counts_right_def by blast
    ultimately show ?thesis using keep d(3) by simp
  qed
next
  case (seek_step offset origin r)
  with assms(2) show ?thesis by (auto simp: nlfs_seek_def file_ok_def split: if_splits)
next
  case (close_step s r s')
  with assms(2) show ?thesis by (auto simp: nlfs_close_def file_ok_def elim!: bind_SomeE split: if_splits)
qed

interpretation opened: invariant_system
  "\<lambda>f. counts_right e (chipId f) \<and> file_ok f \<and> f_offset f = off \<and> f_len f = len \<and> chipId f = chip" "file_step e"
  "\<lambda>f. counts_right e (chipId f) \<and> file_ok f \<and> f_offset f = off \<and> f_len f = len \<and> chipId f = chip"
  for e :: "'w fs_env" and off len chip
  by unfold_locales (use file_step_ok in \<open>metis+\<close>)

text \<open>
  C23: for a file whose range of the device ends below \<open>2 ^ 32\<close> and a device that never reports more bytes
  than it was asked for: however the file is positioned, closed, and read and written by requests that do
  not reach across \<open>2 ^ 32\<close> (position plus size, in bytes), its position stays inside the file, and for an
  open file that is not a FAT file the next such read (of a file opened for reading) or write (of a file
  opened for writing, from a buffer that has the bytes) accesses exactly the flash from the position to the
  end of the request or of the file, whichever comes first, and nothing outside the file's range. A request that does reach across \<open>2 ^ 32\<close> is not cut at the end of the file
  (\<open>clip_wraps\<close>).
\<close>

theorem nlfs_access_in_file:
  assumes "counts_right e (chipId f0)" "file_ok f0" "(file_step e)\<^sup>*\<^sup>* f0 f"
    and "isOpen f" "\<not> isFat f" "unat (currentPos f) + unat bytes < 2 ^ 32"
  shows "\<exists>a n. unat a = unat (f_offset f0) + unat (currentPos f) \<and>
      unat n = min (unat bytes) (unat (f_len f0) - unat (currentPos f)) \<and> unat (currentPos f) \<le> unat (f_len f0) \<and>
      (f_mode f = READ_ONLY \<longrightarrow> nlfs_read_cb e bytes f s =
         map_option (\<lambda>((r, k, buf), t). ((k, buf, if 0 \<le> r then f\<lparr>currentPos := currentPos f + k\<rparr> else f), t))
           (nlflash_read (flash_tab e) (chipId f0) a n (0, []) s)) \<and>
      (f_mode f = WRITE_ONLY \<longrightarrow> unat n \<le> length buf \<longrightarrow> nlfs_write_cb e buf bytes f s =
         map_option (\<lambda>((r, k), t). ((k, f\<lparr>currentPos := currentPos f + k\<rparr>), t))
           (nlflash_write (flash_tab e) (chipId f0) a (take (unat n) buf) 0 s))"
proof -
  have f: "file_ok f" "f_offset f = f_offset f0" "f_len f = f_len f0" "chipId f = chipId f0"
    using opened.reachable_inv [of e f0 "f_offset f0" "f_len f0" "chipId f0" f] assms(1-3) by auto
  note c = clip_fits [OF f(1) assms(6)]
  have bind: "Option.bind m (\<lambda>x. Some (g x)) = map_option g m" for m :: "'x option" and g :: "'x \<Rightarrow> 'y"
    by (cases m) auto
  have le: "unat (currentPos f) \<le> unat (f_len f0)" using f by (simp add: file_ok_def word_le_nat_alt)
  show ?thesis
    using assms(4,5) c f le
    by (intro exI [of _ "f_offset f + currentPos f"] exI [of _ "clip f bytes"])
       (auto simp: nlfs_read_cb_def nlfs_write_cb_def map_conv_bind_option intro!: arg_cong [where f = "Option.bind _"])
qed

section \<open>What is written is read back\<close>

text \<open>A sequence of writes, with what each reports.\<close>

primrec nlfs_write_all ::
  "'w fs_env \<Rightarrow> u8 list list \<Rightarrow> nlfs_file_t \<Rightarrow> 'w flash_state \<Rightarrow> ((u32 list \<times> nlfs_file_t) \<times> 'w flash_state) option" where
  "nlfs_write_all e [] f s = Some (([], f), s)"
| "nlfs_write_all e (xs # xss) f s = do {
     ((n, f1), s1) \<leftarrow> nlfs_write_cb e xs (word_of_nat (length xs)) f s;
     ((ns, f2), s2) \<leftarrow> nlfs_write_all e xss f1 s1;
     Some ((n # ns, f2), s2) }"

text \<open>A partition of its own, on a flash that behaves like NOR flash, that may be written.\<close>

definition file_chip :: "'w fs_env \<Rightarrow> u8 \<Rightarrow> nat" where
  "file_chip e fid = (if GET_PARTITION_TYPE fid = PARTITION_TYPE_INT then NLFLASH_INTERNAL e else NLFLASH_EXTERNAL e)"

definition plain_partition :: "'w fs_env \<Rightarrow> u8 \<Rightarrow> nlpartition_t \<Rightarrow> bool" where
  "plain_partition e fid p \<longleftrightarrow> GET_PARTITION_TYPE fid \<noteq> PARTITION_TYPE_EXT_SUB \<and>
     GET_PARTITION_ID fid \<noteq> GET_PARTITION_ID (kImage e) \<and> MAX_ALLOWED_WAV_LENGTH e = None \<and>
     unat (GET_PARTITION_ID fid) < length (g_flash_partitions e) \<and> g_flash_partitions e ! unat (GET_PARTITION_ID fid) = p \<and>
     \<not> isReadOnly p \<and> unat (part_offset p) + unat (part_size p) < 2 ^ 32"

definition opened_file :: "'w fs_env \<Rightarrow> u8 \<Rightarrow> nlpartition_t \<Rightarrow> nlfs_file_mode_t \<Rightarrow> u32 \<Rightarrow> nlfs_file_t \<Rightarrow> bool" where
  "opened_file e fid p mode pos f \<longleftrightarrow> isOpen f \<and> \<not> isFat f \<and> f_mode f = mode \<and> chipId f = file_chip e fid \<and>
     f_offset f = part_offset p \<and> f_len f = part_size p \<and> currentPos f = pos"

text \<open>The partition holds \<open>data\<close> and is erased behind it, and the flash around it is as in \<open>m\<close>.\<close>

abbreviation partition_holds where
  "partition_holds content p m s data \<equiv>
     store.holds content s (take (unat (part_offset p)) m) data (unat (part_size p) - length data)
       (drop (unat (part_offset p) + unat (part_size p)) m)"

lemma opened_file_ok:
  "plain_partition e fid p \<Longrightarrow> opened_file e fid p mode pos f \<Longrightarrow> pos \<le> part_size p \<Longrightarrow> file_ok f"
  by (simp add: plain_partition_def opened_file_def file_ok_def)

lemma open_read:
  assumes "plain_partition e fid p"
  shows "\<exists>f. nlfs_open_cb e fid READ_ONLY INSTALLED False ctx f0 s = Some ((0, f), s) \<and> opened_file e fid p READ_ONLY 0 f"
  using assms
  by (auto simp: nlfs_open_cb_def fileInit_def init_main_partition_def plain_partition_def opened_file_def file_chip_def Let_def)

lemma open_write:
  assumes p: "plain_partition e fid p" and s: "store_ready ok content sector (flash_tab e) (file_chip e fid) s"
    and room: "unat (part_offset p) + unat (part_size p) \<le> length (content (world s))"
    and al: "part_offset p mod sector = 0" "part_size p mod sector = 0"
  shows "\<exists>f t. nlfs_open_cb e fid WRITE_ONLY INSTALLED False ctx f0 s = Some ((0, f), t) \<and> opened_file e fid p WRITE_ONLY 0 f \<and>
     store_ready ok content sector (flash_tab e) (file_chip e fid) t \<and>
     partition_holds content p (content (world s)) t []"
proof -
  obtain t where "nlflash_erase (flash_tab e) (file_chip e fid) (part_offset p) (part_size p) 0 s = Some ((0, part_size p), t)"
      "store_ready ok content sector (flash_tab e) (file_chip e fid) t"
      "partition_holds content p (content (world s)) t []"
    using store.erased [OF s room al] by auto
  with p show ?thesis
    by (auto simp: nlfs_open_cb_def fileInit_def init_main_partition_def plain_partition_def opened_file_def file_chip_def Let_def)
qed

lemma write_chunk:
  assumes p: "plain_partition e fid p" and s: "store_ready ok content sector (flash_tab e) (file_chip e fid) s"
    and f: "opened_file e fid p WRITE_ONLY (word_of_nat (length data)) f"
    and h: "partition_holds content p m s data" and m: "unat (part_offset p) \<le> length m"
    and room: "length data + length xs \<le> unat (part_size p)"
  shows "\<exists>f' t. nlfs_write_cb e xs (word_of_nat (length xs)) f s = Some ((word_of_nat (length xs), f'), t) \<and>
    opened_file e fid p WRITE_ONLY (word_of_nat (length (data @ xs))) f' \<and>
    store_ready ok content sector (flash_tab e) (file_chip e fid) t \<and>
    partition_holds content p m t (data @ xs)"
proof -
  have small: "length data + length xs < 2 ^ 32" using room unat_lt_word32 [of "part_size p"] by linarith
  then have n: "unat (word_of_nat (length data) :: u32) = length data" "unat (word_of_nat (length xs) :: u32) = length xs"
    by (simp_all add: unat_of_nat take_bit_nat_eq_self)
  have pos: "(word_of_nat (length data) :: u32) \<le> part_size p" using n room by (simp add: word_le_nat_alt)
  note ok = opened_file_ok [OF p f pos]
  note c = clip_fits [OF ok, of "word_of_nat (length xs)"]
  have cur: "currentPos f = word_of_nat (length data)" "f_len f = part_size p" "f_offset f = part_offset p"
    using f by (simp_all add: opened_file_def)
  have clip: "unat (clip f (word_of_nat (length xs))) = length xs"
    using c(1) n small room by (simp add: cur)
  have at: "unat (f_offset f + currentPos f) = length (take (unat (part_offset p)) m) + length data"
    using c(2) n small m by (simp add: cur)
  have k: "length xs \<le> unat (part_size p) - length data" using room by linarith
  obtain t where t: "nlflash_write (flash_tab e) (file_chip e fid) (f_offset f + currentPos f) xs 0 s = Some ((0, word_of_nat (length xs)), t)"
      "store_ready ok content sector (flash_tab e) (file_chip e fid) t"
      "partition_holds content p m t (data @ xs)"
    using store.written [OF s h k at, of 0] by auto
  have "nlfs_write_cb e xs (word_of_nat (length xs)) f s =
      Some ((word_of_nat (length xs), f\<lparr>currentPos := currentPos f + word_of_nat (length xs)\<rparr>), t)"
    using f t(1) clip by (simp add: nlfs_write_cb_def opened_file_def)
  with t f show ?thesis by (simp add: opened_file_def)
qed

lemma write_chunks:
  assumes "plain_partition e fid p" "store_ready ok content sector (flash_tab e) (file_chip e fid) s"
    and "opened_file e fid p WRITE_ONLY (word_of_nat (length data)) f"
    and "partition_holds content p m s data" "unat (part_offset p) \<le> length m"
    and "length data + length (concat xss) \<le> unat (part_size p)"
  shows "\<exists>f' t. nlfs_write_all e xss f s = Some ((map (\<lambda>xs. word_of_nat (length xs)) xss, f'), t) \<and>
    opened_file e fid p WRITE_ONLY (word_of_nat (length (data @ concat xss))) f' \<and>
    store_ready ok content sector (flash_tab e) (file_chip e fid) t \<and>
    partition_holds content p m t (data @ concat xss)"
  using assms
proof (induction xss arbitrary: data f s)
  case (Cons xs xss)
  have "length data + length xs \<le> unat (part_size p)" using Cons.prems(6) by simp
  then obtain f1 s1 where c: "nlfs_write_cb e xs (word_of_nat (length xs)) f s = Some ((word_of_nat (length xs), f1), s1)"
      "opened_file e fid p WRITE_ONLY (word_of_nat (length (data @ xs))) f1"
      "store_ready ok content sector (flash_tab e) (file_chip e fid) s1"
      "partition_holds content p m s1 (data @ xs)"
    using write_chunk [OF Cons.prems(1-5)] by blast
  have "length (data @ xs) + length (concat xss) \<le> unat (part_size p)" using Cons.prems(6) by simp
  from Cons.IH [OF Cons.prems(1) c(3,2,4) Cons.prems(5) this] c(1) show ?case by auto
qed simp

text \<open>
  What is written to a file is read back: on flash that behaves like NOR flash, opening for
  writing, writing any sequence of blocks that fits, closing, and opening for reading succeed, each
  write reports its whole block, and one read yields the blocks in order. The partition then holds
  the blocks and is erased behind them, and the flash around the partition has not changed.
\<close>

lemma nlfs_roundtrip:
  assumes p: "plain_partition e fid p" and s: "store_ready ok content sector (flash_tab e) (file_chip e fid) s"
    and room: "unat (part_offset p) + unat (part_size p) \<le> length (content (world s))"
    and al: "part_offset p mod sector = 0" "part_size p mod sector = 0"
    and fits: "length (concat xss) \<le> unat (part_size p)"
  defines "m \<equiv> content (world s)"
  shows "\<exists>f1 s1 f2 s2 f3 s3 f4 f5 s5.
    nlfs_open_cb e fid WRITE_ONLY INSTALLED False ctx f0 s = Some ((0, f1), s1) \<and>
    nlfs_write_all e xss f1 s1 = Some ((map (\<lambda>xs. word_of_nat (length xs)) xss, f2), s2) \<and>
    nlfs_close e f2 s2 = Some ((0, f3), s3) \<and> \<not> nlfs_is_open f3 \<and>
    nlfs_open_cb e fid READ_ONLY INSTALLED False ctx f3 s3 = Some ((0, f4), s3) \<and>
    nlfs_read_cb e (word_of_nat (length (concat xss))) f4 s3 = Some ((word_of_nat (length (concat xss)), concat xss, f5), s5) \<and>
    content (world s5) = content (world s3) \<and>
    content (world s3) = take (unat (part_offset p)) m @ concat xss @ replicate (unat (part_size p) - length (concat xss)) (-1) @
      drop (unat (part_offset p) + unat (part_size p)) m"
proof -
  let ?all = "concat xss"
  obtain f1 s1 where o: "nlfs_open_cb e fid WRITE_ONLY INSTALLED False ctx f0 s = Some ((0, f1), s1)"
      "opened_file e fid p WRITE_ONLY 0 f1" "store_ready ok content sector (flash_tab e) (file_chip e fid) s1"
      "partition_holds content p (content (world s)) s1 []"
    using open_write [OF p s room al] by blast
  obtain f2 s2 where w: "nlfs_write_all e xss f1 s1 = Some ((map (\<lambda>xs. word_of_nat (length xs)) xss, f2), s2)"
      "opened_file e fid p WRITE_ONLY (word_of_nat (length ?all)) f2" "store_ready ok content sector (flash_tab e) (file_chip e fid) s2"
      "partition_holds content p (content (world s)) s2 ?all"
    using write_chunks [OF p o(3), of "[]" f1 m xss] o(2,4) fits room by (auto simp: m_def)
  obtain s3 where fl: "nlflash_flush (flash_tab e) (file_chip e fid) s2 = Some ((0, ()), s3)"
      "store_ready ok content sector (flash_tab e) (file_chip e fid) s3" "content (world s3) = content (world s2)"
    using store.fl_law [OF w(3)] by blast
  have h3: "partition_holds content p (content (world s)) s3 ?all"
    using store.holds_cells [OF w(4) fl(3)] .
  have c: "nlfs_close e f2 s2 = Some ((0, f2\<lparr>isOpen := False\<rparr>), s3)"
    using w(2) fl(1) by (simp add: nlfs_close_def opened_file_def)
  obtain f4 where r: "nlfs_open_cb e fid READ_ONLY INSTALLED False ctx (f2\<lparr>isOpen := False\<rparr>) s3 = Some ((0, f4), s3)"
      "opened_file e fid p READ_ONLY 0 f4" using open_read [OF p] by blast
  have n: "unat (word_of_nat (length ?all) :: u32) = length ?all"
    using fits unat_lt_word32 [of "part_size p"] by (simp add: unat_of_nat take_bit_nat_eq_self)
  have clip: "clip f4 (word_of_nat (length ?all)) = word_of_nat (length ?all)"
    using r(2) n fits by (auto simp: clip_def opened_file_def word_less_nat_alt)
  obtain s5 where rd: "nlflash_read (flash_tab e) (file_chip e fid) (part_offset p) (word_of_nat (length ?all)) (0, []) s3 =
      Some ((0, word_of_nat (length ?all), ?all), s5)"
      "content (world s5) = content (world s3)"
    using store.read_back [OF fl(2) h3 _ n, of "part_offset p" "(0, [])"] room by auto
  then obtain f5 where f5: "nlfs_read_cb e (word_of_nat (length ?all)) f4 s3 = Some ((word_of_nat (length ?all), ?all, f5), s5)"
    using r(2) rd(1) clip by (simp add: nlfs_read_cb_def opened_file_def)
  have cells: "content (world s3) = take (unat (part_offset p)) m @ ?all @ replicate (unat (part_size p) - length ?all) (-1) @
      drop (unat (part_offset p) + unat (part_size p)) m"
    using h3 by (simp add: store.holds_def m_def)
  have "\<not> nlfs_is_open (f2\<lparr>isOpen := False\<rparr>)" by (simp add: nlfs_is_open_def)
  with o(1) w(1) c r(1) f5 rd(2) cells show ?thesis by blast
qed

text \<open>
  A file record says open when it is not: an open that fails after its argument checks, for a
  missing section, a read-only partition or a failing erase, leaves the record open, and closing a
  file that was open for reading succeeds and leaves it open.
\<close>

theorem nlfs_is_open_misleads:
  assumes "nlfs_open_cb e fid mode loc fat ctx f0 s = Some ((r, f), s')"
    and "mode = READ_ONLY \<or> GET_PARTITION_TYPE fid \<noteq> PARTITION_TYPE_EXT_SUB"
    and "loc = INSTALLED \<or> GET_PARTITION_TYPE fid = PARTITION_TYPE_EXT_SUB \<or> GET_PARTITION_ID fid = GET_PARTITION_ID (kImage e)"
  shows "nlfs_is_open f \<and> (mode = READ_ONLY \<longrightarrow> (\<exists>t. nlfs_close e f s' = Some ((0, f), t)))"
proof -
  have i: "isOpen f1 \<and> f_mode f1 = mode" if "fileInit e fid mode loc fat ctx f0 s = Some ((q, f1), s1)" for q f1 s1
    using that by (auto simp: fileInit_def init_main_partition_def init_sub_partition_def Let_def elim!: bind_SomeE split: if_splits prod.splits)
  then have "isOpen f \<and> f_mode f = mode"
    using assms by (auto simp: nlfs_open_cb_def elim!: bind_SomeE split: if_splits)
  then show ?thesis
    by (auto simp: nlfs_is_open_def nlfs_close_def)
qed


text \<open>
  Reading a FAT file advances nothing and reports no byte, whatever the FAT library read; and a
  request that wraps the 32-bit position around is not cut at the end of the file.
\<close>

lemma nlfs_fat_read_reports_nothing:
  assumes "nlfs_read_cb e bytes f s = Some ((n, buf, f'), s')" "isOpen f" "f_mode f = READ_ONLY" "isFat f" "HAS_FAT_FILES e"
  shows "n = 0 \<and> f' = f"
  using assms by (auto simp: nlfs_read_cb_def Let_def split: prod.splits)

lemma clip_wraps:
  assumes "file_ok f" "2 ^ 32 \<le> unat (currentPos f) + unat bytes"
    "unat (currentPos f) + unat bytes - 2 ^ 32 \<le> unat (f_len f)"
  shows "clip f bytes = bytes"
proof -
  have "unat (currentPos f + bytes) = (unat (currentPos f) + unat bytes) mod 2 ^ 32" by (simp add: unat_word_ariths)
  also have "\<dots> = unat (currentPos f) + unat bytes - 2 ^ 32"
    using assms(2) unat_lt_word32 [of "currentPos f"] unat_lt_word32 [of bytes] by (simp add: mod_if)
  finally have "\<not> currentPos f + bytes > f_len f" using assms(3) by (simp add: word_less_nat_alt)
  then show ?thesis by (simp add: clip_def)
qed

section \<open>Witnesses\<close>

text \<open>A RAM that behaves like NOR flash, with one partition of 8 bytes after a sector of 4.\<close>

definition ram_dev :: "u8 list nlflash_func_table_t" where
  "ram_dev = \<lparr>fl_init = None, fl_request = None, fl_release = None, fl_flush = None, fl_read_id = None,
     fl_get_info = Some (\<lambda>w. (Some \<lparr>fl_name = 0, base_addr = 0, fl_size = 16, erase_size = 4, fast_erase_size = 4, write_size = 1\<rparr>, w)),
     fl_erase = Some (\<lambda>a n w. ((0, n), blank (unat a) (unat n) w)),
     fl_read = Some (\<lambda>a n w. ((0, n, take (unat n) (drop (unat a) w)), w)),
     fl_write = Some (\<lambda>a xs w. ((0, word_of_nat (length xs)), program (unat a) xs w))\<rparr>"

definition ram_state :: "u8 list flash_state" where
  "ram_state = \<lparr>s_flash_ctxs = [\<lparr>ctx_lock = None, ctx_unlock = None, lock_ctx = 0\<rparr>], world = replicate 16 0\<rparr>"

definition demo_fs :: "u8 list fs_env" where
  "demo_fs = \<lparr>flash_tab = [ram_dev], NLFLASH_INTERNAL = 0, NLFLASH_EXTERNAL = 0,
     g_flash_partitions = [\<lparr>part_offset = 4, part_size = 8, isReadOnly = False\<rparr>], g_sub_partition_info = [1],
     kImage = 5, kImage0 = 0, kImage1 = 0, kCustomAudio = 8, MAX_ALLOWED_WAV_LENGTH = None, HAS_FAT_FILES = False,
     kImageValue0 = ''0'', kImageValue1 = ''1'', env_get_current_image = (\<lambda>s. ((0, ''0''), s)),
     env_set_current_image = (\<lambda>_ s. s), fs_crc_request = (\<lambda>s. s), fs_crc_release = (\<lambda>s. s), fs_crc_compute = (\<lambda>c _. c),
     NL_FS_CRC_SEED = 0, elf_find = (\<lambda>_ _ _ _ _ s. Some ((- 2, 0, 0, 0), s)),
     nl_fat_init_context = (\<lambda>_ _ s. (0, s)), nl_fat_deinit_context = (\<lambda>_ s. s), nl_fat_read_file = (\<lambda>_ _ _ s. ((0, []), s))\<rparr>"

definition closed_file :: nlfs_file_t where
  "closed_file = \<lparr>f_offset = 0, currentPos = 0, f_len = 0, f_context = 0, partId = 0, partType = 0, chipId = 0,
     f_mode = READ_ONLY, isOpen = False, isFat = False\<rparr>"

definition ram_file :: "nlfs_file_mode_t \<Rightarrow> nlfs_file_t" where
  "ram_file mode = closed_file\<lparr>f_offset := 4, f_len := 8, f_mode := mode, isOpen := True\<rparr>"

lemma ram_counts_right: "counts_right demo_fs 0"
  by (auto simp: counts_right_def nlflash_read_def nlflash_write_def demo_fs_def ram_dev_def locked_call_def
      nlflash_lock_def nlflash_unlock_def on_world_def unat_of_nat take_bit_nat_def elim!: bind_SomeE split: option.splits prod.splits if_splits)

theorem nlfs_access_in_file_witness:
  "\<exists>a n. unat a = 4 \<and> unat n = 8 \<and> nlfs_read_cb demo_fs 100 (ram_file READ_ONLY) ram_state =
     map_option (\<lambda>((r, k, buf), t). ((k, buf, if 0 \<le> r then (ram_file READ_ONLY)\<lparr>currentPos := currentPos (ram_file READ_ONLY) + k\<rparr> else ram_file READ_ONLY), t))
       (nlflash_read (flash_tab demo_fs) 0 a n (0, []) ram_state)"
  using nlfs_access_in_file [of demo_fs "ram_file READ_ONLY" "ram_file READ_ONLY" 100 ram_state "[]"] ram_counts_right
  by (auto simp: ram_file_def closed_file_def file_ok_def)

theorem nlfs_is_open_misleads_witness:
  "\<exists>f s'. nlfs_open_cb demo_fs 0x80 READ_ONLY INSTALLED False 0 closed_file ram_state = Some ((- 2, f), s') \<and> nlfs_is_open f"
proof -
  have ids: "GET_PARTITION_TYPE 0x80 = PARTITION_TYPE_EXT_SUB" "GET_PARTITION_ID 0x80 = 0" "GET_PARTITION_ID 0 = 0"
    by (simp_all add: GET_PARTITION_TYPE_def GET_PARTITION_ID_def PARTITION_TYPE_EXT_SUB_def)
  obtain f s' where o: "nlfs_open_cb demo_fs 0x80 READ_ONLY INSTALLED False 0 closed_file ram_state = Some ((- 2, f), s')"
    by (simp add: nlfs_open_cb_def fileInit_def init_sub_partition_def get_image_offset_def find_section_def ids Let_def
        demo_fs_def closed_file_def ram_dev_def ram_state_def nlflash_request_def nlflash_release_def nlflash_lock_def nlflash_unlock_def)
  with nlfs_is_open_misleads [OF o] show ?thesis by (auto simp: ids)
qed

end
