(* ===== verification/Flash_stack.thy ===== *)
theory Flash_stack
  imports Nlfs Nlflash_spi_store
begin

text \<open>
  Files on an SPI flash chip: \<open>nlfs.c\<close> on \<open>nlflash.c\<close> on \<open>nlflash_spi.c\<close>. The table of devices is
  written by the product; \<open>spi_device\<close> is the entry that names the functions of the driver. What the
  theories below prove of each layer is composed here, over the contract \<open>flash_store\<close>: a file that is
  written through all three layers is read back from the chip.
\<close>

section \<open>The entry in the table\<close>

text \<open>The driver's description of itself; the name is a string constant at some address.\<close>

definition g_flash_spi_info :: "flash_spi_cfg \<Rightarrow> cstr \<Rightarrow> nlflash_info_t" where
  "g_flash_spi_info cfg nm = \<lparr>fl_name = nm, base_addr = 0, fl_size = SPI_SIZE cfg, erase_size = SPI_ERASE_SIZE cfg,
     fast_erase_size = SPI_FAST_ERASE_SIZE cfg, write_size = SPI_WRITE_SIZE cfg\<rparr>"

definition nlflash_spi_get_info :: "flash_spi_cfg \<Rightarrow> cstr \<Rightarrow> 'w \<Rightarrow> nlflash_info_t option \<times> 'w" where
  "nlflash_spi_get_info cfg nm w = (Some (g_flash_spi_info cfg nm), w)"

text \<open>
  The layer calls its drivers as total functions. An assertion that fails in the driver stops the
  device for good: the world is \<open>None\<close> from then on.
\<close>

definition unless_stopped :: "'r \<Rightarrow> ('w \<Rightarrow> ('r \<times> 'w) option) \<Rightarrow> 'w option \<Rightarrow> 'r \<times> 'w option" where
  "unless_stopped r0 f w = (case w of None \<Rightarrow> (r0, None) | Some s \<Rightarrow>
     (case f s of None \<Rightarrow> (r0, None) | Some (r, t) \<Rightarrow> (r, Some t)))"

definition spi_device :: "flash_spi_cfg \<Rightarrow> 'w spi_ops \<Rightarrow> cstr \<Rightarrow> 'w spi_flash option nlflash_func_table_t" where
  "spi_device cfg ops nm =
     \<lparr>fl_init = Some (unless_stopped (- 1) (\<lambda>s. Some (nlflash_spi_init s))),
      fl_request = Some (unless_stopped (- 1) (nlflash_spi_request cfg ops)),
      fl_release = Some (unless_stopped (- 1) (nlflash_spi_release cfg ops)),
      fl_flush = None,
      fl_read_id = Some (\<lambda>n. unless_stopped (- 1, []) (nlflash_spi_read_id cfg ops (unat n))),
      fl_get_info = Some (nlflash_spi_get_info cfg nm),
      fl_erase = Some (\<lambda>a n. unless_stopped (- 1, 0) (nlflash_spi_erase cfg ops None a n 0)),
      fl_read = Some (\<lambda>a n. unless_stopped (- 1, 0, []) (nlflash_spi_read cfg ops a (unat n))),
      fl_write = Some (\<lambda>a xs. unless_stopped (- 1, 0) (nlflash_spi_write cfg ops a xs))\<rparr>"

text \<open>The memory of the chip behind the driver, and the states in which the driver accepts calls.\<close>

definition stack_memory :: "'w nor_view \<Rightarrow> 'w spi_flash option \<Rightarrow> u8 list" where
  "stack_memory v w = (case w of None \<Rightarrow> [] | Some s \<Rightarrow> chip_mem v (hw s))"

definition stack_ok :: "flash_spi_cfg \<Rightarrow> 'w spi_ops \<Rightarrow> 'w nor_view \<Rightarrow> 'w spi_flash option \<Rightarrow> bool" where
  "stack_ok cfg ops v w \<longleftrightarrow> (case w of None \<Rightarrow> False | Some s \<Rightarrow> driver_ready cfg ops v s)"

lemma unless_stopped_step: "f s = Some (r, t) \<Longrightarrow> unless_stopped r0 f (Some s) = (r, Some t)"
  by (simp add: unless_stopped_def)

lemma stack_okE:
  assumes "stack_ok cfg ops v w"
  obtains s where "w = Some s" "driver_ready cfg ops v s" "stack_memory v w = chip_mem v (hw s)"
  using assms by (auto simp: stack_ok_def stack_memory_def split: option.splits)

lemma stack_simps [simp]:
  "stack_ok cfg ops v (Some s) \<longleftrightarrow> driver_ready cfg ops v s" "stack_memory v (Some s) = chip_mem v (hw s)"
  by (simp_all add: stack_ok_def stack_memory_def)

text \<open>The entry is a driver of NOR flash in the sense of the layer above, by the laws of \<open>spi_store\<close>.\<close>

lemma spi_device_nor_driver:
  assumes "SPI_ERASE_SIZE cfg \<noteq> 0"
  shows "nor_driver (stack_ok cfg ops v) (stack_memory v) (SPI_ERASE_SIZE cfg) (spi_device cfg ops nm)"
proof -
  have "\<exists>w'. unless_stopped (- 1, 0, []) (nlflash_spi_read cfg ops a (unat n)) w =
      ((0, n, take (unat n) (drop (unat a) (stack_memory v w))), w') \<and> stack_ok cfg ops v w' \<and> stack_memory v w' = stack_memory v w"
    if w: "stack_ok cfg ops v w" and "unat a + unat n \<le> length (stack_memory v w)" for a n w
  proof (rule stack_okE [OF w])
    fix s assume s: "w = Some s" "driver_ready cfg ops v s" "stack_memory v w = chip_mem v (hw s)"
    with spi_store.rd_law [OF s(2), of a n] that(2) show ?thesis by (auto dest!: unless_stopped_step)
  qed
  moreover have "\<exists>w'. unless_stopped (- 1, 0) (nlflash_spi_write cfg ops a xs) w = ((0, word_of_nat (length xs)), w') \<and>
      stack_ok cfg ops v w' \<and> stack_memory v w' = program (unat a) xs (stack_memory v w)"
    if w: "stack_ok cfg ops v w" and "unat a + length xs \<le> length (stack_memory v w)" for a xs w
  proof (rule stack_okE [OF w])
    fix s assume s: "w = Some s" "driver_ready cfg ops v s" "stack_memory v w = chip_mem v (hw s)"
    with spi_store.wr_law [OF s(2), of a xs] that(2) show ?thesis by (auto dest!: unless_stopped_step)
  qed
  moreover have "\<exists>w'. unless_stopped (- 1, 0) (nlflash_spi_erase cfg ops None a n 0) w = ((0, n), w') \<and>
      stack_ok cfg ops v w' \<and> stack_memory v w' = blank (unat a) (unat n) (stack_memory v w)"
    if w: "stack_ok cfg ops v w" and "unat a + unat n \<le> length (stack_memory v w)"
      and al: "a mod SPI_ERASE_SIZE cfg = 0" "n mod SPI_ERASE_SIZE cfg = 0" for a n w
  proof (rule stack_okE [OF w])
    fix s assume s: "w = Some s" "driver_ready cfg ops v s" "stack_memory v w = chip_mem v (hw s)"
    with spi_store.er_law [OF s(2) _ al, of 0] that(2) show ?thesis by (auto dest!: unless_stopped_step)
  qed
  ultimately show ?thesis
    using assms by (simp add: nor_driver_def spi_device_def nlflash_spi_get_info_def g_flash_spi_info_def)
qed

section \<open>Files on the chip\<close>

text \<open>
  C2: a file that is written through the file layer, the flash layer and the SPI driver is read back,
  byte for byte, from any chip that understands the driver's commands: opening, writing any blocks
  that fit the partition, closing and opening again succeed, one read yields the blocks in order, the
  chip then holds them at the partition's offset with erased bytes behind them, and not a byte outside
  the partition has changed.
\<close>

theorem nlfs_on_spi_flash_roundtrip:
  assumes p: "plain_partition e fid p"
    and dev: "file_chip e fid < length (flash_tab e)" "flash_tab e ! file_chip e fid = spi_device cfg ops nm"
    and lock: "file_chip e fid < length (s_flash_ctxs s)"
      "lock_free (stack_ok cfg ops v) (stack_memory v) (s_flash_ctxs s ! file_chip e fid)"
    and d: "world s = Some d" "driver_ready cfg ops v d"
    and room: "unat (part_offset p) + unat (part_size p) \<le> unat (SPI_SIZE cfg)"
    and al: "part_offset p mod SPI_ERASE_SIZE cfg = 0" "part_size p mod SPI_ERASE_SIZE cfg = 0"
    and fits: "length (concat xss) \<le> unat (part_size p)"
  shows "\<exists>f1 s1 f2 s2 f3 s3 f4 f5 s5 d3.
    nlfs_open_cb e fid WRITE_ONLY INSTALLED False ctx f0 s = Some ((0, f1), s1) \<and>
    nlfs_write_all e xss f1 s1 = Some ((map (\<lambda>xs. word_of_nat (length xs)) xss, f2), s2) \<and>
    nlfs_close e f2 s2 = Some ((0, f3), s3) \<and> \<not> nlfs_is_open f3 \<and>
    nlfs_open_cb e fid READ_ONLY INSTALLED False ctx f3 s3 = Some ((0, f4), s3) \<and>
    nlfs_read_cb e (word_of_nat (length (concat xss))) f4 s3 = Some ((word_of_nat (length (concat xss)), concat xss, f5), s5) \<and>
    world s3 = Some d3 \<and>
    chip_mem v (hw d3) = take (unat (part_offset p)) (chip_mem v (hw d)) @ concat xss @
      replicate (unat (part_size p) - length (concat xss)) (-1) @
      drop (unat (part_offset p) + unat (part_size p)) (chip_mem v (hw d))"
proof -
  let ?m = "stack_memory v (world s)"
  have m: "?m = chip_mem v (hw d)" "length ?m = unat (SPI_SIZE cfg)" and sector: "SPI_ERASE_SIZE cfg \<noteq> 0"
    using d by (auto simp: driver_ready_def nor_chip_def chip_config_def)
  have ready: "store_ready (stack_ok cfg ops v) (stack_memory v) (SPI_ERASE_SIZE cfg) (flash_tab e) (file_chip e fid) s"
    using dev lock d spi_device_nor_driver [OF sector] by (simp add: store_ready_def)
  have nonempty: "?m \<noteq> []" using m(2) d(2) by (auto simp: driver_ready_def nor_chip_def chip_config_def word_less_nat_alt)
  obtain f1 s1 f2 s2 f3 s3 f4 f5 s5 where run:
    "nlfs_open_cb e fid WRITE_ONLY INSTALLED False ctx f0 s = Some ((0, f1), s1)"
    "nlfs_write_all e xss f1 s1 = Some ((map (\<lambda>xs. word_of_nat (length xs)) xss, f2), s2)"
    "nlfs_close e f2 s2 = Some ((0, f3), s3)" "\<not> nlfs_is_open f3"
    "nlfs_open_cb e fid READ_ONLY INSTALLED False ctx f3 s3 = Some ((0, f4), s3)"
    "nlfs_read_cb e (word_of_nat (length (concat xss))) f4 s3 = Some ((word_of_nat (length (concat xss)), concat xss, f5), s5)"
    "stack_memory v (world s3) = take (unat (part_offset p)) ?m @ concat xss @
      replicate (unat (part_size p) - length (concat xss)) (-1) @ drop (unat (part_offset p) + unat (part_size p)) ?m"
    using nlfs_roundtrip [OF p ready _ al fits, of ctx f0] room m(2) by auto
  have "length (stack_memory v (world s3)) = length ?m" using run(7) fits room m(2) by simp
  with nonempty obtain d3 where "world s3 = Some d3" by (cases "world s3") (auto simp: stack_memory_def)
  with run m(1) show ?thesis by auto
qed

section \<open>Witness\<close>

text \<open>A product with the chip of 64 bytes as its only flash and a partition of 20 bytes behind three sub-sectors.\<close>

definition chip_fs :: "sim_nor spi_flash option fs_env" where
  "chip_fs = \<lparr>flash_tab = [spi_device (demo_chip True) (sim_spi True) 0], NLFLASH_INTERNAL = 0, NLFLASH_EXTERNAL = 0,
     g_flash_partitions = [\<lparr>part_offset = 12, part_size = 20, isReadOnly = False\<rparr>], g_sub_partition_info = [1],
     kImage = 5, kImage0 = 0, kImage1 = 0, kCustomAudio = 8, MAX_ALLOWED_WAV_LENGTH = None, HAS_FAT_FILES = False,
     kImageValue0 = ''0'', kImageValue1 = ''1'', env_get_current_image = (\<lambda>s. ((0, ''0''), s)),
     env_set_current_image = (\<lambda>_ s. s), fs_crc_request = (\<lambda>s. s), fs_crc_release = (\<lambda>s. s), fs_crc_compute = (\<lambda>c _. c),
     NL_FS_CRC_SEED = 0, elf_find = (\<lambda>_ _ _ _ _ s. Some ((- 2, 0, 0, 0), s)),
     nl_fat_init_context = (\<lambda>_ _ s. (0, s)), nl_fat_deinit_context = (\<lambda>_ s. s), nl_fat_read_file = (\<lambda>_ _ _ s. ((0, []), s))\<rparr>"

definition chip_state :: "sim_nor spi_flash option flash_state" where
  "chip_state = \<lparr>s_flash_ctxs = [\<lparr>ctx_lock = None, ctx_unlock = None, lock_ctx = 0\<rparr>], world = Some sim_idle\<rparr>"

theorem nlfs_on_spi_flash_roundtrip_witness:
  "\<exists>f1 s1 f2 s2 f3 s3 d3.
    nlfs_open_cb chip_fs 0 WRITE_ONLY INSTALLED False 0 closed_file chip_state = Some ((0, f1), s1) \<and>
    nlfs_write_all chip_fs [[1, 2, 3], [4]] f1 s1 = Some (([3, 1], f2), s2) \<and>
    nlfs_close chip_fs f2 s2 = Some ((0, f3), s3) \<and> world s3 = Some d3 \<and>
    sim_cells (hw d3) = replicate 12 0 @ [1, 2, 3, 4] @ replicate 16 (-1) @ replicate 32 0"
proof -
  let ?p = "\<lparr>part_offset = 12, part_size = 20, isReadOnly = False\<rparr>"
  have p: "plain_partition chip_fs 0 ?p"
    by (simp add: plain_partition_def chip_fs_def GET_PARTITION_TYPE_def GET_PARTITION_ID_def PARTITION_TYPE_EXT_SUB_def)
  have c: "file_chip chip_fs 0 = 0" by (simp add: file_chip_def chip_fs_def)
  have t: "file_chip chip_fs 0 < length (flash_tab chip_fs)"
    "flash_tab chip_fs ! file_chip chip_fs 0 = spi_device (demo_chip True) (sim_spi True) 0"
    unfolding c by (simp_all add: chip_fs_def)
  have l: "file_chip chip_fs 0 < length (s_flash_ctxs chip_state)"
    "lock_free ok content (s_flash_ctxs chip_state ! file_chip chip_fs 0)" for ok content
    unfolding c by (simp_all add: chip_state_def lock_free_def)
  have w: "world chip_state = Some sim_idle" by (simp add: chip_state_def)
  have m: "sim_cells (hw sim_idle) = replicate 64 0" "chip_mem sim_view = sim_cells"
    by (simp_all add: sim_idle_def sim_view_def)
  from nlfs_on_spi_flash_roundtrip [OF p t l w sim_ready, of "[[1, 2, 3], [4]]" 0 closed_file]
  show ?thesis by (fastforce simp: demo_chip_def m)
qed

end
