(* ===== verification/Fault_emulation.thy ===== *)
theory Fault_emulation
  imports NL_Prelude
begin

unbundle bit_operations_syntax

text \<open>
  The usage-fault handler of \<open>src/src/cpu/arm/cortex-m3/fault.c\<close>, which repairs unaligned load and
  store multiple instructions by carrying them out in software, with the assembly stubs that call it.
  Memory is a function from 32-bit addresses to bytes; the registers of the interrupted code lie in
  it, in the exception frame that the CPU pushed (\<open>r0-r3, r12, lr, pc, psr\<close>) and in the block that the
  stub pushed (\<open>r4-r11\<close>).

  The lemmas show that the emulation is what the architecture prescribes for the instruction
  (\<open>arm_multiple\<close>, over the registers that the two blocks stand for: \<open>holds_cpu\<close>), and the register lists
  for which it is not. Alignment, privilege and caches are not part of the memory.
\<close>

section \<open>Memory and registers\<close>

type_synonym memory = "u32 \<Rightarrow> u8"

definition load16 :: "memory \<Rightarrow> u32 \<Rightarrow> u16" where
  "load16 m a = ucast (m a) OR push_bit 8 (ucast (m (a + 1)))"

definition load32 :: "memory \<Rightarrow> u32 \<Rightarrow> u32" where
  "load32 m a = ucast (m a) OR push_bit 8 (ucast (m (a + 1))) OR
     push_bit 16 (ucast (m (a + 2))) OR push_bit 24 (ucast (m (a + 3)))"

definition store32 :: "u32 \<Rightarrow> u32 \<Rightarrow> memory \<Rightarrow> memory" where
  "store32 a v m = m(a := ucast v, a + 1 := ucast (drop_bit 8 v), a + 2 := ucast (drop_bit 16 v), a + 3 := ucast (drop_bit 24 v))"

record fault_state =
  fmem :: memory
  SCB_CFSR :: u32

definition SCB_CFSR_UNALIGNED :: u32 where
  "SCB_CFSR_UNALIGNED = 0x01000000"

text \<open>Writing ones to \<open>CFSR\<close> clears its bits.\<close>

definition clear_CFSR :: "u32 \<Rightarrow> fault_state \<Rightarrow> fault_state" where
  "clear_CFSR v s = s\<lparr>SCB_CFSR := SCB_CFSR s AND NOT v\<rparr>"

definition FRAME_R12 :: u32 where "FRAME_R12 = 16"
definition FRAME_PC :: u32 where "FRAME_PC = 24"

section \<open>The emulation\<close>

definition getRegisterPtr :: "nat \<Rightarrow> u32 \<Rightarrow> u32 \<Rightarrow> u32 option" where
  "getRegisterPtr r faulting machine =
     (if r < 4 then Some (faulting + 4 * word_of_nat r)
      else if r < 12 then Some (machine + 4 * (word_of_nat r - 4))
      else if r = 12 then Some (faulting + FRAME_R12)
      else if r > 13 then Some (faulting + 4 * (word_of_nat r - 14 + 5))
      else None)"

text \<open>
  The loop over the register list from register \<open>i\<close> on; the result is whether it completed, the next
  address and the memory.
\<close>

lemma half_less: "x \<noteq> 0 \<Longrightarrow> unat ((x :: u32) div 2) < unat x"
  by (simp add: unat_div_distrib unat_gt_0 word_greater_zero_iff)

function emulate_registers ::
  "bool \<Rightarrow> u32 \<Rightarrow> u32 \<Rightarrow> nat \<Rightarrow> u32 \<Rightarrow> u32 \<Rightarrow> memory \<Rightarrow> bool \<times> u32 \<times> memory" where
  "emulate_registers ld faulting machine i reglist basePtr m =
     (if reglist = 0 then (True, basePtr, m)
      else if bit reglist 0
      then case getRegisterPtr i faulting machine of
          None \<Rightarrow> (False, basePtr, m)
        | Some regPtr \<Rightarrow>
            emulate_registers ld faulting machine (i + 1) (drop_bit 1 reglist) (basePtr + 4)
              (if ld then store32 regPtr (load32 m basePtr) m else store32 basePtr (load32 m regPtr) m)
      else emulate_registers ld faulting machine (i + 1) (drop_bit 1 reglist) basePtr m)"
  by pat_completeness auto
termination
  by (relation "measure (\<lambda>(_, _, _, _, reglist, _, _). unat reglist)")
     (use half_less in \<open>simp_all add: drop_bit_Suc\<close>)

declare emulate_registers.simps [simp del]

record ldm_insn =
  i_reglist :: u32
  i_base :: nat
  i_writeback :: bool
  i_load :: bool
  i_size :: u32

text \<open>The instruction at \<open>pc\<close>, if it is one the handler knows: 16-bit first, then 32-bit.\<close>

definition decode_multiple :: "memory \<Rightarrow> u32 \<Rightarrow> ldm_insn option" where
  "decode_multiple m pc =
     (let thumb = load16 m pc;
          arm = push_bit 16 (ucast thumb) OR (ucast (load16 m (pc + 2)) :: u32)
      in if thumb AND 0xf000 = 0xc000
         then Some \<lparr>i_reglist = ucast (thumb AND 0x00ff), i_base = unat (drop_bit 8 thumb AND 7), i_writeback = True,
                    i_load = bit thumb 11, i_size = 2\<rparr>
         else if arm AND 0xffc00000 = 0xe8800000
         then Some \<lparr>i_reglist = arm AND 0x0000ffff, i_base = unat (drop_bit 16 arm AND 0x0f), i_writeback = bit arm 21,
                    i_load = bit arm 20, i_size = 4\<rparr>
         else None)"

text \<open>
  \<open>usage_fault_default\<close>: \<open>True\<close> when the instruction was repaired, \<open>False\<close> when it goes on to
  \<open>crash_dump\<close>, with the memory it leaves in both cases.
\<close>

definition usage_fault_default :: "u32 \<Rightarrow> u32 \<Rightarrow> fault_state \<Rightarrow> bool \<times> fault_state" where
  "usage_fault_default faulting machine s =
     (let pc = load32 (fmem s) (faulting + FRAME_PC)
      in case (if SCB_CFSR s = SCB_CFSR_UNALIGNED then decode_multiple (fmem s) pc else None) of
           None \<Rightarrow> (False, s)
         | Some insn \<Rightarrow>
             (case getRegisterPtr (i_base insn) faulting machine of
                None \<Rightarrow> (False, s)
              | Some regPtr \<Rightarrow>
                  let (ok, basePtr, m) =
                    emulate_registers (i_load insn) faulting machine 0 (i_reglist insn) (load32 (fmem s) regPtr) (fmem s)
                  in if \<not> ok then (False, s\<lparr>fmem := m\<rparr>)
                     else let m1 = (if i_writeback insn then store32 regPtr basePtr m else m);
                              m2 = store32 (faulting + FRAME_PC) (pc + i_size insn) m1
                          in (True, clear_CFSR SCB_CFSR_UNALIGNED (s\<lparr>fmem := m2\<rparr>))))"

text \<open>
  What the stubs pass on: \<open>tst lr, #4\<close> tells the stack of the interrupted code; the stub has pushed ten
  words on the main stack, whose pointer then is the second argument.
\<close>

definition common_fault_handler_c :: "u32 \<Rightarrow> u32 \<Rightarrow> u32 \<Rightarrow> u32 \<times> u32" where
  "common_fault_handler_c lr msp psp =
     (let msp' = msp - 40 in (if lr AND 4 = 0 then msp' + 40 else psp, msp'))"

definition nlfault_usage_fault_handler_c :: "u32 \<Rightarrow> u32 \<Rightarrow> u32 \<Rightarrow> u32 \<times> u32" where
  "nlfault_usage_fault_handler_c lr msp psp =
     (let msp' = msp - 40 in (if lr AND 4 = 0 then msp' + 32 else psp, msp'))"

section \<open>Words in memory\<close>

definition word4 :: "u32 \<Rightarrow> u32 set" where
  "word4 a = {a, a + 1, a + 2, a + 3}"

lemma load_store_same [simp]: "load32 (store32 a v m) a = v"
proof (rule bit_word_eqI)
  fix n assume "n < LENGTH(32)"
  then consider "n < 8" | "8 \<le> n" "n < 16" | "16 \<le> n" "n < 24" | "24 \<le> n" "n < 32" by fastforce
  then show "bit (load32 (store32 a v m) a) n = bit v n"
    by cases (auto simp: load32_def store32_def bit_simps)
qed

lemma store_outside: "x \<notin> word4 a \<Longrightarrow> store32 a v m x = m x"
  by (simp add: store32_def word4_def)

lemma load_cong: "(\<And>x. x \<in> word4 a \<Longrightarrow> m x = m' x) \<Longrightarrow> load32 m a = load32 m' a"
  by (simp add: load32_def word4_def)

lemma load_store_other:
  "word4 a \<inter> word4 b = {} \<Longrightarrow> load32 (store32 b v m) a = load32 m a"
  by (intro load_cong store_outside) auto

lemma store_cong: "m x = m' x \<Longrightarrow> store32 a v m x = store32 a v m' x"
  by (simp add: store32_def)


section \<open>The architecture\<close>

text \<open>
  The registers and the memory of the interrupted code, and what a load or store multiple (increment
  after) does to them: the registers of the list, lowest first, from or to consecutive words; then the
  base register, if the instruction writes it back, which a 16-bit load does only when the base is not
  in the list.
\<close>

record cpu =
  regs :: "nat \<Rightarrow> u32"
  cmem :: memory

primrec ldm :: "nat list \<Rightarrow> u32 \<Rightarrow> cpu \<Rightarrow> cpu" where
  "ldm [] a c = c"
| "ldm (r # rs) a c = ldm rs (a + 4) (c\<lparr>regs := (regs c)(r := load32 (cmem c) a)\<rparr>)"

primrec stm :: "nat list \<Rightarrow> u32 \<Rightarrow> cpu \<Rightarrow> cpu" where
  "stm [] a c = c"
| "stm (r # rs) a c = stm rs (a + 4) (c\<lparr>cmem := store32 a (regs c r) (cmem c)\<rparr>)"

definition reg_list :: "u32 \<Rightarrow> nat list" where
  "reg_list reglist = filter (bit reglist) [0..<16]"

definition arm_multiple :: "ldm_insn \<Rightarrow> cpu \<Rightarrow> cpu" where
  "arm_multiple insn c =
     (let rs = reg_list (i_reglist insn);
          a = regs c (i_base insn);
          c1 = (if i_load insn then ldm rs a c else stm rs a c);
          wb = (i_writeback insn \<and> \<not> (i_load insn \<and> i_size insn = 2 \<and> i_base insn \<in> set rs));
          c2 = (if wb then c1\<lparr>regs := (regs c1)(i_base insn := a + 4 * word_of_nat (length rs))\<rparr> else c1)
      in if i_load insn \<and> 15 \<in> set rs then c2 else c2\<lparr>regs := (regs c2)(15 := regs c 15 + i_size insn)\<rparr>)"

section \<open>The stacks hold the registers\<close>

definition the_ptr :: "u32 \<Rightarrow> u32 \<Rightarrow> nat \<Rightarrow> u32" where
  "the_ptr F M r = (case getRegisterPtr r F M of Some p \<Rightarrow> p | None \<Rightarrow> 0)"

definition saved :: "nat \<Rightarrow> bool" where
  "saved r \<longleftrightarrow> r < 16 \<and> r \<noteq> 13"

definition stacks :: "u32 \<Rightarrow> u32 \<Rightarrow> u32 set" where
  "stacks F M = (\<Union>r \<in> {r. saved r}. word4 (the_ptr F M r))"

text \<open>The exception frame and the pushed block do not overlap and do not wrap around.\<close>

definition stacks_ok :: "u32 \<Rightarrow> u32 \<Rightarrow> bool" where
  "stacks_ok F M \<longleftrightarrow> unat F + 32 \<le> 2 ^ 32 \<and> unat M + 32 \<le> 2 ^ 32 \<and> (unat F + 32 \<le> unat M \<or> unat M + 32 \<le> unat F)"

definition holds_cpu :: "u32 \<Rightarrow> u32 \<Rightarrow> memory \<Rightarrow> cpu \<Rightarrow> bool" where
  "holds_cpu F M m c \<longleftrightarrow> (\<forall>r. saved r \<longrightarrow> load32 m (the_ptr F M r) = regs c r) \<and> (\<forall>a. a \<notin> stacks F M \<longrightarrow> m a = cmem c a)"

lemma saved_ptr: "saved r \<Longrightarrow> getRegisterPtr r F M = Some (the_ptr F M r)"
  by (auto simp: saved_def the_ptr_def getRegisterPtr_def)

lemma saved_cases:
  assumes "saved r"
  obtains k where "k < 8" "the_ptr F M r = F + word_of_nat (4 * k)" "k = (if r < 4 then r else if r = 12 then 4 else r - 9)" "r < 4 \<or> 12 \<le> r"
  | k where "k < 8" "the_ptr F M r = M + word_of_nat (4 * k)" "k = r - 4" "4 \<le> r" "r < 12"
proof -
  consider "r < 4" | "4 \<le> r" "r < 12" | "r = 12" | "r = 14" | "r = 15"
    using assms unfolding saved_def by linarith
  then show thesis
    by cases (rule that(1) [of r] that(2) [of "r - 4"] that(1) [of 4] that(1) [of 5] that(1) [of 6];
      simp add: the_ptr_def getRegisterPtr_def FRAME_R12_def of_nat_diff)+
qed

lemma word4_offset:
  assumes "x \<in> word4 (A + word_of_nat n)"
  obtains j where "j < 4" "x = A + word_of_nat (n + j)"
proof -
  consider "x = A + word_of_nat n" | "x = A + word_of_nat n + 1" | "x = A + word_of_nat n + 2" | "x = A + word_of_nat n + 3"
    using assms by (auto simp: word4_def)
  then show thesis
    by cases (rule that [of 0] that [of 1] that [of 2] that [of 3]; simp add: ac_simps)+
qed

lemma word4_unat:
  assumes "x \<in> word4 (A + word_of_nat (4 * k))" "k < 8" "unat A + 32 \<le> 2 ^ 32"
  shows "unat A + 4 * k \<le> unat x \<and> unat x < unat A + 4 * k + 4"
proof -
  obtain j where j: "j < 4" "x = A + word_of_nat (4 * k + j)"
    using assms(1) by (rule word4_offset)
  define n where "n = 4 * k + j"
  have "n < 2 ^ 32" using assms(2) j(1) by (simp add: n_def)
  then have "unat (word_of_nat n :: u32) = n" by (simp add: unat_of_nat)
  moreover have "x = A + word_of_nat n" using j(2) unfolding n_def .
  ultimately have "unat x = unat A + n" using assms(2,3) j(1) by (simp add: n_def unat_word_ariths)
  with j(1) show ?thesis by (simp add: n_def)
qed

text \<open>Where a saved register lies, as a number.\<close>

definition place :: "u32 \<Rightarrow> u32 \<Rightarrow> nat \<Rightarrow> nat" where
  "place F M r = (if r < 4 then unat F + 4 * r else if r < 12 then unat M + 4 * (r - 4)
     else if r = 12 then unat F + 16 else unat F + 4 * (r - 9))"

lemma saved_place:
  assumes "stacks_ok F M" "saved r" "x \<in> word4 (the_ptr F M r)"
  shows "place F M r \<le> unat x \<and> unat x < place F M r + 4"
  using assms(2)
proof (cases rule: saved_cases [of r F M])
  case (1 k)
  with assms word4_unat [of x F k] show ?thesis by (auto simp: place_def stacks_ok_def saved_def split: if_splits)
next
  case (2 k)
  with assms word4_unat [of x M k] show ?thesis by (auto simp: place_def stacks_ok_def)
qed

lemma places_apart:
  assumes "stacks_ok F M" "saved r" "saved q" "r \<noteq> q"
  shows "place F M r + 4 \<le> place F M q \<or> place F M q + 4 \<le> place F M r"
  using assms by (auto simp: place_def stacks_ok_def saved_def split: if_splits)

lemma saved_disjoint:
  assumes "stacks_ok F M" "saved r" "saved q" "r \<noteq> q"
  shows "word4 (the_ptr F M r) \<inter> word4 (the_ptr F M q) = {}"
  using saved_place [OF assms(1,2)] saved_place [OF assms(1,3)] places_apart [OF assms] by fastforce


text \<open>
  Writing a saved register, or data outside the stacks, does on the stacks what it does to the registers
  and the memory they stand for.
\<close>

definition clear_of_stacks :: "u32 \<Rightarrow> u32 \<Rightarrow> u32 \<Rightarrow> bool" where
  "clear_of_stacks F M a \<longleftrightarrow> word4 a \<inter> stacks F M = {}"

lemma store_saved:
  assumes "stacks_ok F M" "saved r" "holds_cpu F M m c"
  shows "holds_cpu F M (store32 (the_ptr F M r) v m) (c\<lparr>regs := (regs c)(r := v)\<rparr>)"
  unfolding holds_cpu_def
proof (intro conjI allI impI)
  fix q assume q: "saved q"
  show "load32 (store32 (the_ptr F M r) v m) (the_ptr F M q) = regs (c\<lparr>regs := (regs c)(r := v)\<rparr>) q"
  proof (cases "q = r")
    case False
    with assms q show ?thesis by (simp add: load_store_other saved_disjoint holds_cpu_def)
  qed simp
next
  fix a assume a: "a \<notin> stacks F M"
  with assms(2) have "a \<notin> word4 (the_ptr F M r)" by (auto simp: stacks_def)
  with a assms(3) show "store32 (the_ptr F M r) v m a = cmem (c\<lparr>regs := (regs c)(r := v)\<rparr>) a"
    by (simp add: store_outside holds_cpu_def)
qed

lemma load_data:
  assumes "holds_cpu F M m c" "clear_of_stacks F M a"
  shows "load32 m a = load32 (cmem c) a"
  using assms by (intro load_cong) (auto simp: holds_cpu_def clear_of_stacks_def)

lemma store_data:
  assumes "holds_cpu F M m c" "clear_of_stacks F M a"
  shows "holds_cpu F M (store32 a v m) (c\<lparr>cmem := store32 a v (cmem c)\<rparr>)"
  unfolding holds_cpu_def
proof (intro conjI allI impI)
  fix q assume "saved q"
  moreover from this assms(2) have "word4 (the_ptr F M q) \<inter> word4 a = {}"
    by (auto simp: clear_of_stacks_def stacks_def)
  ultimately show "load32 (store32 a v m) (the_ptr F M q) = regs (c\<lparr>cmem := store32 a v (cmem c)\<rparr>) q"
    using assms(1) by (simp add: load_store_other holds_cpu_def)
next
  fix x assume "x \<notin> stacks F M"
  with assms(1) have "m x = cmem c x" by (simp add: holds_cpu_def)
  then show "store32 a v m x = cmem (c\<lparr>cmem := store32 a v (cmem c)\<rparr>) x"
    by (simp add: store32_def)
qed

lemma the_ptr_load: "holds_cpu F M m c \<Longrightarrow> saved r \<Longrightarrow> load32 m (the_ptr F M r) = regs c r"
  by (simp add: holds_cpu_def)

section \<open>The loop\<close>

definition step_multiple :: "bool \<Rightarrow> nat list \<Rightarrow> u32 \<Rightarrow> cpu \<Rightarrow> cpu" where
  "step_multiple ld rs a c = (if ld then ldm rs a c else stm rs a c)"

definition bits_from :: "nat \<Rightarrow> u32 \<Rightarrow> nat \<Rightarrow> nat list" where
  "bits_from i rl n = filter (\<lambda>j. bit rl (j - i)) [i..<i + n]"

lemma bits_from_0 [simp]: "bits_from i 0 n = []"
  by (simp add: bits_from_def)

lemma bits_from_Suc: "bits_from i rl (Suc n) = (if bit rl 0 then [i] else []) @ bits_from (Suc i) (drop_bit 1 rl) n"
proof -
  have "[i..<i + Suc n] = i # [Suc i..<Suc i + n]" by (simp add: upt_conv_Cons)
  moreover have "filter (\<lambda>j. bit rl (j - i)) [Suc i..<Suc i + n] = filter (\<lambda>j. bit (drop_bit 1 rl) (j - Suc i)) [Suc i..<Suc i + n]"
  proof (rule filter_cong [OF refl])
    fix j assume "j \<in> set [Suc i..<Suc i + n]"
    then have "1 + (j - Suc i) = j - i" by auto
    then show "bit rl (j - i) \<longleftrightarrow> bit (drop_bit 1 rl) (j - Suc i)" by (simp only: bit_drop_bit_eq o_def)
  qed
  ultimately show ?thesis by (simp add: bits_from_def)
qed

lemma emulate_registers_multiple:
  assumes "stacks_ok F M"
  shows "holds_cpu F M m c \<Longrightarrow> unat rl < 2 ^ n \<Longrightarrow> \<forall>r \<in> set (bits_from i rl n). saved r \<Longrightarrow>
    \<forall>k < length (bits_from i rl n). clear_of_stacks F M (a + 4 * word_of_nat k) \<Longrightarrow>
    \<exists>m'. emulate_registers ld F M i rl a m = (True, a + 4 * word_of_nat (length (bits_from i rl n)), m') \<and>
      holds_cpu F M m' (step_multiple ld (bits_from i rl n) a c)"
proof (induction n arbitrary: i rl a m c)
  case 0
  then show ?case by (simp add: emulate_registers.simps step_multiple_def unat_eq_0)
next
  case (Suc n)
  have half: "unat (drop_bit 1 rl) < 2 ^ n" using Suc.prems(2) by (simp add: drop_bit_Suc unat_div_distrib)
  show ?case
  proof (cases "bit rl 0")
    case False
    then show ?thesis
      using Suc.IH [of m c "drop_bit 1 rl" "Suc i" a] Suc.prems half
      by (cases "rl = 0") (simp_all add: bits_from_Suc emulate_registers.simps [of ld F M i rl] emulate_registers.simps [of ld F M _ 0] step_multiple_def)
  next
    case True
    then have s: "saved i" and a: "clear_of_stacks F M a" and "rl \<noteq> 0"
      using Suc.prems(3,4) by (auto simp: bits_from_Suc dest: spec [of _ 0])
    define p where "p = the_ptr F M i"
    define m1 where "m1 = (if ld then store32 p (load32 m a) m else store32 a (load32 m p) m)"
    define c1 where "c1 = step_multiple ld [i] a c"
    have "holds_cpu F M m1 c1"
      using Suc.prems(1) s a store_saved [OF assms s Suc.prems(1)] store_data [OF Suc.prems(1) a]
      by (simp add: m1_def c1_def step_multiple_def p_def load_data the_ptr_load)
    then have "\<exists>m'. emulate_registers ld F M (Suc i) (drop_bit 1 rl) (a + 4) m1 =
        (True, a + 4 + 4 * word_of_nat (length (bits_from (Suc i) (drop_bit 1 rl) n)), m') \<and>
      holds_cpu F M m' (step_multiple ld (bits_from (Suc i) (drop_bit 1 rl) n) (a + 4) c1)"
      using half
    proof (rule Suc.IH)
      show "\<forall>r\<in>set (bits_from (Suc i) (drop_bit 1 rl) n). saved r" using Suc.prems(3) by (simp add: bits_from_Suc)
      show "\<forall>k<length (bits_from (Suc i) (drop_bit 1 rl) n). clear_of_stacks F M (a + 4 + 4 * word_of_nat k)"
      proof (intro allI impI)
        fix k assume "k < length (bits_from (Suc i) (drop_bit 1 rl) n)"
        then have "Suc k < length (bits_from i rl (Suc n))" using True by (simp add: bits_from_Suc)
        with Suc.prems(4) have "clear_of_stacks F M (a + 4 * word_of_nat (Suc k))" by blast
        then show "clear_of_stacks F M (a + 4 + 4 * word_of_nat k)" by (simp add: algebra_simps)
      qed
    qed
    with True \<open>rl \<noteq> 0\<close> saved_ptr [OF s] show ?thesis
      by (cases ld) (simp_all add: emulate_registers.simps [of _ F M i rl] bits_from_Suc m1_def c1_def p_def step_multiple_def algebra_simps)
  qed
qed

section \<open>The handler\<close>

lemma decode_reglist: "decode_multiple m pc = Some insn \<Longrightarrow> unat (i_reglist insn) < 2 ^ 16"
proof -
  assume d: "decode_multiple m pc = Some insn"
  have "(x :: u32) AND 0xffff = take_bit 16 x" for x
    by (simp add: take_bit_eq_mask mask_eq_exp_minus_1)
  then have "unat ((x :: u32) AND 0xffff) < 2 ^ 16" for x
    using take_bit_nat_less_exp [of 16 "unat x"] by (simp add: unsigned_take_bit_eq)
  moreover have "unat (ucast (t :: u16) :: u32) < 2 ^ 16" for t
    using le_less_trans [OF take_bit_nat_less_eq_self unsigned_less [of t]] by (simp add: unsigned_ucast_eq)
  ultimately show ?thesis
    using d by (auto simp: decode_multiple_def Let_def split: if_splits)
qed

lemma reg_list_bits: "reg_list rl = bits_from 0 rl 16"
  by (simp add: reg_list_def bits_from_def)

text \<open>The effect of the handler on the interrupted code: it always writes back, and always steps over the instruction.\<close>

definition handled_multiple :: "ldm_insn \<Rightarrow> cpu \<Rightarrow> cpu" where
  "handled_multiple insn c =
     (let rs = reg_list (i_reglist insn);
          a = regs c (i_base insn);
          c1 = step_multiple (i_load insn) rs a c;
          c2 = (if i_writeback insn then c1\<lparr>regs := (regs c1)(i_base insn := a + 4 * word_of_nat (length rs))\<rparr> else c1)
      in c2\<lparr>regs := (regs c2)(15 := regs c 15 + i_size insn)\<rparr>)"

definition repairable :: "u32 \<Rightarrow> u32 \<Rightarrow> ldm_insn \<Rightarrow> cpu \<Rightarrow> bool" where
  "repairable F M insn c \<longleftrightarrow> saved (i_base insn) \<and> 13 \<notin> set (reg_list (i_reglist insn)) \<and>
     (\<forall>k < length (reg_list (i_reglist insn)). clear_of_stacks F M (regs c (i_base insn) + 4 * word_of_nat k))"

lemma usage_fault_handled:
  assumes cfsr: "SCB_CFSR s = SCB_CFSR_UNALIGNED" and insn: "decode_multiple (fmem s) (regs c 15) = Some insn"
    and ok: "stacks_ok F M" and holds: "holds_cpu F M (fmem s) c" and rep: "repairable F M insn c"
  shows "\<exists>s'. usage_fault_default F M s = (True, s') \<and> holds_cpu F M (fmem s') (handled_multiple insn c) \<and> SCB_CFSR s' = 0"
proof -
  have base: "saved (i_base insn)" and pc: "saved 15" using rep by (simp_all add: repairable_def saved_def)
  have pc_ptr: "the_ptr F M 15 = F + FRAME_PC" by (simp add: the_ptr_def getRegisterPtr_def FRAME_PC_def)
  then have pc_val: "load32 (fmem s) (F + FRAME_PC) = regs c 15" using the_ptr_load [OF holds pc] by simp
  define a where "a = regs c (i_base insn)"
  have a: "load32 (fmem s) (the_ptr F M (i_base insn)) = a" using the_ptr_load [OF holds base] by (simp add: a_def)
  have saved: "\<forall>r \<in> set (reg_list (i_reglist insn)). saved r"
    using rep by (auto simp: repairable_def saved_def reg_list_def)
  obtain m where m: "emulate_registers (i_load insn) F M 0 (i_reglist insn) a (fmem s) =
      (True, a + 4 * word_of_nat (length (reg_list (i_reglist insn))), m)"
    and m_holds: "holds_cpu F M m (step_multiple (i_load insn) (reg_list (i_reglist insn)) a c)"
    using emulate_registers_multiple [OF ok holds decode_reglist [OF insn], of 0 a "i_load insn"] saved rep
    by (auto simp: reg_list_bits repairable_def a_def)
  define c1 where "c1 = step_multiple (i_load insn) (reg_list (i_reglist insn)) a c"
  define e where "e = a + 4 * word_of_nat (length (reg_list (i_reglist insn)))"
  define m1 where "m1 = (if i_writeback insn then store32 (the_ptr F M (i_base insn)) e m else m)"
  define c2 where "c2 = (if i_writeback insn then c1\<lparr>regs := (regs c1)(i_base insn := e)\<rparr> else c1)"
  have "holds_cpu F M m1 c2"
    using m_holds store_saved [OF ok base m_holds] by (simp add: m1_def c2_def c1_def)
  from store_saved [OF ok pc this, of "regs c 15 + i_size insn"]
  have "holds_cpu F M (store32 (F + FRAME_PC) (regs c 15 + i_size insn) m1) (handled_multiple insn c)"
    unfolding pc_ptr by (cases "i_writeback insn") (simp_all add: handled_multiple_def Let_def c2_def c1_def e_def a_def)
  moreover have "usage_fault_default F M s =
      (True, clear_CFSR SCB_CFSR_UNALIGNED (s\<lparr>fmem := store32 (F + FRAME_PC) (regs c 15 + i_size insn) m1\<rparr>))"
    using cfsr insn m by (simp add: usage_fault_default_def pc_val saved_ptr [OF base] a Let_def m1_def e_def)
  ultimately show ?thesis using cfsr by (simp add: clear_CFSR_def)
qed

text \<open>
  C24: The C function of the usage fault emulates unaligned multiple loads and stores correctly on the
  two blocks of saved registers and memory. It is called for an unaligned access, with two disjoint blocks
  of 32 bytes that do not wrap and hold the registers of the interrupted code (the frame of the stack that
  this code used, and \<open>r4\<close> to \<open>r11\<close>). For every 16-bit or 32-bit load or store multiple at the faulting
  program counter whose register list and base avoid the stack pointer, which does not load the program
  counter, which does not write back a base that it loads, and whose data lie outside the two blocks: the
  values in the blocks and the rest of memory afterwards are exactly those that the architecture's own
  definition of the instruction gives, the saved program counter stands after the instruction, and the
  fault is cleared. This is not what the interrupted code finds in its registers: the assembly stub
  resumes without reading \<open>r4\<close> to \<open>r11\<close> back, and on the main stack it hands over a wrong frame
  (\<open>usage_fault_stub_frame\<close>).
\<close>

theorem usage_fault_emulates_multiple:
  assumes "SCB_CFSR s = SCB_CFSR_UNALIGNED" "decode_multiple (fmem s) (regs c 15) = Some insn"
    and "stacks_ok F M" "holds_cpu F M (fmem s) c" "repairable F M insn c"
    and "i_load insn \<longrightarrow> 15 \<notin> set (reg_list (i_reglist insn))"
    and "i_load insn \<and> i_writeback insn \<longrightarrow> i_base insn \<notin> set (reg_list (i_reglist insn))"
  shows "\<exists>s'. usage_fault_default F M s = (True, s') \<and> holds_cpu F M (fmem s') (arm_multiple insn c) \<and> SCB_CFSR s' = 0"
proof -
  have "handled_multiple insn c = arm_multiple insn c"
    using assms(6,7) by (auto simp: handled_multiple_def arm_multiple_def Let_def step_multiple_def)
  with usage_fault_handled [OF assms(1-5)] show ?thesis by simp
qed

lemma ldm_other: "r \<notin> set rs \<Longrightarrow> regs (ldm rs a c) r = regs c r"
  by (induction rs arbitrary: a c) auto

lemma ldm_value:
  "distinct rs \<Longrightarrow> k < length rs \<Longrightarrow> regs (ldm rs a c) (rs ! k) = load32 (cmem c) (a + 4 * word_of_nat k)"
proof (induction rs arbitrary: a c k)
  case (Cons r rs)
  show ?case
  proof (cases k)
    case 0
    with Cons.prems show ?thesis by (simp add: ldm_other)
  next
    case (Suc j)
    with Cons.prems Cons.IH [of j "a + 4" "c\<lparr>regs := (regs c)(r := load32 (cmem c) a)\<rparr>"] show ?thesis
      by (simp add: algebra_simps)
  qed
qed simp

text \<open>
  Two loads come out wrong. A 16-bit load multiple whose list has its own base register must leave
  there the word it loaded, but the handler writes the end address over it; and a load of the program
  counter must jump, but the handler puts the address of the next instruction over the loaded one.
\<close>

theorem usage_fault_wrong_loads:
  assumes "SCB_CFSR s = SCB_CFSR_UNALIGNED" "decode_multiple (fmem s) (regs c 15) = Some insn"
    and "stacks_ok F M" "holds_cpu F M (fmem s) c" "repairable F M insn c" "i_load insn"
    and "k < length (reg_list (i_reglist insn))" "r = reg_list (i_reglist insn) ! k"
    and "r = 15 \<and> (i_writeback insn \<longrightarrow> i_base insn \<noteq> 15) \<or> r = i_base insn \<and> r \<noteq> 15 \<and> i_size insn = 2 \<and> i_writeback insn"
  shows "regs (arm_multiple insn c) r = load32 (cmem c) (regs c (i_base insn) + 4 * word_of_nat k) \<and>
    (\<exists>s'. usage_fault_default F M s = (True, s') \<and> load32 (fmem s') (the_ptr F M r) =
      (if r = 15 then regs c 15 + i_size insn else regs c r + 4 * word_of_nat (length (reg_list (i_reglist insn)))))"
proof
  have "distinct (reg_list (i_reglist insn))" by (simp add: reg_list_def)
  from ldm_value [OF this assms(7)]
  have v: "regs (ldm (reg_list (i_reglist insn)) a c) r = load32 (cmem c) (a + 4 * word_of_nat k)" for a
    by (simp add: assms(8))
  have r: "r \<in> set (reg_list (i_reglist insn))" using nth_mem [OF assms(7)] by (simp add: assms(8))
  show "regs (arm_multiple insn c) r = load32 (cmem c) (regs c (i_base insn) + 4 * word_of_nat k)"
    using assms(9)
  proof
    assume "r = 15 \<and> (i_writeback insn \<longrightarrow> i_base insn \<noteq> 15)"
    with assms(6) v r show ?thesis by (simp add: arm_multiple_def Let_def)
  next
    assume "r = i_base insn \<and> r \<noteq> 15 \<and> i_size insn = 2 \<and> i_writeback insn"
    with assms(6) v r show ?thesis by (simp add: arm_multiple_def Let_def)
  qed
  obtain s' where s': "usage_fault_default F M s = (True, s')" "holds_cpu F M (fmem s') (handled_multiple insn c)"
    using usage_fault_handled [OF assms(1-5)] by auto
  have "saved r" using assms(9,5) by (auto simp: repairable_def saved_def)
  with s' assms(6,9) show "\<exists>s'. usage_fault_default F M s = (True, s') \<and> load32 (fmem s') (the_ptr F M r) =
      (if r = 15 then regs c 15 + i_size insn else regs c r + 4 * word_of_nat (length (reg_list (i_reglist insn))))"
    by (auto simp: the_ptr_load handled_multiple_def Let_def)
qed

text \<open>
  The stub of the usage fault adds 32 instead of 40 bytes for the ten words that it has pushed, so for a
  fault on the main stack the frame lies 8 bytes too low, and what is taken for the program counter is
  the saved \<open>r12\<close>.
\<close>

lemma usage_fault_stub_frame:
  assumes "lr AND 4 = 0"
  shows "common_fault_handler_c lr msp psp = (msp, msp - 40)"
    and "nlfault_usage_fault_handler_c lr msp psp = (msp - 8, msp - 40)"
    and "fst (nlfault_usage_fault_handler_c lr msp psp) + FRAME_PC = msp + FRAME_R12"
  using assms by (simp_all add: common_fault_handler_c_def nlfault_usage_fault_handler_c_def FRAME_PC_def FRAME_R12_def)

text \<open>A 16-bit \<open>ldmia r0!, {r1, r2}\<close> at address 0 that reads the words 7 and 9 at address 65.\<close>

definition example_memory :: "u16 \<Rightarrow> memory" where
  "example_memory insn a =
     (if a = 0 then ucast insn else if a = 1 then ucast (drop_bit 8 insn)
      else if a = 0x1000 then 65 else if a = 65 then 7 else if a = 69 then 9 else 0)"

definition example_cpu :: "u16 \<Rightarrow> cpu" where
  "example_cpu insn = \<lparr>regs = (\<lambda>_. 0)(0 := 65), cmem = example_memory insn\<rparr>"

lemma example_stacks_ok: "stacks_ok 0x1000 0x2000"
  by (simp add: stacks_ok_def)

lemma stacks_place: "stacks_ok F M \<Longrightarrow> x \<in> stacks F M \<Longrightarrow> unat F \<le> unat x \<and> unat x < unat F + 32 \<or> unat M \<le> unat x \<and> unat x < unat M + 32"
proof -
  assume ok: "stacks_ok F M" and "x \<in> stacks F M"
  then obtain r where r: "saved r" "x \<in> word4 (the_ptr F M r)" by (auto simp: stacks_def)
  from saved_place [OF ok r] r(1) show ?thesis by (auto simp: place_def saved_def split: if_splits)
qed

lemma example_clear: "a < 0x800 \<Longrightarrow> clear_of_stacks 0x1000 0x2000 a"
proof -
  assume a: "a < 0x800"
  have "x \<notin> stacks 0x1000 0x2000" if "x \<in> word4 a" for x
  proof -
    have "unat a < 0x800" using a by (simp add: word_less_nat_alt)
    with that have "unat x < 0x810" by (auto simp: word4_def unat_word_ariths)
    with stacks_place [OF example_stacks_ok, of x] show ?thesis by auto
  qed
  then show ?thesis by (auto simp: clear_of_stacks_def)
qed

lemma example_holds: "holds_cpu 0x1000 0x2000 (example_memory insn) (example_cpu insn)"
  unfolding holds_cpu_def
proof (intro conjI allI impI)
  fix r assume "saved r"
  show "load32 (example_memory insn) (the_ptr 0x1000 0x2000 r) = regs (example_cpu insn) r"
  proof (cases "r = 0")
    case True
    then show ?thesis by (simp add: the_ptr_def getRegisterPtr_def example_cpu_def load32_def example_memory_def)
  next
    case False
    have "example_memory insn x = (\<lambda>_. 0) x" if x: "x \<in> word4 (the_ptr 0x1000 0x2000 r)" for x
    proof -
      have "0x1004 \<le> unat x"
        using saved_place [OF example_stacks_ok \<open>saved r\<close> x] False by (simp add: place_def split: if_splits) arith
      then show ?thesis by (auto simp: example_memory_def)
    qed
    then have "load32 (example_memory insn) (the_ptr 0x1000 0x2000 r) = load32 (\<lambda>_. 0) (the_ptr 0x1000 0x2000 r)"
      by (rule load_cong)
    with False show ?thesis by (simp add: load32_def example_cpu_def)
  qed
qed (simp add: example_cpu_def)


lemma example_decode:
  "decode_multiple (example_memory 0xc806) 0 = Some \<lparr>i_reglist = 6, i_base = 0, i_writeback = True, i_load = True, i_size = 2\<rparr>"
  "decode_multiple (example_memory 0xc803) 0 = Some \<lparr>i_reglist = 3, i_base = 0, i_writeback = True, i_load = True, i_size = 2\<rparr>"
  by (simp_all add: decode_multiple_def load16_def example_memory_def)

lemma example_reg_list: "reg_list 6 = [1, 2]" "reg_list 3 = [0, 1]"
  by (code_simp)+

theorem usage_fault_emulates_multiple_witness:
  "\<exists>s'. usage_fault_default 0x1000 0x2000 \<lparr>fmem = example_memory 0xc806, SCB_CFSR = SCB_CFSR_UNALIGNED\<rparr> = (True, s') \<and>
     holds_cpu 0x1000 0x2000 (fmem s') (arm_multiple \<lparr>i_reglist = 6, i_base = 0, i_writeback = True, i_load = True, i_size = 2\<rparr>
       (example_cpu 0xc806)) \<and> SCB_CFSR s' = 0"
proof (rule usage_fault_emulates_multiple)
  show "repairable 0x1000 0x2000 \<lparr>i_reglist = 6, i_base = 0, i_writeback = True, i_load = True, i_size = 2\<rparr> (example_cpu 0xc806)"
    by (auto simp: repairable_def example_reg_list saved_def example_cpu_def less_Suc_eq intro!: example_clear)
  show "holds_cpu 0x1000 0x2000 (fmem \<lparr>fmem = example_memory 0xc806, SCB_CFSR = SCB_CFSR_UNALIGNED\<rparr>) (example_cpu 0xc806)"
    by (simp add: example_holds)
qed (use example_decode(1) in \<open>simp_all add: example_stacks_ok example_cpu_def example_reg_list\<close>)

theorem usage_fault_wrong_loads_witness:
  "regs (arm_multiple \<lparr>i_reglist = 3, i_base = 0, i_writeback = True, i_load = True, i_size = 2\<rparr> (example_cpu 0xc803)) 0 = 7 \<and>
   (\<exists>s'. usage_fault_default 0x1000 0x2000 \<lparr>fmem = example_memory 0xc803, SCB_CFSR = SCB_CFSR_UNALIGNED\<rparr> = (True, s') \<and>
     load32 (fmem s') (the_ptr 0x1000 0x2000 0) = 73)"
proof -
  have "repairable 0x1000 0x2000 \<lparr>i_reglist = 3, i_base = 0, i_writeback = True, i_load = True, i_size = 2\<rparr> (example_cpu 0xc803)"
    by (auto simp: repairable_def example_reg_list saved_def example_cpu_def less_Suc_eq intro!: example_clear)
  with usage_fault_wrong_loads [of "\<lparr>fmem = example_memory 0xc803, SCB_CFSR = SCB_CFSR_UNALIGNED\<rparr>" "example_cpu 0xc803"
      "\<lparr>i_reglist = 3, i_base = 0, i_writeback = True, i_load = True, i_size = 2\<rparr>" "0x1000" "0x2000" 0 0]
  show ?thesis using example_decode(2) example_holds [of "0xc803"]
    by (simp add: example_stacks_ok example_cpu_def example_reg_list load32_def [of "example_memory 0xc803"] example_memory_def [of _ 65]
      example_memory_def [of _ 66] example_memory_def [of _ 67] example_memory_def [of _ 68])
qed

end
