(* ===== verification/Fault_stubs.thy ===== *)
theory Fault_stubs
  imports Fault_emulation
begin

unbundle bit_operations_syntax

text \<open>
  The assembly stubs of \<open>src/src/cpu/arm/cortex-m3/fault.c\<close> and \<open>src/src/cpu/arm/cortex-m0/fault.c\<close>,
  instruction by instruction, up to the call of the C function, whose arguments are then in \<open>r0\<close>, \<open>r1\<close>
  and \<open>r2\<close>. The lemmas compare what the two stubs pass: the Cortex-M3 stub passes the two stack
  addresses and the type, with \<open>r4\<close> to \<open>r11\<close> where the dump looks for them; the Cortex-M0 stub
  overwrites the type and pushes the registers in another order.
\<close>

section \<open>Instructions\<close>

text \<open>
  Handlers run on the main stack, so \<open>sp\<close> is \<open>msp\<close>; \<open>lr\<close> is register 14 and \<open>pc\<close> register 15, which only
  the instructions that leave the stub set here.
\<close>

record core =
  reg :: "nat \<Rightarrow> u32"
  msp :: u32
  proc_sp :: u32
  zflag :: bool
  ram :: memory

datatype instr =
    Push "nat list"
  | Pop "nat list"
  | Mov nat nat
  | Movi nat u32
  | Tst nat nat
  | Tsti nat u32
  | Mrs_msp nat
  | Mrs_psp nat
  | Addi nat u32
  | Add_sp u32
  | Bx nat
  | If_eq instr
  | If_ne instr

primrec store_words :: "u32 \<Rightarrow> u32 list \<Rightarrow> memory \<Rightarrow> memory" where
  "store_words a [] m = m"
| "store_words a (v # vs) m = store_words (a + 4) vs (store32 a v m)"

primrec load_regs :: "nat list \<Rightarrow> u32 \<Rightarrow> memory \<Rightarrow> (nat \<Rightarrow> u32) \<Rightarrow> nat \<Rightarrow> u32" where
  "load_regs [] a m f = f"
| "load_regs (r # rs) a m f = load_regs rs (a + 4) m (f(r := load32 m a))"

text \<open>The registers of a list are pushed and popped with the first at the lowest address.\<close>

primrec execute :: "instr \<Rightarrow> core \<Rightarrow> core" where
  "execute (Push rs) c =
     (let sp = msp c - 4 * word_of_nat (length rs) in c\<lparr>msp := sp, ram := store_words sp (map (reg c) rs) (ram c)\<rparr>)"
| "execute (Pop rs) c = c\<lparr>msp := msp c + 4 * word_of_nat (length rs), reg := load_regs rs (msp c) (ram c) (reg c)\<rparr>"
| "execute (Mov d s) c = c\<lparr>reg := (reg c)(d := reg c s)\<rparr>"
| "execute (Movi d v) c = c\<lparr>reg := (reg c)(d := v)\<rparr>"
| "execute (Tst a b) c = c\<lparr>zflag := (reg c a AND reg c b = 0)\<rparr>"
| "execute (Tsti a v) c = c\<lparr>zflag := (reg c a AND v = 0)\<rparr>"
| "execute (Mrs_msp d) c = c\<lparr>reg := (reg c)(d := msp c)\<rparr>"
| "execute (Mrs_psp d) c = c\<lparr>reg := (reg c)(d := proc_sp c)\<rparr>"
| "execute (Addi d v) c = c\<lparr>reg := (reg c)(d := reg c d + v)\<rparr>"
| "execute (Add_sp v) c = c\<lparr>msp := msp c + v\<rparr>"
| "execute (Bx r) c = c\<lparr>reg := (reg c)(15 := reg c r)\<rparr>"
| "execute (If_eq i) c = (if zflag c then execute i c else c)"
| "execute (If_ne i) c = (if zflag c then c else execute i c)"

section \<open>The stubs\<close>

definition stub_m3 :: "instr list" where
  "stub_m3 = [Tsti 14 4, Push [4, 5, 6, 7, 8, 9, 10, 11, 12, 14], If_eq (Mrs_msp 0), If_eq (Addi 0 40), If_ne (Mrs_psp 0), Mrs_msp 1]"

definition usage_stub_m3 :: "instr list" where
  "usage_stub_m3 = [Tsti 14 4, Push [4, 5, 6, 7, 8, 9, 10, 11, 12, 14], If_eq (Mrs_msp 0), If_eq (Addi 0 32), If_ne (Mrs_psp 0),
     Mrs_msp 1, Movi 2 0]"

definition stub_m0 :: "instr list" where
  "stub_m0 = [Push [4, 5, 6, 7], Mov 0 8, Mov 1 9, Mov 2 10, Mov 3 11, Mov 4 12, Push [0, 1, 2, 3, 4, 14],
     Movi 0 4, Mov 1 14, Tst 1 0, If_eq (Mrs_msp 0), If_eq (Addi 0 40), If_ne (Mrs_psp 0), Mrs_msp 1]"

text \<open>The entry points set the type and branch to the stub. What the stubs do after the call:\<close>

definition resume_m3 :: "instr list" where
  "resume_m3 = [Pop [4, 5, 6, 7, 8, 9, 10, 11, 12, 15]]"

definition usage_resume_m3 :: "instr list" where
  "usage_resume_m3 = [Add_sp 36, Pop [14], Bx 14]"

definition resume_m0 :: "instr list" where
  "resume_m0 = [Pop [0, 1, 2, 3, 4, 5], Mov 8 0, Mov 9 1, Mov 10 2, Mov 11 3, Mov 12 4, Mov 14 5, Pop [4, 5, 6, 7], Bx 14]"

definition enter :: "u32 \<Rightarrow> instr list \<Rightarrow> core \<Rightarrow> core" where
  "enter type stub c = fold execute (Movi 2 type # stub) c"

text \<open>
  The C function is a parameter. The procedure call standard makes it give back the stack pointer and
  \<open>r4\<close> to \<open>r11\<close>; the memory it may change, in particular the words that the stub pushed.
\<close>

definition c_function :: "(core \<Rightarrow> core) \<Rightarrow> bool" where
  "c_function h \<longleftrightarrow> (\<forall>c. msp (h c) = msp c \<and> (\<forall>r. 4 \<le> r \<and> r < 12 \<longrightarrow> reg (h c) r = reg c r))"

definition handle :: "u32 \<Rightarrow> instr list \<Rightarrow> (core \<Rightarrow> core) \<Rightarrow> instr list \<Rightarrow> core \<Rightarrow> core" where
  "handle type stub h resume c = fold execute resume (h (enter type stub c))"

section \<open>Words in memory\<close>

lemma words_apart:
  assumes "i \<noteq> j" "i < 2 ^ 16" "j < 2 ^ 16"
  shows "word4 (a + 4 * word_of_nat i) \<inter> word4 (a + 4 * word_of_nat j) = {}"
proof (rule ccontr)
  assume "\<not> ?thesis"
  then obtain x where "x \<in> word4 (a + word_of_nat (4 * i))" "x \<in> word4 (a + word_of_nat (4 * j))" by auto
  then obtain p q where p: "p < 4" "x = a + word_of_nat (4 * i + p)" and q: "q < 4" "x = a + word_of_nat (4 * j + q)"
    by (elim word4_offset) auto
  define n where "n = 4 * i + p" define k where "k = 4 * j + q"
  have "(word_of_nat n :: u32) = word_of_nat k" using p(2) q(2) unfolding n_def k_def by simp
  then have "unat (word_of_nat n :: u32) = unat (word_of_nat k :: u32)" by simp
  moreover have "n < 2 ^ 32" "k < 2 ^ 32" using assms p q by (simp_all add: n_def k_def)
  ultimately have "n = k" by (simp add: unat_of_nat)
  with p(1) q(1) assms(1) show False unfolding n_def k_def by arith
qed

lemma load_before_words:
  "\<forall>j < length vs. word4 x \<inter> word4 (a + 4 * word_of_nat j) = {} \<Longrightarrow> load32 (store_words a vs m) x = load32 m x"
proof (induction vs arbitrary: a m)
  case (Cons v vs)
  have "word4 x \<inter> word4 a = {}" using Cons.prems [THEN spec, of 0] by simp
  moreover have "\<forall>j < length vs. word4 x \<inter> word4 (a + 4 + 4 * word_of_nat j) = {}"
  proof (intro allI impI)
    fix j assume "j < length vs"
    then have "word4 x \<inter> word4 (a + 4 * word_of_nat (Suc j)) = {}" using Cons.prems [THEN spec, of "Suc j"] by auto
    then show "word4 x \<inter> word4 (a + 4 + 4 * word_of_nat j) = {}" by (simp add: algebra_simps)
  qed
  ultimately show ?case using Cons.IH [of "a + 4" "store32 a v m"] by (simp add: load_store_other)
qed simp

lemma load_words:
  "length vs \<le> 100 \<Longrightarrow> i < length vs \<Longrightarrow> load32 (store_words a vs m) (a + 4 * word_of_nat i) = vs ! i"
proof (induction vs arbitrary: a m i)
  case (Cons v vs)
  show ?case
  proof (cases i)
    case 0
    have "word4 a \<inter> word4 (a + 4 + 4 * word_of_nat j) = {}" if "j < length vs" for j
      using words_apart [of 0 "Suc j" a] that Cons.prems(1) by (simp add: algebra_simps)
    then show ?thesis using 0 by (simp add: load_before_words)
  next
    case (Suc k)
    with Cons.IH [of k "a + 4" "store32 a v m"] Cons.prems show ?thesis by (simp add: algebra_simps)
  qed
qed simp

text \<open>What the C function gets from the Cortex-M3 stub.\<close>

lemma stub_m3_passes:
  assumes "c' = enter type stub_m3 c"
  shows "reg c' 0 = (if reg c 14 AND 4 = 0 then msp c else proc_sp c)" "reg c' 1 = msp c - 40" "reg c' 2 = type"
    and "i < 10 \<Longrightarrow> load32 (ram c') (reg c' 1 + 4 * word_of_nat i) = reg c ([4, 5, 6, 7, 8, 9, 10, 11, 12, 14] ! i)"
proof -
  let ?m = "store_words (msp c - 40) (map (reg c) [4, 5, 6, 7, 8, 9, 10, 11, 12, 14]) (ram c)"
  have e: "reg c' 0 = (if reg c 14 AND 4 = 0 then msp c else proc_sp c)" "reg c' 1 = msp c - 40" "reg c' 2 = type" "ram c' = ?m"
    by (simp_all add: assms enter_def stub_m3_def Let_def)
  then show "reg c' 0 = (if reg c 14 AND 4 = 0 then msp c else proc_sp c)" "reg c' 1 = msp c - 40" "reg c' 2 = type" by simp_all
  assume "i < 10"
  then have "load32 ?m (msp c - 40 + 4 * word_of_nat i) = map (reg c) [4, 5, 6, 7, 8, 9, 10, 11, 12, 14] ! i"
    by (intro load_words) simp_all
  also have "\<dots> = reg c ([4, 5, 6, 7, 8, 9, 10, 11, 12, 14] ! i)" using \<open>i < 10\<close> by (intro nth_map) simp
  finally show "load32 (ram c') (reg c' 1 + 4 * word_of_nat i) = reg c ([4, 5, 6, 7, 8, 9, 10, 11, 12, 14] ! i)" unfolding e .
qed

text \<open>
  The Cortex-M0 stub takes \<open>r2\<close> for \<open>r10\<close> after the entry point has put the type there, and pushes
  the high registers below the low ones.
\<close>

lemma stub_m0_passes:
  assumes "c' = enter type stub_m0 c"
  shows "reg c' 0 = (if reg c 14 AND 4 = 0 then msp c else proc_sp c)" "reg c' 1 = msp c - 40" "reg c' 2 = reg c 10"
    and "i < 10 \<Longrightarrow> load32 (ram c') (reg c' 1 + 4 * word_of_nat i) = reg c ([8, 9, 10, 11, 12, 14, 4, 5, 6, 7] ! i)"
proof -
  let ?a = "msp c - 16 - 24"
  let ?m1 = "store_words (msp c - 16) (map (reg c) [4, 5, 6, 7]) (ram c)"
  let ?m = "store_words ?a (map (reg c) [8, 9, 10, 11, 12, 14]) ?m1"
  have e: "reg c' 0 = (if reg c 14 AND 4 = 0 then msp c else proc_sp c)" "reg c' 1 = msp c - 40" "reg c' 2 = reg c 10" "ram c' = ?m"
    by (simp_all add: assms enter_def stub_m0_def Let_def)
  then show "reg c' 0 = (if reg c 14 AND 4 = 0 then msp c else proc_sp c)" "reg c' 1 = msp c - 40" "reg c' 2 = reg c 10" by simp_all
  assume i: "i < 10"
  have a: "msp c - 40 = ?a" by simp
  show "load32 (ram c') (reg c' 1 + 4 * word_of_nat i) = reg c ([8, 9, 10, 11, 12, 14, 4, 5, 6, 7] ! i)"
  proof (cases "i < 6")
    case True
    then have "load32 ?m (?a + 4 * word_of_nat i) = map (reg c) [8, 9, 10, 11, 12, 14] ! i" by (intro load_words) simp_all
    also have "\<dots> = reg c ([8, 9, 10, 11, 12, 14, 4, 5, 6, 7] ! i)"
      using True by (auto simp: less_Suc_eq numeral_eq_Suc)
    finally show ?thesis unfolding e a .
  next
    case False
    have b: "?a + 4 * word_of_nat i = msp c - 16 + 4 * word_of_nat (i - 6)"
      using False i by (auto simp: less_Suc_eq numeral_eq_Suc)
    have "load32 ?m (?a + 4 * word_of_nat i) = load32 ?m1 (?a + 4 * word_of_nat i)"
      using False i by (intro load_before_words allI impI words_apart) simp_all
    also have "\<dots> = load32 ?m1 (msp c - 16 + 4 * word_of_nat (i - 6))" unfolding b ..
    also have "\<dots> = map (reg c) [4, 5, 6, 7] ! (i - 6)" using False i by (intro load_words) simp_all
    also have "\<dots> = reg c ([8, 9, 10, 11, 12, 14, 4, 5, 6, 7] ! i)" using False i by (auto simp: less_Suc_eq numeral_eq_Suc)
    finally show ?thesis unfolding e a .
  qed
qed

section \<open>Returning\<close>

lemma load_regs_other: "r \<notin> set rs \<Longrightarrow> load_regs rs a m f r = f r"
  by (induction rs arbitrary: a f) auto

lemma load_regs_nth:
  "distinct rs \<Longrightarrow> i < length rs \<Longrightarrow> load_regs rs a m f (rs ! i) = load32 m (a + 4 * word_of_nat i)"
proof (induction rs arbitrary: a f i)
  case (Cons r rs)
  show ?case
  proof (cases i)
    case 0
    with Cons.prems show ?thesis by (simp add: load_regs_other)
  next
    case (Suc k)
    with Cons.IH [of k] Cons.prems show ?thesis by (simp add: algebra_simps)
  qed
qed simp

text \<open>What the stubs give back, for the words they find at the stack pointer.\<close>

lemma resume_m3_restores:
  assumes "\<And>i. i < 10 \<Longrightarrow> load32 (ram c1) (msp c1 + 4 * word_of_nat i) = v i" "c2 = fold execute resume_m3 c1"
  shows "msp c2 = msp c1 + 40" "reg c2 15 = v 9" "i < 9 \<Longrightarrow> reg c2 (4 + i) = v i"
proof -
  let ?rs = "[4, 5, 6, 7, 8, 9, 10, 11, 12, 15] :: nat list"
  show "msp c2 = msp c1 + 40" by (simp add: assms(2) resume_m3_def)
  have r: "reg c2 (?rs ! j) = v j" if "j < 10" for j
    using that load_regs_nth [of ?rs j "msp c1" "ram c1" "reg c1"] assms(1) by (simp add: assms(2) resume_m3_def)
  show "reg c2 15 = v 9" using r [of 9] by simp
  show "reg c2 (4 + i) = v i" if "i < 9"
  proof -
    have "?rs ! i = 4 + i" using that by (auto simp: less_Suc_eq numeral_eq_Suc)
    then show ?thesis using r [of i] that by simp
  qed
qed

lemma resume_m0_restores:
  assumes "\<And>i. i < 10 \<Longrightarrow> load32 (ram c1) (msp c1 + 4 * word_of_nat i) = v i" "c2 = fold execute resume_m0 c1"
  shows "msp c2 = msp c1 + 40" "reg c2 15 = v 5" "i < 4 \<Longrightarrow> reg c2 (4 + i) = v (6 + i)" "i < 5 \<Longrightarrow> reg c2 (8 + i) = v i"
proof -
  have w: "load32 (ram c1) (msp c1 + word_of_nat (4 * i)) = v i" if "i < 10" for i using assms(1) [OF that] by simp
  note l = w [of 0] w [of 1] w [of 2] w [of 3] w [of 4] w [of 5] w [of 6] w [of 7] w [of 8] w [of 9]
  have "msp c2 = msp c1 + 40 \<and> reg c2 15 = v 5 \<and> reg c2 4 = v 6 \<and> reg c2 5 = v 7 \<and> reg c2 6 = v 8 \<and> reg c2 7 = v 9 \<and>
      reg c2 8 = v 0 \<and> reg c2 9 = v 1 \<and> reg c2 10 = v 2 \<and> reg c2 11 = v 3 \<and> reg c2 12 = v 4"
    using l by (simp add: assms(2) resume_m0_def ac_simps)
  note all = this
  show "msp c2 = msp c1 + 40" "reg c2 15 = v 5" using all by simp_all
  show "reg c2 (4 + i) = v (6 + i)" if "i < 4"
  proof -
    have "i = 0 \<or> i = 1 \<or> i = 2 \<or> i = 3" using that by linarith
    with all show ?thesis by auto
  qed
  show "reg c2 (8 + i) = v i" if "i < 5"
  proof -
    have "i = 0 \<or> i = 1 \<or> i = 2 \<or> i = 3 \<or> i = 4" using that by linarith
    with all show ?thesis by auto
  qed
qed

lemma usage_resume_m3_registers:
  assumes "c_function h" "4 \<le> r" "r < 12"
  shows "reg (handle type usage_stub_m3 h usage_resume_m3 c) r = reg c r"
  using assms
  by (simp add: handle_def usage_resume_m3_def c_function_def) (simp add: enter_def usage_stub_m3_def Let_def)

text \<open>The arguments that \<open>common_fault_handler_c\<close> and \<open>nlfault_usage_fault_handler_c\<close> state are those of the instructions.\<close>

lemma stub_arguments:
  "(reg (enter type stub_m3 c) 0, reg (enter type stub_m3 c) 1) = common_fault_handler_c (reg c 14) (msp c) (proc_sp c)"
  "(reg (enter type usage_stub_m3 c) 0, reg (enter type usage_stub_m3 c) 1) =
     nlfault_usage_fault_handler_c (reg c 14) (msp c) (proc_sp c)"
  by (simp_all add: common_fault_handler_c_def nlfault_usage_fault_handler_c_def enter_def stub_m3_def usage_stub_m3_def Let_def)

lemma c_function_msp: "c_function h \<Longrightarrow> msp (h c) = msp c"
  by (simp add: c_function_def)

lemma stub_msp: "msp (enter type stub_m3 c) = msp c - 40" "msp (enter type stub_m0 c) = msp c - 40"
  by (simp_all add: enter_def stub_m3_def stub_m0_def Let_def)

section \<open>Properties\<close>

text \<open>
  C37: A fault handler that returns and leaves the pushed words alone resumes the interrupted code with its
  stack pointer, \<open>r4\<close> to \<open>r12\<close> and the return address, through the stub of the Cortex-M3 and through that
  of the Cortex-M0, which can only push and pop the low registers.
\<close>

theorem fault_stubs_resume:
  assumes "c_function h"
    and "(stub, resume) = (stub_m3, resume_m3) \<or> (stub, resume) = (stub_m0, resume_m0)"
    and "\<And>i. i < 10 \<Longrightarrow> load32 (ram (h (enter type stub c))) (msp c - 40 + 4 * word_of_nat i)
      = load32 (ram (enter type stub c)) (msp c - 40 + 4 * word_of_nat i)"
    and "c' = handle type stub h resume c"
  shows "msp c' = msp c \<and> reg c' 15 = reg c 14 \<and> (\<forall>r. 4 \<le> r \<and> r < 13 \<longrightarrow> reg c' r = reg c r)"
  using assms(2)
proof
  assume s: "(stub, resume) = (stub_m3, resume_m3)"
  let ?v = "\<lambda>i. reg c ([4, 5, 6, 7, 8, 9, 10, 11, 12, 14] ! i)"
  let ?c1 = "h (enter type stub_m3 c)"
  have sp: "msp ?c1 = msp c - 40" by (simp add: c_function_msp [OF assms(1)] stub_msp)
  have w: "load32 (ram ?c1) (msp ?c1 + 4 * word_of_nat i) = ?v i" if "i < 10" for i
    using assms(3) [OF that] stub_m3_passes(2) [OF refl, of type c] stub_m3_passes(4) [OF refl that, of type c] s by (simp add: sp)
  have e: "c' = fold execute resume_m3 ?c1" using assms(4) s by (simp add: handle_def)
  note c' = resume_m3_restores [where v = ?v, OF w e]
  have "reg c' r = reg c r" if "4 \<le> r" "r < 13" for r
  proof -
    have "r \<in> {4, 5, 6, 7, 8, 9, 10, 11, 12}" using that by (simp, arith)
    then show ?thesis
      using c'(3) [of 0] c'(3) [of 1] c'(3) [of 2] c'(3) [of 3] c'(3) [of 4] c'(3) [of 5] c'(3) [of 6] c'(3) [of 7] c'(3) [of 8]
      by auto
  qed
  then show ?thesis using c'(1,2) by (simp add: sp)
next
  assume s: "(stub, resume) = (stub_m0, resume_m0)"
  let ?v = "\<lambda>i. reg c ([8, 9, 10, 11, 12, 14, 4, 5, 6, 7] ! i)"
  let ?c1 = "h (enter type stub_m0 c)"
  have sp: "msp ?c1 = msp c - 40" by (simp add: c_function_msp [OF assms(1)] stub_msp)
  have w: "load32 (ram ?c1) (msp ?c1 + 4 * word_of_nat i) = ?v i" if "i < 10" for i
    using assms(3) [OF that] stub_m0_passes(2) [OF refl, of type c] stub_m0_passes(4) [OF refl that, of type c] s by (simp add: sp)
  have e: "c' = fold execute resume_m0 ?c1" using assms(4) s by (simp add: handle_def)
  note c' = resume_m0_restores [where v = ?v, OF w e]
  have "reg c' r = reg c r" if "4 \<le> r" "r < 13" for r
  proof -
    have "r \<in> {4, 5, 6, 7, 8, 9, 10, 11, 12}" using that by (simp, arith)
    then show ?thesis
      using c'(3) [of 0] c'(3) [of 1] c'(3) [of 2] c'(3) [of 3] c'(4) [of 0] c'(4) [of 1] c'(4) [of 2] c'(4) [of 3] c'(4) [of 4]
      by auto
  qed
  then show ?thesis using c'(1,2) by (simp add: sp)
qed

text \<open>
  C38: Returning from a usage fault does not look at the words that stand for \<open>r4\<close> to \<open>r11\<close>: the stub
  skips them, so these registers are as before the fault whatever the handler stored there, and the loads
  and base updates of the emulation are lost for them. The common stub of the same file reads them back
  from where \<open>getRegisterPtr\<close> has the emulation put them.
\<close>

theorem usage_fault_stub_drops_loads:
  assumes "c_function h" "4 \<le> r" "r < 12"
  shows "reg (handle type usage_stub_m3 h usage_resume_m3 c) r = reg c r \<and>
    reg (enter type usage_stub_m3 c) 1 = msp c - 40 \<and>
    reg (handle type stub_m3 h resume_m3 c) r =
      load32 (ram (h (enter type stub_m3 c))) (the (getRegisterPtr r faulting (msp c - 40)))"
proof -
  define i where "i = r - 4"
  have r: "r = 4 + i" "i < 8" using assms(2,3) by (simp_all add: i_def)
  have "reg (handle type stub_m3 h resume_m3 c) (4 + i) =
      load32 (ram (h (enter type stub_m3 c))) (msp (h (enter type stub_m3 c)) + 4 * word_of_nat i)"
    unfolding handle_def by (rule resume_m3_restores(3) [OF _ refl]) (use r in simp_all)
  moreover have "the (getRegisterPtr r faulting (msp c - 40)) = msp c - 40 + 4 * word_of_nat i"
    using r by (simp add: getRegisterPtr_def)
  moreover have "reg (enter type usage_stub_m3 c) 1 = msp c - 40"
    by (simp add: enter_def usage_stub_m3_def Let_def)
  ultimately show ?thesis
    using usage_resume_m3_registers [OF assms] r by (simp add: c_function_msp [OF assms(1)] stub_msp)
qed

text \<open>The eight words that \<open>dump_context\<close> prints and saves as \<open>r4\<close> to \<open>r11\<close>.\<close>

definition dumped_registers :: "core \<Rightarrow> u32 list" where
  "dumped_registers c = map (\<lambda>i. load32 (ram c) (reg c 1 + 4 * word_of_nat i)) [0..<8]"

lemma upt_8: "[0..<8] = [0, 1, 2, 3, 4, 5, 6, 7]"
  by (simp add: upt_rec)

text \<open>
  What the crash dump gets as the type of the crash and finds as \<open>r4\<close> to \<open>r11\<close>: on the Cortex-M3 the
  type of the entry point and these registers, on the Cortex-M0 the value of \<open>r10\<close> and
  \<open>r8\<close> to \<open>r12\<close>, \<open>lr\<close>, \<open>r4\<close>, \<open>r5\<close>.
\<close>

theorem fault_stub_m0_passes_wrong_state:
  "reg (enter type stub_m3 c) 2 = type \<and>
   dumped_registers (enter type stub_m3 c) = map (reg c) [4, 5, 6, 7, 8, 9, 10, 11] \<and>
   reg (enter type stub_m0 c) 2 = reg c 10 \<and>
   dumped_registers (enter type stub_m0 c) = map (reg c) [8, 9, 10, 11, 12, 14, 4, 5]"
proof (intro conjI)
  show "dumped_registers (enter type stub_m3 c) = map (reg c) [4, 5, 6, 7, 8, 9, 10, 11]"
    by (simp only: dumped_registers_def upt_8 list.map stub_m3_passes(4) [OF refl]) simp
  show "dumped_registers (enter type stub_m0 c) = map (reg c) [8, 9, 10, 11, 12, 14, 4, 5]"
    by (simp only: dumped_registers_def upt_8 list.map stub_m0_passes(4) [OF refl]) simp
qed (simp_all only: stub_m3_passes(3) [OF refl] stub_m0_passes(3) [OF refl])

section \<open>Witnesses\<close>

text \<open>A core whose registers hold their numbers, and two handlers: one that only uses scratch registers, one that stores 77 for \<open>r4\<close>.\<close>

definition example_core :: core where
  "example_core = \<lparr>reg = word_of_nat, msp = 0x2000, proc_sp = 0x3000, zflag = False, ram = (\<lambda>_. 0)\<rparr>"

definition scratch_handler :: "core \<Rightarrow> core" where
  "scratch_handler c = c\<lparr>reg := (reg c)(0 := 5, 12 := 6, 14 := 7), zflag := True\<rparr>"

definition storing_handler :: "core \<Rightarrow> core" where
  "storing_handler c = c\<lparr>ram := store32 (msp c) 77 (ram c)\<rparr>"

lemma example_handlers: "c_function scratch_handler" "c_function storing_handler"
  by (auto simp: c_function_def scratch_handler_def storing_handler_def)

lemma fault_stubs_resume_witness:
  "let c' = handle 1 stub_m0 scratch_handler resume_m0 example_core in msp c' = 0x2000 \<and> reg c' 15 = 14 \<and> reg c' 12 = 12"
  using fault_stubs_resume [of scratch_handler stub_m0 resume_m0 1 example_core, OF example_handlers(1) _ _ refl]
  by (simp add: example_core_def scratch_handler_def Let_def)

lemma usage_fault_stub_drops_loads_witness:
  "reg (handle 0 usage_stub_m3 storing_handler usage_resume_m3 example_core) 4 = 4 \<and>
   reg (handle 0 stub_m3 storing_handler resume_m3 example_core) 4 = 77"
proof -
  have "the (getRegisterPtr 4 0 (msp example_core - 40)) = msp (enter 0 stub_m3 example_core)"
    by (simp add: getRegisterPtr_def stub_msp)
  then show ?thesis
    using usage_fault_stub_drops_loads [of storing_handler 4 0 example_core 0, OF example_handlers(2)]
    by (simp add: storing_handler_def load_store_same) (simp add: example_core_def)
qed

end
