(* ===== verification/Fault_dump.thy ===== *)
theory Fault_dump
  imports Fault_emulation Nlfault
begin

text \<open>
  The crash dump of \<open>src/src/cpu/arm/cortex-m3/fault.c\<close>: what a fault leaves in the reset information
  and how it ends, for builds with \<open>BUILD_FEATURE_RESET_INFO\<close>. Memory is that of \<open>Fault_emulation\<close>,
  the record is that of \<open>Nlreset_info\<close>. The backtrace library, FreeRTOS, the watchdog, the core
  registers and the linker symbol are the parameter \<open>fault_env\<close>; what
  \<open>faultDebugPrint\<close> prints and which functions of the product are called are logged. An access outside
  of an array makes the result \<open>None\<close>.

  In builds with \<open>BUILD_FEATURE_BREADCRUMBS\<close> the dump also calls \<open>crash_dump_breadcrumbs\<close>, which a product
  may replace: the call is logged with its arguments, like those of the other functions of the product;
  what its default, \<open>nltransfer_fault_to_breadcrumbs\<close>, hands to the library of breadcrumbs is a function of
  its own.
\<close>

section \<open>Data\<close>

datatype crashType = FAULT | WDT | DBGMON

definition NL_RESET_REASON_WATCHDOG :: u32 where "NL_RESET_REASON_WATCHDOG = 7"

definition kCrashTypeToResetReason :: "crashType \<Rightarrow> u32" where
  "kCrashTypeToResetReason type = (case type of FAULT \<Rightarrow> NL_RESET_REASON_HARD_FAULT
     | WDT \<Rightarrow> NL_RESET_REASON_WATCHDOG | DBGMON \<Rightarrow> NL_RESET_REASON_STACK_OVERFLOW)"

definition NL_FAULT_DIAGS_NUM_BT_ENTRIES :: nat where "NL_FAULT_DIAGS_NUM_BT_ENTRIES = 10"
definition NL_FAULT_DIAGS_TASK_NAME_LEN :: nat where "NL_FAULT_DIAGS_TASK_NAME_LEN = 4"
definition NL_FAULT_DIAGS_NUM_CONTEXT_REGISTERS :: nat where "NL_FAULT_DIAGS_NUM_CONTEXT_REGISTERS = 17"
definition NL_FAULT_DIAGS_MAX_NUM_TASKS :: nat where "NL_FAULT_DIAGS_MAX_NUM_TASKS = 8"
definition MIN_BACKTRACE_LEVELS_FOR_STACK_OVERFLOW :: nat where "MIN_BACKTRACE_LEVELS_FOR_STACK_OVERFLOW = 3"
definition THREAD_DUMP_MAX_NUM_THREADS :: nat where "THREAD_DUMP_MAX_NUM_THREADS = 11"

definition SCB_CFSR_MSTKERR :: u32 where "SCB_CFSR_MSTKERR = 0x00000010"

text \<open>The exception frame: \<open>r0-r3\<close>, \<open>r12\<close>, \<open>lr\<close>, \<open>pc\<close>, \<open>psr\<close>, and the stack behind it.\<close>

definition FRAME_LR :: u32 where "FRAME_LR = 20"
definition FRAME_PSR :: u32 where "FRAME_PSR = 28"
definition FRAME_STACK :: u32 where "FRAME_STACK = 32"

definition frame_sp :: "memory \<Rightarrow> u32 \<Rightarrow> u32" where
  "frame_sp m F = (let sp = F + FRAME_STACK in if bit (load32 m (F + FRAME_PSR)) 9 then sp + 4 else sp)"

datatype eTaskState = eRunning | eReady | eBlocked | eSuspended | eDeleted | eInvalid

record fault_env =
  nlbacktrace_with_lr :: "u32 \<Rightarrow> u32 \<Rightarrow> u32 \<Rightarrow> u32 \<Rightarrow> nat \<Rightarrow> u32 list"
  nlbacktrace_no_context :: "u32 \<Rightarrow> u32 \<Rightarrow> nat \<Rightarrow> nat \<Rightarrow> nat \<Rightarrow> u32 list"
  current_task :: u32
  pcTaskGetName :: "u32 \<Rightarrow> string"
  mStackTop :: "u32 \<Rightarrow> u32"
  system_state :: "(u32 \<times> eTaskState) list"
  psp :: u32
  watchdog_flags :: "nat \<Rightarrow> string"
  ignore_pre_watchdog_isr :: bool
  debugger_attached :: bool
  eusrstack :: u32
  HFSR :: u32
  CFSR :: u32
  MMFAR :: u32
  BFAR :: u32
  DFSR :: u32
  DWT_CTRL :: u32
  DWT_comparators :: "nat \<Rightarrow> u32 \<times> u32 \<times> u32"

record fault_config =
  RESET_INFO_IN_TEMP_RAM :: bool
  DUMP_TASK_STACKS :: bool
  PRE_WATCHDOG_ISR_EXTENSION :: bool
  CONFIG_RELEASE :: bool
  NO_BKPT_ON_FAULT :: bool
  RESET_ON_FAULT :: bool
  CORTEX_M4 :: bool
  RAM_CONSOLE :: bool
  FAULT_VERBOSE :: bool
  BREADCRUMBS :: bool

text \<open>What \<open>backtrace_buf\<close> points to.\<close>

datatype backtrace_buf = Task_backtrace nat | Machine_backtrace | Static_backtrace

text \<open>Calls and prints in their order; of a print, its label and value (without a counter in the label).\<close>

datatype fault_call = Watchdog_refresh | Quiesce_on_fault | Ram_console_disable | Soc_dump_context | Product_dump_context
  | Print_text string | Print_value string u32 | Watchdog_print_flags
  | Crash_dump_breadcrumbs backtrace_buf nat "string option" bool

record dump_state =
  dmem :: memory
  rinfo :: nl_reset_info_t
  s_backtrace :: "u32 list"
  calls :: "fault_call list"

datatype outcome = Returned | Reset u32 | Breakpoint | Spinning

definition call :: "fault_call list \<Rightarrow> dump_state \<Rightarrow> dump_state" where
  "call cs s = s\<lparr>calls := calls s @ cs\<rparr>"

definition on_fault_info :: "(nl_fault_info_t \<Rightarrow> nl_fault_info_t) \<Rightarrow> dump_state \<Rightarrow> dump_state" where
  "on_fault_info f s = s\<lparr>rinfo := (rinfo s)\<lparr>fault_info := f (fault_info (rinfo s))\<rparr>\<rparr>"

definition dinfo :: "dump_state \<Rightarrow> nl_fault_info_t" where
  "dinfo s = fault_info (rinfo s)"


definition write_backtrace :: "backtrace_buf \<Rightarrow> nat \<Rightarrow> u32 list \<Rightarrow> dump_state \<Rightarrow> dump_state option" where
  "write_backtrace buf off vs s =
     (case buf of
        Task_backtrace i \<Rightarrow> do {
          t \<leftarrow> arr_get (task_info (dinfo s)) i;
          bt \<leftarrow> mem_write (task_backtrace t) off vs;
          Some (on_fault_info (\<lambda>fi. fi\<lparr>task_info := (task_info fi)[i := t\<lparr>task_backtrace := bt\<rparr>]\<rparr>) s) }
      | Machine_backtrace \<Rightarrow> do {
          bt \<leftarrow> mem_write (machine_backtrace (dinfo s)) off vs;
          Some (on_fault_info (\<lambda>fi. fi\<lparr>machine_backtrace := bt\<rparr>) s) }
      | Static_backtrace \<Rightarrow> do {
          bt \<leftarrow> mem_write (s_backtrace s) off vs;
          Some (s\<lparr>s_backtrace := bt\<rparr>) })"

section \<open>Operations\<close>

definition get_task_stack_top :: "fault_env \<Rightarrow> u32 \<Rightarrow> u32" where
  "get_task_stack_top env taskHandle = (if taskHandle = 0 then 0 else mStackTop env taskHandle)"

text \<open>
  A C string that is read is given as its object: the characters with the terminator. The loop looks
  at the character behind the one it has copied.
\<close>

fun append_string_to_fault_info_description :: "nat \<Rightarrow> string \<Rightarrow> string \<Rightarrow> (nat \<times> string) option" where
  "append_string_to_fault_info_description index src desc =
     (if index < NL_FAULT_DIAGS_DESCRIPTION_LENGTH - 1
      then (case src of
              [] \<Rightarrow> None
            | c # src' \<Rightarrow> do {
                desc' \<leftarrow> arr_upd desc index (\<lambda>_. c);
                d \<leftarrow> arr_get src' 0;
                if d = NUL then Some (index + 1, desc')
                else append_string_to_fault_info_description (index + 1) src' desc' })
      else Some (index, desc))"

declare append_string_to_fault_info_description.simps [simp del]

definition dump_stack_overflow_info_to_reset_info_default :: "string option \<Rightarrow> dump_state \<Rightarrow> dump_state option" where
  "dump_stack_overflow_info_to_reset_info_default current_task_name s = do {
     (i, d) \<leftarrow> append_string_to_fault_info_description 0 (''stack_overflow'' @ [NUL]) (description (dinfo s));
     (i, d) \<leftarrow> (case current_task_name of
        None \<Rightarrow> Some (i, d)
      | Some name \<Rightarrow> do {
          (i, d) \<leftarrow> append_string_to_fault_info_description i ('': '' @ [NUL]) d;
          append_string_to_fault_info_description i (name @ [NUL]) d });
     d \<leftarrow> arr_upd d i (\<lambda>_. NUL);
     Some (on_fault_info (\<lambda>fi. fi\<lparr>description := d\<rparr>) s) }"

definition dump_watchdog_flags_default :: "fault_env \<Rightarrow> dump_state \<Rightarrow> dump_state option" where
  "dump_watchdog_flags_default env s = do {
     d \<leftarrow> mem_write (description (dinfo s)) 0 (watchdog_flags env (length (description (dinfo s))));
     Some (call [Watchdog_print_flags] (on_fault_info (\<lambda>fi. fi\<lparr>description := d\<rparr>) s)) }"

definition save_fault_to_reset_info :: "fault_config \<Rightarrow> dump_state \<Rightarrow> bool" where
  "save_fault_to_reset_info cfg s \<longleftrightarrow> RESET_INFO_IN_TEMP_RAM cfg \<or>
     fi_reason (dinfo s) = NL_RESET_REASON_UNKNOWN \<or> fi_reason (dinfo s) = NL_RESET_REASON_ASSERT"

definition clear_task :: "nl_fault_task_info_t \<Rightarrow> nl_fault_task_info_t" where
  "clear_task t = \<lparr>task_name = map (\<lambda>_. NUL) (task_name t), task_backtrace = map (\<lambda>_. 0) (task_backtrace t),
     task_state = map (\<lambda>_. NUL) (task_state t)\<rparr>"

definition dump_context_to_reset_info_default ::
  "fault_env \<Rightarrow> fault_config \<Rightarrow> u32 \<Rightarrow> u32 \<Rightarrow> u32 \<Rightarrow> u32 \<Rightarrow> string option \<Rightarrow> bool \<Rightarrow> dump_state \<Rightarrow>
   (backtrace_buf \<times> dump_state) option" where
  "dump_context_to_reset_info_default env cfg F M reason prefault_sp current_task_name task_fault s =
     (if save_fault_to_reset_info cfg s
      then let buf = (if task_fault then Task_backtrace 0 else Machine_backtrace);
               s1 = on_fault_info (\<lambda>fi. fi\<lparr>task_info := map clear_task (task_info fi),
                      machine_backtrace := map (\<lambda>_. 0) (machine_backtrace fi)\<rparr>) s;
               s2 = (if nl_reset_info_get_reset_reason (rinfo s1) = NL_RESET_REASON_UNKNOWN
                     then on_fault_info (\<lambda>fi. fi\<lparr>description := map (\<lambda>_. NUL) (description fi)\<rparr>) s1 else s1)
           in do {
             r \<leftarrow> mem_write (registers (dinfo s2)) 0 (map (\<lambda>i. load32 (dmem s) (F + 4 * word_of_nat i)) [0..<4]);
             r \<leftarrow> mem_write r 4 (map (\<lambda>i. load32 (dmem s) (M + 4 * word_of_nat i)) [0..<8]);
             r \<leftarrow> mem_write r 12 [load32 (dmem s) (F + FRAME_R12), prefault_sp, load32 (dmem s) (F + FRAME_LR),
                                  load32 (dmem s) (F + FRAME_PC), load32 (dmem s) (F + FRAME_PSR)];
             let s3 = on_fault_info (\<lambda>fi. fi\<lparr>registers := r\<rparr>) s2;
             s4 \<leftarrow> (if reason = NL_RESET_REASON_WATCHDOG then dump_watchdog_flags_default env s3
                    else if reason = NL_RESET_REASON_STACK_OVERFLOW
                    then dump_stack_overflow_info_to_reset_info_default current_task_name s3
                    else Some s3);
             Some (buf, s4) }
      else Some (Static_backtrace, s))"

definition dump_backtrace_default ::
  "fault_env \<Rightarrow> u32 \<Rightarrow> backtrace_buf \<Rightarrow> u32 \<Rightarrow> u32 \<Rightarrow> u32 \<Rightarrow> dump_state \<Rightarrow> (nat \<times> dump_state) option" where
  "dump_backtrace_default env F buf prefault_sp stackTop reason s = do {
     let s0 = call [Watchdog_refresh] s;
     let pc = load32 (dmem s) (F + FRAME_PC);
     let lr = load32 (dmem s) (F + FRAME_LR);
     let bt = nlbacktrace_with_lr env pc lr prefault_sp stackTop NL_FAULT_DIAGS_NUM_BT_ENTRIES;
     s1 \<leftarrow> write_backtrace buf 0 bt s0;
     (bt, s2) \<leftarrow>
       (if length bt = 0 \<or> (reason = NL_RESET_REASON_STACK_OVERFLOW \<and> length bt < MIN_BACKTRACE_LEVELS_FOR_STACK_OVERFLOW)
        then let bt' = nlbacktrace_no_context env prefault_sp stackTop (NL_FAULT_DIAGS_NUM_BT_ENTRIES - 2) 3 16
             in do {
               s2 \<leftarrow> write_backtrace buf 0 [pc, lr] s1;
               s3 \<leftarrow> write_backtrace buf 2 bt' (call [Watchdog_refresh] s2);
               Some (pc # lr # bt', s3) }
        else Some (bt, s1));
     Some (length bt, call (Watchdog_refresh # map (Print_value ''  '') bt) s2) }"

subsection \<open>All tasks\<close>

definition task_state_char :: "eTaskState \<Rightarrow> char" where
  "task_state_char st = (case st of eRunning \<Rightarrow> CHR ''A'' | eReady \<Rightarrow> CHR ''R'' | eBlocked \<Rightarrow> CHR ''B''
     | eSuspended \<Rightarrow> CHR ''S'' | eDeleted \<Rightarrow> CHR ''D'' | eInvalid \<Rightarrow> NUL)"

definition switched_out_frame :: "fault_config \<Rightarrow> memory \<Rightarrow> u32 \<Rightarrow> u32" where
  "switched_out_frame cfg m handle = load32 m handle + (if CORTEX_M4 cfg then 36 else 32)"

text \<open>What \<open>threadDump\<close> writes to its three arguments: the name, the state, the backtrace.\<close>

definition threadDump ::
  "fault_env \<Rightarrow> fault_config \<Rightarrow> u32 \<times> eTaskState \<Rightarrow> u32 option \<Rightarrow> dump_state \<Rightarrow> string \<times> char \<times> u32 list" where
  "threadDump env cfg task_status custom_exception_frame s =
     (let (handle, st) = task_status;
          frame = (case custom_exception_frame of None \<Rightarrow> switched_out_frame cfg (dmem s) handle | Some f \<Rightarrow> f)
      in (strncpy (pcTaskGetName env handle) (NL_FAULT_DIAGS_TASK_NAME_LEN - 1), task_state_char st,
          nlbacktrace_with_lr env (load32 (dmem s) (frame + FRAME_PC)) (load32 (dmem s) (frame + FRAME_LR))
            (frame_sp (dmem s) frame) (get_task_stack_top env handle) NL_FAULT_DIAGS_NUM_BT_ENTRIES))"

text \<open>One pass of the loop for a task that is not skipped: slot \<open>k\<close> of the record, or a local buffer.\<close>

definition dump_task ::
  "fault_env \<Rightarrow> fault_config \<Rightarrow> bool \<Rightarrow> u32 \<times> eTaskState \<Rightarrow> u32 option \<Rightarrow> nat \<Rightarrow> dump_state \<Rightarrow> dump_state option" where
  "dump_task env cfg save task_status frame k s =
     (let (name, c, bt) = threadDump env cfg task_status frame s;
          print = call (Print_text (''Task: '' @ takeWhile (\<lambda>c. c \<noteq> NUL) name @ [c]) # map (Print_value ''  '') bt)
      in if save
         then do {
           t \<leftarrow> arr_get (task_info (dinfo s)) k;
           let t1 = clear_task t;
           name \<leftarrow> mem_write (task_name t1) 0 name;
           st \<leftarrow> mem_write (task_state t1) 0 [c];
           bt \<leftarrow> mem_write (task_backtrace t1) 0 bt;
           Some (print (on_fault_info (\<lambda>fi. fi\<lparr>task_info :=
             (task_info fi)[k := \<lparr>task_name = name, task_backtrace = bt, task_state = st\<rparr>]\<rparr>) s)) }
         else if length bt \<le> NL_FAULT_DIAGS_NUM_BT_ENTRIES then Some (print s) else None)"

fun dump_tasks ::
  "fault_env \<Rightarrow> fault_config \<Rightarrow> bool \<Rightarrow> bool \<Rightarrow> (u32 \<times> eTaskState) list \<Rightarrow> nat \<Rightarrow> dump_state \<Rightarrow> dump_state option" where
  "dump_tasks env cfg save task_fault [] k s = Some s"
| "dump_tasks env cfg save task_fault (st # sts) k s =
     (if fst st = current_task env \<and> task_fault
      then dump_tasks env cfg save task_fault sts k s
      else do {
        s1 \<leftarrow> dump_task env cfg save st (if fst st = current_task env then Some (psp env) else None) k s;
        dump_tasks env cfg save task_fault sts (k + 1) s1 })"

text \<open>The names that are filled in before the loop; the state of a task that faulted is given as \<open>c\<close>.\<close>

definition name_active_task :: "char \<Rightarrow> fault_env \<Rightarrow> bool \<Rightarrow> bool \<Rightarrow> dump_state \<Rightarrow> dump_state option" where
  "name_active_task c env save task_fault s0 =
     (let name = strncpy (pcTaskGetName env (current_task env)) (NL_FAULT_DIAGS_TASK_NAME_LEN - 1)
      in if \<not> save then Some s0
         else if \<not> task_fault then do {
           n \<leftarrow> mem_write (active_task_name (dinfo s0)) 0 (''N/A'' @ [NUL]);
           Some (on_fault_info (\<lambda>fi. fi\<lparr>active_task_name := n\<rparr>) s0) }
         else do {
           t \<leftarrow> arr_get (task_info (dinfo s0)) 0;
           n \<leftarrow> mem_write (map (\<lambda>_. NUL) (active_task_name (dinfo s0))) 0 name;
           tn \<leftarrow> mem_write (map (\<lambda>_. NUL) (task_name t)) 0 name;
           ts \<leftarrow> mem_write (task_state t) 0 [c];
           Some (on_fault_info (\<lambda>fi. fi\<lparr>active_task_name := n,
             task_info := (task_info fi)[0 := t\<lparr>task_name := tn, task_state := ts\<rparr>]\<rparr>) s0) })"

definition dump_all_tasks_default :: "fault_env \<Rightarrow> fault_config \<Rightarrow> bool \<Rightarrow> dump_state \<Rightarrow> dump_state option" where
  "dump_all_tasks_default env cfg task_fault s = do {
     let s0 = call [Print_text ''All tasks''] s;
     let save = save_fault_to_reset_info cfg s0;
     s1 \<leftarrow> name_active_task (CHR ''A'') env save task_fault s0;
     dump_tasks env cfg save task_fault (take THREAD_DUMP_MAX_NUM_THREADS (system_state env))
       (if save \<and> task_fault then 1 else 0) s1 }"

subsection \<open>What is printed\<close>

text \<open>The masks of the status registers, in the order in which they are tested.\<close>

definition cfsr_table :: "(u32 \<times> string \<times> (fault_env \<Rightarrow> u32 \<Rightarrow> u32 \<Rightarrow> u32 \<Rightarrow> u32 \<Rightarrow> fault_call list)) list" where
  "cfsr_table =
     [(0x00000001, ''Instruction Access Violation Fault'', \<lambda>env lr pc mmfar bfar. [Print_value ''lr = '' lr, Print_value ''pc = '' pc]),
      (0x00000002, ''Data Access Violation Fault'', \<lambda>env lr pc mmfar bfar. [Print_value ''pc = '' pc, Print_value ''mmfar = '' mmfar]),
      (0x00000008, ''Memory Unstacking Fault'', \<lambda>env lr pc mmfar bfar. []),
      (0x00000010, ''Memory Stacking Fault'', \<lambda>env lr pc mmfar bfar. []),
      (0x00000100, ''Instruction Bus Fault'', \<lambda>env lr pc mmfar bfar. []),
      (0x00000200, ''Precise Data Bus Error Fault'', \<lambda>env lr pc mmfar bfar. [Print_value ''pc = '' pc, Print_value ''bfar = '' bfar]),
      (0x00000400, ''Imprecise Data Bus Error Fault'', \<lambda>env lr pc mmfar bfar. []),
      (0x00000800, ''Bus Unstacking Fault'', \<lambda>env lr pc mmfar bfar. []),
      (0x00001000, ''Bus Stacking Fault'', \<lambda>env lr pc mmfar bfar. []),
      (0x00010000, ''Undefined Instruction Usage Fault'', \<lambda>env lr pc mmfar bfar. [Print_value ''pc = '' pc]),
      (0x00020000, ''Invalid State Fault'', \<lambda>env lr pc mmfar bfar. [Print_value ''pc = '' pc]),
      (0x00040000, ''Invalid Program Counter Fault'', \<lambda>env lr pc mmfar bfar. [Print_value ''pc = '' pc]),
      (0x00080000, ''No Coprocessor Fault'', \<lambda>env lr pc mmfar bfar. [Print_value ''pc = '' pc]),
      (0x01000000, ''Unaligned Access Fault'', \<lambda>env lr pc mmfar bfar. [Print_value ''pc = '' pc]),
      (0x02000000, ''Divide By Zero Fault'', \<lambda>env lr pc mmfar bfar. [Print_value ''pc = '' pc])]"

definition print_comparator :: "fault_env \<Rightarrow> nat \<Rightarrow> fault_call list" where
  "print_comparator env i =
     (let (comp, mask, function) = DWT_comparators env i
      in if function AND 0xf \<noteq> 0
         then [Print_value ''DWT->COMP'' comp, Print_value ''DWT->MASK'' mask, Print_value ''DWT->FUNCTION'' function] else [])"

definition faultDecode :: "fault_env \<Rightarrow> fault_config \<Rightarrow> u32 \<Rightarrow> u32 \<Rightarrow> fault_call list" where
  "faultDecode env cfg lr pc =
     (if \<not> FAULT_VERBOSE cfg
      then map (Print_value ''Fault!'') [HFSR env, CFSR env, MMFAR env, BFAR env, DFSR env]
      else Print_text ''-----------------'' #
        (if bit (HFSR env) 1 then [Print_text ''Vector Table Hard Fault'']
         else if bit (HFSR env) 30
         then let mmfar = (if bit (CFSR env) 7 then MMFAR env else 0);
                  bfar = (if bit (CFSR env) 15 then BFAR env else 0)
              in Print_text ''Other Hard Fault'' #
                 (if bit (CFSR env) 7 then [Print_text ''Memory Management Fault'', Print_value ''mmfar = '' mmfar] else []) @
                 (if bit (CFSR env) 15 then [Print_text ''Bus Fault'', Print_value ''bfar = '' bfar] else []) @
                 (case find (\<lambda>(mask, _). CFSR env AND mask \<noteq> 0) cfsr_table of
                    Some (_, text, values) \<Rightarrow> Print_text text # values env lr pc mmfar bfar
                  | None \<Rightarrow> [Print_text ''Unknown Fault''])
         else if DFSR env \<noteq> 0
         then (if bit (DFSR env) 4 then [Print_text ''External debug event''] else []) @
              (if bit (DFSR env) 3 then [Print_text ''Vector catch''] else []) @
              (if bit (DFSR env) 2 then Print_text ''DWT debug event'' #
                 concat (map (print_comparator env) [0..<unat (drop_bit 28 (DWT_CTRL env))]) else []) @
              (if bit (DFSR env) 1 then [Print_text ''Breakpoint debug event''] else []) @
              (if bit (DFSR env) 0 then [Print_text ''HALT debug event''] else [])
         else [Print_text ''Unknown Hard Fault'']))"

definition NUM_STACK_DUMP_ENTRIES :: nat where "NUM_STACK_DUMP_ENTRIES = 16"

definition dump_context_default ::
  "fault_env \<Rightarrow> fault_config \<Rightarrow> u32 \<Rightarrow> u32 \<Rightarrow> crashType \<Rightarrow> u32 \<Rightarrow> dump_state \<Rightarrow> dump_state" where
  "dump_context_default env cfg F M type prefault_sp s =
     (let word = (\<lambda>label a. Print_value label (load32 (dmem s) a))
      in call ([Print_text (case type of FAULT \<Rightarrow> ''Oops!'' | WDT \<Rightarrow> ''!!wdog!!'' | DBGMON \<Rightarrow> ''DbgMon - StackOverflow'')] @
           faultDecode env cfg (load32 (dmem s) (F + FRAME_LR)) (load32 (dmem s) (F + FRAME_PC)) @
           (if RAM_CONSOLE cfg then [Ram_console_disable] else []) @
           map (\<lambda>i. word ''r'' (F + 4 * word_of_nat i)) [0..<4] @
           map (\<lambda>i. word ''r'' (M + 4 * word_of_nat i)) [0..<8] @
           map (\<lambda>i. word ([''r12'', '' lr'', '' pc'', ''psr''] ! i) (F + 4 * word_of_nat (i + 4))) [0..<4] @
           [Print_value ''psp'' prefault_sp, Soc_dump_context, Product_dump_context, Print_text ''- stack -''] @
           map (\<lambda>i. word [] (prefault_sp + 4 * word_of_nat i)) [0..<NUM_STACK_DUMP_ENTRIES]) s)"

subsection \<open>Call stacks and breadcrumbs\<close>

text \<open>\<open>nlfault_dump_callstack\<close>, with the registers and \<open>nlbacktrace\<close> of the library as arguments.\<close>

definition nlfault_dump_callstack ::
  "(u32 \<Rightarrow> u32 \<Rightarrow> u32 \<Rightarrow> nat \<Rightarrow> u32 list) \<Rightarrow> fault_env \<Rightarrow> u32 \<Rightarrow> u32 \<Rightarrow> dump_state \<Rightarrow> dump_state option" where
  "nlfault_dump_callstack nlbacktrace env pc sp s =
     (let stackTop = (if current_task env \<noteq> 0 then get_task_stack_top env (current_task env) else 0);
          bt = nlbacktrace pc sp stackTop 8
      in if length bt \<le> 8 then Some (call (map (Print_value []) bt) s) else None)"

text \<open>
  What \<open>nltransfer_fault_to_breadcrumbs\<close> hands to the breadcrumbs library: the count, the buffer and the
  first bytes of the object that holds the name, which may be shorter than that.
\<close>

record ThreadDumpInfo_t =
  stackDepth :: nat
  stackTrace :: "u32 list"
  tname :: string

definition nltransfer_fault_to_breadcrumbs :: "u32 list \<Rightarrow> nat \<Rightarrow> string option \<Rightarrow> ThreadDumpInfo_t option" where
  "nltransfer_fault_to_breadcrumbs backtrace num_backtrace_entries current_task_name =
     (let n = min num_backtrace_entries NL_FAULT_DIAGS_NUM_BT_ENTRIES
      in do {
        words \<leftarrow> mem_read backtrace 0 n;
        trace \<leftarrow> mem_write (replicate NL_FAULT_DIAGS_NUM_BT_ENTRIES 0) 0 words;
        nm \<leftarrow> (case current_task_name of None \<Rightarrow> Some (replicate NL_FAULT_DIAGS_TASK_NAME_LEN NUL)
               | Some obj \<Rightarrow> mem_read obj 0 NL_FAULT_DIAGS_TASK_NAME_LEN);
        Some \<lparr>stackDepth = num_backtrace_entries, stackTrace = trace, tname = nm\<rparr> })"

subsection \<open>The handlers\<close>

text \<open>The name of the current task, the reason and the top of its stack.\<close>

definition get_and_dump_current_task_info_default ::
  "fault_env \<Rightarrow> u32 \<Rightarrow> dump_state \<Rightarrow> string \<times> u32 \<times> u32 \<times> dump_state" where
  "get_and_dump_current_task_info_default env reason s =
     (let name = pcTaskGetName env (current_task env);
          stackTop = (if current_task env \<noteq> 0 then get_task_stack_top env (current_task env) else 0);
          s1 = call [Print_text (''Task: '' @ name @ ''R'')] s
      in if CFSR env AND SCB_CFSR_MSTKERR \<noteq> 0
         then (name, NL_RESET_REASON_STACK_OVERFLOW, stackTop,
               call [Print_text ''MemManage fault on saving exception context, likely stack overflow''] s1)
         else (name, reason, stackTop, s1))"

text \<open>\<open>nl_reset_info_prepare_reset(reason, NULL)\<close> in either variant.\<close>

definition prepare_reset :: "fault_config \<Rightarrow> u32 \<Rightarrow> dump_state \<Rightarrow> dump_state" where
  "prepare_reset cfg reason s = s\<lparr>rinfo :=
     (if RESET_INFO_IN_TEMP_RAM cfg
      then g_reset_info (nl_reset_info_prepare_reset_temp reason None
             \<lparr>g_reset_info = rinfo s, s_cached_reset_reason = 0, scheduler_suspended = 0, store = ()\<rparr>)
      else nl_reset_info_prepare_reset_ram reason None (rinfo s))\<rparr>"

definition crash_dump_end :: "fault_env \<Rightarrow> fault_config \<Rightarrow> u32 \<Rightarrow> dump_state \<Rightarrow> outcome \<times> dump_state" where
  "crash_dump_end env cfg reason s =
     (if CONFIG_RELEASE cfg then (Reset reason, call [Print_text ''resetting''] s)
      else if \<not> NO_BKPT_ON_FAULT cfg \<and> debugger_attached env then (Breakpoint, call [Print_text ''breaking''] s)
      else if RESET_ON_FAULT cfg then (Reset reason, call [Print_text ''resetting''] s)
      else (Spinning, prepare_reset cfg reason s))"

text \<open>The part of \<open>crash_dump_default\<close> that looks up the task and the top of the stack.\<close>

definition crash_task_info ::
  "fault_env \<Rightarrow> fault_config \<Rightarrow> bool \<Rightarrow> u32 \<Rightarrow> dump_state \<Rightarrow> string option \<times> u32 \<times> u32 \<times> dump_state" where
  "crash_task_info env cfg task_fault reason s =
     (if CONFIG_RELEASE cfg then (None, reason, 0, s)
      else if task_fault
      then let (name, r, stackTop, s1) = get_and_dump_current_task_info_default env reason s in (Some name, r, stackTop, s1)
      else (None, reason, eusrstack env, call [Print_text ''- Fault on main stack (ISR?)) -''] s))"

definition crash_dump_default ::
  "fault_env \<Rightarrow> fault_config \<Rightarrow> u32 \<Rightarrow> u32 \<Rightarrow> crashType \<Rightarrow> dump_state \<Rightarrow> (outcome \<times> dump_state) option" where
  "crash_dump_default env cfg F M type s =
     (let task_fault = (F \<noteq> M + 40);
          prefault_sp = frame_sp (dmem s) F;
          reason = kCrashTypeToResetReason type
      in if PRE_WATCHDOG_ISR_EXTENSION cfg \<and> type = WDT \<and> ignore_pre_watchdog_isr env then Some (Returned, s)
         else let s1 = call ((if PRE_WATCHDOG_ISR_EXTENSION cfg then [] else [Watchdog_refresh]) @ [Quiesce_on_fault]) s;
                  s2 = dump_context_default env cfg F M type prefault_sp s1;
                  (name, reason, stackTop, s3) = crash_task_info env cfg task_fault reason s2
              in do {
                (buf, s4) \<leftarrow> dump_context_to_reset_info_default env cfg F M reason prefault_sp name task_fault s3;
                (count, s5) \<leftarrow> dump_backtrace_default env F buf prefault_sp stackTop reason s4;
                s6 \<leftarrow> (if DUMP_TASK_STACKS cfg then dump_all_tasks_default env cfg task_fault s5 else Some s5);
                let s7 = call (if BREADCRUMBS cfg then [Crash_dump_breadcrumbs buf count name (type = WDT)] else []) s6;
                Some (crash_dump_end env cfg reason s7) })"

definition crash_dump_nortos ::
  "fault_env \<Rightarrow> fault_config \<Rightarrow> u32 \<Rightarrow> u32 \<Rightarrow> crashType \<Rightarrow> dump_state \<Rightarrow> outcome \<times> dump_state" where
  "crash_dump_nortos env cfg F M type s =
     (let reason = (if type = WDT then NL_RESET_REASON_WATCHDOG else NL_RESET_REASON_HARD_FAULT);
          prefault_sp = frame_sp (dmem s) F
      in if PRE_WATCHDOG_ISR_EXTENSION cfg \<and> type = WDT \<and> ignore_pre_watchdog_isr env then (Returned, s)
         else let s1 = (if PRE_WATCHDOG_ISR_EXTENSION cfg then s else call [Watchdog_refresh] s);
                  s2 = dump_context_default env cfg F M type prefault_sp s1
              in if \<not> NO_BKPT_ON_FAULT cfg \<and> debugger_attached env then (Breakpoint, call [Print_text ''breaking''] s2)
                 else (Reset reason, call [Print_text ''resetting''] s2))"

text \<open>The entry points: the stub passes the two stack addresses and the type on.\<close>

definition nlfault_hard_fault_handler_c ::
  "fault_env \<Rightarrow> fault_config \<Rightarrow> u32 \<Rightarrow> u32 \<Rightarrow> u32 \<Rightarrow> dump_state \<Rightarrow> (outcome \<times> dump_state) option" where
  "nlfault_hard_fault_handler_c env cfg lr msp sp s =
     (let (F, M) = common_fault_handler_c lr msp sp in crash_dump_default env cfg F M FAULT s)"

definition nlfault_pre_watchdog_handler_c ::
  "fault_env \<Rightarrow> fault_config \<Rightarrow> u32 \<Rightarrow> u32 \<Rightarrow> u32 \<Rightarrow> dump_state \<Rightarrow> (outcome \<times> dump_state) option" where
  "nlfault_pre_watchdog_handler_c env cfg lr msp sp s =
     (let (F, M) = common_fault_handler_c lr msp sp in crash_dump_default env cfg F M WDT s)"

definition nlfault_debug_monitor_handler_c ::
  "fault_env \<Rightarrow> fault_config \<Rightarrow> u32 \<Rightarrow> u32 \<Rightarrow> u32 \<Rightarrow> dump_state \<Rightarrow> (outcome \<times> dump_state) option" where
  "nlfault_debug_monitor_handler_c env cfg lr msp sp s =
     (let (F, M) = common_fault_handler_c lr msp sp in crash_dump_default env cfg F M DBGMON s)"

text \<open>
  The hook of FreeRTOS for a stack overflow of the task \<open>pxTask\<close>: the registers come from the block
  that the switch to another task pushed. \<open>snprintf\<close> keeps 31 characters and a terminator.
\<close>

definition snprintf_description :: "string \<Rightarrow> string \<Rightarrow> string option" where
  "snprintf_description text desc =
     mem_write desc 0 (take (NL_FAULT_DIAGS_DESCRIPTION_LENGTH - 1) text @ [NUL])"

definition nlfault_freertos_stack_overflow_handler_c ::
  "fault_env \<Rightarrow> fault_config \<Rightarrow> u32 \<Rightarrow> string \<Rightarrow> dump_state \<Rightarrow> (outcome \<times> dump_state) option" where
  "nlfault_freertos_stack_overflow_handler_c env cfg pxTask pcTaskName s =
     (let stackTop = get_task_stack_top env pxTask;
          s1 = call [Watchdog_refresh, Quiesce_on_fault, Print_text ''STACK_OVERFLOW_DETECTED'', Print_text pcTaskName] s;
          stack_frame_p = load32 (dmem s) pxTask;
          frame = switched_out_frame cfg (dmem s) pxTask;
          prefault_sp = frame_sp (dmem s) frame;
          pc = load32 (dmem s) (frame + FRAME_PC);
          lr = load32 (dmem s) (frame + FRAME_LR);
          save = save_fault_to_reset_info cfg s1;
          buf = (if save then Task_backtrace 0 else Static_backtrace)
      in do {
        s2 \<leftarrow>
          (if save
           then do {
             let s2 = on_fault_info (\<lambda>fi. fi\<lparr>task_info := map clear_task (task_info fi)\<rparr>) s1;
             r \<leftarrow> mem_write (registers (dinfo s2)) 0
               (map (\<lambda>i. load32 (dmem s) (frame + 4 * word_of_nat i)) [0..<4] @
                map (\<lambda>i. load32 (dmem s) (stack_frame_p + 4 * word_of_nat i)) [0..<8] @
                [load32 (dmem s) (frame + FRAME_R12), prefault_sp, lr, pc, load32 (dmem s) (frame + FRAME_PSR)]);
             d \<leftarrow> snprintf_description (pcTaskName @ '' stack overflow'') (description (dinfo s2));
             Some (on_fault_info (\<lambda>fi. fi\<lparr>registers := r, description := d\<rparr>) s2) }
           else Some s1);
        let bt = nlbacktrace_with_lr env pc lr prefault_sp stackTop NL_FAULT_DIAGS_NUM_BT_ENTRIES;
        s3 \<leftarrow> write_backtrace buf 0 bt s2;
        s4 \<leftarrow>
          (if length bt < MIN_BACKTRACE_LEVELS_FOR_STACK_OVERFLOW
           then do {
             s4 \<leftarrow> write_backtrace buf 2 (nlbacktrace_no_context env prefault_sp stackTop (NL_FAULT_DIAGS_NUM_BT_ENTRIES - 2)
                     MIN_BACKTRACE_LEVELS_FOR_STACK_OVERFLOW 16) s3;
             write_backtrace buf 0 [pc, lr] s4 }
           else Some s3);
        Some (Reset NL_RESET_REASON_STACK_OVERFLOW, call [Print_text ''resetting''] s4) })"

section \<open>The record keeps its sizes\<close>

definition full_sized :: "nl_fault_info_t \<Rightarrow> bool" where
  "full_sized fi \<longleftrightarrow> well_sized fi \<and> length (task_info fi) = NL_FAULT_DIAGS_MAX_NUM_TASKS \<and>
     (\<forall>t \<in> set (task_info fi). length (task_name t) = 4 \<and> length (task_state t) = 4)"

definition sized :: "dump_state \<Rightarrow> bool" where
  "sized s \<longleftrightarrow> full_sized (dinfo s) \<and> length (s_backtrace s) = 10"

text \<open>The library calls keep to the bounds they are given; task names are not empty.\<close>

definition env_ok :: "fault_env \<Rightarrow> bool" where
  "env_ok env \<longleftrightarrow>
     (\<forall>pc lr sp stk n. length (nlbacktrace_with_lr env pc lr sp stk n) \<le> n) \<and>
     (\<forall>sp stk n least depth. length (nlbacktrace_no_context env sp stk n least depth) \<le> n) \<and>
     (\<forall>n. length (watchdog_flags env n) \<le> n) \<and>
     (\<forall>h. pcTaskGetName env h \<noteq> [] \<and> NUL \<notin> set (pcTaskGetName env h))"

text \<open>What no backtrace or task dump changes.\<close>

definition kept :: "dump_state \<Rightarrow> memory \<times> u32 \<times> u32 \<times> u32 \<times> u32 list \<times> string" where
  "kept s = (dmem s, ri_magic (rinfo s), reset_reason (rinfo s), fi_reason (dinfo s), registers (dinfo s), description (dinfo s))"

lemma call_simps [simp]:
  "dinfo (call cs s) = dinfo s" "rinfo (call cs s) = rinfo s" "dmem (call cs s) = dmem s"
  "s_backtrace (call cs s) = s_backtrace s"
  by (simp_all add: call_def dinfo_def)

lemma call_sized [simp]: "sized (call cs s) = sized s" "kept (call cs s) = kept s"
  by (simp_all add: sized_def kept_def)

lemma on_fault_info_simps [simp]:
  "dinfo (on_fault_info f s) = f (dinfo s)" "dmem (on_fault_info f s) = dmem s"
  "s_backtrace (on_fault_info f s) = s_backtrace s" "ri_magic (rinfo (on_fault_info f s)) = ri_magic (rinfo s)"
  "reset_reason (rinfo (on_fault_info f s)) = reset_reason (rinfo s)"
  by (simp_all add: on_fault_info_def dinfo_def)

lemma save_kept: "kept s' = kept s \<Longrightarrow> save_fault_to_reset_info cfg s' = save_fault_to_reset_info cfg s"
  by (simp add: save_fault_to_reset_info_def kept_def)

lemma full_sized_task:
  assumes "full_sized fi" "length (task_name t) = 4" "length (task_backtrace t) = 10" "length (task_state t) = 4"
  shows "full_sized (fi\<lparr>task_info := (task_info fi)[k := t]\<rparr>)"
  using assms by (auto simp: full_sized_def well_sized_def dest!: set_update_subset_insert [THEN subsetD])

lemma full_sized_nth: "full_sized fi \<Longrightarrow> k < 8 \<Longrightarrow>
   k < length (task_info fi) \<and> length (task_name (task_info fi ! k)) = 4 \<and>
   length (task_backtrace (task_info fi ! k)) = 10 \<and> length (task_state (task_info fi ! k)) = 4"
  by (auto simp: full_sized_def well_sized_def NL_FAULT_DIAGS_MAX_NUM_TASKS_def)

lemma mem_write_some: "off + length ys \<le> length xs \<Longrightarrow> \<exists>zs. mem_write xs off ys = Some zs \<and> length zs = length xs"
  using mem_write_length by fastforce

lemma write_backtrace_ok:
  assumes s: "sized s" and len: "off + length vs \<le> 10" and buf: "\<forall>i. buf = Task_backtrace i \<longrightarrow> i < 8"
  shows "\<exists>s'. write_backtrace buf off vs s = Some s' \<and> sized s' \<and> kept s' = kept s \<and> calls s' = calls s \<and>
    (buf = Static_backtrace \<longrightarrow> rinfo s' = rinfo s)"
proof (cases buf)
  case (Task_backtrace i)
  have fs: "full_sized (dinfo s)" and i: "i < 8" using s buf Task_backtrace by (auto simp: sized_def)
  note t = full_sized_nth [OF fs i]
  obtain bt where bt: "mem_write (task_backtrace (task_info (dinfo s) ! i)) off vs = Some bt" "length bt = 10"
    using mem_write_some len t by metis
  show ?thesis
    using Task_backtrace s t bt full_sized_task [OF fs, of "(task_info (dinfo s) ! i)\<lparr>task_backtrace := bt\<rparr>" i]
    by (simp add: write_backtrace_def sized_def kept_def on_fault_info_def dinfo_def)
next
  case Machine_backtrace
  have "length (machine_backtrace (dinfo s)) = 10" using s by (simp add: sized_def full_sized_def well_sized_def)
  then obtain bt where bt: "mem_write (machine_backtrace (dinfo s)) off vs = Some bt" "length bt = 10"
    using mem_write_some len by metis
  with Machine_backtrace s show ?thesis
    by (simp add: write_backtrace_def sized_def kept_def full_sized_def well_sized_def on_fault_info_def dinfo_def)
next
  case Static_backtrace
  obtain bt where bt: "mem_write (s_backtrace s) off vs = Some bt" "length bt = 10"
    using mem_write_some len s by (metis sized_def)
  with Static_backtrace s show ?thesis
    by (simp add: write_backtrace_def sized_def kept_def dinfo_def)
qed

lemma dump_backtrace_ok:
  assumes "env_ok env" "sized s" and buf: "\<forall>i. buf = Task_backtrace i \<longrightarrow> i < 8"
  shows "\<exists>n s'. dump_backtrace_default env F buf sp stk r s = Some (n, s') \<and> n \<le> 10 \<and> sized s' \<and> kept s' = kept s \<and>
    (buf = Static_backtrace \<longrightarrow> rinfo s' = rinfo s)"
proof -
  let ?pc = "load32 (dmem s) (F + FRAME_PC)" and ?lr = "load32 (dmem s) (F + FRAME_LR)"
  define bt where "bt = nlbacktrace_with_lr env ?pc ?lr sp stk 10"
  define bt' where "bt' = nlbacktrace_no_context env sp stk 8 3 16"
  have len: "length bt \<le> 10" "length bt' \<le> 8" using assms(1) by (simp_all add: env_ok_def bt_def bt'_def)
  obtain s1 where s1: "write_backtrace buf 0 bt (call [Watchdog_refresh] s) = Some s1" "sized s1" "kept s1 = kept s"
     "buf = Static_backtrace \<longrightarrow> rinfo s1 = rinfo s"
    using write_backtrace_ok [of "call [Watchdog_refresh] s" 0 bt buf] assms(2) len(1) buf by auto
  obtain s2 where s2: "write_backtrace buf 0 [?pc, ?lr] s1 = Some s2" "sized s2" "kept s2 = kept s"
     "buf = Static_backtrace \<longrightarrow> rinfo s2 = rinfo s"
    using write_backtrace_ok [of s1 0 "[?pc, ?lr]" buf] s1 buf by auto
  obtain s3 where s3: "write_backtrace buf 2 bt' (call [Watchdog_refresh] s2) = Some s3" "sized s3" "kept s3 = kept s"
     "buf = Static_backtrace \<longrightarrow> rinfo s3 = rinfo s"
    using write_backtrace_ok [of "call [Watchdog_refresh] s2" 2 bt' buf] s2 len(2) buf by auto
  show ?thesis
  proof (cases "bt = [] \<or> (r = NL_RESET_REASON_STACK_OVERFLOW \<and> length bt < MIN_BACKTRACE_LEVELS_FOR_STACK_OVERFLOW)")
    case True
    with s1 s2 s3 len show ?thesis
      by (simp add: dump_backtrace_default_def Let_def NL_FAULT_DIAGS_NUM_BT_ENTRIES_def bt_def [symmetric] bt'_def [symmetric])
  next
    case False
    with s1 len show ?thesis
      by (auto simp: dump_backtrace_default_def Let_def NL_FAULT_DIAGS_NUM_BT_ENTRIES_def bt_def [symmetric] bt'_def [symmetric])
  qed
qed

text \<open>The backtrace of a dump fits into the breadcrumb, and the name does if its object has four bytes.\<close>

lemma breadcrumb_of_dump:
  assumes "length bt = 10" "n \<le> 10" "\<forall>obj. name = Some obj \<longrightarrow> 4 \<le> length obj"
  shows "\<exists>b. nltransfer_fault_to_breadcrumbs bt n name = Some b \<and> stackDepth b = n \<and> take n (stackTrace b) = take n bt \<and>
    length (stackTrace b) = 10 \<and> length (tname b) = 4"
  using assms
  by (cases name)
    (auto simp: nltransfer_fault_to_breadcrumbs_def NL_FAULT_DIAGS_NUM_BT_ENTRIES_def NL_FAULT_DIAGS_TASK_NAME_LEN_def Let_def)

lemma threadDump_lengths:
  assumes "env_ok env" "threadDump env cfg st frame s = (name, c, bt)"
  shows "length name = 3" "length bt \<le> 10"
  using assms by (auto simp: threadDump_def env_ok_def Let_def strncpy_def NL_FAULT_DIAGS_NUM_BT_ENTRIES_def
      NL_FAULT_DIAGS_TASK_NAME_LEN_def split: prod.splits)

lemma dump_task_ok:
  assumes "env_ok env" "sized s" "save \<longrightarrow> k < 8"
  shows "\<exists>s'. dump_task env cfg save st frame k s = Some s' \<and> sized s' \<and> kept s' = kept s \<and> (\<not> save \<longrightarrow> rinfo s' = rinfo s)"
proof -
  obtain name c bt where td: "threadDump env cfg st frame s = (name, c, bt)" by (cases "threadDump env cfg st frame s")
  note len = threadDump_lengths [OF assms(1) td]
  show ?thesis
  proof (cases save)
    case True
    have fs: "full_sized (dinfo s)" and k: "k < 8" using assms True by (auto simp: sized_def)
    let ?t = "clear_task (task_info (dinfo s) ! k)"
    note t = full_sized_nth [OF fs k]
    obtain n where n: "mem_write (task_name ?t) 0 name = Some n" "length n = 4"
      using mem_write_some [of 0 name "task_name ?t"] len t by (auto simp: clear_task_def)
    obtain st' where st': "mem_write (task_state ?t) 0 [c] = Some st'" "length st' = 4"
      using mem_write_some [of 0 "[c]" "task_state ?t"] t by (auto simp: clear_task_def)
    obtain bt' where bt': "mem_write (task_backtrace ?t) 0 bt = Some bt'" "length bt' = 10"
      using mem_write_some [of 0 bt "task_backtrace ?t"] len t by (auto simp: clear_task_def)
    show ?thesis
      using True td n st' bt' t assms(2) full_sized_task [OF fs, of "\<lparr>task_name = n, task_backtrace = bt', task_state = st'\<rparr>" k]
      by (simp add: dump_task_def Let_def sized_def kept_def)
  next
    case False
    with td len assms(2) show ?thesis by (simp add: dump_task_def NL_FAULT_DIAGS_NUM_BT_ENTRIES_def)
  qed
qed

text \<open>How many slots the loop fills.\<close>

definition dumped :: "fault_env \<Rightarrow> bool \<Rightarrow> (u32 \<times> eTaskState) list \<Rightarrow> nat" where
  "dumped env task_fault sts = length (filter (\<lambda>st. \<not> (fst st = current_task env \<and> task_fault)) sts)"

lemma dump_tasks_ok:
  assumes "env_ok env"
  shows "sized s \<Longrightarrow> (save \<longrightarrow> k + dumped env task_fault sts \<le> 8) \<Longrightarrow>
    \<exists>s'. dump_tasks env cfg save task_fault sts k s = Some s' \<and> sized s' \<and> kept s' = kept s \<and> (\<not> save \<longrightarrow> rinfo s' = rinfo s)"
proof (induction sts arbitrary: k s)
  case (Cons st sts)
  show ?case
  proof (cases "fst st = current_task env \<and> task_fault")
    case True
    with Cons show ?thesis by (simp add: dumped_def)
  next
    case False
    let ?f = "if fst st = current_task env then Some (psp env) else None"
    have "save \<longrightarrow> k < 8" using Cons.prems(2) False by (auto simp: dumped_def)
    from dump_task_ok [OF assms Cons.prems(1) this, of cfg st ?f]
    obtain s1 where s1: "dump_task env cfg save st ?f k s = Some s1" "sized s1" "kept s1 = kept s" "\<not> save \<longrightarrow> rinfo s1 = rinfo s"
      by blast
    have "save \<longrightarrow> k + 1 + dumped env task_fault sts \<le> 8" using Cons.prems(2) False by (auto simp: dumped_def)
    from Cons.IH [OF s1(2) this] s1 False show ?thesis by auto
  qed
qed simp

lemma dump_tasks_overflow:
  assumes "env_ok env"
  shows "sized s \<Longrightarrow> k \<le> 8 \<Longrightarrow> 8 < k + dumped env task_fault sts \<Longrightarrow> dump_tasks env cfg True task_fault sts k s = None"
proof (induction sts arbitrary: k s)
  case Nil
  then show ?case by (simp add: dumped_def)
next
  case (Cons st sts)
  show ?case
  proof (cases "fst st = current_task env \<and> task_fault")
    case True
    with Cons show ?thesis by (simp add: dumped_def)
  next
    case False
    let ?f = "if fst st = current_task env then Some (psp env) else None"
    show ?thesis
    proof (cases "k < 8")
      case True
      from dump_task_ok [OF assms Cons.prems(1), of True k cfg st ?f] True
      obtain s1 where s1: "dump_task env cfg True st ?f k s = Some s1" "sized s1" by blast
      have "8 < k + 1 + dumped env task_fault sts" using Cons.prems(3) False by (simp add: dumped_def)
      with Cons.IH [OF s1(2), of "k + 1"] True s1 False show ?thesis by auto
    next
      case k: False
      have "length (task_info (dinfo s)) = 8"
        using Cons.prems(1) by (simp add: sized_def full_sized_def NL_FAULT_DIAGS_MAX_NUM_TASKS_def)
      with k False show ?thesis by (auto simp: dump_task_def Let_def split: prod.split)
    qed
  qed
qed

definition slots :: "fault_env \<Rightarrow> bool \<Rightarrow> nat" where
  "slots env task_fault = (if task_fault then 1 else 0) +
     dumped env task_fault (take THREAD_DUMP_MAX_NUM_THREADS (system_state env))"

text \<open>The state when only slots below \<open>j\<close> have changed.\<close>

definition same_slots :: "nat \<Rightarrow> dump_state \<Rightarrow> dump_state \<Rightarrow> bool" where
  "same_slots j s s' \<longleftrightarrow> (\<forall>i \<ge> j. task_info (dinfo s') ! i = task_info (dinfo s) ! i)"

lemma same_slots_trans: "same_slots j s s1 \<Longrightarrow> same_slots k s1 s2 \<Longrightarrow> j \<le> l \<Longrightarrow> k \<le> l \<Longrightarrow> same_slots l s s2"
  by (simp add: same_slots_def)

lemma name_active_task_ok:
  assumes "sized s"
  shows "\<exists>s1. name_active_task c env save task_fault s = Some s1 \<and> sized s1 \<and> kept s1 = kept s \<and> (\<not> save \<longrightarrow> s1 = s) \<and>
    same_slots 1 s s1"
proof -
  let ?name = "strncpy (pcTaskGetName env (current_task env)) (NL_FAULT_DIAGS_TASK_NAME_LEN - 1)"
  have name: "length ?name = 3" by (simp add: strncpy_def NL_FAULT_DIAGS_TASK_NAME_LEN_def)
  have fs: "full_sized (dinfo s)" and active: "length (active_task_name (dinfo s)) = 4"
    using assms by (auto simp: sized_def full_sized_def well_sized_def)
  consider "\<not> save" | "save" "\<not> task_fault" | "save" "task_fault" by blast
  then show ?thesis
  proof cases
    case 1
    then show ?thesis using assms by (simp add: name_active_task_def same_slots_def)
  next
    case 2
    then show ?thesis using assms active
      by (simp add: name_active_task_def same_slots_def sized_def full_sized_def well_sized_def kept_def)
  next
    case 3
    note t = full_sized_nth [OF fs, of 0, simplified]
    obtain n where n: "mem_write (map (\<lambda>_. NUL) (active_task_name (dinfo s))) 0 ?name = Some n" "length n = 4"
      using mem_write_some [of 0 ?name "map (\<lambda>_. NUL) (active_task_name (dinfo s))"] name active by auto
    obtain tn where tn: "mem_write (map (\<lambda>_. NUL) (task_name (task_info (dinfo s) ! 0))) 0 ?name = Some tn" "length tn = 4"
      using mem_write_some [of 0 ?name "map (\<lambda>_. NUL) (task_name (task_info (dinfo s) ! 0))"] name t by auto
    obtain ts where ts: "mem_write (task_state (task_info (dinfo s) ! 0)) 0 [c] = Some ts" "length ts = 4"
      using mem_write_some [of 0 "[c]" "task_state (task_info (dinfo s) ! 0)"] t by auto
    let ?t = "(task_info (dinfo s) ! 0)\<lparr>task_name := tn, task_state := ts\<rparr>"
    have "full_sized ((dinfo s)\<lparr>task_info := (task_info (dinfo s))[0 := ?t]\<rparr>)"
      using full_sized_task [OF fs, of ?t 0] tn ts t by simp
    then have "full_sized ((dinfo s)\<lparr>active_task_name := n, task_info := (task_info (dinfo s))[0 := ?t]\<rparr>)"
      using n by (simp add: full_sized_def well_sized_def)
    then show ?thesis
      using 3 assms n tn ts t
      by (simp add: name_active_task_def Let_def sized_def kept_def same_slots_def del: mem_write_in)
  qed
qed

text \<open>Without a slot to fill, the index is not used.\<close>

lemma dump_tasks_unsaved: "dump_tasks env cfg False task_fault sts k s = dump_tasks env cfg False task_fault sts k' s"
proof (induction sts arbitrary: k k' s)
  case (Cons st sts)
  have "dump_task env cfg False st f k s = dump_task env cfg False st f k' s" for f by (simp add: dump_task_def)
  moreover have "dump_tasks env cfg False task_fault sts (Suc k) = dump_tasks env cfg False task_fault sts (Suc k')"
    by (rule ext) (rule Cons)
  ultimately show ?case using Cons [of k s k'] by auto
qed simp

text \<open>Names and loop together, as in the dumps of both cores.\<close>

lemma named_tasks_ok:
  assumes "env_ok env" "sized s" "save \<longrightarrow> k + dumped env task_fault sts \<le> 8"
  shows "\<exists>s'. do { s1 \<leftarrow> name_active_task c env save task_fault s; dump_tasks env cfg save task_fault sts k s1 } = Some s' \<and>
    sized s' \<and> kept s' = kept s \<and> (\<not> save \<longrightarrow> rinfo s' = rinfo s)"
proof -
  obtain s1 where s1: "name_active_task c env save task_fault s = Some s1" "sized s1" "kept s1 = kept s" "\<not> save \<longrightarrow> s1 = s"
    using name_active_task_ok [OF assms(2)] by blast
  with dump_tasks_ok [OF assms(1) s1(2) assms(3), of cfg] show ?thesis by auto
qed

lemma named_tasks_overflow:
  assumes "env_ok env" "sized s" "k \<le> 8" "8 < k + dumped env task_fault sts"
  shows "do { s1 \<leftarrow> name_active_task c env True task_fault s; dump_tasks env cfg True task_fault sts k s1 } = None"
proof -
  obtain s1 where s1: "name_active_task c env True task_fault s = Some s1" "sized s1"
    using name_active_task_ok [OF assms(2)] by blast
  with dump_tasks_overflow [OF assms(1) s1(2) assms(3,4)] show ?thesis by simp
qed

lemma save_call [simp]: "save_fault_to_reset_info cfg (call cs s) = save_fault_to_reset_info cfg s"
  by (simp add: save_fault_to_reset_info_def)

lemma dump_all_tasks_ok:
  assumes "env_ok env" "sized s" "save_fault_to_reset_info cfg s \<longrightarrow> slots env task_fault \<le> 8"
  shows "\<exists>s'. dump_all_tasks_default env cfg task_fault s = Some s' \<and> sized s' \<and> kept s' = kept s \<and>
    (\<not> save_fault_to_reset_info cfg s \<longrightarrow> rinfo s' = rinfo s)"
  using named_tasks_ok [OF assms(1), of "call [Print_text ''All tasks''] s" "save_fault_to_reset_info cfg s"
      "if save_fault_to_reset_info cfg s \<and> task_fault then 1 else 0" task_fault
      "take THREAD_DUMP_MAX_NUM_THREADS (system_state env)" "CHR ''A''" cfg] assms(2,3)
  by (simp add: dump_all_tasks_default_def slots_def Let_def split: if_splits)

lemma dump_all_tasks_overflow:
  assumes "env_ok env" "sized s" "save_fault_to_reset_info cfg s" "8 < slots env task_fault"
  shows "dump_all_tasks_default env cfg task_fault s = None"
  using named_tasks_overflow [OF assms(1), of "call [Print_text ''All tasks''] s" "if task_fault then 1 else 0" task_fault
      "take THREAD_DUMP_MAX_NUM_THREADS (system_state env)" "CHR ''A''" cfg] assms(2-4)
  by (simp add: dump_all_tasks_default_def slots_def)

text \<open>What each part of a dump leaves of the slots it does not fill.\<close>

lemma write_backtrace_slots:
  assumes "write_backtrace buf off vs s = Some s'" "\<forall>i. buf = Task_backtrace i \<longrightarrow> i = 0"
  shows "same_slots 1 s s'"
  using assms by (cases buf) (auto simp: write_backtrace_def same_slots_def on_fault_info_def dinfo_def split: bind_splits)

lemma same_slots_call [simp]: "same_slots j (call cs s) s' = same_slots j s s'" "same_slots j s (call cs s') = same_slots j s s'"
  by (simp_all add: same_slots_def)

lemma dump_backtrace_slots:
  assumes "dump_backtrace_default env F buf sp stk r s = Some (n, s')" "\<forall>i. buf = Task_backtrace i \<longrightarrow> i = 0"
  shows "same_slots 1 s s'"
proof -
  have w: "same_slots 1 s2 s3" if "write_backtrace buf off vs s2 = Some s3" for off vs s2 s3
    by (rule write_backtrace_slots [OF that assms(2)])
  show ?thesis
    using assms(1)
    by (auto simp: dump_backtrace_default_def Let_def split: bind_splits if_splits dest!: w) (auto simp: same_slots_def)
qed

lemma dump_task_slots: "dump_task env cfg save st f k s = Some s' \<Longrightarrow> same_slots (Suc k) s s'"
  by (auto simp: dump_task_def Let_def same_slots_def split: prod.splits if_splits bind_splits)

lemma dump_tasks_slots:
  "dump_tasks env cfg save task_fault sts k s = Some s' \<Longrightarrow> same_slots (k + dumped env task_fault sts) s s'"
proof (induction sts arbitrary: k s)
  case Nil
  then show ?case by (simp add: same_slots_def)
next
  case (Cons st sts)
  show ?case
  proof (cases "fst st = current_task env \<and> task_fault")
    case True
    with Cons show ?thesis by (simp add: dumped_def)
  next
    case False
    with Cons.prems obtain s1 f where s1: "dump_task env cfg save st f k s = Some s1"
      "dump_tasks env cfg save task_fault sts (k + 1) s1 = Some s'" by (auto split: bind_splits if_splits)
    from False show ?thesis
      using same_slots_trans [OF dump_task_slots [OF s1(1)] Cons.IH [OF s1(2)]] by (auto simp: dumped_def)
  qed
qed

lemma named_tasks_slots:
  assumes "do { s1 \<leftarrow> name_active_task c env save task_fault s; dump_tasks env cfg save task_fault sts k s1 } = Some s'" "sized s"
  shows "same_slots (max 1 (k + dumped env task_fault sts)) s s'"
proof -
  obtain s1 where s1: "name_active_task c env save task_fault s = Some s1" "same_slots 1 s s1"
    using name_active_task_ok [OF assms(2)] by blast
  with assms(1) have "dump_tasks env cfg save task_fault sts k s1 = Some s'" by simp
  from same_slots_trans [OF s1(2) dump_tasks_slots [OF this]] show ?thesis by simp
qed

section \<open>Descriptions\<close>

lemma append_string:
  "length desc = 32 \<Longrightarrow> i \<le> 31 \<Longrightarrow> src \<noteq> [] \<Longrightarrow> NUL \<notin> set src \<Longrightarrow>
   \<exists>desc'. append_string_to_fault_info_description i (src @ [NUL]) desc = Some (min 31 (i + length src), desc') \<and>
     length desc' = 32 \<and> take (min 31 (i + length src)) desc' = take 31 (take i desc @ src)"
proof (induction src arbitrary: i desc)
  case (Cons c src)
  show ?case
  proof (cases "i < 31")
    case False
    with Cons.prems show ?thesis
      by (simp add: append_string_to_fault_info_description.simps [of 31] NL_FAULT_DIAGS_DESCRIPTION_LENGTH_def min_def)
  next
    case True
    let ?d = "desc[i := c]"
    have d: "length ?d = 32" "take (Suc i) ?d = take i desc @ [c]"
      using Cons.prems(1) True by (simp_all add: take_Suc_conv_app_nth)
    show ?thesis
    proof (cases "src = []")
      case True
      have "min 31 (Suc i) = Suc i" using \<open>i < 31\<close> by simp
      with True \<open>i < 31\<close> Cons.prems d show ?thesis
        by (simp add: append_string_to_fault_info_description.simps [of i] NL_FAULT_DIAGS_DESCRIPTION_LENGTH_def)
    next
      case False
      then obtain e es where src: "src = e # es" "e \<noteq> NUL" using Cons.prems(4) by (cases src) auto
      from Cons.IH [of ?d "Suc i"] d True False Cons.prems(4)
      obtain desc' where "append_string_to_fault_info_description (Suc i) (src @ [NUL]) ?d = Some (min 31 (Suc i + length src), desc')"
        "length desc' = 32" "take (min 31 (Suc i + length src)) desc' = take 31 (take i desc @ [c] @ src)"
        by auto
      with True Cons.prems src show ?thesis
        by (simp add: append_string_to_fault_info_description.simps [of i] NL_FAULT_DIAGS_DESCRIPTION_LENGTH_def)
    qed
  qed
qed simp

corollary append_string_at:
  assumes "length desc = 32" "i \<le> 31" "src \<noteq> []" "NUL \<notin> set src" "k = min 31 (i + length src)" "before = take i desc"
  obtains desc' where "append_string_to_fault_info_description i (src @ [NUL]) desc = Some (k, desc')"
    "length desc' = 32" "take k desc' = take 31 (before @ src)"
  using append_string [OF assms(1-4)] assms(5,6) by auto

definition overflow_text :: "string option \<Rightarrow> string" where
  "overflow_text name = ''stack_overflow'' @ (case name of None \<Rightarrow> [] | Some n \<Rightarrow> '': '' @ n)"

lemma stack_overflow_prefix:
  assumes "length d = 32"
  obtains d1 d2 where "append_string_to_fault_info_description 0 (''stack_overflow'' @ [NUL]) d = Some (14, d1)"
    "length d1 = 32" "take 14 d1 = ''stack_overflow''"
    "append_string_to_fault_info_description 14 ('': '' @ [NUL]) d1 = Some (16, d2)"
    "length d2 = 32" "take 16 d2 = ''stack_overflow'' @ '': ''"
proof -
  define so where "so = ''stack_overflow''"
  define co where "co = '': ''"
  have so: "length so = 14" "so \<noteq> []" "NUL \<notin> set so" and co: "length co = 2" "co \<noteq> []" "NUL \<notin> set co"
    by (simp_all add: so_def co_def NUL_def)
  obtain d1 where d1: "append_string_to_fault_info_description 0 (so @ [NUL]) d = Some (14, d1)"
    "length d1 = 32" "take 14 d1 = so"
    by (rule append_string_at [OF assms _ so(2,3), of 0 14 "[]"]) (use so in simp_all)
  obtain d2 where d2: "append_string_to_fault_info_description 14 (co @ [NUL]) d1 = Some (16, d2)"
    "length d2 = 32" "take 16 d2 = so @ co"
    by (rule append_string_at [OF d1(2) _ co(2,3), of 14 16 so]) (use so co d1(3) in simp_all)
  from that d1 d2 show thesis unfolding so_def co_def .
qed

lemma c_string_cut:
  assumes "i < length desc" "NUL \<notin> set (take i desc)"
  shows "c_string (desc[i := NUL]) = take i desc"
proof -
  have "desc[i := NUL] = take i desc @ NUL # drop (Suc i) desc" using assms(1) by (simp add: upd_conv_take_nth_drop)
  with assms(2) show ?thesis by (simp add: c_string_def takeWhile_append)
qed

lemma stack_overflow_description:
  assumes "length (description (dinfo s)) = NL_FAULT_DIAGS_DESCRIPTION_LENGTH" "name \<noteq> Some []" "NUL \<notin> set (overflow_text name)"
  shows "\<exists>d. dump_stack_overflow_info_to_reset_info_default name s = Some (on_fault_info (\<lambda>fi. fi\<lparr>description := d\<rparr>) s) \<and>
    length d = NL_FAULT_DIAGS_DESCRIPTION_LENGTH \<and> c_string d = take 31 (overflow_text name)"
proof -
  have d0: "length (description (dinfo s)) = 32" using assms(1) by (simp add: NL_FAULT_DIAGS_DESCRIPTION_LENGTH_def)
  obtain d1 d2 where d: "append_string_to_fault_info_description 0 (''stack_overflow'' @ [NUL]) (description (dinfo s)) = Some (14, d1)"
    "length d1 = 32" "take 14 d1 = ''stack_overflow''"
    "append_string_to_fault_info_description 14 ('': '' @ [NUL]) d1 = Some (16, d2)"
    "length d2 = 32" "take 16 d2 = ''stack_overflow'' @ '': ''"
    by (rule stack_overflow_prefix [OF d0])
  show ?thesis
  proof (cases name)
    case None
    with d c_string_cut [of 14 d1] assms(3) show ?thesis
      by (intro exI [of _ "d1[14 := NUL]"]) (simp add: dump_stack_overflow_info_to_reset_info_default_def overflow_text_def NL_FAULT_DIAGS_DESCRIPTION_LENGTH_def)
  next
    case (Some n)
    have n: "n \<noteq> []" "NUL \<notin> set n" using assms(2,3) Some by (simp_all add: overflow_text_def)
    have t: "overflow_text name = (''stack_overflow'' @ '': '') @ n" using Some by (simp add: overflow_text_def)
    obtain d3 where d3: "append_string_to_fault_info_description 16 (n @ [NUL]) d2 = Some (min 31 (16 + length n), d3)"
      "length d3 = 32" "take (min 31 (16 + length n)) d3 = take 31 (overflow_text name)"
      unfolding t by (rule append_string_at [OF d(5) _ n refl d(6) [symmetric]]) simp
    have "NUL \<notin> set (take 31 (overflow_text name))" using assms(3) by (blast dest: in_set_takeD)
    with d3 c_string_cut [of "min 31 (16 + length n)" d3] Some d show ?thesis
      by (intro exI [of _ "d3[min 31 (16 + length n) := NUL]"]) (simp add: dump_stack_overflow_info_to_reset_info_default_def NL_FAULT_DIAGS_DESCRIPTION_LENGTH_def)
  qed
qed

text \<open>
  The description of a stack overflow is the text with the name of the task, cut to what fits, and
  is always terminated within its array; but a task whose name is empty makes the loop read behind
  the terminator of the name.
\<close>

theorem dump_stack_overflow_description:
  assumes "length (description (dinfo s)) = NL_FAULT_DIAGS_DESCRIPTION_LENGTH"
  shows "case name of
     Some [] \<Rightarrow> dump_stack_overflow_info_to_reset_info_default name s = None
   | _ \<Rightarrow> NUL \<notin> set (overflow_text name) \<longrightarrow>
       (\<exists>s'. dump_stack_overflow_info_to_reset_info_default name s = Some s' \<and>
         length (description (dinfo s')) = NL_FAULT_DIAGS_DESCRIPTION_LENGTH \<and>
         c_string (description (dinfo s')) = take 31 (overflow_text name))"
proof -
  have "dump_stack_overflow_info_to_reset_info_default (Some []) s = None"
    using assms by (rule_tac stack_overflow_prefix [of "description (dinfo s)"])
      (simp_all add: dump_stack_overflow_info_to_reset_info_default_def NL_FAULT_DIAGS_DESCRIPTION_LENGTH_def
        append_string_to_fault_info_description.simps [of 16])
  moreover have "\<exists>s'. dump_stack_overflow_info_to_reset_info_default name s = Some s' \<and>
      length (description (dinfo s')) = NL_FAULT_DIAGS_DESCRIPTION_LENGTH \<and>
      c_string (description (dinfo s')) = take 31 (overflow_text name)"
    if "name \<noteq> Some []" "NUL \<notin> set (overflow_text name)"
    using stack_overflow_description [OF assms that] by auto
  ultimately show ?thesis by (cases name) (auto split: list.split)
qed

section \<open>The dump as a whole\<close>

definition saved_registers :: "memory \<Rightarrow> u32 \<Rightarrow> u32 \<Rightarrow> u32 list" where
  "saved_registers m F M = map (\<lambda>i. load32 m (F + 4 * word_of_nat i)) [0..<4] @
     map (\<lambda>i. load32 m (M + 4 * word_of_nat i)) [0..<8] @
     [load32 m (F + FRAME_R12), frame_sp m F, load32 m (F + FRAME_LR), load32 m (F + FRAME_PC), load32 m (F + FRAME_PSR)]"

text \<open>They are the registers of the interrupted code.\<close>

lemma saved_registers_cpu:
  assumes "holds_cpu F M m c"
  shows "saved_registers m F M = map (regs c) [0..<13] @ [frame_sp m F, regs c 14, regs c 15, load32 m (F + FRAME_PSR)]"
proof -
  have "load32 m (the_ptr F M r) = regs c r" if "r \<in> set ([0..<13] @ [14, 15])" for r
    by (rule the_ptr_load [OF assms]) (use that in \<open>auto simp: saved_def\<close>)
  from this [of 0] this [of 1] this [of 2] this [of 3] this [of 4] this [of 5] this [of 6] this [of 7] this [of 8]
    this [of 9] this [of 10] this [of 11] this [of 12] this [of 14] this [of 15]
  moreover have "[0..<13] = [0, 1, 2, 3, 4, 5, 6, 7, 8, 9, 10, 11, 12]" "[0..<8] = [0, 1, 2, 3, 4, 5, 6, 7]" "[0..<4] = [0, 1, 2, 3]"
    by code_simp+
  ultimately show ?thesis
    by (simp add: saved_registers_def the_ptr_def getRegisterPtr_def FRAME_R12_def FRAME_LR_def FRAME_PC_def)
qed

lemma write_registers:
  assumes "length r0 = 17" "length a = 4" "length b = 8" "length d = 5"
  shows "do { r \<leftarrow> mem_write r0 0 a; r \<leftarrow> mem_write r 4 b; mem_write r 12 d } = Some (a @ b @ d)"
  using assms by simp

lemma get_reset_reason_on_fault_info [simp]:
  "nl_reset_info_get_reset_reason (rinfo (on_fault_info f s)) = nl_reset_info_get_reset_reason (rinfo s)"
  by (auto simp: nl_reset_info_get_reset_reason_def)

definition clear_entries :: "dump_state \<Rightarrow> dump_state" where
  "clear_entries s =
     (let s1 = on_fault_info (\<lambda>fi. fi\<lparr>task_info := map clear_task (task_info fi),
                 machine_backtrace := map (\<lambda>_. 0) (machine_backtrace fi)\<rparr>) s
      in if nl_reset_info_get_reset_reason (rinfo s) = NL_RESET_REASON_UNKNOWN
         then on_fault_info (\<lambda>fi. fi\<lparr>description := map (\<lambda>_. NUL) (description fi)\<rparr>) s1 else s1)"

lemma clear_entries_simps [simp]:
  "dmem (clear_entries s) = dmem s" "s_backtrace (clear_entries s) = s_backtrace s"
  "ri_magic (rinfo (clear_entries s)) = ri_magic (rinfo s)"
  "reset_reason (rinfo (clear_entries s)) = reset_reason (rinfo s)"
  "fi_reason (dinfo (clear_entries s)) = fi_reason (dinfo s)"
  "registers (dinfo (clear_entries s)) = registers (dinfo s)"
  "description (dinfo (clear_entries s)) = (if nl_reset_info_get_reset_reason (rinfo s) = NL_RESET_REASON_UNKNOWN
     then map (\<lambda>_. NUL) (description (dinfo s)) else description (dinfo s))"
  by (simp_all add: clear_entries_def Let_def)

lemma clear_entries_sized: "sized s \<Longrightarrow> sized (clear_entries s)"
  by (auto simp: sized_def full_sized_def well_sized_def clear_entries_def Let_def clear_task_def)

text \<open>What the context dump writes besides registers and buffers: the description.\<close>

definition describe :: "fault_env \<Rightarrow> u32 \<Rightarrow> string option \<Rightarrow> dump_state \<Rightarrow> dump_state option" where
  "describe env reason name s =
     (if reason = NL_RESET_REASON_WATCHDOG then dump_watchdog_flags_default env s
      else if reason = NL_RESET_REASON_STACK_OVERFLOW then dump_stack_overflow_info_to_reset_info_default name s
      else Some s)"

lemma describe_ok:
  assumes "env_ok env" "sized s" "\<forall>n. name = Some n \<longrightarrow> n \<noteq> [] \<and> NUL \<notin> set n"
  shows "\<exists>s'. describe env reason name s = Some s' \<and> sized s' \<and> dmem s' = dmem s \<and>
    ri_magic (rinfo s') = ri_magic (rinfo s) \<and> reset_reason (rinfo s') = reset_reason (rinfo s) \<and>
    fi_reason (dinfo s') = fi_reason (dinfo s) \<and> registers (dinfo s') = registers (dinfo s) \<and>
    task_info (dinfo s') = task_info (dinfo s) \<and>
    (reason \<noteq> NL_RESET_REASON_WATCHDOG \<and> reason \<noteq> NL_RESET_REASON_STACK_OVERFLOW \<longrightarrow>
       description (dinfo s') = description (dinfo s))"
proof -
  have d: "length (description (dinfo s)) = NL_FAULT_DIAGS_DESCRIPTION_LENGTH"
    using assms(2) by (simp add: sized_def full_sized_def well_sized_def)
  let ?set = "\<lambda>d. on_fault_info (\<lambda>fi. fi\<lparr>description := d\<rparr>) s"
  have set_ok: "sized (?set d)" if "length d = NL_FAULT_DIAGS_DESCRIPTION_LENGTH" for d
    using that assms(2) by (simp add: sized_def full_sized_def well_sized_def)
  consider "reason = NL_RESET_REASON_WATCHDOG" | "reason \<noteq> NL_RESET_REASON_WATCHDOG" "reason = NL_RESET_REASON_STACK_OVERFLOW"
    | "reason \<noteq> NL_RESET_REASON_WATCHDOG" "reason \<noteq> NL_RESET_REASON_STACK_OVERFLOW" by blast
  then show ?thesis
  proof cases
    case 1
    have "length (watchdog_flags env (length (description (dinfo s)))) \<le> length (description (dinfo s))"
      using assms(1) by (simp add: env_ok_def)
    then obtain d' where "mem_write (description (dinfo s)) 0 (watchdog_flags env (length (description (dinfo s)))) = Some d'"
      "length d' = NL_FAULT_DIAGS_DESCRIPTION_LENGTH"
      using mem_write_some [of 0 _ "description (dinfo s)"] d by (metis add_0)
    with 1 set_ok show ?thesis by (simp add: describe_def dump_watchdog_flags_default_def del: mem_write_in)
  next
    case 2
    have "name \<noteq> Some []" "NUL \<notin> set (overflow_text name)"
      using assms(3) by (auto simp: overflow_text_def NUL_def split: option.split)
    from stack_overflow_description [OF d this]
    obtain d' where "dump_stack_overflow_info_to_reset_info_default name s = Some (?set d')"
      "length d' = NL_FAULT_DIAGS_DESCRIPTION_LENGTH" by blast
    with 2 set_ok show ?thesis by (simp add: describe_def)
  next
    case 3
    with assms(2) show ?thesis by (simp add: describe_def)
  qed
qed

definition name_ok :: "string option \<Rightarrow> bool" where
  "name_ok name \<longleftrightarrow> (\<forall>n. name = Some n \<longrightarrow> n \<noteq> [] \<and> NUL \<notin> set n)"

text \<open>What a context dump makes of the description.\<close>

definition described :: "u32 \<Rightarrow> dump_state \<Rightarrow> dump_state \<Rightarrow> bool" where
  "described r s s' \<longleftrightarrow> (r \<noteq> NL_RESET_REASON_WATCHDOG \<and> r \<noteq> NL_RESET_REASON_STACK_OVERFLOW \<longrightarrow>
     description (dinfo s') = (if nl_reset_info_get_reset_reason (rinfo s) = NL_RESET_REASON_UNKNOWN
       then map (\<lambda>_. NUL) (description (dinfo s)) else description (dinfo s)))"

text \<open>The registers and the description, after the clearing that each core does in its own way.\<close>

definition save_context :: "fault_env \<Rightarrow> memory \<Rightarrow> u32 \<Rightarrow> u32 \<Rightarrow> u32 \<Rightarrow> string option \<Rightarrow> dump_state \<Rightarrow> dump_state option" where
  "save_context env m F M reason name s = do {
     r \<leftarrow> mem_write (registers (dinfo s)) 0 (map (\<lambda>i. load32 m (F + 4 * word_of_nat i)) [0..<4]);
     r \<leftarrow> mem_write r 4 (map (\<lambda>i. load32 m (M + 4 * word_of_nat i)) [0..<8]);
     r \<leftarrow> mem_write r 12 [load32 m (F + FRAME_R12), frame_sp m F, load32 m (F + FRAME_LR),
                         load32 m (F + FRAME_PC), load32 m (F + FRAME_PSR)];
     describe env reason name (on_fault_info (\<lambda>fi. fi\<lparr>registers := r\<rparr>) s) }"

lemma save_context_ok:
  assumes "env_ok env" "sized s" "name_ok name"
  shows "\<exists>s'. save_context env m F M reason name s = Some s' \<and> sized s' \<and> dmem s' = dmem s \<and>
    ri_magic (rinfo s') = ri_magic (rinfo s) \<and> reset_reason (rinfo s') = reset_reason (rinfo s) \<and>
    fi_reason (dinfo s') = fi_reason (dinfo s) \<and> registers (dinfo s') = saved_registers m F M \<and>
    task_info (dinfo s') = task_info (dinfo s) \<and>
    (reason \<noteq> NL_RESET_REASON_WATCHDOG \<and> reason \<noteq> NL_RESET_REASON_STACK_OVERFLOW \<longrightarrow>
       description (dinfo s') = description (dinfo s))"
proof -
  let ?r = "saved_registers m F M"
  define s3 where "s3 = on_fault_info (\<lambda>fi. fi\<lparr>registers := ?r\<rparr>) s"
  have len: "length (registers (dinfo s)) = 17" "length ?r = 17"
    using assms(2) by (simp_all add: sized_def full_sized_def well_sized_def saved_registers_def)
  have "sized s3" using assms(2) len by (simp add: s3_def sized_def full_sized_def well_sized_def)
  from describe_ok [OF assms(1) this assms(3) [unfolded name_ok_def], of reason]
  obtain s' where s': "describe env reason name s3 = Some s'" "sized s'" "dmem s' = dmem s3"
    "ri_magic (rinfo s') = ri_magic (rinfo s3)" "reset_reason (rinfo s') = reset_reason (rinfo s3)"
    "fi_reason (dinfo s') = fi_reason (dinfo s3)" "registers (dinfo s') = registers (dinfo s3)"
    "task_info (dinfo s') = task_info (dinfo s3)"
    "reason \<noteq> NL_RESET_REASON_WATCHDOG \<and> reason \<noteq> NL_RESET_REASON_STACK_OVERFLOW \<longrightarrow>
       description (dinfo s') = description (dinfo s3)" by blast
  have "save_context env m F M reason name s = describe env reason name s3"
    using len(1) by (simp add: save_context_def s3_def saved_registers_def)
  with s' show ?thesis by (simp add: s3_def)
qed

lemma dump_context_clears:
  assumes "save_fault_to_reset_info cfg s"
  shows "dump_context_to_reset_info_default env cfg F M reason (frame_sp (dmem s) F) name task_fault s =
      do { s' \<leftarrow> save_context env (dmem s) F M reason name (clear_entries s);
           Some (if task_fault then Task_backtrace 0 else Machine_backtrace, s') }"
  using assms by (simp add: dump_context_to_reset_info_default_def clear_entries_def describe_def save_context_def Let_def)

lemma dump_context_saving:
  assumes "env_ok env" "sized s" "name_ok name" "save_fault_to_reset_info cfg s"
  shows "\<exists>s'. dump_context_to_reset_info_default env cfg F M reason (frame_sp (dmem s) F) name task_fault s =
      Some (if task_fault then Task_backtrace 0 else Machine_backtrace, s') \<and>
    sized s' \<and> dmem s' = dmem s \<and> ri_magic (rinfo s') = ri_magic (rinfo s) \<and>
    reset_reason (rinfo s') = reset_reason (rinfo s) \<and> fi_reason (dinfo s') = fi_reason (dinfo s) \<and>
    registers (dinfo s') = saved_registers (dmem s) F M \<and> described reason s s'"
  using save_context_ok [OF assms(1) clear_entries_sized [OF assms(2)] assms(3), of "dmem s" F M reason]
  unfolding dump_context_clears [OF assms(4)] by (auto simp: described_def)

text \<open>The reason that the dump works with: a failed stacking of the exception frame makes it an overflow.\<close>

definition dump_reason :: "fault_env \<Rightarrow> fault_config \<Rightarrow> bool \<Rightarrow> crashType \<Rightarrow> u32" where
  "dump_reason env cfg task_fault type =
     (if \<not> CONFIG_RELEASE cfg \<and> task_fault \<and> CFSR env AND SCB_CFSR_MSTKERR \<noteq> 0 then NL_RESET_REASON_STACK_OVERFLOW
      else kCrashTypeToResetReason type)"

lemma crash_task_info_spec:
  assumes "env_ok env" "crash_task_info env cfg task_fault (kCrashTypeToResetReason type) s = (name, r, stk, s')"
  shows "r = dump_reason env cfg task_fault type" "name_ok name" "\<exists>cs. s' = call cs s"
proof -
  show "r = dump_reason env cfg task_fault type" "name_ok name"
    using assms by (auto simp: name_ok_def crash_task_info_def get_and_dump_current_task_info_default_def dump_reason_def Let_def env_ok_def
      split: if_splits)
  have "s' = s \<or> (\<exists>cs. s' = call cs s)"
    using assms by (auto simp: crash_task_info_def get_and_dump_current_task_info_default_def Let_def call_def split: if_splits)
  moreover have "s = call [] s" by (simp add: call_def)
  ultimately show "\<exists>cs. s' = call cs s" by metis
qed

lemma map_option_bind_Some: "do { x \<leftarrow> m; Some (f x) } = map_option f m"
  by (cases m) simp_all

text \<open>
  What every dump does between looking up the task and ending: the context, the backtrace, the tasks and
  the call for the breadcrumbs, with its flag \<open>d\<close>.
  The contract of the three parts is a locale, since the dumps of both cores are made of such parts.
\<close>

definition crash_run where
  "crash_run context_part backtrace_part tasks_part env cfg F M r name stk d s = do {
     (buf, s4) \<leftarrow> context_part env cfg F M r (frame_sp (dmem s) F) name (F \<noteq> M + 40) s;
     (count, s5) \<leftarrow> backtrace_part env F buf (frame_sp (dmem s) F) stk r s4;
     s6 \<leftarrow> (if DUMP_TASK_STACKS cfg then tasks_part env cfg (F \<noteq> M + 40) s5 else Some s5);
     Some (call (if BREADCRUMBS cfg then [Crash_dump_breadcrumbs buf count name d] else []) s6) }"

locale crash_parts =
  fixes context_part :: "fault_env \<Rightarrow> fault_config \<Rightarrow> u32 \<Rightarrow> u32 \<Rightarrow> u32 \<Rightarrow> u32 \<Rightarrow> string option \<Rightarrow> bool \<Rightarrow> dump_state \<Rightarrow>
      (backtrace_buf \<times> dump_state) option"
    and backtrace_part :: "fault_env \<Rightarrow> u32 \<Rightarrow> backtrace_buf \<Rightarrow> u32 \<Rightarrow> u32 \<Rightarrow> u32 \<Rightarrow> dump_state \<Rightarrow> (nat \<times> dump_state) option"
    and tasks_part :: "fault_env \<Rightarrow> fault_config \<Rightarrow> bool \<Rightarrow> dump_state \<Rightarrow> dump_state option"
  assumes context_saves: "env_ok env \<Longrightarrow> sized s \<Longrightarrow> name_ok name \<Longrightarrow> save_fault_to_reset_info cfg s \<Longrightarrow>
      \<exists>s'. context_part env cfg F M r (frame_sp (dmem s) F) name task_fault s =
          Some (if task_fault then Task_backtrace 0 else Machine_backtrace, s') \<and>
        sized s' \<and> dmem s' = dmem s \<and> ri_magic (rinfo s') = ri_magic (rinfo s) \<and>
        reset_reason (rinfo s') = reset_reason (rinfo s) \<and> fi_reason (dinfo s') = fi_reason (dinfo s) \<and>
        registers (dinfo s') = saved_registers (dmem s) F M \<and> described r s s'"
    and context_static: "\<not> save_fault_to_reset_info cfg s \<Longrightarrow>
      context_part env cfg F M r sp name task_fault s = Some (Static_backtrace, s)"
    and backtrace_ok: "env_ok env \<Longrightarrow> sized s \<Longrightarrow> \<forall>i. buf = Task_backtrace i \<longrightarrow> i < 8 \<Longrightarrow>
      \<exists>n s'. backtrace_part env F buf sp stk r s = Some (n, s') \<and> sized s' \<and> kept s' = kept s \<and>
        (buf = Static_backtrace \<longrightarrow> rinfo s' = rinfo s)"
    and tasks_ok: "env_ok env \<Longrightarrow> sized s \<Longrightarrow> save_fault_to_reset_info cfg s \<longrightarrow> slots env task_fault \<le> 8 \<Longrightarrow>
      \<exists>s'. tasks_part env cfg task_fault s = Some s' \<and> sized s' \<and> kept s' = kept s \<and>
        (\<not> save_fault_to_reset_info cfg s \<longrightarrow> rinfo s' = rinfo s)"
    and tasks_overflow: "env_ok env \<Longrightarrow> sized s \<Longrightarrow> save_fault_to_reset_info cfg s \<Longrightarrow> 8 < slots env task_fault \<Longrightarrow>
      tasks_part env cfg task_fault s = None"
begin

abbreviation run where
  "run \<equiv> crash_run context_part backtrace_part tasks_part"

text \<open>Up to the backtrace, when the fault is saved.\<close>

lemma run_saving:
  assumes "env_ok env" "sized s" "name_ok name" "save_fault_to_reset_info cfg s"
  obtains s5 cs where "sized s5" "save_fault_to_reset_info cfg s5"
    "run env cfg F M r name stk d s = map_option (call cs) (if DUMP_TASK_STACKS cfg then tasks_part env cfg (F \<noteq> M + 40) s5 else Some s5)"
    "ri_magic (rinfo s5) = ri_magic (rinfo s)" "reset_reason (rinfo s5) = reset_reason (rinfo s)"
    "fi_reason (dinfo s5) = fi_reason (dinfo s)" "registers (dinfo s5) = saved_registers (dmem s) F M" "described r s s5"
proof -
  let ?buf = "if F \<noteq> M + 40 then Task_backtrace 0 else Machine_backtrace"
  obtain s4 where s4: "context_part env cfg F M r (frame_sp (dmem s) F) name (F \<noteq> M + 40) s = Some (?buf, s4)"
    "sized s4" "ri_magic (rinfo s4) = ri_magic (rinfo s)" "reset_reason (rinfo s4) = reset_reason (rinfo s)"
    "fi_reason (dinfo s4) = fi_reason (dinfo s)" "registers (dinfo s4) = saved_registers (dmem s) F M" "described r s s4"
    using context_saves [OF assms] by blast
  obtain n s5 where s5: "backtrace_part env F ?buf (frame_sp (dmem s) F) stk r s4 = Some (n, s5)" "sized s5" "kept s5 = kept s4"
    using backtrace_ok [OF assms(1) s4(2), of ?buf F "frame_sp (dmem s) F" stk r] by (cases "F = M + 40") auto
  have k: "ri_magic (rinfo s5) = ri_magic (rinfo s4)" "reset_reason (rinfo s5) = reset_reason (rinfo s4)"
    "fi_reason (dinfo s5) = fi_reason (dinfo s4)" "registers (dinfo s5) = registers (dinfo s4)"
    "description (dinfo s5) = description (dinfo s4)"
    using s5(3) by (simp_all add: kept_def)
  show thesis
    by (rule that [of s5 "if BREADCRUMBS cfg then [Crash_dump_breadcrumbs ?buf n name d] else []"])
      (use assms(4) s4 s5 k in \<open>simp_all add: save_fault_to_reset_info_def described_def crash_run_def map_option_bind_Some del: split_paired_Ex\<close>)
qed

lemma run_saves:
  assumes "env_ok env" "sized s" "name_ok name" "save_fault_to_reset_info cfg s"
    and "DUMP_TASK_STACKS cfg \<longrightarrow> slots env (F \<noteq> M + 40) \<le> 8"
  shows "\<exists>s6. run env cfg F M r name stk d s = Some s6 \<and> sized s6 \<and>
    ri_magic (rinfo s6) = ri_magic (rinfo s) \<and> reset_reason (rinfo s6) = reset_reason (rinfo s) \<and>
    fi_reason (dinfo s6) = fi_reason (dinfo s) \<and> registers (dinfo s6) = saved_registers (dmem s) F M \<and> described r s s6"
proof -
  obtain s5 cs where s5: "sized s5" "save_fault_to_reset_info cfg s5"
    "run env cfg F M r name stk d s = map_option (call cs) (if DUMP_TASK_STACKS cfg then tasks_part env cfg (F \<noteq> M + 40) s5 else Some s5)"
    "ri_magic (rinfo s5) = ri_magic (rinfo s)" "reset_reason (rinfo s5) = reset_reason (rinfo s)"
    "fi_reason (dinfo s5) = fi_reason (dinfo s)" "registers (dinfo s5) = saved_registers (dmem s) F M" "described r s s5"
    by (rule run_saving [OF assms(1-4)])
  obtain s6 where s6: "(if DUMP_TASK_STACKS cfg then tasks_part env cfg (F \<noteq> M + 40) s5 else Some s5) = Some s6"
    "sized s6" "kept s6 = kept s5"
    using tasks_ok [OF assms(1) s5(1), of cfg "F \<noteq> M + 40"] assms(5) s5(1) by (cases "DUMP_TASK_STACKS cfg") auto
  with s5 show ?thesis by (intro exI [of _ "call cs s6"]) (simp add: kept_def described_def)
qed

lemma run_keeps:
  assumes "env_ok env" "sized s" "\<not> save_fault_to_reset_info cfg s"
  shows "\<exists>s6. run env cfg F M r name stk d s = Some s6 \<and> sized s6 \<and> rinfo s6 = rinfo s"
proof -
  obtain n s5 where s5: "backtrace_part env F Static_backtrace (frame_sp (dmem s) F) stk r s = Some (n, s5)"
    "sized s5" "rinfo s5 = rinfo s"
    using backtrace_ok [OF assms(1,2), of Static_backtrace F "frame_sp (dmem s) F" stk r] by auto
  then have save5: "\<not> save_fault_to_reset_info cfg s5" using assms(3) by (simp add: save_fault_to_reset_info_def dinfo_def)
  with tasks_ok [OF assms(1) s5(2), of cfg "F \<noteq> M + 40"] s5 show ?thesis
    by (cases "DUMP_TASK_STACKS cfg") (auto simp: crash_run_def context_static [OF assms(3)])
qed

lemma run_overflows:
  assumes "env_ok env" "sized s" "name_ok name" "save_fault_to_reset_info cfg s"
    and "DUMP_TASK_STACKS cfg" "8 < slots env (F \<noteq> M + 40)"
  shows "run env cfg F M r name stk d s = None"
proof -
  obtain s5 cs where "sized s5" "save_fault_to_reset_info cfg s5"
    "run env cfg F M r name stk d s = map_option (call cs) (if DUMP_TASK_STACKS cfg then tasks_part env cfg (F \<noteq> M + 40) s5 else Some s5)"
    by (rule run_saving [OF assms(1-4)])
  with tasks_overflow [OF assms(1) _ _ assms(6)] assms(5) show ?thesis by simp
qed

end

interpretation m3: crash_parts dump_context_to_reset_info_default dump_backtrace_default dump_all_tasks_default
proof (unfold_locales, goal_cases)
  case (1 env s name cfg F M r task_fault)
  then show ?case by (rule dump_context_saving)
next
  case (2 cfg s env F M r sp name task_fault)
  then show ?case by (simp add: dump_context_to_reset_info_default_def)
next
  case (3 env s buf F sp stk r)
  from dump_backtrace_ok [OF this] show ?case by blast
next
  case (4 env s cfg task_fault)
  then show ?case by (rule dump_all_tasks_ok)
next
  case (5 env s cfg task_fault)
  then show ?case by (rule dump_all_tasks_overflow)
qed

lemma crash_dump_unfold:
  assumes "\<not> (PRE_WATCHDOG_ISR_EXTENSION cfg \<and> type = WDT \<and> ignore_pre_watchdog_isr env)" "env_ok env"
  obtains name stk d cs where "name_ok name"
    "crash_dump_default env cfg F M type s =
       do { s6 \<leftarrow> m3.run env cfg F M (dump_reason env cfg (F \<noteq> M + 40) type) name stk d (call cs s);
            Some (crash_dump_end env cfg (dump_reason env cfg (F \<noteq> M + 40) type) s6) }"
proof -
  have call_call: "call a (call b s) = call (b @ a) s" for a b by (simp add: call_def)
  obtain cs where cs: "dump_context_default env cfg F M type (frame_sp (dmem s) F)
      (call ((if PRE_WATCHDOG_ISR_EXTENSION cfg then [] else [Watchdog_refresh]) @ [Quiesce_on_fault]) s) = call cs s"
    unfolding dump_context_default_def Let_def call_call by blast
  obtain name r stk s3 where i: "crash_task_info env cfg (F \<noteq> M + 40) (kCrashTypeToResetReason type) (call cs s) = (name, r, stk, s3)"
    by (cases "crash_task_info env cfg (F \<noteq> M + 40) (kCrashTypeToResetReason type) (call cs s)")
  note spec = crash_task_info_spec [OF assms(2) i]
  from spec(3) obtain cs' where "s3 = call cs' s" unfolding call_call by blast
  show thesis
    by (rule that [OF spec(2), where stk = stk and cs = cs' and d = "type = WDT"])
      (simp only: crash_dump_default_def Let_def if_not_P [OF assms(1)] cs i prod.case spec(1) \<open>s3 = call cs' s\<close>,
        simp add: crash_run_def split_def)
qed

text \<open>A dump that saves the fault.\<close>

lemma crash_dump_saving:
  assumes env: "env_ok env" and s: "sized s" and save: "save_fault_to_reset_info cfg s"
    and slots: "DUMP_TASK_STACKS cfg \<longrightarrow> slots env (F \<noteq> M + 40) \<le> 8"
    and run: "\<not> (PRE_WATCHDOG_ISR_EXTENSION cfg \<and> type = WDT \<and> ignore_pre_watchdog_isr env)"
    and r: "r = dump_reason env cfg (F \<noteq> M + 40) type"
  shows "\<exists>s6. crash_dump_default env cfg F M type s = Some (crash_dump_end env cfg r s6) \<and> sized s6 \<and>
    ri_magic (rinfo s6) = ri_magic (rinfo s) \<and> reset_reason (rinfo s6) = reset_reason (rinfo s) \<and>
    fi_reason (dinfo s6) = fi_reason (dinfo s) \<and> registers (dinfo s6) = saved_registers (dmem s) F M \<and> described r s s6"
proof -
  obtain name stk d cs where name: "name_ok name"
    and crash: "crash_dump_default env cfg F M type s =
      do { s6 \<leftarrow> m3.run env cfg F M r name stk d (call cs s); Some (crash_dump_end env cfg r s6) }"
    unfolding r by (rule crash_dump_unfold [OF run env])
  have "sized (call cs s)" "save_fault_to_reset_info cfg (call cs s)" using s save by (simp_all add: save_fault_to_reset_info_def)
  from m3.run_saves [OF env this(1) name this(2) slots, of r stk d] show ?thesis
    by (auto simp: crash described_def)
qed

lemma prepare_reset_keeps [simp]:
  "registers (dinfo (prepare_reset cfg r s)) = registers (dinfo s)"
  "description (dinfo (prepare_reset cfg r s)) = description (dinfo s)"
  "task_info (dinfo (prepare_reset cfg r s)) = task_info (dinfo s)"
  "machine_backtrace (dinfo (prepare_reset cfg r s)) = machine_backtrace (dinfo s)"
  "active_task_name (dinfo (prepare_reset cfg r s)) = active_task_name (dinfo s)"
  by (simp_all add: prepare_reset_def dinfo_def nl_reset_info_prepare_reset_temp_def nl_reset_info_set_temp_def
      nl_reset_info_prepare_reset_ram_def nl_reset_info_set_ram_def set_description_def Let_def)

lemma crash_dump_end_keeps:
  "registers (dinfo (snd (crash_dump_end env cfg r s))) = registers (dinfo s)"
  "full_sized (dinfo (snd (crash_dump_end env cfg r s))) = full_sized (dinfo s)"
  by (simp_all add: crash_dump_end_def full_sized_def well_sized_def)

lemma crash_dump_end_first:
  assumes "rinfo s' = rinfo s" "\<not> RESET_INFO_IN_TEMP_RAM cfg"
    and "fi_reason (dinfo s) \<noteq> NL_RESET_REASON_UNKNOWN" "fi_reason (dinfo s) \<noteq> NL_RESET_REASON_ASSERT"
  shows "dinfo (snd (crash_dump_end env cfg r s')) = dinfo s"
  using assms by (auto simp: crash_dump_end_def prepare_reset_def dinfo_def nl_reset_info_prepare_reset_ram_def
      nl_reset_info_set_ram_def Let_def)

text \<open>
  C30: a crash dump on the Cortex-M3 completes and leaves the context of the crash in the reset
  information, under these conditions: no earlier fault but an assertion is waiting in the record (or the
  record is only a cache); at most eight tasks need a slot, if the stacks of the tasks are dumped; the
  names of the tasks are C strings that are not empty; the backtrace and watchdog functions write no more
  than they are given room for; the exception is not the pre-watchdog interrupt that the product asks to
  ignore, which records nothing; and the frames hold the registers of the interrupted code. Then every
  access of the dump is within its arrays, the arrays keep their sizes, the dump does not return, and the
  saved registers are \<open>r0\<close> to \<open>r12\<close> of the interrupted code, its stack pointer before the exception,
  \<open>lr\<close>, \<open>pc\<close> and the status word. More tasks than slots leave the array (\<open>crash_dump_task_overflow\<close>).
\<close>

theorem crash_dump_records_context:
  assumes "env_ok env" "sized s" "save_fault_to_reset_info cfg s"
    and "DUMP_TASK_STACKS cfg \<longrightarrow> slots env (F \<noteq> M + 40) \<le> NL_FAULT_DIAGS_MAX_NUM_TASKS"
    and "\<not> (PRE_WATCHDOG_ISR_EXTENSION cfg \<and> type = WDT \<and> ignore_pre_watchdog_isr env)"
    and "holds_cpu F M (dmem s) c"
  shows "\<exists>r s'. crash_dump_default env cfg F M type s = Some (r, s') \<and> r \<noteq> Returned \<and> full_sized (dinfo s') \<and>
    registers (dinfo s') = map (regs c) [0..<13] @
      [frame_sp (dmem s) F, regs c 14, regs c 15, load32 (dmem s) (F + FRAME_PSR)]"
proof -
  obtain s6 where s6: "crash_dump_default env cfg F M type s =
      Some (crash_dump_end env cfg (dump_reason env cfg (F \<noteq> M + 40) type) s6)"
    "sized s6" "registers (dinfo s6) = saved_registers (dmem s) F M"
    using crash_dump_saving [OF assms(1-3) _ assms(5) refl, of F M] assms(4)
    unfolding NL_FAULT_DIAGS_MAX_NUM_TASKS_def by blast
  obtain r s' where e: "crash_dump_end env cfg (dump_reason env cfg (F \<noteq> M + 40) type) s6 = (r, s')" by fastforce
  then have "r \<noteq> Returned" by (auto simp: crash_dump_end_def split: if_splits)
  with s6 e crash_dump_end_keeps [of env cfg "dump_reason env cfg (F \<noteq> M + 40) type" s6] show ?thesis
    by (simp add: saved_registers_cpu [OF assms(6)] sized_def)
qed

text \<open>
  C33: the first fault is kept: when the record in retained memory already holds a fault that is not
  an assertion, a further crash dump completes without changing the saved fault, however many tasks
  there are.
\<close>

theorem crash_dump_keeps_first_fault:
  assumes "env_ok env" "length (s_backtrace s) = 10" "full_sized (dinfo s)" "\<not> RESET_INFO_IN_TEMP_RAM cfg"
    and "fi_reason (dinfo s) \<noteq> NL_RESET_REASON_UNKNOWN" "fi_reason (dinfo s) \<noteq> NL_RESET_REASON_ASSERT"
  shows "\<exists>r s'. crash_dump_default env cfg F M type s = Some (r, s') \<and> dinfo s' = dinfo s"
proof (cases "PRE_WATCHDOG_ISR_EXTENSION cfg \<and> type = WDT \<and> ignore_pre_watchdog_isr env")
  case True
  then show ?thesis by (simp add: crash_dump_default_def Let_def)
next
  case False
  let ?r = "dump_reason env cfg (F \<noteq> M + 40) type"
  obtain name stk d cs where crash: "crash_dump_default env cfg F M type s =
      do { s6 \<leftarrow> m3.run env cfg F M ?r name stk d (call cs s); Some (crash_dump_end env cfg ?r s6) }"
    by (rule crash_dump_unfold [OF False assms(1)])
  have "sized (call cs s)" "\<not> save_fault_to_reset_info cfg (call cs s)"
    using assms by (simp_all add: save_fault_to_reset_info_def sized_def)
  from m3.run_keeps [OF assms(1) this, of F M ?r name stk d]
  obtain s6 where s6: "m3.run env cfg F M ?r name stk d (call cs s) = Some s6" "rinfo s6 = rinfo s" by auto
  with crash_dump_end_first [OF s6(2) assms(4-6), of env ?r] crash show ?thesis
    by (cases "crash_dump_end env cfg ?r s6") simp
qed

text \<open>
  The dump of all tasks does not check the number of tasks against the slots of the record: with
  more tasks than slots it writes behind \<open>task_info\<close>.
\<close>

theorem crash_dump_task_overflow:
  assumes "env_ok env" "sized s" "save_fault_to_reset_info cfg s" "DUMP_TASK_STACKS cfg"
    and "NL_FAULT_DIAGS_MAX_NUM_TASKS < slots env (F \<noteq> M + 40)"
    and "\<not> (PRE_WATCHDOG_ISR_EXTENSION cfg \<and> type = WDT \<and> ignore_pre_watchdog_isr env)"
  shows "crash_dump_default env cfg F M type s = None"
proof -
  let ?r = "dump_reason env cfg (F \<noteq> M + 40) type"
  obtain name stk d cs where name: "name_ok name" and crash: "crash_dump_default env cfg F M type s =
      do { s6 \<leftarrow> m3.run env cfg F M ?r name stk d (call cs s); Some (crash_dump_end env cfg ?r s6) }"
    by (rule crash_dump_unfold [OF assms(6,1)])
  have "sized (call cs s)" "save_fault_to_reset_info cfg (call cs s)" using assms by (simp_all add: save_fault_to_reset_info_def)
  from m3.run_overflows [OF assms(1) this(1) name this(2) assms(4)] assms(5) crash show ?thesis
    by (simp add: NL_FAULT_DIAGS_MAX_NUM_TASKS_def)
qed

section \<open>Assertions and crash dumps\<close>

text \<open>A build that waits for the watchdog after the dump.\<close>

definition spins :: "fault_env \<Rightarrow> fault_config \<Rightarrow> bool" where
  "spins env cfg \<longleftrightarrow> \<not> CONFIG_RELEASE cfg \<and> (NO_BKPT_ON_FAULT cfg \<or> \<not> debugger_attached env) \<and> \<not> RESET_ON_FAULT cfg"

lemma spins_end: "spins env cfg \<Longrightarrow> crash_dump_end env cfg r s = (Spinning, prepare_reset cfg r s)"
  by (auto simp: spins_def crash_dump_end_def)

lemma hard_fault_reason:
  assumes "F \<noteq> M + 40 \<longrightarrow> CFSR env AND SCB_CFSR_MSTKERR = 0"
  shows "dump_reason env cfg (F \<noteq> M + 40) FAULT = NL_RESET_REASON_HARD_FAULT"
    "NL_RESET_REASON_HARD_FAULT \<noteq> NL_RESET_REASON_WATCHDOG" "NL_RESET_REASON_HARD_FAULT \<noteq> NL_RESET_REASON_STACK_OVERFLOW"
  using assms by (auto simp: dump_reason_def kCrashTypeToResetReason_def reason_defs NL_RESET_REASON_WATCHDOG_def)

text \<open>
  C31: the first failed assertion since the record was last read, when it ends in a crash dump, reaches
  the next boot whole: the assertion delegate records the reason and the description, the trap that
  follows dumps the crash, and after the reset the saved fault is an assertion with the line number and
  the file name (as the delegate shortens it, or not in the bootloader) and with \<open>r0\<close> to \<open>r12\<close> of the code
  that trapped. The conditions: no reset reason and no unread fault was recorded before the assertion; the
  record is in retained memory; the build spins after the dump (no release, no reset on a fault, no
  debugger); at most eight tasks need a slot, if the stacks of the tasks are dumped; saving the frame of a
  task did not fail, since the dump then takes the trap for a stack overflow; the file name and the names
  of the tasks, which are not empty, are C strings; the backtrace and watchdog functions keep to their
  room; and the frames hold the registers of the code that trapped. It is the dump of the Cortex-M3.
\<close>

theorem assertion_survives_crash_dump:
  assumes "length tmp0 = NL_FAULT_DIAGS_DESCRIPTION_LENGTH" "NUL \<notin> set file"
    and "ri_magic ri \<noteq> NL_RESET_INFO_MAGIC" "fi_reason (fault_info ri) = NL_RESET_REASON_UNKNOWN"
    and "assert_helper bootloader tmp0 file line ri = Some (rinfo s)"
    and "env_ok env" "sized s" "\<not> RESET_INFO_IN_TEMP_RAM cfg" "spins env cfg"
    and "DUMP_TASK_STACKS cfg \<longrightarrow> slots env (F \<noteq> M + 40) \<le> NL_FAULT_DIAGS_MAX_NUM_TASKS"
    and "F \<noteq> M + 40 \<longrightarrow> CFSR env AND SCB_CFSR_MSTKERR = 0" "holds_cpu F M (dmem s) c"
  shows "\<exists>s' fi. crash_dump_default env cfg F M FAULT s = Some (Spinning, s') \<and>
    nl_reset_info_get_saved_fault_ram (nl_reset_info_init_ram (rinfo s')) = ((0, Some fi), nl_reset_info_init_ram (rinfo s')) \<and>
    fi_reason fi = NL_RESET_REASON_ASSERT \<and>
    c_string (description fi) = kept_file bootloader file line @ '' '' @ utoa (unat line) \<and>
    take 13 (registers fi) = map (regs c) [0..<13]"
proof -
  let ?msg = "kept_file bootloader file line @ '' '' @ utoa (unat line)"
  note msg = assert_helper_message [OF assms(1,2) refl, where bootloader = bootloader and line = line]
  have ri: "rinfo s = nl_reset_info_prepare_reset_ram NL_RESET_REASON_ASSERT (Some ?msg) ri" using assms(5) msg(1) by simp
  have a: "ri_magic (rinfo s) = NL_RESET_INFO_MAGIC" "nl_reset_info_get_reset_reason (rinfo s) = NL_RESET_REASON_ASSERT"
    "fi_reason (dinfo s) = NL_RESET_REASON_ASSERT" "description (dinfo s) = strncpy ?msg NL_FAULT_DIAGS_DESCRIPTION_LENGTH"
    using assms(3,4) assert_is_fault(1)
    by (simp_all add: ri dinfo_def nl_reset_info_prepare_reset_ram_def nl_reset_info_set_ram_def set_description_def
        nl_reset_info_get_reset_reason_def Let_def)
  then have save: "save_fault_to_reset_info cfg s" by (simp add: save_fault_to_reset_info_def)
  have "NL_RESET_REASON_ASSERT \<noteq> NL_RESET_REASON_UNKNOWN" by (simp add: reason_defs)
  with crash_dump_saving [OF assms(6,7) save, of F M FAULT, OF _ _ refl] a assms(10) hard_fault_reason [OF assms(11)] spins_end [OF assms(9)]
  obtain s6 where s6: "crash_dump_default env cfg F M FAULT s = Some (Spinning, prepare_reset cfg NL_RESET_REASON_HARD_FAULT s6)"
    "ri_magic (rinfo s6) = NL_RESET_INFO_MAGIC" "fi_reason (dinfo s6) = NL_RESET_REASON_ASSERT"
    "registers (dinfo s6) = saved_registers (dmem s) F M" "description (dinfo s6) = strncpy ?msg NL_FAULT_DIAGS_DESCRIPTION_LENGTH"
    by (auto simp: NL_FAULT_DIAGS_MAX_NUM_TASKS_def described_def)
  let ?ri = "rinfo (prepare_reset cfg NL_RESET_REASON_HARD_FAULT s6)"
  have "?ri = rinfo s6" using s6(2) assms(8) by (simp add: prepare_reset_def nl_reset_info_prepare_reset_ram_def)
  then have "fault_info (nl_reset_info_init_ram ?ri) = dinfo s6" using s6(2) by (simp add: nl_reset_info_init_ram_def dinfo_def)
  with s6 msg(2) assert_is_fault(1) show ?thesis
    by (simp add: nl_reset_info_get_saved_fault_ram_def saved_registers_cpu [OF assms(12)])
qed

text \<open>
  An assertion that an earlier boot has not cleared is mixed with a later hard fault: the dump
  takes the record for its own and replaces registers and description, but the reason of the saved
  fault stays that of the assertion, so the next boot reports an assertion without a description and
  with the registers of the hard fault.
\<close>

theorem crash_dump_mixes_stale_assertion:
  assumes "fi_reason (dinfo s) = NL_RESET_REASON_ASSERT" "ri_magic (rinfo s) = 0"
    and "env_ok env" "sized s" "\<not> RESET_INFO_IN_TEMP_RAM cfg" "spins env cfg"
    and "DUMP_TASK_STACKS cfg \<longrightarrow> slots env (F \<noteq> M + 40) \<le> NL_FAULT_DIAGS_MAX_NUM_TASKS"
    and "F \<noteq> M + 40 \<longrightarrow> CFSR env AND SCB_CFSR_MSTKERR = 0" "holds_cpu F M (dmem s) c"
  shows "\<exists>s' fi. crash_dump_default env cfg F M FAULT s = Some (Spinning, s') \<and>
    nl_reset_info_get_reset_reason (rinfo s') = NL_RESET_REASON_HARD_FAULT \<and>
    nl_reset_info_get_saved_fault_ram (nl_reset_info_init_ram (rinfo s')) = ((0, Some fi), nl_reset_info_init_ram (rinfo s')) \<and>
    fi_reason fi = NL_RESET_REASON_ASSERT \<and> c_string (description fi) = [] \<and> take 13 (registers fi) = map (regs c) [0..<13]"
proof -
  have save: "save_fault_to_reset_info cfg s" using assms(1) by (simp add: save_fault_to_reset_info_def)
  have "nl_reset_info_get_reset_reason (rinfo s) = NL_RESET_REASON_UNKNOWN" using assms(2) by (simp add: nl_reset_info_get_reset_reason_def)
  with crash_dump_saving [OF assms(3,4) save, of F M FAULT, OF _ _ refl] assms(1,2,7) hard_fault_reason [OF assms(8)] spins_end [OF assms(6)]
  obtain s6 where s6: "crash_dump_default env cfg F M FAULT s = Some (Spinning, prepare_reset cfg NL_RESET_REASON_HARD_FAULT s6)"
    "ri_magic (rinfo s6) = 0" "fi_reason (dinfo s6) = NL_RESET_REASON_ASSERT"
    "registers (dinfo s6) = saved_registers (dmem s) F M" "description (dinfo s6) = map (\<lambda>_. NUL) (description (dinfo s))"
    by (auto simp: NL_FAULT_DIAGS_MAX_NUM_TASKS_def described_def)
  have "NL_RESET_REASON_ASSERT \<noteq> NL_RESET_REASON_UNKNOWN" "IS_VALID_FAULT_REASON NL_RESET_REASON_HARD_FAULT"
    by (simp_all add: reason_defs valid_defs word_le_nat_alt)
  then have ri: "rinfo (prepare_reset cfg NL_RESET_REASON_HARD_FAULT s6) =
      (rinfo s6)\<lparr>ri_magic := NL_RESET_INFO_MAGIC, reset_reason := NL_RESET_REASON_HARD_FAULT\<rparr>"
    using s6(2,3) assms(5) by (simp add: prepare_reset_def nl_reset_info_prepare_reset_ram_def nl_reset_info_set_ram_def dinfo_def Let_def)
  have "c_string (map (\<lambda>_. NUL) d) = []" for d :: string by (cases d) (simp_all add: c_string_def)
  with s6 assert_is_fault(1) \<open>IS_VALID_FAULT_REASON NL_RESET_REASON_HARD_FAULT\<close> show ?thesis
    by (simp add: nl_reset_info_get_saved_fault_ram_def nl_reset_info_init_ram_def nl_reset_info_get_reset_reason_def ri dinfo_def [symmetric]
        saved_registers_cpu [OF assms(9)])
qed

text \<open>
  The stack-overflow hook of FreeRTOS records the registers of the overflowing task, as they lie
  on its stack, and a description that begins with the name of the task; it always ends in a reset
  with the stack-overflow reason.
\<close>

theorem stack_overflow_hook_records:
  assumes "env_ok env" "sized s" "save_fault_to_reset_info cfg s" "NUL \<notin> set pcTaskName"
    and "sp = load32 (dmem s) pxTask" "frame = switched_out_frame cfg (dmem s) pxTask"
  shows "\<exists>s'. nlfault_freertos_stack_overflow_handler_c env cfg pxTask pcTaskName s = Some (Reset NL_RESET_REASON_STACK_OVERFLOW, s') \<and>
    full_sized (dinfo s') \<and> c_string (description (dinfo s')) = take 31 (pcTaskName @ '' stack overflow'') \<and>
    registers (dinfo s') = map (\<lambda>i. load32 (dmem s) (frame + 4 * word_of_nat i)) [0..<4] @
      map (\<lambda>i. load32 (dmem s) (sp + 4 * word_of_nat i)) [0..<8] @
      [load32 (dmem s) (frame + FRAME_R12), frame_sp (dmem s) frame, load32 (dmem s) (frame + FRAME_LR),
       load32 (dmem s) (frame + FRAME_PC), load32 (dmem s) (frame + FRAME_PSR)]"
proof -
  let ?pc = "load32 (dmem s) (frame + FRAME_PC)" and ?lr = "load32 (dmem s) (frame + FRAME_LR)"
  let ?text = "pcTaskName @ '' stack overflow''" and ?top = "get_task_stack_top env pxTask"
  let ?regs = "map (\<lambda>i. load32 (dmem s) (frame + 4 * word_of_nat i)) [0..<4] @
      map (\<lambda>i. load32 (dmem s) (sp + 4 * word_of_nat i)) [0..<8] @
      [load32 (dmem s) (frame + FRAME_R12), frame_sp (dmem s) frame, ?lr, ?pc, load32 (dmem s) (frame + FRAME_PSR)]"
  define cs where "cs = [Watchdog_refresh, Quiesce_on_fault, Print_text ''STACK_OVERFLOW_DETECTED'', Print_text pcTaskName]"
  define s2 where "s2 = on_fault_info (\<lambda>fi. fi\<lparr>task_info := map clear_task (task_info fi)\<rparr>) (call cs s)"
  have len: "length (registers (dinfo s2)) = 17" "length (description (dinfo s2)) = 32"
    using assms(2) by (simp_all add: s2_def sized_def full_sized_def well_sized_def NL_FAULT_DIAGS_DESCRIPTION_LENGTH_def)
  have regs: "mem_write (registers (dinfo s2)) 0 ?regs = Some ?regs" using len(1) by simp
  define d where "d = take 31 ?text @ NUL # drop (Suc (length (take 31 ?text))) (description (dinfo s2))"
  have d: "snprintf_description ?text (description (dinfo s2)) = Some d" "length d = 32"
    using len(2) by (simp_all add: snprintf_description_def d_def NL_FAULT_DIAGS_DESCRIPTION_LENGTH_def)
  have "NUL \<notin> set ?text" using assms(4) by (simp add: NUL_def)
  then have "NUL \<notin> set (take 31 ?text)" by (blast dest: in_set_takeD)
  then have text_d: "c_string d = take 31 ?text" unfolding d_def c_string_def by (simp add: takeWhile_append)
  define s2' where "s2' = on_fault_info (\<lambda>fi. fi\<lparr>registers := ?regs, description := d\<rparr>) s2"
  have s2': "sized s2'" "dmem s2' = dmem s" "registers (dinfo s2') = ?regs" "description (dinfo s2') = d"
    using assms(2) d(2) by (auto simp: s2'_def s2_def sized_def full_sized_def well_sized_def clear_task_def
      NL_FAULT_DIAGS_DESCRIPTION_LENGTH_def)
  define bt where "bt = nlbacktrace_with_lr env ?pc ?lr (frame_sp (dmem s) frame) ?top 10"
  define bt' where "bt' = nlbacktrace_no_context env (frame_sp (dmem s) frame) ?top 8 MIN_BACKTRACE_LEVELS_FOR_STACK_OVERFLOW 16"
  have bt: "length bt \<le> 10" "length bt' \<le> 8" using assms(1) by (simp_all add: env_ok_def bt_def bt'_def)
  obtain s3 where s3: "write_backtrace (Task_backtrace 0) 0 bt s2' = Some s3" "sized s3" "kept s3 = kept s2'"
    using write_backtrace_ok [OF s2'(1), of 0 bt "Task_backtrace 0"] bt by auto
  obtain s4 where s4: "write_backtrace (Task_backtrace 0) 2 bt' s3 = Some s4" "sized s4" "kept s4 = kept s2'"
    using write_backtrace_ok [OF s3(2), of 2 bt' "Task_backtrace 0"] bt s3 by auto
  obtain s5 where s5: "write_backtrace (Task_backtrace 0) 0 [?pc, ?lr] s4 = Some s5" "sized s5" "kept s5 = kept s2'"
    using write_backtrace_ok [OF s4(2), of 0 "[?pc, ?lr]" "Task_backtrace 0"] s4 by auto
  have save: "save_fault_to_reset_info cfg (call cs s)" using assms(3) by (simp add: save_fault_to_reset_info_def)
  define s6 where "s6 = (if length bt < MIN_BACKTRACE_LEVELS_FOR_STACK_OVERFLOW then s5 else s3)"
  have s6: "sized s6" "kept s6 = kept s2'" using s3 s5 by (simp_all add: s6_def)
  have "nlfault_freertos_stack_overflow_handler_c env cfg pxTask pcTaskName s =
      Some (Reset NL_RESET_REASON_STACK_OVERFLOW, call [Print_text ''resetting''] s6)"
    unfolding nlfault_freertos_stack_overflow_handler_c_def Let_def cs_def [symmetric] s2_def [symmetric]
      assms(5,6) [symmetric] NL_FAULT_DIAGS_NUM_BT_ENTRIES_def
    using save regs d(1) s3(1) s4(1) s5(1)
    by (simp add: s2'_def [symmetric] bt_def [symmetric] bt'_def [symmetric] s6_def del: mem_write_in)
  with s6 s2' text_d show ?thesis by (simp add: sized_def kept_def)
qed

section \<open>Witnesses\<close>

text \<open>A device with the given tasks, of which task 1 runs, and a record without a fault.\<close>

definition example_env :: "nat \<Rightarrow> fault_env" where
  "example_env n = \<lparr>nlbacktrace_with_lr = (\<lambda>pc lr sp t k. take k [pc, lr]), nlbacktrace_no_context = (\<lambda>sp t k l d. []),
     current_task = 1, pcTaskGetName = (\<lambda>_. ''app''), mStackTop = (\<lambda>_. 0x4000),
     system_state = map (\<lambda>i. (word_of_nat (i + 1), eBlocked)) [0..<n], psp = 0x1000, watchdog_flags = (\<lambda>_. []),
     ignore_pre_watchdog_isr = False, debugger_attached = False, eusrstack = 0x8000,
     HFSR = 0, CFSR = 0, MMFAR = 0, BFAR = 0, DFSR = 0, DWT_CTRL = 0, DWT_comparators = (\<lambda>_. (0, 0, 0))\<rparr>"

definition example_config :: fault_config where
  "example_config = \<lparr>RESET_INFO_IN_TEMP_RAM = False, DUMP_TASK_STACKS = True, PRE_WATCHDOG_ISR_EXTENSION = False,
     CONFIG_RELEASE = False, NO_BKPT_ON_FAULT = False, RESET_ON_FAULT = False, CORTEX_M4 = False, RAM_CONSOLE = True,
     FAULT_VERBOSE = True, BREADCRUMBS = False\<rparr>"

definition example_info :: "u32 \<Rightarrow> nl_reset_info_t" where
  "example_info reason = blank_info\<lparr>fault_info := blank_fault\<lparr>fi_reason := reason,
     task_info := replicate 8 \<lparr>task_name = replicate 4 NUL, task_backtrace = replicate 10 0, task_state = replicate 4 NUL\<rparr>\<rparr>\<rparr>"

definition example_dump :: "nl_reset_info_t \<Rightarrow> dump_state" where
  "example_dump ri = \<lparr>dmem = example_memory 0, rinfo = ri, s_backtrace = replicate 10 0, calls = []\<rparr>"

lemma example_env_ok: "env_ok (example_env n)"
  by (simp add: env_ok_def example_env_def NUL_def)

lemma example_sized: "sized (example_dump (example_info r))"
  by (simp add: sized_def full_sized_def well_sized_def dinfo_def example_dump_def example_info_def blank_info_def blank_fault_def
      NL_FAULT_DIAGS_DESCRIPTION_LENGTH_def NL_FAULT_DIAGS_MAX_NUM_TASKS_def)

lemma example_dinfo [simp]: "fi_reason (dinfo (example_dump (example_info r))) = r"
  "ri_magic (rinfo (example_dump (example_info r))) = 0" "dmem (example_dump ri) = example_memory 0"
  "length (s_backtrace (example_dump ri)) = 10" "rinfo (example_dump ri) = ri"
  "ri_magic (example_info r) = 0"
  by (simp_all add: dinfo_def example_dump_def example_info_def blank_info_def)

lemma example_slots: "slots (example_env 3) True = 3" "slots (example_env 10) True = 10"
  by code_simp+

lemma example_config_simps [simp]:
  "\<not> RESET_INFO_IN_TEMP_RAM example_config" "DUMP_TASK_STACKS example_config" "\<not> PRE_WATCHDOG_ISR_EXTENSION example_config"
  "spins (example_env n) example_config" "CFSR (example_env n) = 0"
  by (simp_all add: example_config_def spins_def example_env_def)

lemma dump_stack_overflow_description_witness:
  "\<exists>s'. dump_stack_overflow_info_to_reset_info_default (Some ''app'') (example_dump (example_info 1)) = Some s' \<and>
     c_string (description (dinfo s')) = ''stack_overflow: app'' \<and>
   dump_stack_overflow_info_to_reset_info_default (Some []) (example_dump (example_info 1)) = None"
  using dump_stack_overflow_description [of "example_dump (example_info 1)" "Some ''app''"]
    dump_stack_overflow_description [of "example_dump (example_info 1)" "Some []"]
  by (auto simp: dinfo_def example_dump_def example_info_def blank_info_def blank_fault_def NL_FAULT_DIAGS_DESCRIPTION_LENGTH_def
      overflow_text_def NUL_def)

lemma crash_dump_records_context_witness:
  "\<exists>r s'. crash_dump_default (example_env 3) example_config 0x1000 0x2000 FAULT (example_dump (example_info NL_RESET_REASON_UNKNOWN)) =
     Some (r, s') \<and> registers (dinfo s') ! 0 = 65"
proof -
  have "\<exists>r s'. crash_dump_default (example_env 3) example_config 0x1000 0x2000 FAULT (example_dump (example_info NL_RESET_REASON_UNKNOWN)) =
     Some (r, s') \<and> r \<noteq> Returned \<and> full_sized (dinfo s') \<and> registers (dinfo s') = map (regs (example_cpu 0)) [0..<13] @
      [frame_sp (dmem (example_dump (example_info NL_RESET_REASON_UNKNOWN))) 0x1000, regs (example_cpu 0) 14, regs (example_cpu 0) 15,
       load32 (dmem (example_dump (example_info NL_RESET_REASON_UNKNOWN))) (0x1000 + FRAME_PSR)]"
    by (rule crash_dump_records_context)
      (simp_all add: example_env_ok example_sized save_fault_to_reset_info_def example_slots example_holds NL_FAULT_DIAGS_MAX_NUM_TASKS_def)
  then show ?thesis by (auto simp: nth_append example_cpu_def)
qed

lemma crash_dump_keeps_first_fault_witness:
  "\<exists>r s'. crash_dump_default (example_env 10) example_config 0x1000 0x2000 WDT (example_dump (example_info NL_RESET_REASON_HARD_FAULT)) =
     Some (r, s') \<and> dinfo s' = dinfo (example_dump (example_info NL_RESET_REASON_HARD_FAULT))"
  by (rule crash_dump_keeps_first_fault)
    (use example_sized [of NL_RESET_REASON_HARD_FAULT] in \<open>simp_all add: example_env_ok sized_def reason_defs\<close>)

lemma crash_dump_task_overflow_witness:
  "crash_dump_default (example_env 10) example_config 0x1000 0x2000 FAULT (example_dump (example_info NL_RESET_REASON_UNKNOWN)) = None"
  by (rule crash_dump_task_overflow)
    (simp_all add: example_env_ok example_sized save_fault_to_reset_info_def example_slots NL_FAULT_DIAGS_MAX_NUM_TASKS_def)

lemma crash_dump_mixes_stale_assertion_witness:
  "\<exists>s' fi. crash_dump_default (example_env 3) example_config 0x1000 0x2000 FAULT (example_dump (example_info NL_RESET_REASON_ASSERT)) =
     Some (Spinning, s') \<and>
     fst (nl_reset_info_get_saved_fault_ram (nl_reset_info_init_ram (rinfo s'))) = (0, Some fi) \<and>
     fi_reason fi = NL_RESET_REASON_ASSERT \<and> c_string (description fi) = [] \<and> registers fi ! 0 = 65"
proof -
  have "holds_cpu 0x1000 0x2000 (dmem (example_dump (example_info NL_RESET_REASON_ASSERT))) (example_cpu 0)"
    by (simp add: example_holds)
  from crash_dump_mixes_stale_assertion [OF _ _ example_env_ok example_sized _ _ _ _ this, of example_config 3]
  obtain s' fi where w: "crash_dump_default (example_env 3) example_config 0x1000 0x2000 FAULT
      (example_dump (example_info NL_RESET_REASON_ASSERT)) = Some (Spinning, s')"
    "nl_reset_info_get_saved_fault_ram (nl_reset_info_init_ram (rinfo s')) = ((0, Some fi), nl_reset_info_init_ram (rinfo s'))"
    "fi_reason fi = NL_RESET_REASON_ASSERT" "c_string (description fi) = []" "take 13 (registers fi) = map (regs (example_cpu 0)) [0..<13]"
    by (auto simp: example_slots NL_FAULT_DIAGS_MAX_NUM_TASKS_def)
  have "registers fi ! 0 = take 13 (registers fi) ! 0" by simp
  also have "\<dots> = 65" unfolding w(5) by (simp add: example_cpu_def)
  finally show ?thesis using w by auto
qed

lemma assertion_survives_crash_dump_witness:
  "\<exists>ri s' fi. assert_helper False (replicate 32 NUL) ''main.c'' 42 (example_info NL_RESET_REASON_UNKNOWN) = Some ri \<and>
     crash_dump_default (example_env 3) example_config 0x1000 0x2000 FAULT (example_dump ri) = Some (Spinning, s') \<and>
     fst (nl_reset_info_get_saved_fault_ram (nl_reset_info_init_ram (rinfo s'))) = (0, Some fi) \<and>
     c_string (description fi) = ''main.c 42''"
proof -
  let ?ri = "nl_reset_info_prepare_reset_ram NL_RESET_REASON_ASSERT (Some ''main.c 42'') (example_info NL_RESET_REASON_UNKNOWN)"
  have "utoa (unat (42 :: u32)) = ''42''" "utoa 42 = ''42''" by code_simp+
  then have line: "kept_file False ''main.c'' 42 @ '' '' @ utoa (unat (42 :: u32)) = ''main.c 42''"
    by (simp add: kept_file_def NL_FAULT_DIAGS_DESCRIPTION_LENGTH_def)
  have ri: "assert_helper False (replicate 32 NUL) ''main.c'' 42 (example_info NL_RESET_REASON_UNKNOWN) = Some (rinfo (example_dump ?ri))"
    using assert_helper_message(1) [of "replicate 32 NUL" "''main.c''" "''main.c 42''" False 42] line
    by (simp add: NL_FAULT_DIAGS_DESCRIPTION_LENGTH_def NUL_def)
  have sz: "sized (example_dump ?ri)"
    using example_sized [of NL_RESET_REASON_UNKNOWN] assert_is_fault(1)
    by (simp add: nl_reset_info_prepare_reset_ram_def nl_reset_info_set_ram_def set_description_def example_info_def blank_info_def
        sized_def full_sized_def well_sized_def dinfo_def example_dump_def blank_fault_def NL_FAULT_DIAGS_DESCRIPTION_LENGTH_def Let_def
        strncpy_def NL_FAULT_DIAGS_MAX_NUM_TASKS_def)
  have "holds_cpu 0x1000 0x2000 (dmem (example_dump ?ri)) (example_cpu 0)" by (simp add: example_holds)
  from assertion_survives_crash_dump [OF _ _ _ _ ri example_env_ok sz _ _ _ _ this, of example_config 3]
  obtain s' fi where "crash_dump_default (example_env 3) example_config 0x1000 0x2000 FAULT (example_dump ?ri) = Some (Spinning, s')"
    "nl_reset_info_get_saved_fault_ram (nl_reset_info_init_ram (rinfo s')) = ((0, Some fi), nl_reset_info_init_ram (rinfo s'))"
    "c_string (description fi) = kept_file False ''main.c'' 42 @ '' '' @ utoa (unat (42 :: u32))"
    by (auto simp: example_slots NL_FAULT_DIAGS_MAX_NUM_TASKS_def NL_FAULT_DIAGS_DESCRIPTION_LENGTH_def example_info_def blank_info_def
        NUL_def)
  with ri line show ?thesis by auto
qed

lemma stack_overflow_hook_records_witness:
  "\<exists>s'. nlfault_freertos_stack_overflow_handler_c (example_env 3) example_config 0x1000 ''app'' (example_dump (example_info NL_RESET_REASON_UNKNOWN)) =
     Some (Reset NL_RESET_REASON_STACK_OVERFLOW, s') \<and> c_string (description (dinfo s')) = ''app stack overflow''"
  using stack_overflow_hook_records [OF example_env_ok example_sized, of example_config NL_RESET_REASON_UNKNOWN "''app''" _ "0x1000" _ 3, OF _ _ refl refl]
  by (auto simp: save_fault_to_reset_info_def NUL_def)

end
