(* ===== verification/Fault_dump_m0.thy ===== *)
theory Fault_dump_m0
  imports Fault_dump Fault_stubs
begin

text \<open>
  The crash dump of \<open>src/src/cpu/arm/cortex-m0/fault.c\<close>, for builds with \<open>BUILD_FEATURE_RESET_INFO\<close>.
  Data, library calls and the functions with the same text as in the Cortex-M3 file are those of
  \<open>Fault_dump\<close> (whose parameters for the debug registers play no part here; whether a debugger is
  attached is what \<open>nlplatform_debugger_is_attached\<close> returns). The type of the crash is a word, since
  the stub of \<open>Fault_stubs\<close> passes any value.

  The lemmas show that the dumps of all tasks are those of the Cortex-M3, interpret the contract
  \<open>crash_parts\<close> of the dump, and follow faults from the entry of the handler to the record.
\<close>

section \<open>Operations\<close>

text \<open>The table of reasons, indexed by the type.\<close>

definition kCrashTypeToResetReason_m0 :: "u32 list" where
  "kCrashTypeToResetReason_m0 = [NL_RESET_REASON_HARD_FAULT, NL_RESET_REASON_WATCHDOG]"

definition crash_reason_m0 :: "u32 \<Rightarrow> u32" where
  "crash_reason_m0 type =
     (if unat type < length kCrashTypeToResetReason_m0 then kCrashTypeToResetReason_m0 ! unat type
      else NL_RESET_REASON_HARD_FAULT)"

definition threadDump_m0 ::
  "fault_env \<Rightarrow> u32 \<times> eTaskState \<Rightarrow> u32 option \<Rightarrow> dump_state \<Rightarrow> string \<times> char \<times> u32 list" where
  "threadDump_m0 env task_status custom_exception_frame s =
     (let (handle, st) = task_status;
          frame = (case custom_exception_frame of None \<Rightarrow> load32 (dmem s) handle + 32 | Some f \<Rightarrow> f);
          lr = load32 (dmem s) (frame + FRAME_LR);
          pc = load32 (dmem s) (frame + FRAME_PC)
      in (strncpy (pcTaskGetName env handle) (NL_FAULT_DIAGS_TASK_NAME_LEN - 1), task_state_char st,
          nlbacktrace_with_lr env pc lr (frame_sp (dmem s) frame) (get_task_stack_top env handle) NL_FAULT_DIAGS_NUM_BT_ENTRIES))"

definition dump_task_m0 ::
  "fault_env \<Rightarrow> bool \<Rightarrow> u32 \<times> eTaskState \<Rightarrow> u32 option \<Rightarrow> nat \<Rightarrow> dump_state \<Rightarrow> dump_state option" where
  "dump_task_m0 env save task_status frame k s =
     (let (name, c, bt) = threadDump_m0 env task_status frame s;
          print = call (Print_text (''Task: '' @ takeWhile (\<lambda>c. c \<noteq> NUL) name @ [c]) # map (Print_value ''  '') bt)
      in if save
         then do {
           t \<leftarrow> arr_get (task_info (dinfo s)) k;
           let t1 = clear_task t;
           name \<leftarrow> mem_write (task_name t1) 0 name;
           st \<leftarrow> mem_write (task_state t1) 0 [c];
           bt \<leftarrow> mem_write (task_backtrace t1) 0 bt;
           Some (print (on_fault_info (\<lambda>fi. fi\<lparr>task_info :=
             (task_info fi)[k := \<lparr>task_name = name, task_backtrace = bt, task_state = st\<rparr>]\<rparr>) s)) }
         else if length bt \<le> NL_FAULT_DIAGS_NUM_BT_ENTRIES then Some (print s) else None)"

fun dump_tasks_m0 ::
  "fault_env \<Rightarrow> bool \<Rightarrow> bool \<Rightarrow> (u32 \<times> eTaskState) list \<Rightarrow> nat \<Rightarrow> dump_state \<Rightarrow> dump_state option" where
  "dump_tasks_m0 env save task_fault [] k s = Some s"
| "dump_tasks_m0 env save task_fault (st # sts) k s =
     (if \<not> task_fault \<and> current_task env = fst st
      then do { s1 \<leftarrow> dump_task_m0 env save st (Some (psp env)) k s; dump_tasks_m0 env save task_fault sts (k + 1) s1 }
      else if fst st = current_task env then dump_tasks_m0 env save task_fault sts k s
      else do { s1 \<leftarrow> dump_task_m0 env save st None k s; dump_tasks_m0 env save task_fault sts (k + 1) s1 })"

text \<open>
  \<open>backtrace_idx\<close> is only set when the fault is saved; what else it starts with is the argument
  \<open>junk\<close>.
\<close>

definition dump_all_tasks_m0 :: "nat \<Rightarrow> fault_env \<Rightarrow> fault_config \<Rightarrow> bool \<Rightarrow> dump_state \<Rightarrow> dump_state option" where
  "dump_all_tasks_m0 junk env cfg task_fault s = do {
     let s0 = call [Print_text ''All tasks''] s;
     let save = save_fault_to_reset_info cfg s0;
     let backtrace_idx = (if save then if task_fault then 1 else 0 else junk);
     s1 \<leftarrow> name_active_task (CHR ''R'') env save task_fault s0;
     dump_tasks_m0 env save task_fault (take THREAD_DUMP_MAX_NUM_THREADS (system_state env)) backtrace_idx s1 }"

text \<open>Only the first entry of \<open>task_info\<close> is cleared, and only for a fault of a task.\<close>

definition dump_context_to_reset_info_m0 ::
  "fault_env \<Rightarrow> fault_config \<Rightarrow> u32 \<Rightarrow> u32 \<Rightarrow> u32 \<Rightarrow> u32 \<Rightarrow> string option \<Rightarrow> bool \<Rightarrow> dump_state \<Rightarrow>
   (backtrace_buf \<times> dump_state) option" where
  "dump_context_to_reset_info_m0 env cfg F M reason prefault_sp current_task_name task_fault s =
     (if save_fault_to_reset_info cfg s
      then do {
        (buf, s0) \<leftarrow>
          (if task_fault
           then do {
             t \<leftarrow> arr_get (task_info (dinfo s)) 0;
             Some (Task_backtrace 0, on_fault_info (\<lambda>fi. fi\<lparr>task_info := (task_info fi)[0 := clear_task t]\<rparr>) s) }
           else Some (Machine_backtrace, s));
        let s1 = on_fault_info (\<lambda>fi. fi\<lparr>machine_backtrace := map (\<lambda>_. 0) (machine_backtrace fi)\<rparr>) s0;
        let s2 = (if nl_reset_info_get_reset_reason (rinfo s1) = NL_RESET_REASON_UNKNOWN
                  then on_fault_info (\<lambda>fi. fi\<lparr>description := map (\<lambda>_. NUL) (description fi)\<rparr>) s1 else s1);
        r \<leftarrow> mem_write (registers (dinfo s2)) 0 (map (\<lambda>i. load32 (dmem s) (F + 4 * word_of_nat i)) [0..<4]);
        r \<leftarrow> mem_write r 4 (map (\<lambda>i. load32 (dmem s) (M + 4 * word_of_nat i)) [0..<8]);
        r \<leftarrow> mem_write r 12 [load32 (dmem s) (F + FRAME_R12), prefault_sp, load32 (dmem s) (F + FRAME_LR),
                             load32 (dmem s) (F + FRAME_PC), load32 (dmem s) (F + FRAME_PSR)];
        let s3 = on_fault_info (\<lambda>fi. fi\<lparr>registers := r\<rparr>) s2;
        s4 \<leftarrow> (if reason = NL_RESET_REASON_WATCHDOG then dump_watchdog_flags_default env s3
               else if reason = NL_RESET_REASON_STACK_OVERFLOW
               then dump_stack_overflow_info_to_reset_info_default current_task_name s3
               else Some s3);
        Some (buf, s4) }
      else Some (Static_backtrace, s))"

definition dump_context_m0 ::
  "fault_config \<Rightarrow> u32 \<Rightarrow> u32 \<Rightarrow> u32 \<Rightarrow> u32 \<Rightarrow> dump_state \<Rightarrow> dump_state" where
  "dump_context_m0 cfg F M type prefault_sp s =
     (let word = (\<lambda>label a. Print_value label (load32 (dmem s) a))
      in call ((if type = 0 then [Print_text ''Oops!''] else if type = 1 then [Print_text ''!!wdog!!''] else []) @
           (if RAM_CONSOLE cfg then [Ram_console_disable] else []) @
           map (\<lambda>i. word ''r'' (F + 4 * word_of_nat i)) [0..<4] @
           map (\<lambda>i. word ''r'' (M + 4 * word_of_nat i)) [0..<8] @
           map (\<lambda>i. word ([''r12'', '' lr'', '' pc'', ''psr''] ! i) (F + 4 * word_of_nat (i + 4))) [0..<4] @
           [Print_value ''psp'' prefault_sp, Soc_dump_context, Product_dump_context, Print_text ''- stack -''] @
           map (\<lambda>i. word [] (prefault_sp + 4 * word_of_nat i)) [0..<NUM_STACK_DUMP_ENTRIES]) s)"

definition dump_backtrace_m0 ::
  "fault_env \<Rightarrow> u32 \<Rightarrow> backtrace_buf \<Rightarrow> u32 \<Rightarrow> u32 \<Rightarrow> u32 \<Rightarrow> dump_state \<Rightarrow> (nat \<times> dump_state) option" where
  "dump_backtrace_m0 env F buf prefault_sp stackTop reason s = do {
     let s0 = call [Watchdog_refresh] s;
     let pc = load32 (dmem s) (F + FRAME_PC);
     let lr = load32 (dmem s) (F + FRAME_LR);
     let bt = nlbacktrace_with_lr env pc lr prefault_sp stackTop NL_FAULT_DIAGS_NUM_BT_ENTRIES;
     s1 \<leftarrow> write_backtrace buf 0 bt s0;
     (bt, s2) \<leftarrow>
       (if length bt = 0
        then let bt' = nlbacktrace_no_context env prefault_sp stackTop (NL_FAULT_DIAGS_NUM_BT_ENTRIES - 2) 3 16
             in do {
               s2 \<leftarrow> write_backtrace buf 0 [pc, lr] s1;
               s3 \<leftarrow> write_backtrace buf 2 bt' (call [Watchdog_refresh] s2);
               Some (pc # lr # bt', s3) }
        else Some (bt, s1));
     Some (length bt, call (Watchdog_refresh # map (Print_value ''  '') bt) s2) }"

definition get_and_dump_current_task_info_m0 :: "fault_env \<Rightarrow> dump_state \<Rightarrow> string \<times> u32 \<times> dump_state" where
  "get_and_dump_current_task_info_m0 env s =
     (let name = pcTaskGetName env (current_task env);
          stackTop = (if current_task env \<noteq> 0 then get_task_stack_top env (current_task env) else 0)
      in (name, stackTop, call [Print_text (''Task: '' @ name @ ''R'')] s))"

definition crash_task_info_m0 ::
  "fault_env \<Rightarrow> fault_config \<Rightarrow> bool \<Rightarrow> dump_state \<Rightarrow> string option \<times> u32 \<times> dump_state" where
  "crash_task_info_m0 env cfg task_fault s =
     (if CONFIG_RELEASE cfg then (None, 0, s)
      else if task_fault
      then let (name, stackTop, s1) = get_and_dump_current_task_info_m0 env s in (Some name, stackTop, s1)
      else (None, eusrstack env, call [Print_text ''- Fault on main stack (ISR?)) -''] s))"

definition crash_dump_m0 ::
  "nat \<Rightarrow> fault_env \<Rightarrow> fault_config \<Rightarrow> u32 \<Rightarrow> u32 \<Rightarrow> u32 \<Rightarrow> dump_state \<Rightarrow> (outcome \<times> dump_state) option" where
  "crash_dump_m0 junk env cfg F M type s =
     (let task_fault = (F \<noteq> M + 40);
          prefault_sp = frame_sp (dmem s) F;
          reason = crash_reason_m0 type
      in if PRE_WATCHDOG_ISR_EXTENSION cfg \<and> type = 1 \<and> ignore_pre_watchdog_isr env then Some (Returned, s)
         else let s1 = call ((if PRE_WATCHDOG_ISR_EXTENSION cfg then [] else [Watchdog_refresh]) @ [Quiesce_on_fault]) s;
                  s2 = dump_context_m0 cfg F M type prefault_sp s1;
                  (name, stackTop, s3) = crash_task_info_m0 env cfg task_fault s2
              in do {
                (buf, s4) \<leftarrow> dump_context_to_reset_info_m0 env cfg F M reason prefault_sp name task_fault s3;
                (count, s5) \<leftarrow> dump_backtrace_m0 env F buf prefault_sp stackTop reason s4;
                s6 \<leftarrow> (if DUMP_TASK_STACKS cfg then dump_all_tasks_m0 junk env cfg task_fault s5 else Some s5);
                let s7 = call (if BREADCRUMBS cfg then [Crash_dump_breadcrumbs buf count name (type = 1)] else []) s6;
                Some (crash_dump_end env cfg reason s7) })"

definition crash_dump_nortos_m0 ::
  "fault_env \<Rightarrow> fault_config \<Rightarrow> u32 \<Rightarrow> u32 \<Rightarrow> u32 \<Rightarrow> dump_state \<Rightarrow> outcome \<times> dump_state" where
  "crash_dump_nortos_m0 env cfg F M type s =
     (let reason = (if type = 1 then NL_RESET_REASON_WATCHDOG else NL_RESET_REASON_HARD_FAULT);
          prefault_sp = frame_sp (dmem s) F
      in if PRE_WATCHDOG_ISR_EXTENSION cfg \<and> type = 1 \<and> ignore_pre_watchdog_isr env then (Returned, s)
         else let s1 = (if PRE_WATCHDOG_ISR_EXTENSION cfg then s else call [Watchdog_refresh] s);
                  s2 = dump_context_m0 cfg F M type prefault_sp s1
              in if \<not> NO_BKPT_ON_FAULT cfg \<and> debugger_attached env then (Breakpoint, call [Print_text ''breaking''] s2)
                 else (Reset reason, call [Print_text ''resetting''] s2))"

text \<open>The handlers: the stub, and the dump with what the stub passes.\<close>

definition fault_handler_m0 ::
  "u32 \<Rightarrow> nat \<Rightarrow> fault_env \<Rightarrow> fault_config \<Rightarrow> core \<Rightarrow> dump_state \<Rightarrow> (outcome \<times> dump_state) option" where
  "fault_handler_m0 type junk env cfg c s =
     (let c1 = enter type stub_m0 c
      in crash_dump_m0 junk env cfg (reg c1 0) (reg c1 1) (reg c1 2) (s\<lparr>dmem := ram c1\<rparr>))"

definition nlfault_hard_fault_handler_m0 ::
  "nat \<Rightarrow> fault_env \<Rightarrow> fault_config \<Rightarrow> core \<Rightarrow> dump_state \<Rightarrow> (outcome \<times> dump_state) option" where
  "nlfault_hard_fault_handler_m0 = fault_handler_m0 0"

definition nlfault_pre_watchdog_handler_m0 ::
  "nat \<Rightarrow> fault_env \<Rightarrow> fault_config \<Rightarrow> core \<Rightarrow> dump_state \<Rightarrow> (outcome \<times> dump_state) option" where
  "nlfault_pre_watchdog_handler_m0 = fault_handler_m0 1"

definition nlfault_freertos_stack_overflow_handler_m0 ::
  "fault_env \<Rightarrow> fault_config \<Rightarrow> u32 \<Rightarrow> string \<Rightarrow> dump_state \<Rightarrow> (outcome \<times> dump_state) option" where
  "nlfault_freertos_stack_overflow_handler_m0 env cfg pxTask pcTaskName s =
     (let stackTop = get_task_stack_top env pxTask;
          s1 = call [Watchdog_refresh, Quiesce_on_fault, Print_text ''STACK_OVERFLOW_DETECTED'', Print_text pcTaskName] s;
          stack_frame_p = load32 (dmem s) pxTask;
          frame = stack_frame_p + 32;
          prefault_sp = frame_sp (dmem s) frame;
          pc = load32 (dmem s) (frame + FRAME_PC);
          lr = load32 (dmem s) (frame + FRAME_LR);
          save = save_fault_to_reset_info cfg s1;
          buf = (if save then Task_backtrace 0 else Static_backtrace)
      in do {
        s2 \<leftarrow>
          (if save
           then do {
             t \<leftarrow> arr_get (task_info (dinfo s1)) 0;
             let s2 = on_fault_info (\<lambda>fi. fi\<lparr>task_info := (task_info fi)[0 := clear_task t]\<rparr>) s1;
             r \<leftarrow> mem_write (registers (dinfo s2)) 0
               (map (\<lambda>i. load32 (dmem s) (frame + 4 * word_of_nat i)) [0..<4] @
                map (\<lambda>i. load32 (dmem s) (stack_frame_p + 4 * word_of_nat i)) [0..<8] @
                [load32 (dmem s) (frame + FRAME_R12), prefault_sp, lr, pc, load32 (dmem s) (frame + FRAME_PSR)]);
             d \<leftarrow> snprintf_description (pcTaskName @ '' stack overflow'') (description (dinfo s2));
             Some (on_fault_info (\<lambda>fi. fi\<lparr>registers := r, description := d\<rparr>) s2) }
           else Some s1);
        let bt = nlbacktrace_with_lr env pc lr prefault_sp stackTop NL_FAULT_DIAGS_NUM_BT_ENTRIES;
        s3 \<leftarrow> write_backtrace buf 0 bt s2;
        s4 \<leftarrow>
          (if length bt < MIN_BACKTRACE_LEVELS_FOR_STACK_OVERFLOW
           then do {
             s4 \<leftarrow> write_backtrace buf 2 (nlbacktrace_no_context env prefault_sp stackTop (NL_FAULT_DIAGS_NUM_BT_ENTRIES - 2)
                     MIN_BACKTRACE_LEVELS_FOR_STACK_OVERFLOW 16) s3;
             write_backtrace buf 0 [pc, lr] s4 }
           else Some s3);
        Some (Reset NL_RESET_REASON_STACK_OVERFLOW, call [Print_text ''resetting''] s4) })"

section \<open>The dumps of all tasks are those of the Cortex-M3\<close>

lemma threadDump_m0: "threadDump env (cfg\<lparr>CORTEX_M4 := False\<rparr>) st f s = threadDump_m0 env st f s"
  by (simp add: threadDump_def threadDump_m0_def switched_out_frame_def split: prod.split option.split)

lemma dump_task_m0: "dump_task env (cfg\<lparr>CORTEX_M4 := False\<rparr>) save st f k s = dump_task_m0 env save st f k s"
  by (simp add: dump_task_def dump_task_m0_def threadDump_m0)

lemma dump_tasks_m0:
  "dump_tasks_m0 env save task_fault sts k s = dump_tasks env (cfg\<lparr>CORTEX_M4 := False\<rparr>) save task_fault sts k s"
proof (induction sts arbitrary: k s)
  case (Cons st sts)
  have "dump_tasks_m0 env save task_fault sts k = dump_tasks env (cfg\<lparr>CORTEX_M4 := False\<rparr>) save task_fault sts k" for k
    by (rule ext) (rule Cons)
  then show ?case by (auto simp: dump_task_m0)
qed simp

lemma dump_all_tasks_m0_named:
  "dump_all_tasks_m0 junk env cfg task_fault s = do {
     s1 \<leftarrow> name_active_task (CHR ''R'') env (save_fault_to_reset_info cfg s) task_fault (call [Print_text ''All tasks''] s);
     dump_tasks env (cfg\<lparr>CORTEX_M4 := False\<rparr>) (save_fault_to_reset_info cfg s) task_fault
       (take THREAD_DUMP_MAX_NUM_THREADS (system_state env))
       (if save_fault_to_reset_info cfg s then if task_fault then 1 else 0 else junk) s1 }"
  by (simp add: dump_all_tasks_m0_def Let_def dump_tasks_m0 [where cfg = cfg])

lemma dump_backtrace_m0:
  "dump_backtrace_m0 env F buf sp stk r s = dump_backtrace_default env F buf sp stk NL_RESET_REASON_UNSPECIFIED s"
  by (simp add: dump_backtrace_m0_def dump_backtrace_default_def reason_defs)

section \<open>The contract of the dump\<close>

definition clear_first :: "bool \<Rightarrow> dump_state \<Rightarrow> dump_state" where
  "clear_first task_fault s =
     (let s0 = (if task_fault
                then on_fault_info (\<lambda>fi. fi\<lparr>task_info := (task_info fi)[0 := clear_task (task_info (dinfo s) ! 0)]\<rparr>) s else s);
          s1 = on_fault_info (\<lambda>fi. fi\<lparr>machine_backtrace := map (\<lambda>_. 0) (machine_backtrace fi)\<rparr>) s0
      in if nl_reset_info_get_reset_reason (rinfo s) = NL_RESET_REASON_UNKNOWN
         then on_fault_info (\<lambda>fi. fi\<lparr>description := map (\<lambda>_. NUL) (description fi)\<rparr>) s1 else s1)"

lemma clear_first_simps [simp]:
  "dmem (clear_first t s) = dmem s" "s_backtrace (clear_first t s) = s_backtrace s"
  "ri_magic (rinfo (clear_first t s)) = ri_magic (rinfo s)"
  "reset_reason (rinfo (clear_first t s)) = reset_reason (rinfo s)"
  "fi_reason (dinfo (clear_first t s)) = fi_reason (dinfo s)"
  "registers (dinfo (clear_first t s)) = registers (dinfo s)"
  "description (dinfo (clear_first t s)) = (if nl_reset_info_get_reset_reason (rinfo s) = NL_RESET_REASON_UNKNOWN
     then map (\<lambda>_. NUL) (description (dinfo s)) else description (dinfo s))"
  "task_info (dinfo (clear_first t s)) =
     (if t then (task_info (dinfo s))[0 := clear_task (task_info (dinfo s) ! 0)] else task_info (dinfo s))"
  by (simp_all add: clear_first_def Let_def)

lemma clear_first_sized:
  assumes "sized s"
  shows "sized (clear_first t s)"
proof -
  have "full_sized (dinfo s)" using assms by (simp add: sized_def)
  note this full_sized_task [OF this, of "clear_task (task_info (dinfo s) ! 0)" 0] full_sized_nth [OF this, of 0]
  then show ?thesis using assms
    by (auto simp: sized_def full_sized_def well_sized_def clear_first_def Let_def clear_task_def)
qed

lemma dump_context_m0_clears:
  assumes "save_fault_to_reset_info cfg s" "sized s"
  shows "dump_context_to_reset_info_m0 env cfg F M reason (frame_sp (dmem s) F) name task_fault s =
      do { s' \<leftarrow> save_context env (dmem s) F M reason name (clear_first task_fault s);
           Some (if task_fault then Task_backtrace 0 else Machine_backtrace, s') }"
proof -
  have "0 < length (task_info (dinfo s))" using full_sized_nth [of "dinfo s" 0] assms(2) by (simp add: sized_def)
  with assms(1) show ?thesis
    by (cases task_fault)
      (simp_all add: dump_context_to_reset_info_m0_def clear_first_def describe_def save_context_def Let_def)
qed

interpretation m0: crash_parts dump_context_to_reset_info_m0 dump_backtrace_m0 "dump_all_tasks_m0 junk" for junk
proof (unfold_locales, goal_cases)
  case (1 env s name cfg F M r task_fault)
  from save_context_ok [OF 1(1) clear_first_sized [OF 1(2)] 1(3), of "dmem s" F M r task_fault] show ?case
    unfolding dump_context_m0_clears [OF 1(4,2)] by (auto simp: described_def)
next
  case (2 cfg s env F M r sp name task_fault)
  then show ?case by (simp add: dump_context_to_reset_info_m0_def)
next
  case (3 env s buf F sp stk r)
  from dump_backtrace_ok [OF this] show ?case unfolding dump_backtrace_m0 by blast
next
  case (4 env s cfg task_fault)
  then show ?case
    using named_tasks_ok [OF 4(1), of "call [Print_text ''All tasks''] s" "save_fault_to_reset_info cfg s"
      "if save_fault_to_reset_info cfg s then if task_fault then 1 else 0 else junk" task_fault
      "take THREAD_DUMP_MAX_NUM_THREADS (system_state env)" "CHR ''R''" "cfg\<lparr>CORTEX_M4 := False\<rparr>"]
    by (auto simp: dump_all_tasks_m0_named slots_def)
next
  case (5 env s cfg task_fault)
  then show ?case
    using named_tasks_overflow [OF 5(1), of "call [Print_text ''All tasks''] s" "if task_fault then 1 else 0" task_fault
      "take THREAD_DUMP_MAX_NUM_THREADS (system_state env)" "CHR ''R''" "cfg\<lparr>CORTEX_M4 := False\<rparr>"]
    by (simp add: dump_all_tasks_m0_named slots_def)
qed

text \<open>
  What happens to the slots that a dump does not fill is \<open>leftover\<close>: the two cores differ in it.
\<close>

locale crash_leftovers = crash_parts +
  fixes leftover :: "nl_fault_task_info_t \<Rightarrow> nl_fault_task_info_t"
  assumes context_leftover: "save_fault_to_reset_info cfg s \<Longrightarrow> env_ok env \<Longrightarrow> sized s \<Longrightarrow> name_ok name \<Longrightarrow>
      context_part env cfg F M r (frame_sp (dmem s) F) name task_fault s = Some (buf, s') \<Longrightarrow> 1 \<le> i \<Longrightarrow> i < 8 \<Longrightarrow>
      task_info (dinfo s') ! i = leftover (task_info (dinfo s) ! i)"
    and backtrace_slots: "backtrace_part env F buf sp stk r s = Some (n, s') \<Longrightarrow> \<forall>i. buf = Task_backtrace i \<longrightarrow> i = 0 \<Longrightarrow>
      same_slots 1 s s'"
    and tasks_slots: "tasks_part env cfg task_fault s = Some s' \<Longrightarrow> sized s \<Longrightarrow> save_fault_to_reset_info cfg s \<Longrightarrow>
      same_slots (max 1 (slots env task_fault)) s s'"
begin

lemma run_leftover:
  assumes "env_ok env" "sized s" "name_ok name" "save_fault_to_reset_info cfg s"
    and "run env cfg F M r name stk d s = Some s6"
    and "max 1 (slots env (F \<noteq> M + 40)) \<le> i" "i < 8"
  shows "task_info (dinfo s6) ! i = leftover (task_info (dinfo s) ! i)"
proof -
  let ?buf = "if F \<noteq> M + 40 then Task_backtrace 0 else Machine_backtrace"
  obtain s4 where s4: "context_part env cfg F M r (frame_sp (dmem s) F) name (F \<noteq> M + 40) s = Some (?buf, s4)"
    "sized s4" "fi_reason (dinfo s4) = fi_reason (dinfo s)"
    using context_saves [OF assms(1-4)] by blast
  obtain n s5 where s5: "backtrace_part env F ?buf (frame_sp (dmem s) F) stk r s4 = Some (n, s5)" "sized s5" "kept s5 = kept s4"
    using backtrace_ok [OF assms(1) s4(2), of ?buf F "frame_sp (dmem s) F" stk r] by (cases "F = M + 40") auto
  obtain s7 cs where e: "(if DUMP_TASK_STACKS cfg then tasks_part env cfg (F \<noteq> M + 40) s5 else Some s5) = Some s7" "s6 = call cs s7"
  proof (rule that)
    show "(if DUMP_TASK_STACKS cfg then tasks_part env cfg (F \<noteq> M + 40) s5 else Some s5) =
        Some (the (if DUMP_TASK_STACKS cfg then tasks_part env cfg (F \<noteq> M + 40) s5 else Some s5))"
      "s6 = call (if BREADCRUMBS cfg then [Crash_dump_breadcrumbs ?buf n name d] else [])
        (the (if DUMP_TASK_STACKS cfg then tasks_part env cfg (F \<noteq> M + 40) s5 else Some s5))"
      using assms(5) s4(1) s5(1) by (auto simp: crash_run_def elim!: bind_SomeE split: if_splits)
  qed
  have "save_fault_to_reset_info cfg s5" using assms(4) s4(3) s5(3) by (simp add: save_fault_to_reset_info_def kept_def)
  with e(1) tasks_slots [OF _ s5(2)] have "same_slots (max 1 (slots env (F \<noteq> M + 40))) s5 s7"
    by (auto simp: same_slots_def split: if_splits)
  then have "same_slots (max 1 (slots env (F \<noteq> M + 40))) s5 s6" unfolding e(2) by (simp add: same_slots_def)
  moreover have "same_slots 1 s4 s5" by (rule backtrace_slots [OF s5(1)]) auto
  ultimately have "task_info (dinfo s6) ! i = task_info (dinfo s4) ! i" using assms(6) by (simp add: same_slots_def)
  also have "\<dots> = leftover (task_info (dinfo s) ! i)"
    by (rule context_leftover [OF assms(4,1,2,3) s4(1)]) (use assms(6,7) in simp_all)
  finally show ?thesis .
qed

end

interpretation m3_slots: crash_leftovers dump_context_to_reset_info_default dump_backtrace_default dump_all_tasks_default clear_task
proof (unfold_locales, goal_cases)
  case (1 cfg s env name F M r task_fault buf s' i)
  obtain s1 where s1: "save_context env (dmem s) F M r name (clear_entries s) = Some s1"
    "task_info (dinfo s1) = task_info (dinfo (clear_entries s))"
    using save_context_ok [OF 1(2) clear_entries_sized [OF 1(3)] 1(4)] by blast
  have "i < length (task_info (dinfo s))" using 1(3,7) full_sized_nth [of "dinfo s" i] by (simp add: sized_def)
  with s1 1(5) show ?case
    unfolding dump_context_clears [OF 1(1)] by (auto simp: clear_entries_def Let_def)
next
  case (2 env F buf sp stk r s n s')
  then show ?case by (rule dump_backtrace_slots)
next
  case (3 env cfg task_fault s s')
  then show ?case
    using named_tasks_slots [of "CHR ''A''" env True task_fault "call [Print_text ''All tasks''] s" cfg
      "take THREAD_DUMP_MAX_NUM_THREADS (system_state env)" "if task_fault then 1 else 0" s']
    by (simp add: dump_all_tasks_default_def slots_def)
qed

interpretation m0_slots: crash_leftovers dump_context_to_reset_info_m0 dump_backtrace_m0 "dump_all_tasks_m0 junk" "\<lambda>t. t" for junk
proof (unfold_locales, goal_cases)
  case (1 cfg s env name F M r task_fault buf s' i)
  obtain s1 where s1: "save_context env (dmem s) F M r name (clear_first task_fault s) = Some s1"
    "task_info (dinfo s1) = task_info (dinfo (clear_first task_fault s))"
    using save_context_ok [OF 1(2) clear_first_sized [OF 1(3)] 1(4)] by blast
  with 1(5,6) show ?case
    unfolding dump_context_m0_clears [OF 1(1,3)] by auto
next
  case (2 env F buf sp stk r s n s')
  then show ?case unfolding dump_backtrace_m0 by (rule dump_backtrace_slots)
next
  case (3 env cfg task_fault s s')
  then show ?case
    using named_tasks_slots [of "CHR ''R''" env True task_fault "call [Print_text ''All tasks''] s" "cfg\<lparr>CORTEX_M4 := False\<rparr>"
      "take THREAD_DUMP_MAX_NUM_THREADS (system_state env)" "if task_fault then 1 else 0" s']
    by (simp add: dump_all_tasks_m0_named slots_def)
qed

section \<open>The dump as a whole\<close>

lemma crash_dump_m0_unfold:
  assumes "\<not> (PRE_WATCHDOG_ISR_EXTENSION cfg \<and> type = 1 \<and> ignore_pre_watchdog_isr env)" "env_ok env"
  obtains name stk d cs where "name_ok name"
    "crash_dump_m0 junk env cfg F M type s = do {
       s6 \<leftarrow> m0.run junk env cfg F M (crash_reason_m0 type) name stk d (call cs s);
       Some (crash_dump_end env cfg (crash_reason_m0 type) s6) }"
proof -
  have call_call: "call a (call b s) = call (b @ a) s" for a b by (simp add: call_def)
  obtain cs where cs: "dump_context_m0 cfg F M type (frame_sp (dmem s) F)
      (call ((if PRE_WATCHDOG_ISR_EXTENSION cfg then [] else [Watchdog_refresh]) @ [Quiesce_on_fault]) s) = call cs s"
    unfolding dump_context_m0_def Let_def call_call by blast
  obtain name stk s3 where i: "crash_task_info_m0 env cfg (F \<noteq> M + 40) (call cs s) = (name, stk, s3)"
    by (cases "crash_task_info_m0 env cfg (F \<noteq> M + 40) (call cs s)")
  have name: "name_ok name"
    using i assms(2) by (auto simp: crash_task_info_m0_def get_and_dump_current_task_info_m0_def Let_def name_ok_def env_ok_def
      split: if_splits)
  have "s3 = call cs s \<or> (\<exists>cs'. s3 = call cs' (call cs s))"
    using i by (auto simp: crash_task_info_m0_def get_and_dump_current_task_info_m0_def Let_def split: if_splits)
  then obtain cs' where cs': "s3 = call cs' s" unfolding call_call by blast
  show thesis
    by (rule that [OF name, where stk = stk and cs = cs' and d = "type = 1"])
      (simp only: crash_dump_m0_def Let_def if_not_P [OF assms(1)] cs i prod.case cs',
        simp add: crash_run_def split_def)
qed

lemma crash_dump_m0_saving:
  assumes "env_ok env" "sized s" "save_fault_to_reset_info cfg s"
    and "DUMP_TASK_STACKS cfg \<longrightarrow> slots env (F \<noteq> M + 40) \<le> 8"
    and "\<not> (PRE_WATCHDOG_ISR_EXTENSION cfg \<and> type = 1 \<and> ignore_pre_watchdog_isr env)" "r = crash_reason_m0 type"
  shows "\<exists>s6. crash_dump_m0 junk env cfg F M type s = Some (crash_dump_end env cfg r s6) \<and> sized s6 \<and>
    ri_magic (rinfo s6) = ri_magic (rinfo s) \<and> reset_reason (rinfo s6) = reset_reason (rinfo s) \<and>
    fi_reason (dinfo s6) = fi_reason (dinfo s) \<and> registers (dinfo s6) = saved_registers (dmem s) F M \<and> described r s s6 \<and>
    (\<forall>i. max 1 (slots env (F \<noteq> M + 40)) \<le> i \<and> i < 8 \<longrightarrow> task_info (dinfo s6) ! i = task_info (dinfo s) ! i)"
proof -
  obtain name stk d cs where name: "name_ok name" and crash: "crash_dump_m0 junk env cfg F M type s =
      do { s6 \<leftarrow> m0.run junk env cfg F M r name stk d (call cs s); Some (crash_dump_end env cfg r s6) }"
    unfolding assms(6) by (rule crash_dump_m0_unfold [OF assms(5,1)])
  have c: "sized (call cs s)" "save_fault_to_reset_info cfg (call cs s)" using assms(2,3) by simp_all
  from m0.run_saves [OF assms(1) c(1) name c(2) assms(4), of junk r stk d] obtain s6 where s6:
    "m0.run junk env cfg F M r name stk d (call cs s) = Some s6" "sized s6"
    "ri_magic (rinfo s6) = ri_magic (rinfo s)" "reset_reason (rinfo s6) = reset_reason (rinfo s)"
    "fi_reason (dinfo s6) = fi_reason (dinfo s)" "registers (dinfo s6) = saved_registers (dmem s) F M" "described r s s6"
    by (auto simp: described_def)
  with m0_slots.run_leftover [OF assms(1) c(1) name c(2) s6(1)] crash show ?thesis by auto
qed

text \<open>The same of the dump of the Cortex-M3, which clears every slot.\<close>

lemma crash_dump_clears_slots:
  assumes "env_ok env" "sized s" "save_fault_to_reset_info cfg s"
    and "\<not> (PRE_WATCHDOG_ISR_EXTENSION cfg \<and> type = WDT \<and> ignore_pre_watchdog_isr env)"
    and "crash_dump_default env cfg F M type s = Some (out, s')"
    and "max 1 (slots env (F \<noteq> M + 40)) \<le> i" "i < 8"
  shows "task_info (dinfo s') ! i = clear_task (task_info (dinfo s) ! i)"
proof -
  let ?r = "dump_reason env cfg (F \<noteq> M + 40) type"
  obtain name stk d cs where name: "name_ok name" and crash: "crash_dump_default env cfg F M type s =
      do { s6 \<leftarrow> m3.run env cfg F M ?r name stk d (call cs s); Some (crash_dump_end env cfg ?r s6) }"
    by (rule crash_dump_unfold [OF assms(4,1)])
  then obtain s6 where s6: "m3.run env cfg F M ?r name stk d (call cs s) = Some s6" "s' = snd (crash_dump_end env cfg ?r s6)"
    using assms(5) by (auto split: bind_splits simp: prod_eq_iff)
  have "task_info (dinfo s6) ! i = clear_task (task_info (dinfo s) ! i)"
    using m3_slots.run_leftover [OF assms(1) _ name _ s6(1) assms(6,7)] assms(2,3) by simp
  then show ?thesis by (simp add: s6(2) crash_dump_end_def)
qed

text \<open>A saved fault is kept, and more tasks than slots overflow the record, as on the Cortex-M3.\<close>

lemma crash_dump_m0_keeps_first_fault:
  assumes "env_ok env" "length (s_backtrace s) = 10" "full_sized (dinfo s)" "\<not> RESET_INFO_IN_TEMP_RAM cfg"
    and "fi_reason (dinfo s) \<noteq> NL_RESET_REASON_UNKNOWN" "fi_reason (dinfo s) \<noteq> NL_RESET_REASON_ASSERT"
  shows "\<exists>r s'. crash_dump_m0 junk env cfg F M type s = Some (r, s') \<and> dinfo s' = dinfo s"
proof (cases "PRE_WATCHDOG_ISR_EXTENSION cfg \<and> type = 1 \<and> ignore_pre_watchdog_isr env")
  case True
  then show ?thesis by (simp add: crash_dump_m0_def Let_def)
next
  case False
  let ?r = "crash_reason_m0 type"
  obtain name stk d cs where crash: "crash_dump_m0 junk env cfg F M type s =
      do { s6 \<leftarrow> m0.run junk env cfg F M ?r name stk d (call cs s); Some (crash_dump_end env cfg ?r s6) }"
    by (rule crash_dump_m0_unfold [OF False assms(1)])
  have "sized (call cs s)" "\<not> save_fault_to_reset_info cfg (call cs s)"
    using assms by (simp_all add: save_fault_to_reset_info_def sized_def)
  from m0.run_keeps [OF assms(1) this, of junk F M ?r name stk d]
  obtain s6 where s6: "m0.run junk env cfg F M ?r name stk d (call cs s) = Some s6" "rinfo s6 = rinfo s" by auto
  with crash_dump_end_first [OF s6(2) assms(4-6), of env ?r] crash show ?thesis
    by (cases "crash_dump_end env cfg ?r s6") simp
qed

lemma crash_dump_m0_task_overflow:
  assumes "env_ok env" "sized s" "save_fault_to_reset_info cfg s" "DUMP_TASK_STACKS cfg"
    and "NL_FAULT_DIAGS_MAX_NUM_TASKS < slots env (F \<noteq> M + 40)"
    and "\<not> (PRE_WATCHDOG_ISR_EXTENSION cfg \<and> type = 1 \<and> ignore_pre_watchdog_isr env)"
  shows "crash_dump_m0 junk env cfg F M type s = None"
proof -
  let ?r = "crash_reason_m0 type"
  obtain name stk d cs where name: "name_ok name" and crash: "crash_dump_m0 junk env cfg F M type s =
      do { s6 \<leftarrow> m0.run junk env cfg F M ?r name stk d (call cs s); Some (crash_dump_end env cfg ?r s6) }"
    by (rule crash_dump_m0_unfold [OF assms(6,1)])
  have "sized (call cs s)" "save_fault_to_reset_info cfg (call cs s)" using assms(2,3) by simp_all
  from m0.run_overflows [OF assms(1) this(1) name this(2) assms(4)] assms(5) crash show ?thesis
    by (simp add: NL_FAULT_DIAGS_MAX_NUM_TASKS_def)
qed

text \<open>The hook for stack overflows differs only in what it clears when it saves.\<close>

lemma stack_overflow_handler_m0_unsaved:
  assumes "\<not> save_fault_to_reset_info cfg s"
  shows "nlfault_freertos_stack_overflow_handler_m0 env cfg pxTask pcTaskName s =
    nlfault_freertos_stack_overflow_handler_c env (cfg\<lparr>CORTEX_M4 := False\<rparr>) pxTask pcTaskName s"
proof -
  have "\<not> save_fault_to_reset_info (cfg\<lparr>CORTEX_M4 := False\<rparr>) s" using assms by (simp add: save_fault_to_reset_info_def)
  with assms show ?thesis
    by (simp add: nlfault_freertos_stack_overflow_handler_m0_def nlfault_freertos_stack_overflow_handler_c_def switched_out_frame_def Let_def)
qed

section \<open>From the handler to the record\<close>

lemma crash_reason_m0_cases: "crash_reason_m0 type = (if type = 1 then NL_RESET_REASON_WATCHDOG else NL_RESET_REASON_HARD_FAULT)"
proof -
  have "unat type < 2 \<longleftrightarrow> type = 0 \<or> type = 1" by (simp add: word_unat_eq_iff) arith
  then show ?thesis
    by (auto simp: crash_reason_m0_def kCrashTypeToResetReason_m0_def)
qed

lemma prepare_reset_fresh:
  assumes "\<not> RESET_INFO_IN_TEMP_RAM cfg" "ri_magic (rinfo s) \<noteq> NL_RESET_INFO_MAGIC" "fi_reason (dinfo s) = NL_RESET_REASON_UNKNOWN"
    and "IS_VALID_FAULT_REASON r"
  shows "fi_reason (dinfo (prepare_reset cfg r s)) = r" "nl_reset_info_get_reset_reason (rinfo (prepare_reset cfg r s)) = r"
  using assms by (simp_all add: prepare_reset_def nl_reset_info_prepare_reset_ram_def nl_reset_info_set_ram_def dinfo_def
      nl_reset_info_get_reset_reason_def set_description_def Let_def)

text \<open>
  C39: A fault on the Cortex-M0 with a fresh record, followed from the entry of the handler to the record
  that the next boot reads, whichever handler is entered: the reason that is saved is the watchdog exactly
  when \<open>r10\<close> of the interrupted code happens to be one, and a hard fault otherwise, and the registers saved
  as \<open>r4\<close> to \<open>r11\<close> are \<open>r8\<close> to \<open>r12\<close>, \<open>lr\<close>, \<open>r4\<close> and \<open>r5\<close>; the other registers are those of the exception
  frame. The conditions: no reset reason is pending and no fault, nor an assertion, is saved in the record
  (a saved assertion would stay the reason); the record is in retained memory; the build spins after the
  dump (no release, no reset on a fault, no debugger); at most eight tasks need a slot, if the stacks of
  the tasks are dumped; an \<open>r10\<close> that is taken for the pre-watchdog interrupt is not to be ignored; the
  names of the tasks are C strings that are not empty; and the backtrace and watchdog functions keep to
  the room they are given.
\<close>

theorem fault_handler_m0_records:
  assumes "env_ok env" "sized s" "\<not> RESET_INFO_IN_TEMP_RAM cfg" "spins env cfg"
    and "ri_magic (rinfo s) \<noteq> NL_RESET_INFO_MAGIC" "fi_reason (dinfo s) = NL_RESET_REASON_UNKNOWN"
    and "\<not> (PRE_WATCHDOG_ISR_EXTENSION cfg \<and> reg c 10 = 1 \<and> ignore_pre_watchdog_isr env)"
    and "F = (if reg c 14 AND 4 = 0 then msp c else proc_sp c)" "m = ram (enter type stub_m0 c)"
    and "DUMP_TASK_STACKS cfg \<longrightarrow> slots env (F \<noteq> msp c) \<le> NL_FAULT_DIAGS_MAX_NUM_TASKS"
    and "r = (if reg c 10 = 1 then NL_RESET_REASON_WATCHDOG else NL_RESET_REASON_HARD_FAULT)"
  shows "\<exists>s'. fault_handler_m0 type junk env cfg c s = Some (Spinning, s') \<and>
    fi_reason (dinfo s') = r \<and> nl_reset_info_get_reset_reason (rinfo s') = r \<and>
    registers (dinfo s') = map (\<lambda>i. load32 m (F + 4 * word_of_nat i)) [0..<4] @ map (reg c) [8, 9, 10, 11, 12, 14, 4, 5] @
      [load32 m (F + FRAME_R12), frame_sp m F, load32 m (F + FRAME_LR), load32 m (F + FRAME_PC), load32 m (F + FRAME_PSR)]"
proof -
  let ?c1 = "enter type stub_m0 c" and ?s = "s\<lparr>dmem := m\<rparr>"
  note stub = stub_m0_passes(1-3) [OF refl, of type c]
  have M: "msp c - 40 + 40 = msp c" by simp
  have s: "sized ?s" "save_fault_to_reset_info cfg ?s"
    using assms(2,6) by (simp_all add: sized_def dinfo_def save_fault_to_reset_info_def)
  have r: "r = crash_reason_m0 (reg c 10)" using assms(11) by (simp add: crash_reason_m0_cases)
  have regs: "saved_registers m F (msp c - 40) = map (\<lambda>i. load32 m (F + 4 * word_of_nat i)) [0..<4] @
      map (reg c) [8, 9, 10, 11, 12, 14, 4, 5] @
      [load32 m (F + FRAME_R12), frame_sp m F, load32 m (F + FRAME_LR), load32 m (F + FRAME_PC), load32 m (F + FRAME_PSR)]"
    using fault_stub_m0_passes_wrong_state [of type c]
    by (simp only: saved_registers_def dumped_registers_def stub(2) assms(9))
  obtain s6 where s6: "crash_dump_m0 junk env cfg F (msp c - 40) (reg c 10) ?s = Some (Spinning, prepare_reset cfg r s6)"
    "ri_magic (rinfo s6) \<noteq> NL_RESET_INFO_MAGIC" "fi_reason (dinfo s6) = NL_RESET_REASON_UNKNOWN"
    "registers (dinfo s6) = saved_registers m F (msp c - 40)"
    using crash_dump_m0_saving [OF assms(1) s, of F "msp c - 40" "reg c 10" r junk, OF _ assms(7) r] assms(5,6,10) spins_end [OF assms(4)]
    by (auto simp: dinfo_def NL_FAULT_DIAGS_MAX_NUM_TASKS_def M)
  have "IS_VALID_FAULT_REASON r" by (simp add: assms(11) valid_defs reason_defs NL_RESET_REASON_WATCHDOG_def word_le_nat_alt)
  note p = prepare_reset_fresh [OF assms(3) s6(2,3) this]
  have "fault_handler_m0 type junk env cfg c s = Some (Spinning, prepare_reset cfg r s6)"
    using s6(1) by (simp add: fault_handler_m0_def stub assms(8,9) Let_def del: One_nat_def)
  with p s6(4) show ?thesis unfolding regs by simp
qed

text \<open>
  C40: A dump on the Cortex-M0 leaves what was in the slots of the record that it does not fill, so old
  or, where the record lies in overlaid memory, arbitrary contents are saved as further tasks; the dump
  of the Cortex-M3 has cleared these slots.
\<close>

theorem crash_dump_m0_leaves_slots:
  assumes "env_ok env" "sized s" "save_fault_to_reset_info cfg s"
    and "DUMP_TASK_STACKS cfg \<longrightarrow> slots env (F \<noteq> M + 40) \<le> NL_FAULT_DIAGS_MAX_NUM_TASKS"
    and "max 1 (slots env (F \<noteq> M + 40)) \<le> i" "i < NL_FAULT_DIAGS_MAX_NUM_TASKS"
  shows "\<exists>out s' out3 s3. crash_dump_m0 junk env cfg F M 0 s = Some (out, s') \<and>
    task_info (dinfo s') ! i = task_info (dinfo s) ! i \<and>
    crash_dump_default env cfg F M FAULT s = Some (out3, s3) \<and>
    task_info (dinfo s3) ! i = clear_task (task_info (dinfo s) ! i)"
proof -
  have n: "NL_FAULT_DIAGS_MAX_NUM_TASKS = 8" by (simp add: NL_FAULT_DIAGS_MAX_NUM_TASKS_def)
  obtain s6 where s6: "crash_dump_m0 junk env cfg F M 0 s = Some (crash_dump_end env cfg (crash_reason_m0 0) s6)"
    "task_info (dinfo s6) ! i = task_info (dinfo s) ! i"
    using crash_dump_m0_saving [OF assms(1-3) assms(4) [unfolded n] _ refl, of 0 junk] assms(5,6) n by auto
  obtain s7 where s7: "crash_dump_default env cfg F M FAULT s =
      Some (crash_dump_end env cfg (dump_reason env cfg (F \<noteq> M + 40) FAULT) s7)"
    using crash_dump_saving [OF assms(1-3) assms(4) [unfolded n] _ refl, of FAULT] by auto
  have e: "task_info (dinfo (snd (crash_dump_end env cfg r s6))) = task_info (dinfo s6)" for r by (simp add: crash_dump_end_def)
  show ?thesis
    using s6 s7 e [of "crash_reason_m0 0"] crash_dump_clears_slots [OF assms(1-3), of FAULT F M _ _ i] assms(5,6) n
    by (cases "crash_dump_end env cfg (crash_reason_m0 0) s6";
        cases "crash_dump_end env cfg (dump_reason env cfg (F \<noteq> M + 40) FAULT) s7") auto
qed

section \<open>Witnesses\<close>

text \<open>A watchdog fault with 10 in \<open>r10\<close>, and a record with an old backtrace in slot 5.\<close>

lemma fault_handler_m0_records_witness:
  "\<exists>s'. nlfault_pre_watchdog_handler_m0 7 (example_env 3) example_config example_core (example_dump (example_info NL_RESET_REASON_UNKNOWN)) =
     Some (Spinning, s') \<and> fi_reason (dinfo s') = NL_RESET_REASON_HARD_FAULT \<and> registers (dinfo s') ! 4 = 8"
proof -
  have core: "reg example_core 10 = 10" "reg example_core 14 = 14" "(14 :: u32) AND 4 \<noteq> 0" "proc_sp example_core \<noteq> msp example_core"
    by (simp_all add: example_core_def)
  have magic: "(0 :: u32) \<noteq> NL_RESET_INFO_MAGIC" by (simp add: NL_RESET_INFO_MAGIC_def)
  obtain s' where s': "fault_handler_m0 1 7 (example_env 3) example_config example_core (example_dump (example_info NL_RESET_REASON_UNKNOWN)) =
      Some (Spinning, s')" "fi_reason (dinfo s') = NL_RESET_REASON_HARD_FAULT"
    "registers (dinfo s') = map (\<lambda>i. load32 (ram (enter 1 stub_m0 example_core)) (proc_sp example_core + 4 * word_of_nat i)) [0..<4] @
       map (reg example_core) [8, 9, 10, 11, 12, 14, 4, 5] @
       [load32 (ram (enter 1 stub_m0 example_core)) (proc_sp example_core + FRAME_R12),
        frame_sp (ram (enter 1 stub_m0 example_core)) (proc_sp example_core),
        load32 (ram (enter 1 stub_m0 example_core)) (proc_sp example_core + FRAME_LR),
        load32 (ram (enter 1 stub_m0 example_core)) (proc_sp example_core + FRAME_PC),
        load32 (ram (enter 1 stub_m0 example_core)) (proc_sp example_core + FRAME_PSR)]"
    using fault_handler_m0_records [OF example_env_ok example_sized, of example_config 3 NL_RESET_REASON_UNKNOWN example_core
        "proc_sp example_core" "ram (enter 1 stub_m0 example_core)" 1 NL_RESET_REASON_HARD_FAULT 7] core magic
    by (auto simp: example_slots NL_FAULT_DIAGS_MAX_NUM_TASKS_def)
  have "registers (dinfo s') ! 4 = 8" unfolding s'(3) by (simp add: nth_append example_core_def)
  with s' show ?thesis by (simp add: nlfault_pre_watchdog_handler_m0_def)
qed

definition stale_info :: nl_reset_info_t where
  "stale_info = (example_info NL_RESET_REASON_UNKNOWN)\<lparr>fault_info := (fault_info (example_info NL_RESET_REASON_UNKNOWN))\<lparr>
     task_info := (task_info (fault_info (example_info NL_RESET_REASON_UNKNOWN)))[5 :=
       \<lparr>task_name = ''old'' @ [NUL], task_backtrace = replicate 10 77, task_state = ''B'' @ replicate 3 NUL\<rparr>]\<rparr>\<rparr>"

lemma stale_info_simps:
  "sized (example_dump stale_info)" "fi_reason (dinfo (example_dump stale_info)) = NL_RESET_REASON_UNKNOWN"
  "task_backtrace (task_info (dinfo (example_dump stale_info)) ! 5) = replicate 10 77"
proof -
  have "full_sized (fault_info (example_info NL_RESET_REASON_UNKNOWN))"
    using example_sized [of NL_RESET_REASON_UNKNOWN] by (simp add: sized_def dinfo_def)
  from full_sized_task [OF this] show "sized (example_dump stale_info)"
    by (simp add: sized_def dinfo_def stale_info_def)
  show "fi_reason (dinfo (example_dump stale_info)) = NL_RESET_REASON_UNKNOWN"
    "task_backtrace (task_info (dinfo (example_dump stale_info)) ! 5) = replicate 10 77"
    by (simp_all add: dinfo_def stale_info_def) (simp_all add: example_info_def)
qed

lemma crash_dump_m0_leaves_slots_witness:
  "\<exists>out s'. crash_dump_m0 7 (example_env 3) example_config 0x1000 0x2000 0 (example_dump stale_info) = Some (out, s') \<and>
     task_backtrace (task_info (dinfo s') ! 5) = replicate 10 77"
  using crash_dump_m0_leaves_slots [OF example_env_ok stale_info_simps(1), of example_config 3 "0x1000" "0x2000" 5 7] stale_info_simps(2,3)
  by (auto simp: example_slots save_fault_to_reset_info_def NL_FAULT_DIAGS_MAX_NUM_TASKS_def)

end
