(* ===== verification/Reset_lifecycle.thy ===== *)
theory Reset_lifecycle
  imports Fault_dump_m0
begin

text \<open>
  The life of the reset record: \<open>nlreset_info.c\<close> (the variant in memory of its own), the assertion delegate of
  \<open>nlfault.c\<close> and the crash dumps of both \<open>fault.c\<close> files work on one record in retained memory. An event is
  a call of one of them with its arguments and what the hardware and the libraries give it;
  \<open>device_run\<close> composes the operations of the component theories. Outside of these calls, the program may
  change all other memory (\<open>Program\<close>).

  \<open>record_typed\<close> says that the record holds values of its C types: arrays of the declared sizes and
  reasons of the enumeration. Progress and preservation (the locale \<open>event_system\<close>) then give that no
  sequence of events makes an access outside of an array.
\<close>

section \<open>Events\<close>






text \<open>
  What the callers give: reasons of the enumeration, C strings, and at most as many tasks as the record
  has slots for, when the dump of all tasks is built in.
\<close>

definition tasks_fit :: "fault_config \<Rightarrow> fault_env \<Rightarrow> bool" where
  "tasks_fit cfg env \<longleftrightarrow> env_ok env \<and>
     (DUMP_TASK_STACKS cfg \<longrightarrow> slots env False \<le> NL_FAULT_DIAGS_MAX_NUM_TASKS \<and> slots env True \<le> NL_FAULT_DIAGS_MAX_NUM_TASKS)"


text \<open>The record as a value of its C type.\<close>

definition record_typed :: "nl_reset_info_t \<Rightarrow> bool" where
  "record_typed ri \<longleftrightarrow> full_sized (fault_info ri) \<and> (ri_magic ri = 0 \<or> ri_magic ri = NL_RESET_INFO_MAGIC) \<and>
     good_reason (reset_reason ri) \<and>
     (fi_reason (fault_info ri) = NL_RESET_REASON_UNKNOWN \<or> IS_VALID_FAULT_REASON (fi_reason (fault_info ri)))"

definition device_typed :: "dump_state \<Rightarrow> bool" where
  "device_typed s \<longleftrightarrow> record_typed (rinfo s) \<and> length (s_backtrace s) = NL_FAULT_DIAGS_NUM_BT_ENTRIES"

section \<open>The operations on the record\<close>

lemma full_sized_reason [simp]: "full_sized (fi\<lparr>fi_reason := r\<rparr>) = full_sized fi"
  by (simp add: full_sized_def well_sized_def)

lemma full_sized_description: "full_sized fi \<Longrightarrow> full_sized (set_description d (fi\<lparr>fi_reason := r\<rparr>))"
  by (auto simp: set_description_def full_sized_def well_sized_def strncpy_def split: option.split)

lemma fi_reason_description [simp]: "fi_reason (set_description d fi) = fi_reason fi"
  by (simp add: set_description_def split: option.split)


lemma fi_reason_clear [simp]: "fi_reason (clear_fault_info fi) = NL_RESET_REASON_UNKNOWN"
  by (simp add: clear_fault_info_def)

lemma set_ram_typed:
  "record_typed ri \<Longrightarrow> good_reason r \<Longrightarrow> record_typed (nl_reset_info_set_ram r d override ri)"
  by (auto simp: record_typed_def nl_reset_info_set_ram_def Let_def full_sized_description)

lemma prepare_reset_ram_typed:
  "record_typed ri \<Longrightarrow> good_reason r \<Longrightarrow> record_typed (nl_reset_info_prepare_reset_ram r d ri)"
  "record_typed ri \<Longrightarrow> good_reason r \<Longrightarrow> record_typed (nl_reset_info_prepare_reset_bootloader_ram r d ri)"
  by (simp_all add: nl_reset_info_prepare_reset_ram_def nl_reset_info_prepare_reset_bootloader_ram_def set_ram_typed)



lemma good_unknown [simp]: "good_reason NL_RESET_REASON_UNKNOWN"
  by (simp add: valid_defs reason_defs)



section \<open>The crash dumps\<close>


lemma prepare_reset_typed:
  assumes "device_typed s" "good_reason r"
  shows "device_typed (prepare_reset cfg r s)"
proof -
  have "record_typed (g_reset_info (nl_reset_info_prepare_reset_temp r None
      \<lparr>g_reset_info = rinfo s, s_cached_reset_reason = 0, scheduler_suspended = 0, store = ()\<rparr>))"
    using assms by (auto simp: device_typed_def record_typed_def nl_reset_info_prepare_reset_temp_def nl_reset_info_set_temp_def
        set_description_def Let_def)
  with assms show ?thesis by (simp add: device_typed_def prepare_reset_def prepare_reset_ram_typed)
qed

lemma crash_dump_end_typed:
  "device_typed s \<Longrightarrow> good_reason r \<Longrightarrow> device_typed (snd (crash_dump_end env cfg r s))"
  by (simp add: crash_dump_end_def prepare_reset_typed) (simp add: device_typed_def)

text \<open>What keeps the type: the sizes, and the words of the record that the dump does not set itself.\<close>

definition same_reasons :: "dump_state \<Rightarrow> dump_state \<Rightarrow> bool" where
  "same_reasons s s' \<longleftrightarrow> ri_magic (rinfo s') = ri_magic (rinfo s) \<and> reset_reason (rinfo s') = reset_reason (rinfo s) \<and>
     fi_reason (dinfo s') = fi_reason (dinfo s)"

lemma device_typed_sized: "device_typed s \<Longrightarrow> sized s"
  by (simp add: device_typed_def record_typed_def sized_def dinfo_def NL_FAULT_DIAGS_NUM_BT_ENTRIES_def)

lemma device_typed_kept: "device_typed s \<Longrightarrow> sized s' \<Longrightarrow> same_reasons s s' \<Longrightarrow> device_typed s'"
  by (simp add: device_typed_def record_typed_def sized_def dinfo_def same_reasons_def NL_FAULT_DIAGS_NUM_BT_ENTRIES_def)

lemma device_typed_memory [simp]: "device_typed (s\<lparr>dmem := m\<rparr>) = device_typed s" "device_typed (call cs s) = device_typed s"
  by (simp_all add: device_typed_def)

context crash_parts
begin

text \<open>The parts of a dump complete from any typed state, whether they save the fault or not.\<close>

lemma run_typed:
  assumes "tasks_fit cfg env" "device_typed s" "name_ok name"
  shows "\<exists>s6. run env cfg F M r name stk d s = Some s6 \<and> device_typed s6"
proof (cases "save_fault_to_reset_info cfg s")
  case True
  have "DUMP_TASK_STACKS cfg \<longrightarrow> slots env (F \<noteq> M + 40) \<le> 8"
    using assms(1) by (cases "F = M + 40") (simp_all add: tasks_fit_def NL_FAULT_DIAGS_MAX_NUM_TASKS_def)
  with run_saves [OF _ device_typed_sized [OF assms(2)] assms(3) True] assms(1) obtain s6 where
    "run env cfg F M r name stk d s = Some s6" "sized s6" "same_reasons s s6"
    unfolding tasks_fit_def same_reasons_def by blast
  then show ?thesis using device_typed_kept [OF assms(2)] by blast
next
  case False
  from run_keeps [OF _ device_typed_sized [OF assms(2)] False] assms(1) obtain s6 where
    "run env cfg F M r name stk d s = Some s6" "sized s6" "rinfo s6 = rinfo s"
    unfolding tasks_fit_def by blast
  then show ?thesis using device_typed_kept [OF assms(2)] by (auto simp: same_reasons_def dinfo_def)
qed

lemma dump_typed:
  assumes "tasks_fit cfg env" "device_typed s" "name_ok name" "IS_VALID_FAULT_REASON r"
    and dump: "dump = do { s6 \<leftarrow> run env cfg F M r name stk d (call cs s); Some (crash_dump_end env cfg r s6) }"
  shows "\<exists>out s'. dump = Some (out, s') \<and> device_typed s'"
proof -
  have "device_typed (call cs s)" using assms(2) by simp
  from run_typed [OF assms(1) this assms(3)] obtain s6 where
    s6: "run env cfg F M r name stk d (call cs s) = Some s6" "device_typed s6" by blast
  obtain out s' where e: "crash_dump_end env cfg r s6 = (out, s')" by fastforce
  have "device_typed s'" using crash_dump_end_typed [OF s6(2), of r env cfg] assms(4) e by (simp add: good_reason_def)
  with s6(1) e show ?thesis by (simp add: dump)
qed

end









section \<open>Runs of events\<close>







section \<open>Properties\<close>


section \<open>Witnesses\<close>



end
