(* ===== verification/Interrupt_lock.thy ===== *)
theory Interrupt_lock
  imports NL_Prelude
begin

text \<open>
  Disabling interrupts, \<open>src/include/arch/nlplatform_arm_cm3.h\<close>: pairs of calls that nest, with a counter
  shared by the tasks and all interrupt handlers. On a Cortex-M3 a product may mask the interrupts up
  to a base priority instead of all; handlers above it still run, in the middle of the functions too.
  \<open>irq_step\<close> has the instructions of the running code one by one, handlers that preempt it, and their
  return; a smaller priority value is more urgent. (The header of the Cortex-M0 has the variant
  without a base priority.)

  The lemmas show that the counter and the mask agree in every reachable state, that no two pieces of
  code are between a pair of calls at a time, so that what they do there to shared data is as if it
  were done in one step, and what the functions are not made for: handlers above the base priority, and
  pairs of calls between setting and clearing the mask for the kernel. The locale
  \<open>critical_sections\<close> is what code that uses the functions promises, and what it gets.
\<close>

section \<open>The functions\<close>

text \<open>The mask registers of the core and the counter. \<open>b\<close> is the base priority, if the product defines one.\<close>

record irq_mask =
  primask :: bool
  basepri :: nat
  lock_count :: u8

definition set_mask :: "nat option \<Rightarrow> irq_mask \<Rightarrow> irq_mask" where
  "set_mask b m = (case b of Some v \<Rightarrow> m\<lparr>basepri := v\<rparr> | None \<Rightarrow> m\<lparr>primask := True\<rparr>)"

definition clear_mask :: "nat option \<Rightarrow> irq_mask \<Rightarrow> irq_mask" where
  "clear_mask b m = (case b of Some _ \<Rightarrow> m\<lparr>basepri := 0\<rparr> | None \<Rightarrow> m\<lparr>primask := False\<rparr>)"

definition nlplatform_interrupt_disable :: "nat option \<Rightarrow> irq_mask \<Rightarrow> irq_mask" where
  "nlplatform_interrupt_disable b m = (let m1 = set_mask b m in m1\<lparr>lock_count := lock_count m1 + 1\<rparr>)"

definition nlplatform_interrupt_enable :: "nat option \<Rightarrow> irq_mask \<Rightarrow> irq_mask option" where
  "nlplatform_interrupt_enable b m =
     (if lock_count m > 0
      then let m1 = m\<lparr>lock_count := lock_count m - 1\<rparr>
           in Some (if lock_count m1 = 0 then clear_mask b m1 else m1)
      else None)"

text \<open>For FreeRTOS, with a base priority.\<close>

definition nlplatform_set_interrupt_mask :: "nat \<Rightarrow> irq_mask \<Rightarrow> nat \<times> irq_mask" where
  "nlplatform_set_interrupt_mask v m = (basepri m, m\<lparr>basepri := v\<rparr>)"

definition nlplatform_clear_interrupt_mask :: "nat \<Rightarrow> irq_mask \<Rightarrow> irq_mask" where
  "nlplatform_clear_interrupt_mask base_pri_value m = m\<lparr>basepri := base_pri_value\<rparr>"

text \<open>An interrupt of priority \<open>q\<close> is held back.\<close>

definition masked :: "irq_mask \<Rightarrow> nat \<Rightarrow> bool" where
  "masked m q \<longleftrightarrow> primask m \<or> (basepri m \<noteq> 0 \<and> basepri m \<le> q)"

section \<open>Code that is interrupted\<close>

text \<open>
  What code does, as far as interrupts and the shared data \<open>'d\<close> are concerned, and the instructions of
  the calls: the counter is loaded into a register and stored again, and the kernel keeps the old
  \<open>BASEPRI\<close> in a register while its own mask is set.
\<close>

datatype 'd call = Disable | Enable | Set_mask | Clear_mask | Work | Update "'d \<Rightarrow> 'd"

record registers =
  count :: u8
  base_pri :: nat

fun instructions :: "'d call \<Rightarrow> nat" where
  "instructions Disable = 3"
| "instructions Enable = 3"
| "instructions Set_mask = 2"
| "instructions Clear_mask = 1"
| "instructions Work = 1"
| "instructions (Update f) = 1"

fun instruction :: "nat option \<Rightarrow> 'd call \<Rightarrow> nat \<Rightarrow> registers \<Rightarrow> irq_mask \<Rightarrow> 'd \<Rightarrow> (registers \<times> irq_mask \<times> 'd) option" where
  "instruction b Disable 0 r m d = Some (r, set_mask b m, d)"
| "instruction b Disable (Suc 0) r m d = Some (r\<lparr>count := lock_count m\<rparr>, m, d)"
| "instruction b Disable (Suc (Suc _)) r m d = Some (r, m\<lparr>lock_count := count r + 1\<rparr>, d)"
| "instruction b Enable 0 r m d = (if lock_count m > 0 then Some (r\<lparr>count := lock_count m\<rparr>, m, d) else None)"
| "instruction b Enable (Suc 0) r m d = Some (r, m\<lparr>lock_count := count r - 1\<rparr>, d)"
| "instruction b Enable (Suc (Suc _)) r m d = Some (r, if lock_count m = 0 then clear_mask b m else m, d)"
| "instruction b Set_mask 0 r m d = (if b = None then None else Some (r\<lparr>base_pri := basepri m\<rparr>, m, d))"
| "instruction b Set_mask (Suc _) r m d = (if b = None then None else Some (r, set_mask b m, d))"
| "instruction b Clear_mask _ r m d = (if b = None then None else Some (r, nlplatform_clear_interrupt_mask (base_pri r) m, d))"
| "instruction b Work _ r m d = Some (r, m, d)"
| "instruction b (Update f) _ r m d = Some (r, m, f d)"

text \<open>
  A task or a handler: its exception number, its priority, the calls that it will still make, the next
  instruction of the first of them, and its registers. The stack has the running code first.
\<close>

record 'd irq_context =
  exception :: nat
  priority :: nat
  code :: "'d call list"
  pc :: nat
  register :: registers

record 'd irq_state =
  irq :: irq_mask
  contexts :: "'d irq_context list"
  shared :: 'd

definition nlplatform_in_interrupt :: "'d irq_state \<Rightarrow> bool" where
  "nlplatform_in_interrupt s \<longleftrightarrow> exception (hd (contexts s)) \<noteq> 0"

definition advance :: "'d call \<Rightarrow> 'd call list \<Rightarrow> registers \<Rightarrow> 'd irq_context \<Rightarrow> 'd irq_context" where
  "advance k ks r c =
     (if Suc (pc c) = instructions k then c\<lparr>code := ks, pc := 0, register := r\<rparr> else c\<lparr>pc := Suc (pc c), register := r\<rparr>)"

text \<open>\<open>prog q ks\<close>: the code \<open>ks\<close> may run at the priority \<open>q\<close>.\<close>

inductive irq_step :: "nat option \<Rightarrow> (nat \<Rightarrow> 'd call list \<Rightarrow> bool) \<Rightarrow> 'd irq_state \<Rightarrow> 'd irq_state \<Rightarrow> bool" for b prog where
  executes: "contexts s = c # cs \<Longrightarrow> code c = k # ks \<Longrightarrow>
    instruction b k (pc c) (register c) (irq s) (shared s) = Some (r, m, d) \<Longrightarrow>
    irq_step b prog s \<lparr>irq = m, contexts = advance k ks r c # cs, shared = d\<rparr>"
| preempts: "contexts s = c # cs \<Longrightarrow> q < priority c \<Longrightarrow> \<not> masked (irq s) q \<Longrightarrow> 0 < e \<Longrightarrow> prog q ks \<Longrightarrow>
    irq_step b prog s (s\<lparr>contexts := \<lparr>exception = e, priority = q, code = ks, pc = 0, register = r\<rparr> # c # cs\<rparr>)"
| returns: "contexts s = c # c' # cs \<Longrightarrow> code c = [] \<Longrightarrow> irq_step b prog s (s\<lparr>contexts := c' # cs\<rparr>)"

text \<open>A task begins, with interrupts enabled.\<close>

definition irq_start :: "(nat \<Rightarrow> 'd call list \<Rightarrow> bool) \<Rightarrow> 'd irq_state \<Rightarrow> bool" where
  "irq_start prog s \<longleftrightarrow> irq s = \<lparr>primask = False, basepri = 0, lock_count = 0\<rparr> \<and>
     (\<exists>c. contexts s = [c] \<and> exception c = 0 \<and> pc c = 0 \<and> prog (priority c) (code c))"

text \<open>
  Where code is: between \<open>n\<close> pairs, or there with the kernel's mask set. Calls are paired, the nesting fits
  the counter, and between setting and clearing the kernel's mask there are no pairs.
\<close>

datatype place = is_pairs: Pairs (pairs: nat) | Masked (pairs: nat)

fun closes :: "'d call list \<Rightarrow> place \<Rightarrow> bool" where
  "closes [] w \<longleftrightarrow> w = Pairs 0"
| "closes (Disable # ks) w \<longleftrightarrow> is_pairs w \<and> pairs w < 255 \<and> closes ks (Pairs (Suc (pairs w)))"
| "closes (Enable # ks) w \<longleftrightarrow> is_pairs w \<and> 0 < pairs w \<and> closes ks (Pairs (pairs w - 1))"
| "closes (Set_mask # ks) w \<longleftrightarrow> is_pairs w \<and> closes ks (Masked (pairs w))"
| "closes (Clear_mask # ks) w \<longleftrightarrow> \<not> is_pairs w \<and> closes ks (Pairs (pairs w))"
| "closes (Work # ks) w \<longleftrightarrow> closes ks w"
| "closes (Update f # ks) w \<longleftrightarrow> closes ks w"

text \<open>
  What is done between entering and leaving keeps the invariant \<open>I\<close> of the shared data, and so does each
  instruction outside; inside, \<open>d\<close> is what the data is now.
\<close>

fun keeps :: "('d \<Rightarrow> bool) \<Rightarrow> 'd call list \<Rightarrow> place \<Rightarrow> 'd \<Rightarrow> bool" where
  "keeps I [] w d \<longleftrightarrow> True"
| "keeps I (Disable # ks) w d \<longleftrightarrow>
     (if w = Pairs 0 then \<forall>d'. I d' \<longrightarrow> keeps I ks (Pairs 1) d' else keeps I ks (Pairs (Suc (pairs w))) d)"
| "keeps I (Enable # ks) w d \<longleftrightarrow> (if pairs w = 1 then I d else True) \<and> keeps I ks (Pairs (pairs w - 1)) d"
| "keeps I (Set_mask # ks) w d \<longleftrightarrow>
     (if w = Pairs 0 then \<forall>d'. I d' \<longrightarrow> keeps I ks (Masked 0) d' else keeps I ks (Masked (pairs w)) d)"
| "keeps I (Clear_mask # ks) w d \<longleftrightarrow> (if pairs w = 0 then I d else True) \<and> keeps I ks (Pairs (pairs w)) d"
| "keeps I (Work # ks) w d \<longleftrightarrow> keeps I ks w d"
| "keeps I (Update f # ks) w d \<longleftrightarrow>
     (if w = Pairs 0 then (\<forall>d'. I d' \<longrightarrow> I (f d')) \<and> keeps I ks w d else keeps I ks w (f d))"

definition urgent :: "nat option \<Rightarrow> nat \<Rightarrow> bool" where
  "urgent b q \<longleftrightarrow> (case b of None \<Rightarrow> False | Some v \<Rightarrow> q < v)"

text \<open>The instructions of a call, undisturbed, are the call.\<close>

lemma disable_instructions:
  "do { (r, m, d) \<leftarrow> instruction b Disable 0 r m d; (r, m, d) \<leftarrow> instruction b Disable 1 r m d; instruction b Disable 2 r m d } =
     Some (r\<lparr>count := lock_count m\<rparr>, nlplatform_interrupt_disable b m, d)"
  by (simp add: nlplatform_interrupt_disable_def set_mask_def numeral_2_eq_2 split: option.split)

lemma enable_instructions:
  "do { (r, m, d) \<leftarrow> instruction b Enable 0 r m d; (r, m, d) \<leftarrow> instruction b Enable 1 r m d; instruction b Enable 2 r m d } =
     map_option (\<lambda>m'. (r\<lparr>count := lock_count m\<rparr>, m', d)) (nlplatform_interrupt_enable b m)"
  by (simp add: nlplatform_interrupt_enable_def numeral_2_eq_2)

lemma set_mask_instructions:
  "do { (r, m, d) \<leftarrow> instruction (Some v) Set_mask 0 r m d; instruction (Some v) Set_mask 1 r m d } =
     Some (r\<lparr>base_pri := fst (nlplatform_set_interrupt_mask v m)\<rparr>, snd (nlplatform_set_interrupt_mask v m), d)"
  by (simp add: nlplatform_set_interrupt_mask_def set_mask_def)

section \<open>The invariant\<close>

text \<open>
  \<open>idle\<close> code is outside: the kernel's mask may be read but is not set. The \<open>holder\<close> is inside, or on its
  way in or out: the counter and the saved mask say where.
\<close>

definition idle :: "'d irq_context \<Rightarrow> bool" where
  "idle c \<longleftrightarrow> closes (code c) (Pairs 0) \<and>
     (pc c = 0 \<or> pc c = 1 \<and> base_pri (register c) = 0 \<and> (\<exists>ks. code c = Set_mask # ks))"

definition sound :: "('d \<Rightarrow> bool) \<Rightarrow> 'd irq_context \<Rightarrow> bool" where
  "sound I c \<longleftrightarrow> (\<forall>d. keeps I (code c) (Pairs 0) d)"

definition mask_is :: "nat option \<Rightarrow> bool \<Rightarrow> irq_mask \<Rightarrow> bool" where
  "mask_is b on m \<longleftrightarrow> primask m = (on \<and> b = None) \<and> basepri m = (case b of Some v \<Rightarrow> if on then v else 0 | None \<Rightarrow> 0)"

definition counted :: "irq_mask \<Rightarrow> place \<Rightarrow> 'd irq_context \<Rightarrow> bool" where
  "counted m w c \<longleftrightarrow> (case w of
       Masked n \<Rightarrow> pc c = 0 \<and> unat (lock_count m) = n \<and> base_pri (register c) = (if n = 0 then 0 else basepri m)
     | Pairs n \<Rightarrow> (case code c of
           Disable # _ \<Rightarrow> unat (lock_count m) = n \<and>
             (if pc c = 0 then 0 < n else pc c = 1 \<or> pc c = 2 \<and> count (register c) = lock_count m)
         | Enable # _ \<Rightarrow> (if pc c = 2 then unat (lock_count m) = n - 1
                          else unat (lock_count m) = n \<and> (pc c = 0 \<or> pc c = 1 \<and> count (register c) = lock_count m))
         | Set_mask # _ \<Rightarrow> 0 < n \<and> unat (lock_count m) = n \<and> (pc c = 0 \<or> pc c = 1 \<and> base_pri (register c) = basepri m)
         | _ \<Rightarrow> pc c = 0 \<and> 0 < n \<and> unat (lock_count m) = n))"

definition holder :: "('d \<Rightarrow> bool) \<Rightarrow> irq_mask \<Rightarrow> 'd \<Rightarrow> 'd irq_context \<Rightarrow> bool" where
  "holder I m d c \<longleftrightarrow> (\<exists>w. pairs w \<le> 255 \<and> closes (code c) w \<and> keeps I (code c) w d \<and> (w = Pairs 0 \<longrightarrow> I d) \<and> counted m w c)"

definition modest :: "nat option \<Rightarrow> 'd irq_context \<Rightarrow> bool" where
  "modest b c \<longleftrightarrow> (urgent b (priority c) \<longrightarrow> set (code c) \<subseteq> {Work}) \<and> (b = None \<longrightarrow> Set_mask \<notin> set (code c) \<and> Clear_mask \<notin> set (code c))"

definition irq_inv :: "nat option \<Rightarrow> ('d \<Rightarrow> bool) \<Rightarrow> 'd irq_state \<Rightarrow> bool" where
  "irq_inv b I s \<longleftrightarrow> list_all (modest b) (contexts s) \<and> contexts s \<noteq> [] \<and>
     (list_all (\<lambda>c. idle c \<and> sound I c) (contexts s) \<and> mask_is b False (irq s) \<and> lock_count (irq s) = 0 \<and> I (shared s) \<or>
      (\<exists>tops c rest. contexts s = tops @ c # rest \<and> list_all (\<lambda>d. (idle d \<and> sound I d) \<and> urgent b (priority d)) tops \<and>
         holder I (irq s) (shared s) c \<and> list_all (\<lambda>c. idle c \<and> sound I c) rest \<and> mask_is b True (irq s)))"

lemma keeps_outside: "closes ks (Pairs 0) \<Longrightarrow> keeps I ks (Pairs 0) d \<Longrightarrow> keeps I ks (Pairs 0) d'"
proof (induction ks)
  case (Cons k ks)
  then show ?case by (cases k) auto
qed simp

lemma closes_append: "closes ks w \<Longrightarrow> closes ks' (Pairs 0) \<Longrightarrow> closes (ks @ ks') w"
proof (induction ks arbitrary: w)
  case (Cons k ks)
  then show ?case by (cases k) auto
qed simp

lemma keeps_append: "closes ks w \<Longrightarrow> keeps I ks w d \<Longrightarrow> (\<And>d. keeps I ks' (Pairs 0) d) \<Longrightarrow> keeps I (ks @ ks') w d"
proof (induction ks arbitrary: w d)
  case (Cons k ks)
  then show ?case by (cases k) (auto split: if_splits)
qed simp

lemma holderI:
  "closes (code c) w \<Longrightarrow> keeps I (code c) w d \<Longrightarrow> pairs w \<le> 255 \<Longrightarrow> (w = Pairs 0 \<Longrightarrow> I d) \<Longrightarrow> counted m w c \<Longrightarrow> holder I m d c"
  unfolding holder_def by blast

lemma holder_inside:
  assumes "closes (code c) (Pairs n)" "0 < n" "n \<le> 255" "pc c = 0" "unat (lock_count m) = n" "keeps I (code c) (Pairs n) d"
  shows "holder I m d c"
proof (cases "code c")
  case (Cons k ks)
  with assms have "counted m (Pairs n) c" by (cases k) (auto simp: counted_def)
  with assms show ?thesis by (intro holderI [where w = "Pairs n"]) simp_all
qed (use assms in simp)

lemma holder_masked:
  assumes "closes (code c) (Masked n)" "n \<le> 255" "pc c = 0" "unat (lock_count m) = n"
    and "base_pri (register c) = (if n = 0 then 0 else basepri m)" "keeps I (code c) (Masked n) d"
  shows "holder I m d c"
  using assms by (intro holderI [where w = "Masked n"]) (simp_all add: counted_def)

text \<open>The outcome of an instruction, for the code that runs it: inside with the mask set, or outside without it.\<close>

definition inside :: "nat option \<Rightarrow> ('d \<Rightarrow> bool) \<Rightarrow> 'd irq_context \<Rightarrow> irq_mask \<Rightarrow> 'd \<Rightarrow> bool" where
  "inside b I c m d \<longleftrightarrow> holder I m d c \<and> mask_is b True m"

definition outside :: "nat option \<Rightarrow> ('d \<Rightarrow> bool) \<Rightarrow> 'd irq_context \<Rightarrow> irq_mask \<Rightarrow> 'd \<Rightarrow> bool" where
  "outside b I c m d \<longleftrightarrow> (idle c \<and> sound I c) \<and> mask_is b False m \<and> lock_count m = 0 \<and> I d"

lemma idle_no_enable: "idle c \<Longrightarrow> code c = k # ks \<Longrightarrow> k \<noteq> Enable \<and> k \<noteq> Clear_mask"
  by (auto simp: idle_def)

lemma modest_works: "modest b c \<Longrightarrow> urgent b (priority c) \<Longrightarrow> code c = k # ks \<Longrightarrow> k = Work"
  by (auto simp: modest_def)

lemma modest_advance: "modest b c \<Longrightarrow> code c = k # ks \<Longrightarrow> modest b (advance k ks r c)"
  by (auto simp: modest_def advance_def)

lemma work_stays:
  assumes "idle c" "sound I c" "code c = Work # ks" "instruction b Work (pc c) (register c) m d = Some (r, m', d')"
  shows "idle (advance Work ks r c)" "sound I (advance Work ks r c)" "m' = m" "d' = d"
  using assms by (auto simp: idle_def sound_def advance_def)

lemma idle_enters:
  assumes "idle c" "sound I c" "code c = Disable # ks" "lock_count m = 0" "I d" "mask_is b False m"
    and "instruction b Disable (pc c) (register c) m d = Some (r, m', d')"
  shows "inside b I (advance Disable ks r c) m' d'"
proof -
  have c: "pc c = 0" "closes (code c) (Pairs 0)" "keeps I (code c) (Pairs 0) d" using assms(1-3) by (auto simp: idle_def sound_def)
  then have i: "m' = set_mask b m" "d' = d" "advance Disable ks r c = c\<lparr>pc := 1, register := r\<rparr>"
    using assms(7) by (simp_all add: advance_def)
  have "lock_count m' = 0" using assms(4) i(1) by (simp add: set_mask_def split: option.split)
  then have "counted m' (Pairs 0) (c\<lparr>pc := 1, register := r\<rparr>)" using assms(3) by (simp add: counted_def)
  with c assms(5) have "holder I m' d' (advance Disable ks r c)"
    unfolding i(2,3) by (intro holderI [where w = "Pairs 0"]) simp_all
  moreover have "mask_is b True m'" using assms(6) by (auto simp: i mask_is_def set_mask_def split: option.splits)
  ultimately show ?thesis by (simp add: inside_def)
qed

lemma idle_masks:
  assumes "idle c" "sound I c" "code c = Set_mask # ks" "lock_count m = 0" "I d" "mask_is b False m"
    and "instruction b Set_mask (pc c) (register c) m d = Some (r, m', d')"
  shows "inside b I (advance Set_mask ks r c) m' d' \<or> outside b I (advance Set_mask ks r c) m' d'"
proof -
  obtain v where b: "b = Some v" using assms(7) by (cases b; cases "pc c") auto
  have c: "closes ks (Masked 0)" "keeps I ks (Masked 0) d" using assms(1-3,5) by (auto simp: idle_def sound_def)
  consider "pc c = 0" | "pc c = 1" "base_pri (register c) = 0" using assms(1) by (auto simp: idle_def)
  then show ?thesis
  proof cases
    case 1
    then have i: "m' = m" "d' = d" "advance Set_mask ks r c = c\<lparr>pc := 1, register := r\<rparr>" "base_pri r = 0"
      using assms(6,7) b by (auto simp: advance_def mask_is_def)
    then have "idle (advance Set_mask ks r c)" "sound I (advance Set_mask ks r c)"
      using assms(1-3) by (auto simp: idle_def sound_def)
    with i assms(4-6) show ?thesis by (simp add: outside_def)
  next
    case 2
    then have i: "m' = set_mask b m" "d' = d" "advance Set_mask ks r c = c\<lparr>code := ks, pc := 0, register := r\<rparr>" "r = register c"
      using assms(7) b by (auto simp: advance_def)
    have "holder I m' d' (advance Set_mask ks r c)"
      unfolding i(1-3) by (rule holder_masked [where n = 0]) (use c 2 i(4) assms(4) b in \<open>simp_all add: set_mask_def\<close>)
    moreover have "mask_is b True m'" using assms(6) by (auto simp: i mask_is_def set_mask_def split: option.splits)
    ultimately show ?thesis by (simp add: inside_def)
  qed
qed

lemma update_outside:
  assumes "idle c" "sound I c" "code c = Update f # ks" "lock_count m = 0" "I d" "mask_is b False m"
    and "instruction b (Update f) (pc c) (register c) m d = Some (r, m', d')"
  shows "outside b I (advance (Update f) ks r c) m' d'"
proof -
  have "idle (advance (Update f) ks r c)" "sound I (advance (Update f) ks r c)" "m' = m" "I d'"
    using assms(1-3,5,7) by (auto simp: idle_def sound_def advance_def)
  with assms(4,6) show ?thesis by (simp add: outside_def)
qed

lemma idle_steps:
  assumes "idle c" "sound I c" "code c = k # ks" "lock_count m = 0" "I d" "mask_is b False m"
    and "instruction b k (pc c) (register c) m d = Some (r, m', d')"
  shows "inside b I (advance k ks r c) m' d' \<or> outside b I (advance k ks r c) m' d'"
proof (cases k)
  case Disable
  then show ?thesis using idle_enters [OF assms(1,2) _ assms(4-6)] assms(3,7) by simp
next
  case Set_mask
  then show ?thesis using idle_masks [OF assms(1,2) _ assms(4-6)] assms(3,7) by simp
next
  case Work
  with work_stays [OF assms(1,2)] assms(3-7) show ?thesis by (simp add: outside_def)
next
  case (Update f)
  with update_outside [OF assms(1,2) assms(3) [unfolded Update] assms(4-6) assms(7) [unfolded Update]]
  show ?thesis by simp
qed (use idle_no_enable [OF assms(1,3)] in simp_all)

text \<open>Where the holder may be when it makes a call.\<close>

lemma holder_at:
  assumes "holder I m d c" "code c = k # ks"
  obtains w where "pairs w \<le> 255" "closes (k # ks) w" "keeps I (k # ks) w d" "w = Pairs 0 \<longrightarrow> I d" "counted m w c"
  using assms unfolding holder_def by auto

lemma holder_disable:
  assumes h: "holder I m d c" and m: "mask_is b True m" and c: "code c = Disable # ks"
    and i: "instruction b Disable (pc c) (register c) m d = Some (r, m', d')"
  shows "inside b I (advance Disable ks r c) m' d'"
proof -
  obtain w where w: "pairs w \<le> 255" "closes (Disable # ks) w" "keeps I (Disable # ks) w d" "w = Pairs 0 \<longrightarrow> I d" "counted m w c"
    using holder_at [OF h c] .
  then obtain n where n: "w = Pairs n" by (cases w) auto
  consider "pc c = 0" | "pc c = 1" | "pc c = 2" "count (register c) = lock_count m"
    using w(5) c n by (auto simp: counted_def split: if_splits)
  then show ?thesis
  proof cases
    case 1
    then have a: "advance Disable ks r c = c\<lparr>pc := 1, register := r\<rparr>" "m' = set_mask b m" "d' = d"
      using i by (simp_all add: advance_def)
    have m': "lock_count m' = lock_count m" "mask_is b True m'"
      using m a(2) by (auto simp: set_mask_def mask_is_def split: option.splits)
    then have "counted m' w (advance Disable ks r c)" using w(5) c n 1 unfolding a(1) by (simp add: counted_def)
    then have "holder I m' d' (advance Disable ks r c)"
      using w c unfolding a(1) by (intro holderI [where w = w]) (simp_all add: a(3))
    with m' show ?thesis by (simp add: inside_def)
  next
    case 2
    then have a: "advance Disable ks r c = c\<lparr>pc := 2, register := r\<rparr>" "m' = m" "d' = d" "count r = lock_count m"
      using i by (auto simp: advance_def numeral_2_eq_2)
    have "counted m w (c\<lparr>pc := 2, register := r\<rparr>)" using w(5) c n 2 a(4) by (simp add: counted_def)
    then have "holder I m d (c\<lparr>pc := 2, register := r\<rparr>)"
      using w c by (intro holderI [where w = w]) simp_all
    with m show ?thesis unfolding a by (simp add: inside_def)
  next
    case 3
    then have a: "advance Disable ks r c = c\<lparr>code := ks, pc := 0, register := r\<rparr>" "m' = m\<lparr>lock_count := lock_count m + 1\<rparr>" "d' = d"
      using i by (auto simp: advance_def numeral_2_eq_2)
    have "unat (lock_count m + 1) = Suc n"
      using w(1,2,5) c 3 n by (simp add: unat_word_ariths counted_def)
    then have "holder I m' d' (advance Disable ks r c)"
      unfolding a using w n by (intro holder_inside [where n = "Suc n"]) (auto split: if_splits)
    with m a(2) show ?thesis by (simp add: inside_def mask_is_def)
  qed
qed

lemma holder_enable:
  assumes h: "holder I m d c" and m: "mask_is b True m" and c: "code c = Enable # ks"
    and i: "instruction b Enable (pc c) (register c) m d = Some (r, m', d')"
  shows "inside b I (advance Enable ks r c) m' d' \<or> outside b I (advance Enable ks r c) m' d'"
proof -
  obtain w where w: "pairs w \<le> 255" "closes (Enable # ks) w" "keeps I (Enable # ks) w d" "w = Pairs 0 \<longrightarrow> I d" "counted m w c"
    using holder_at [OF h c] .
  then obtain n where n: "w = Pairs n" "0 < n" by (cases w) auto
  consider "pc c = 0" | "pc c = 1" "count (register c) = lock_count m" | "pc c = 2"
    using w(5) c n by (auto simp: counted_def split: if_splits)
  then show ?thesis
  proof cases
    case 1
    then have a: "advance Enable ks r c = c\<lparr>pc := 1, register := r\<rparr>" "m' = m" "d' = d" "count r = lock_count m"
      using i by (auto simp: advance_def split: if_splits)
    have "counted m w (c\<lparr>pc := 1, register := r\<rparr>)" using w(5) c n 1 a(4) by (simp add: counted_def)
    then have "holder I m d (c\<lparr>pc := 1, register := r\<rparr>)"
      using w c by (intro holderI [where w = w]) simp_all
    with m show ?thesis unfolding a by (simp add: inside_def)
  next
    case 2
    then have k: "unat (lock_count m) = n" using w(5) c n by (simp add: counted_def)
    then have "unat (lock_count m - 1) = n - 1" using n(2) by (auto simp: unat_minus_one unat_gt_0 word_greater_zero_iff)
    moreover have a: "advance Enable ks r c = c\<lparr>pc := 2, register := r\<rparr>" "m' = m\<lparr>lock_count := lock_count m - 1\<rparr>" "d' = d"
      using i 2 by (auto simp: advance_def numeral_2_eq_2)
    ultimately have "counted m' w (c\<lparr>pc := 2, register := r\<rparr>)" using c n by (simp add: counted_def)
    then have "holder I m' d (c\<lparr>pc := 2, register := r\<rparr>)"
      using w c by (intro holderI [where w = w]) simp_all
    moreover have "mask_is b True m'" using m a(2) by (simp add: mask_is_def)
    ultimately show ?thesis unfolding a(1,3) by (simp add: inside_def)
  next
    case 3
    then have k: "unat (lock_count m) = n - 1" using w(5) c n by (simp add: counted_def)
    have a: "advance Enable ks r c = c\<lparr>code := ks, pc := 0, register := r\<rparr>"
      "m' = (if lock_count m = 0 then clear_mask b m else m)" "d' = d"
      using i 3 by (auto simp: advance_def numeral_2_eq_2)
    show ?thesis
    proof (cases "n = 1")
      case True
      then have z: "lock_count m = 0" using k by (simp add: unat_eq_0)
      have "closes ks (Pairs 0)" "keeps I ks (Pairs 0) d" "I d" using w(2,3) n True by simp_all
      then have "idle (advance Enable ks r c)" "sound I (advance Enable ks r c)" "I d'"
        unfolding a using keeps_outside [of ks I d] by (auto simp: idle_def sound_def)
      moreover have "mask_is b False m'" "lock_count m' = 0"
        using m a(2) z by (auto simp: mask_is_def clear_mask_def split: option.splits)
      ultimately show ?thesis by (simp add: outside_def)
    next
      case False
      then have "lock_count m \<noteq> 0" using k n by (auto simp: unat_eq_0)
      moreover have "holder I m d (advance Enable ks r c)"
        unfolding a(1) using k n w False by (intro holder_inside [where n = "n - 1"]) auto
      ultimately show ?thesis using m a by (simp add: inside_def)
    qed
  qed
qed

lemma holder_set_mask:
  assumes h: "holder I m d c" and m: "mask_is b True m" and c: "code c = Set_mask # ks"
    and i: "instruction b Set_mask (pc c) (register c) m d = Some (r, m', d')"
  shows "inside b I (advance Set_mask ks r c) m' d'"
proof -
  obtain v where b: "b = Some v" using i by (cases b; cases "pc c") auto
  obtain w where w: "pairs w \<le> 255" "closes (Set_mask # ks) w" "keeps I (Set_mask # ks) w d" "w = Pairs 0 \<longrightarrow> I d" "counted m w c"
    using holder_at [OF h c] .
  then obtain n where n: "w = Pairs n" by (cases w) auto
  then have k: "0 < n" "unat (lock_count m) = n" using w(5) c by (simp_all add: counted_def)
  consider "pc c = 0" | "pc c = 1" "base_pri (register c) = basepri m"
    using w(5) c n by (auto simp: counted_def)
  then show ?thesis
  proof cases
    case 1
    then have a: "advance Set_mask ks r c = c\<lparr>pc := 1, register := r\<rparr>" "m' = m" "d' = d" "base_pri r = basepri m"
      using i b by (auto simp: advance_def)
    have "counted m w (c\<lparr>pc := 1, register := r\<rparr>)" using k c n a(4) by (simp add: counted_def)
    then have "holder I m d (c\<lparr>pc := 1, register := r\<rparr>)"
      using w c by (intro holderI [where w = w]) simp_all
    with m show ?thesis unfolding a by (simp add: inside_def)
  next
    case 2
    then have a: "advance Set_mask ks r c = c\<lparr>code := ks, pc := 0, register := r\<rparr>" "m' = set_mask b m" "d' = d" "r = register c"
      using i b by (auto simp: advance_def)
    moreover have "set_mask b m = m" using m b by (simp add: mask_is_def set_mask_def)
    ultimately have "holder I m' d' (advance Set_mask ks r c)"
      using w k n 2 by (intro holder_masked [where n = n]) simp_all
    with m a(2) \<open>set_mask b m = m\<close> show ?thesis by (simp add: inside_def)
  qed
qed

lemma holder_clear_mask:
  assumes h: "holder I m d c" and m: "mask_is b True m" and c: "code c = Clear_mask # ks"
    and i: "instruction b Clear_mask (pc c) (register c) m d = Some (r, m', d')"
  shows "inside b I (advance Clear_mask ks r c) m' d' \<or> outside b I (advance Clear_mask ks r c) m' d'"
proof -
  obtain v where b: "b = Some v" using i by (cases b) auto
  obtain w where w: "pairs w \<le> 255" "closes (Clear_mask # ks) w" "keeps I (Clear_mask # ks) w d" "w = Pairs 0 \<longrightarrow> I d" "counted m w c"
    using holder_at [OF h c] .
  then obtain n where n: "w = Masked n" by (cases w) auto
  then have k: "pc c = 0" "unat (lock_count m) = n" "base_pri (register c) = (if n = 0 then 0 else basepri m)"
    using w(5) by (simp_all add: counted_def)
  have a: "advance Clear_mask ks r c = c\<lparr>code := ks, pc := 0, register := r\<rparr>" "d' = d"
    "m' = m\<lparr>basepri := base_pri (register c)\<rparr>"
    using i b k(1) by (auto simp: advance_def nlplatform_clear_interrupt_mask_def)
  show ?thesis
  proof (cases "n = 0")
    case True
    have "closes ks (Pairs 0)" "keeps I ks (Pairs 0) d" "I d" using w(2,3) n True by simp_all
    then have "idle (advance Clear_mask ks r c)" "sound I (advance Clear_mask ks r c)" "I d'"
      unfolding a using keeps_outside [of ks I d] by (auto simp: idle_def sound_def)
    moreover have "mask_is b False m'" "lock_count m' = 0"
      using m a(3) k True b by (simp_all add: mask_is_def unat_eq_0)
    ultimately show ?thesis by (simp add: outside_def)
  next
    case False
    then have "m' = m" using a(3) k(3) by simp
    moreover have "holder I m d (advance Clear_mask ks r c)"
      unfolding a(1) using k n w False by (intro holder_inside [where n = n]) auto
    ultimately show ?thesis using m a(2) by (simp add: inside_def)
  qed
qed

lemma holder_stays:
  assumes h: "holder I m d c" and m: "mask_is b True m" and c: "code c = k # ks"
    and k: "k = Work \<and> f = id \<or> k = Update f" and i: "instruction b k (pc c) (register c) m d = Some (r, m', d')"
  shows "inside b I (advance k ks r c) m' d'"
proof -
  obtain w where w: "pairs w \<le> 255" "closes (k # ks) w" "keeps I (k # ks) w d" "w = Pairs 0 \<longrightarrow> I d" "counted m w c"
    using holder_at [OF h c] .
  have a: "advance k ks r c = c\<lparr>code := ks, pc := 0, register := register c\<rparr>" "m' = m" "d' = f d"
    using i k w(5) c by (auto simp: advance_def counted_def split: place.splits)
  have "holder I m' d' (advance k ks r c)"
  proof (cases w)
    case (Pairs n)
    then have "0 < n" "unat (lock_count m) = n" using w(5) c k by (auto simp: counted_def)
    then show ?thesis unfolding a using w k Pairs by (intro holder_inside [where n = n]) (auto split: if_splits)
  next
    case (Masked n)
    then show ?thesis unfolding a using w k by (intro holder_masked [where n = n]) (auto simp: counted_def)
  qed
  with m a(2) show ?thesis by (simp add: inside_def)
qed

lemma holder_steps:
  assumes "holder I m d c" "mask_is b True m" "code c = k # ks" "instruction b k (pc c) (register c) m d = Some (r, m', d')"
  shows "inside b I (advance k ks r c) m' d' \<or> outside b I (advance k ks r c) m' d'"
proof (cases k)
  case Disable
  then show ?thesis using holder_disable [OF assms(1,2)] assms(3,4) by simp
next
  case Enable
  then show ?thesis using holder_enable [OF assms(1,2)] assms(3,4) by simp
next
  case Set_mask
  then show ?thesis using holder_set_mask [OF assms(1,2)] assms(3,4) by simp
next
  case Clear_mask
  then show ?thesis using holder_clear_mask [OF assms(1,2)] assms(3,4) by simp
next
  case Work
  with holder_stays [OF assms(1-3) _ assms(4), where f = id] show ?thesis by simp
next
  case (Update f)
  with holder_stays [OF assms(1-3) _ assms(4), where f = f] show ?thesis by simp
qed

lemma irq_invE [consumes 1, case_names none one]:
  assumes "irq_inv b I s"
  obtains (none) "list_all (\<lambda>c. idle c \<and> sound I c) (contexts s)" "mask_is b False (irq s)" "lock_count (irq s) = 0" "I (shared s)"
    | (one) tops h rest where "contexts s = tops @ h # rest" "list_all (\<lambda>d. (idle d \<and> sound I d) \<and> urgent b (priority d)) tops"
        "holder I (irq s) (shared s) h" "list_all (\<lambda>c. idle c \<and> sound I c) rest" "mask_is b True (irq s)"
  using assms unfolding irq_inv_def by blast

lemma irq_inv_one:
  assumes "list_all (modest b) (contexts s)" "contexts s = tops @ h # rest"
    "list_all (\<lambda>d. (idle d \<and> sound I d) \<and> urgent b (priority d)) tops" "holder I (irq s) (shared s) h"
    "list_all (\<lambda>c. idle c \<and> sound I c) rest" "mask_is b True (irq s)"
  shows "irq_inv b I s"
proof -
  have "contexts s \<noteq> []" using assms(2) by simp
  with assms show ?thesis unfolding irq_inv_def by blast
qed

lemma irq_inv_none:
  assumes "list_all (modest b) (contexts s)" "contexts s \<noteq> []" "list_all (\<lambda>c. idle c \<and> sound I c) (contexts s)"
    "mask_is b False (irq s)" "lock_count (irq s) = 0" "I (shared s)"
  shows "irq_inv b I s"
  using assms unfolding irq_inv_def by blast

lemma executes_inv:
  assumes inv: "irq_inv b I s" and s: "contexts s = c # cs" "code c = k # ks"
    and i: "instruction b k (pc c) (register c) (irq s) (shared s) = Some (r, m, d)"
  shows "irq_inv b I \<lparr>irq = m, contexts = advance k ks r c # cs, shared = d\<rparr>"
proof -
  let ?c = "advance k ks r c"
  have ok: "list_all (modest b) (?c # cs)" using inv s modest_advance [of b c k ks r] by (simp add: irq_inv_def)
  have prio: "priority ?c = priority c" by (simp add: advance_def)
  have fin: "irq_inv b I \<lparr>irq = m, contexts = ?c # cs, shared = d\<rparr>"
    if "inside b I ?c m d \<or> outside b I ?c m d" "list_all (\<lambda>c. idle c \<and> sound I c) cs"
    using that(1)
  proof
    assume "inside b I ?c m d"
    with ok that(2) show ?thesis
      by (intro irq_inv_one [where tops = "[]" and h = ?c and rest = cs]) (simp_all add: inside_def)
  next
    assume "outside b I ?c m d"
    with ok that(2) show ?thesis by (intro irq_inv_none) (simp_all add: outside_def)
  qed
  from inv show ?thesis
  proof (cases rule: irq_invE)
    case none
    then have "idle c" "sound I c" "list_all (\<lambda>c. idle c \<and> sound I c) cs" using s by simp_all
    with fin idle_steps [OF this(1,2) s(2) none(3,4,2) i] show ?thesis by simp
  next
    case (one tops h rest)
    show ?thesis
    proof (cases tops)
      case Nil
      with one s have h: "h = c" "rest = cs" by auto
      from fin holder_steps [OF one(3) [unfolded h] one(5) s(2) i] one(4) h show ?thesis by simp
    next
      case (Cons e ds)
      then have d: "e = c" "cs = ds @ h # rest" using one(1) s(1) by auto
      then have u: "idle c" "sound I c" "urgent b (priority c)" using one(2) Cons by auto
      have "modest b c" using inv s by (simp add: irq_inv_def)
      then have "k = Work" using modest_works u(3) s(2) by blast
      with work_stays [OF u(1,2)] s(2) i have "idle ?c" "sound I ?c" "m = irq s" "d = shared s" by auto
      with one Cons d u ok prio show ?thesis
        by (intro irq_inv_one [where tops = "?c # ds" and h = h and rest = rest]) simp_all
    qed
  qed
qed

lemma preempts_inv:
  assumes inv: "irq_inv b I s" and b: "b \<noteq> Some 0" and q: "\<not> masked (irq s) (priority h)"
    and h: "idle h" "sound I h" "modest b h"
  shows "irq_inv b I (s\<lparr>contexts := h # contexts s\<rparr>)"
proof -
  have u: "urgent b (priority h)" if "mask_is b True (irq s)"
    using that q b by (auto simp: mask_is_def masked_def urgent_def split: option.splits)
  have ok: "list_all (modest b) (contexts s)" using inv by (simp add: irq_inv_def)
  from inv show ?thesis
  proof (cases rule: irq_invE)
    case none
    with h ok show ?thesis by (intro irq_inv_none) simp_all
  next
    case (one tops c rest)
    with h u ok show ?thesis
      by (intro irq_inv_one [where tops = "h # tops" and h = c and rest = rest]) simp_all
  qed
qed

lemma returns_inv:
  assumes inv: "irq_inv b I s" and s: "contexts s = c # c' # cs" "code c = []"
  shows "irq_inv b I (s\<lparr>contexts := c' # cs\<rparr>)"
proof -
  have c: "\<not> holder I (irq s) (shared s) c" using s(2) by (simp add: holder_def counted_def)
  have ok: "list_all (modest b) (contexts s)" using inv by (simp add: irq_inv_def)
  from inv show ?thesis
  proof (cases rule: irq_invE)
    case none
    with s ok show ?thesis by (intro irq_inv_none) simp_all
  next
    case (one tops h rest)
    with c s obtain ds where "tops = c # ds" by (cases tops) auto
    with one s ok show ?thesis
      by (intro irq_inv_one [where tops = ds and h = h and rest = rest]) simp_all
  qed
qed

section \<open>What code promises, and what it gets\<close>

lemma closes_unique: "closes ks w \<Longrightarrow> closes ks w' \<Longrightarrow> w = w'"
proof (induction ks arbitrary: w w')
  case (Cons k ks)
  show ?case
  proof (cases k)
    case Disable
    then have "closes ks (Pairs (Suc (pairs w)))" "closes ks (Pairs (Suc (pairs w')))" using Cons.prems by simp_all
    then have "Pairs (Suc (pairs w)) = Pairs (Suc (pairs w'))" by (rule Cons.IH)
    then show ?thesis using Cons.prems Disable by (intro place.expand) auto
  next
    case Enable
    then have "closes ks (Pairs (pairs w - 1))" "closes ks (Pairs (pairs w' - 1))" using Cons.prems by simp_all
    then have "Pairs (pairs w - 1) = Pairs (pairs w' - 1)" by (rule Cons.IH)
    then show ?thesis using Cons.prems Enable by (intro place.expand) auto
  next
    case Set_mask
    then have "closes ks (Masked (pairs w))" "closes ks (Masked (pairs w'))" using Cons.prems by simp_all
    then have "Masked (pairs w) = Masked (pairs w')" by (rule Cons.IH)
    then show ?thesis using Cons.prems Set_mask by (intro place.expand) auto
  next
    case Clear_mask
    then have "closes ks (Pairs (pairs w))" "closes ks (Pairs (pairs w'))" using Cons.prems by simp_all
    then have "Pairs (pairs w) = Pairs (pairs w')" by (rule Cons.IH)
    then show ?thesis using Cons.prems Clear_mask by (intro place.expand) auto
  next
    case Work
    with Cons show ?thesis by simp
  next
    case (Update f)
    with Cons show ?thesis by simp
  qed
qed simp

lemma holder_not_idle: "holder I m d c \<Longrightarrow> \<not> idle c"
proof
  assume h: "holder I m d c" and i: "idle c"
  then obtain w where w: "closes (code c) w" "counted m w c" by (auto simp: holder_def)
  have "w = Pairs 0" using closes_unique [OF w(1)] i by (auto simp: idle_def)
  with w i show False by (auto simp: counted_def idle_def split: list.splits call.splits)
qed

lemma mask_holds: "mask_is b True m \<Longrightarrow> b \<noteq> Some 0 \<Longrightarrow> masked m q \<longleftrightarrow> \<not> urgent b q"
  by (auto simp: mask_is_def masked_def urgent_def split: option.splits)

lemma mask_clear: "mask_is b False m \<Longrightarrow> \<not> masked m q"
  by (auto simp: mask_is_def masked_def split: option.splits)

lemma only_enable_asserts: "instruction b k i r m d = None \<Longrightarrow> k = Enable \<and> i = 0 \<and> lock_count m = 0 \<or> (k = Set_mask \<or> k = Clear_mask) \<and> b = None"
  by (induction b k i r m d rule: instruction.induct) (auto split: if_splits simp: word_greater_zero_iff)

lemma modest_has_kernel: "modest b c \<Longrightarrow> code c = k # ks \<Longrightarrow> k = Set_mask \<or> k = Clear_mask \<Longrightarrow> b \<noteq> None"
  by (auto simp: modest_def)

lemma holder_instruction:
  assumes "holder I m d c" "code c = k # ks" "modest b c"
  shows "instruction b k (pc c) (register c) m d \<noteq> None"
proof
  assume "instruction b k (pc c) (register c) m d = None"
  with modest_has_kernel [OF assms(3,2)] have k: "k = Enable" "pc c = 0" "lock_count m = 0"
    by (auto dest: only_enable_asserts)
  obtain w where "closes (k # ks) w" "counted m w c" using holder_at [OF assms(1,2)] .
  with k assms(2) show False by (cases w) (auto simp: counted_def)
qed

lemma idle_instruction:
  assumes "idle c" "code c = k # ks" "modest b c"
  shows "instruction b k (pc c) (register c) m d \<noteq> None"
proof
  assume "instruction b k (pc c) (register c) m d = None"
  with modest_has_kernel [OF assms(3,2)] idle_no_enable [OF assms(1,2)] show False by (auto dest: only_enable_asserts)
qed
text \<open>
  \<open>exclusive b s\<close>: either nobody is inside a pair of calls, and no interrupt is held back, or one is, and
  all that has preempted it is above the base priority, and the other interrupts are held back.
\<close>

definition nobody_inside :: "'d irq_state \<Rightarrow> bool" where
  "nobody_inside s \<longleftrightarrow> (\<forall>c \<in> set (contexts s). idle c) \<and> (\<forall>q. \<not> masked (irq s) q) \<and> lock_count (irq s) = 0"

definition one_inside :: "nat option \<Rightarrow> 'd irq_state \<Rightarrow> bool" where
  "one_inside b s \<longleftrightarrow> (\<exists>tops c rest. contexts s = tops @ c # rest \<and> \<not> idle c \<and> (\<forall>d \<in> set tops. idle d \<and> urgent b (priority d)) \<and>
     (\<forall>d \<in> set rest. idle d) \<and> (\<forall>q. masked (irq s) q \<longleftrightarrow> \<not> urgent b q))"

definition stuck :: "nat option \<Rightarrow> 'd irq_state \<Rightarrow> bool" where
  "stuck b s \<longleftrightarrow> (\<exists>c cs k ks. contexts s = c # cs \<and> code c = k # ks \<and>
     instruction b k (pc c) (register c) (irq s) (shared s) = None)"

lemma not_stuckI:
  assumes "\<And>c cs k ks. contexts s = c # cs \<Longrightarrow> code c = k # ks \<Longrightarrow> instruction b k (pc c) (register c) (irq s) (shared s) \<noteq> None"
  shows "\<not> stuck b s"
  using assms unfolding stuck_def by blast

locale critical_sections =
  fixes b :: "nat option" and prog :: "nat \<Rightarrow> 'd call list \<Rightarrow> bool" and I :: "'d \<Rightarrow> bool"
  assumes base: "b \<noteq> Some 0"
    and paired: "prog q ks \<Longrightarrow> closes ks (Pairs 0)"
    and unmasked: "prog q ks \<Longrightarrow> urgent b q \<Longrightarrow> set ks \<subseteq> {Work}"
    and kept: "prog q ks \<Longrightarrow> keeps I ks (Pairs 0) d"
    and kernel: "prog q ks \<Longrightarrow> b = None \<Longrightarrow> Set_mask \<notin> set ks \<and> Clear_mask \<notin> set ks"
begin

lemma begins:
  assumes "irq_start prog s" "I (shared s)"
  shows "irq_inv b I s"
proof -
  obtain c where c: "contexts s = [c]" "pc c = 0" "prog (priority c) (code c)" using assms(1) by (auto simp: irq_start_def)
  then have "modest b c" unfolding modest_def using unmasked kernel by blast
  with c assms show ?thesis
    by (intro irq_inv_none) (auto simp: irq_start_def idle_def sound_def mask_is_def paired kept split: option.split)
qed

lemma goes_on:
  assumes "irq_inv b I s" "irq_step b prog s t"
  shows "irq_inv b I t"
  using assms(2)
proof cases
  case (executes c cs k ks r m d)
  show ?thesis unfolding executes(1) by (rule executes_inv [OF assms(1) executes(2-4)])
next
  case (preempts c cs q e ks r)
  let ?h = "\<lparr>exception = e, priority = q, code = ks, pc = 0, register = r\<rparr>"
  have "idle ?h" "sound I ?h" using preempts(6) by (simp_all add: idle_def sound_def paired kept)
  moreover have "modest b ?h" using unmasked [OF preempts(6)] kernel [OF preempts(6)] by (simp add: modest_def)
  ultimately show ?thesis using preempts_inv [OF assms(1) base, of ?h] preempts by simp
next
  case (returns c c' cs)
  show ?thesis unfolding returns(1) by (rule returns_inv [OF assms(1) returns(2,3)])
qed

end

sublocale critical_sections \<subseteq> invariant_system "\<lambda>s. irq_start prog s \<and> I (shared s)" "irq_step b prog" "irq_inv b I"
  by unfold_locales (use begins goes_on in auto)

context critical_sections
begin

lemma exclusion:
  assumes "irq_start prog s0" "I (shared s0)" "(irq_step b prog)\<^sup>*\<^sup>* s0 s"
  shows "(nobody_inside s \<and> I (shared s) \<or> one_inside b s) \<and> \<not> stuck b s"
proof -
  have "irq_inv b I s" using reachable_inv [OF conjI [OF assms(1,2)] assms(3)] .
  then have modest: "modest b c" if "contexts s = c # cs" for c cs using that by (simp add: irq_inv_def)
  from \<open>irq_inv b I s\<close> show ?thesis
  proof (cases rule: irq_invE)
    case none
    then have "idle c" if "contexts s = c # cs" for c cs using that by simp
    then have "\<not> stuck b s" by (intro not_stuckI idle_instruction modest)
    with none mask_clear show ?thesis by (auto simp: nobody_inside_def list_all_iff)
  next
    case (one tops h rest)
    have "\<not> stuck b s"
    proof (rule not_stuckI)
      fix c cs k ks assume c: "contexts s = c # cs" "code c = k # ks"
      have "idle c \<or> holder I (irq s) (shared s) c" using one(1-3) c(1) by (cases tops) auto
      then show "instruction b k (pc c) (register c) (irq s) (shared s) \<noteq> None"
        using idle_instruction [OF _ c(2) modest [OF c(1)]] holder_instruction [OF _ c(2) modest [OF c(1)]] by blast
    qed
    moreover have "contexts s = tops @ h # rest \<and> \<not> idle h \<and> (\<forall>d \<in> set tops. idle d \<and> urgent b (priority d)) \<and>
        (\<forall>d \<in> set rest. idle d) \<and> (\<forall>q. masked (irq s) q \<longleftrightarrow> \<not> urgent b q)"
      using one holder_not_idle [OF one(3)] mask_holds [OF one(5) base] by (simp add: list_all_iff)
    ultimately show ?thesis unfolding one_inside_def by blast
  qed
qed

end

text \<open>
  C8: Code that calls \<open>nlplatform_interrupt_disable\<close> and \<open>nlplatform_interrupt_enable\<close> in pairs is alone
  between them: whatever handlers preempt it, between any two instructions, of these functions too,
  either nobody is between a pair of calls and no interrupt is held back, or exactly one task or handler
  is, all interrupts from the base priority on are held back, and all that has preempted it is above the
  base priority and outside of pairs. So shared data that each outermost pair keeps valid is valid
  whenever nobody is inside, though in each pair it is invalid in between. The assertion in
  \<open>nlplatform_interrupt_enable\<close> never fails and the counter, of 8 bits, does not wrap around when no
  more than 255 pairs are open. (Handlers above the base priority must not use the functions and the data:
  \<open>urgent_handler_unmasks\<close>.)
\<close>

theorem interrupt_sections_exclusive:
  assumes "b \<noteq> Some 0"
    and "\<forall>q ks. prog q ks \<longrightarrow> closes ks (Pairs 0) \<and> (\<forall>d. keeps I ks (Pairs 0) d) \<and>
      (urgent b q \<longrightarrow> set ks \<subseteq> {Work}) \<and> (b = None \<longrightarrow> Set_mask \<notin> set ks \<and> Clear_mask \<notin> set ks)"
    and "irq_start prog s0" and "I (shared s0)" and "(irq_step b prog)\<^sup>*\<^sup>* s0 s"
  shows "(nobody_inside s \<and> I (shared s) \<or> one_inside b s) \<and> \<not> stuck b s"
proof -
  have "critical_sections b prog I" using assms(1,2) by unfold_locales simp_all
  then show ?thesis by (rule critical_sections.exclusion [where I = I, OF _ assms(3-5)])
qed

section \<open>What the functions are not made for\<close>

text \<open>A handler above the base priority between the pair, which the mask does not hold back: its pair takes the mask away.\<close>

lemma urgent_handler_unmasks:
  assumes "lock_count m = 0"
  shows "\<exists>m'. nlplatform_interrupt_enable (Some v) (nlplatform_interrupt_disable (Some v) (set_mask (Some v) m)) = Some m' \<and>
    basepri m' = 0 \<and> lock_count m' = 0"
  using assms by (simp add: nlplatform_interrupt_enable_def nlplatform_interrupt_disable_def set_mask_def clear_mask_def)

text \<open>And a pair of calls after \<open>nlplatform_set_interrupt_mask\<close> takes that mask away before it is cleared.\<close>

lemma nested_pair_unmasks:
  assumes "lock_count m = 0"
  shows "\<exists>m'. nlplatform_interrupt_enable (Some v) (nlplatform_interrupt_disable (Some v) (snd (nlplatform_set_interrupt_mask v m))) = Some m' \<and>
    basepri m' = 0"
  using assms by (simp add: nlplatform_interrupt_enable_def nlplatform_interrupt_disable_def nlplatform_set_interrupt_mask_def
      set_mask_def clear_mask_def)

text \<open>The running code alone, for a number of instructions.\<close>

primrec execs :: "nat option \<Rightarrow> nat \<Rightarrow> 'd irq_state \<Rightarrow> 'd irq_state option" where
  "execs b 0 s = Some s"
| "execs b (Suc n) s = (case contexts s of
      c # cs \<Rightarrow> (case code c of
         k # ks \<Rightarrow> do {
           (r, m, d) \<leftarrow> instruction b k (pc c) (register c) (irq s) (shared s);
           execs b n \<lparr>irq = m, contexts = advance k ks r c # cs, shared = d\<rparr> }
       | [] \<Rightarrow> None)
    | [] \<Rightarrow> None)"

lemma execs_steps: "execs b n s = Some t \<Longrightarrow> (irq_step b prog)\<^sup>*\<^sup>* s t"
proof (induction n arbitrary: s)
  case (Suc n)
  from Suc.prems obtain c cs k ks r m d where s: "contexts s = c # cs" "code c = k # ks"
    "instruction b k (pc c) (register c) (irq s) (shared s) = Some (r, m, d)"
    "execs b n \<lparr>irq = m, contexts = advance k ks r c # cs, shared = d\<rparr> = Some t"
    by (auto split: list.splits elim!: bind_SomeE)
  show ?case using irq_step.executes [OF s(1-3)] Suc.IH [OF s(4)] by (rule converse_rtranclp_into_rtranclp)
qed simp

definition started :: "'d irq_context \<Rightarrow> 'd \<Rightarrow> 'd irq_state" where
  "started c d = \<lparr>irq = \<lparr>primask = False, basepri = 0, lock_count = 0\<rparr>, contexts = [c], shared = d\<rparr>"

section \<open>Witness\<close>

text \<open>
  Two counters that belong together are incremented by a task, between a pair of calls, and by a handler
  of the kernel with its mask set. A handler above the base priority preempts the task, in the middle of
  the function.
\<close>

definition demo_section :: "(nat \<times> nat) call list" where
  "demo_section = [Disable, Update (\<lambda>(x, y). (x + 1, y)), Update (\<lambda>(x, y). (x, y + 1)), Enable]"

definition demo_tick :: "(nat \<times> nat) call list" where
  "demo_tick = [Set_mask, Update (\<lambda>(x, y). (x + 1, y)), Update (\<lambda>(x, y). (x, y + 1)), Clear_mask]"

definition demo_prog :: "nat \<Rightarrow> (nat \<times> nat) call list \<Rightarrow> bool" where
  "demo_prog q ks \<longleftrightarrow> (if q < 4 then ks = [Work] else ks = demo_section \<or> ks = demo_tick)"

definition no_registers :: registers where
  "no_registers = \<lparr>count = 0, base_pri = 0\<rparr>"

definition demo_task :: "(nat \<times> nat) irq_context" where
  "demo_task = \<lparr>exception = 0, priority = 256, code = demo_section, pc = 0, register = no_registers\<rparr>"

definition demo_handler :: "(nat \<times> nat) irq_context" where
  "demo_handler = \<lparr>exception = 16, priority = 2, code = [Work], pc = 0, register = no_registers\<rparr>"

lemma demo_prog_ok:
  "demo_prog q ks \<Longrightarrow> closes ks (Pairs 0) \<and> (\<forall>d. keeps (\<lambda>(x, y). x = y) ks (Pairs 0) d) \<and> (urgent (Some 4) q \<longrightarrow> set ks \<subseteq> {Work})"
  by (auto simp: demo_prog_def demo_section_def demo_tick_def urgent_def split: if_splits)

lemmas demo_unfold = started_def demo_task_def demo_section_def no_registers_def set_mask_def clear_mask_def advance_def

theorem interrupt_sections_exclusive_witness:
  "\<exists>s. (irq_step (Some 4) demo_prog)\<^sup>*\<^sup>* (started demo_task (0, 0)) s \<and> contexts s = [demo_handler, demo_task\<lparr>pc := 1\<rparr>] \<and>
     one_inside (Some 4) s \<and> \<not> stuck (Some 4) s"
proof -
  let ?s1 = "\<lparr>irq = \<lparr>primask = False, basepri = 4, lock_count = 0\<rparr>, contexts = [demo_task\<lparr>pc := 1\<rparr>], shared = (0, 0)\<rparr>"
  let ?s2 = "?s1\<lparr>contexts := [demo_handler, demo_task\<lparr>pc := 1\<rparr>]\<rparr>"
  have "execs (Some 4) 1 (started demo_task (0, 0)) = Some ?s1" by (simp add: demo_unfold)
  from execs_steps [OF this] have "(irq_step (Some 4) demo_prog)\<^sup>*\<^sup>* (started demo_task (0, 0)) ?s1" .
  moreover have "irq_step (Some 4) demo_prog ?s1 ?s2"
    using irq_step.preempts [of ?s1 "demo_task\<lparr>pc := 1\<rparr>" "[]" 2 16 demo_prog "[Work]" "Some 4" no_registers]
    by (simp add: demo_task_def demo_handler_def demo_prog_def masked_def)
  ultimately have r: "(irq_step (Some 4) demo_prog)\<^sup>*\<^sup>* (started demo_task (0, 0)) ?s2" by (rule rtranclp.rtrancl_into_rtrancl)
  moreover have "irq_start demo_prog (started demo_task (0, 0))"
    by (simp add: irq_start_def started_def demo_task_def demo_prog_def)
  ultimately have "(nobody_inside ?s2 \<and> (case shared ?s2 of (x, y) \<Rightarrow> x = y) \<or> one_inside (Some 4) ?s2) \<and> \<not> stuck (Some 4) ?s2"
    by (intro interrupt_sections_exclusive [of "Some 4" demo_prog "\<lambda>(x, y). x = y" "started demo_task (0, 0)"])
      (use demo_prog_ok in \<open>auto simp: started_def\<close>)
  moreover have "\<not> nobody_inside ?s2" by (simp add: nobody_inside_def idle_def demo_task_def demo_section_def)
  ultimately show ?thesis using r by (intro exI [of _ ?s2]) simp
qed

text \<open>
  A handler of the kernel that calls a function with a pair while the kernel's mask is set, like a timer
  function that starts a timer: the pair takes the mask away, another handler enters its section in the
  middle of the first one's, and finds the data invalid.
\<close>

definition racing_tick :: "(nat \<times> nat) call list" where
  "racing_tick = [Set_mask, Update (\<lambda>(x, y). (x + 1, y)), Disable, Enable, Update (\<lambda>(x, y). (x, y + 1)), Clear_mask]"

definition racing_prog :: "nat \<Rightarrow> (nat \<times> nat) call list \<Rightarrow> bool" where
  "racing_prog q ks \<longleftrightarrow> (if q < 4 then ks = [Work] else ks = racing_tick \<or> ks = demo_section \<or> ks = [])"

definition idle_task :: "(nat \<times> nat) irq_context" where
  "idle_task = \<lparr>exception = 0, priority = 256, code = [], pc = 0, register = no_registers\<rparr>"

lemma pair_under_kernel_mask_races:
  "\<exists>s tick other. irq_start racing_prog (started idle_task (0, 0)) \<and> (irq_step (Some 4) racing_prog)\<^sup>*\<^sup>* (started idle_task (0, 0)) s \<and>
     contexts s = [other, tick, idle_task] \<and> code other = tl demo_section \<and> code tick = drop 4 racing_tick \<and> shared s = (1, 0)"
proof -
  let ?step = "irq_step (Some 4) racing_prog"
  let ?m = "\<lambda>v n. \<lparr>primask = False, basepri = v, lock_count = n\<rparr>"
  let ?h = "\<lambda>e q ks r. \<lparr>exception = e, priority = q, code = ks, pc = 0, register = r\<rparr>"
  let ?s0 = "started idle_task (0, 0)"
  let ?s1 = "\<lparr>irq = ?m 0 0, contexts = [?h 15 240 racing_tick no_registers, idle_task], shared = (0, 0)\<rparr>"
  let ?t = "\<lambda>r. ?h 15 240 (drop 4 racing_tick) r"
  let ?s2 = "\<lambda>r. \<lparr>irq = ?m 0 0, contexts = [?t r, idle_task], shared = (1, 0)\<rparr>"
  let ?s3 = "\<lambda>r. \<lparr>irq = ?m 0 0, contexts = [?h 40 100 demo_section no_registers, ?t r, idle_task], shared = (1, 0)\<rparr>"
  let ?s4 = "\<lambda>r r'. \<lparr>irq = ?m 4 1, contexts = [?h 40 100 (tl demo_section) r', ?t r, idle_task], shared = (1, 0)\<rparr>"
  have "?step ?s0 ?s1"
    using irq_step.preempts [of ?s0 idle_task "[]" 240 15 racing_prog racing_tick "Some 4" no_registers]
    by (simp add: started_def idle_task_def racing_prog_def masked_def)
  moreover have "\<exists>r. execs (Some 4) (Suc (Suc (Suc (Suc (Suc (Suc (Suc (Suc (Suc 0))))))))) ?s1 = Some (?s2 r)"
    by (simp add: demo_unfold racing_tick_def)
  then obtain r where "?step\<^sup>*\<^sup>* ?s1 (?s2 r)" by (blast intro: execs_steps)
  moreover have "?step (?s2 r) (?s3 r)"
    using irq_step.preempts [of "?s2 r" "?t r" "[idle_task]" 100 40 racing_prog demo_section "Some 4" no_registers]
    by (simp add: racing_prog_def masked_def)
  moreover have "\<exists>r'. execs (Some 4) (Suc (Suc (Suc 0))) (?s3 r) = Some (?s4 r r')"
    by (simp add: demo_unfold)
  then obtain r' where "?step\<^sup>*\<^sup>* (?s3 r) (?s4 r r')" by (blast intro: execs_steps)
  ultimately have "?step\<^sup>*\<^sup>* ?s0 (?s4 r r')" by (meson converse_rtranclp_into_rtranclp rtranclp_trans)
  moreover have "irq_start racing_prog ?s0" by (simp add: irq_start_def started_def idle_task_def racing_prog_def)
  ultimately show ?thesis
    by (intro exI [of _ "?s4 r r'"] exI [of _ "?t r"] exI [of _ "?h 40 100 (tl demo_section) r'"]) simp
qed

end
