(* ===== verification/Guarded_api.thy ===== *)
theory Guarded_api
  imports Interrupt_lock
begin

text \<open>
  Modules whose functions share data between tasks and interrupt handlers, as clients of
  \<^term>\<open>critical_sections\<close>. A function of such a module is a store that needs no protection, or a sequence
  of updates in a pair of \<open>nlplatform_interrupt_disable\<close> and \<open>nlplatform_interrupt_enable\<close>, or a sequence
  of updates that the kernel runs with its mask set. The locale \<open>guarded_api\<close> has what a module must show
  of its functions, called one by one, and what it gets for programs that call them from anywhere.
\<close>

datatype 'd access =
    Nothing
  | Store "'d \<Rightarrow> 'd"
  | Guarded "('d \<Rightarrow> 'd) list"
  | By_kernel "('d \<Rightarrow> 'd) list"

fun access_code :: "'d access \<Rightarrow> 'd call list" where
  "access_code Nothing = [Work]"
| "access_code (Store f) = [Update f]"
| "access_code (Guarded fs) = Disable # map Update fs @ [Enable]"
| "access_code (By_kernel fs) = Set_mask # map Update fs @ [Clear_mask]"

fun updates :: "'d access \<Rightarrow> ('d \<Rightarrow> 'd) list" where
  "updates Nothing = []"
| "updates (Store f) = [f]"
| "updates (Guarded fs) = fs"
| "updates (By_kernel fs) = fs"

definition effect :: "'d access \<Rightarrow> 'd \<Rightarrow> 'd" where
  "effect a = fold (\<lambda>f. f) (updates a)"

fun by_kernel :: "'d access \<Rightarrow> bool" where
  "by_kernel (By_kernel fs) \<longleftrightarrow> True"
| "by_kernel _ \<longleftrightarrow> False"

text \<open>
  The code that may run at a priority: above the base priority, none of the functions; elsewhere, any
  sequence of calls that are \<open>ok\<close>. \<open>v\<close> is one less than the base priority, which is not 0.
\<close>

definition api_code :: "('c \<Rightarrow> 'd access) \<Rightarrow> 'c list \<Rightarrow> 'd call list" where
  "api_code does cs = concat (map (access_code \<circ> does) cs)"

definition api_prog :: "nat option \<Rightarrow> ('c \<Rightarrow> bool) \<Rightarrow> ('c \<Rightarrow> 'd access) \<Rightarrow> nat \<Rightarrow> 'd call list \<Rightarrow> bool" where
  "api_prog b ok does q ks \<longleftrightarrow>
     (if urgent b q then set ks \<subseteq> {Work}
      else \<exists>cs. list_all (\<lambda>c. ok c \<and> (b = None \<longrightarrow> \<not> by_kernel (does c))) cs \<and> ks = api_code does cs)"

lemma map_update_closes: "closes (map Update fs @ ks) w \<longleftrightarrow> closes ks w"
  by (induction fs) simp_all

lemma map_update_keeps:
  "w \<noteq> Pairs 0 \<Longrightarrow> keeps I (map Update fs @ ks) w d \<longleftrightarrow> keeps I ks w (fold (\<lambda>f. f) fs d)"
  by (induction fs arbitrary: d) simp_all

lemma access_closes: "closes (access_code a) (Pairs 0)"
  by (cases a) (simp_all add: map_update_closes)

lemma access_keeps: "(\<And>d. I d \<Longrightarrow> I (effect a d)) \<Longrightarrow> keeps I (access_code a) (Pairs 0) d"
  by (cases a) (simp_all add: map_update_keeps effect_def)

lemma work_only: "set ks \<subseteq> {Work} \<Longrightarrow> closes ks (Pairs 0) \<and> keeps I ks (Pairs 0) d \<and> Set_mask \<notin> set ks \<and> Clear_mask \<notin> set ks"
  by (induction ks) auto

lemma access_without_kernel: "\<not> by_kernel a \<Longrightarrow> Set_mask \<notin> set (access_code a) \<and> Clear_mask \<notin> set (access_code a)"
  by (cases a) auto

lemma api_code_closes: "closes (api_code does cs) (Pairs 0)"
  by (induction cs) (simp_all add: api_code_def access_closes closes_append)

lemma api_code_keeps:
  assumes "list_all ok cs" "\<And>c d. ok c \<Longrightarrow> I d \<Longrightarrow> I (effect (does c) d)"
  shows "keeps I (api_code does cs) (Pairs 0) d"
  using assms(1)
  by (induction cs arbitrary: d) (auto simp: api_code_def access_closes assms(2) intro!: keeps_append access_keeps)

locale guarded_api =
  fixes v :: "nat option" and ok :: "'c \<Rightarrow> bool" and does :: "'c \<Rightarrow> 'd access" and I :: "'d \<Rightarrow> bool"
  assumes effect_keeps: "ok c \<Longrightarrow> I d \<Longrightarrow> I (effect (does c) d)"
begin

abbreviation base_priority :: "nat option" where
  "base_priority \<equiv> map_option Suc v"

lemma client: "critical_sections base_priority (api_prog base_priority ok does) I"
proof
  show "base_priority \<noteq> Some 0" by simp
  fix q ks assume "api_prog base_priority ok does q ks"
  then consider "set ks \<subseteq> {Work}"
    | cs where "list_all (\<lambda>c. ok c \<and> (base_priority = None \<longrightarrow> \<not> by_kernel (does c))) cs" "ks = api_code does cs"
      "\<not> urgent base_priority q"
    unfolding api_prog_def by metis
  then have "closes ks (Pairs 0) \<and> (\<forall>d. keeps I ks (Pairs 0) d) \<and> (urgent base_priority q \<longrightarrow> set ks \<subseteq> {Work}) \<and>
    (base_priority = None \<longrightarrow> Set_mask \<notin> set ks \<and> Clear_mask \<notin> set ks)"
  proof cases
    case 1
    with work_only [OF 1, where I = I] show ?thesis by simp
  next
    case 2
    then have "list_all ok cs" by (simp add: list_all_iff)
    then have "keeps I ks (Pairs 0) d" for d unfolding 2(2) by (rule api_code_keeps [where ok = ok]) (rule effect_keeps)
    moreover have "Set_mask \<notin> set ks \<and> Clear_mask \<notin> set ks" if "base_priority = None"
      using 2(1) that access_without_kernel unfolding 2(2) by (fastforce simp: api_code_def list_all_iff)
    moreover have "closes ks (Pairs 0)" unfolding 2(2) by (rule api_code_closes)
    ultimately show ?thesis using 2(3) by simp
  qed
  then show "closes ks (Pairs 0)" "keeps I ks (Pairs 0) d" "urgent base_priority q \<Longrightarrow> set ks \<subseteq> {Work}"
    "base_priority = None \<Longrightarrow> Set_mask \<notin> set ks \<and> Clear_mask \<notin> set ks" for d by simp_all
qed

end

sublocale guarded_api \<subseteq> critical_sections base_priority "api_prog base_priority ok does" I
  by (rule client)

lemma base_priority_cases:
  assumes "b \<noteq> Some 0"
  obtains v where "b = map_option Suc v"
proof (cases b)
  case None
  with that [of None] show ?thesis by simp
next
  case (Some n)
  with assms that [of "Some (n - 1)"] show ?thesis by (cases n) simp_all
qed

end
