(* ===== verification/Nltrace_preempted.thy ===== *)
theory Nltrace_preempted
  imports Guarded_api Nltrace
begin

text \<open>
  The trace of \<open>src/src/nltrace.c\<close> used by tasks and interrupt handlers that preempt each other, as a client
  of \<^term>\<open>guarded_api\<close>. The shared data are the variables of the file and the local variable \<open>ind\<close> of
  the code in its critical section; \<open>None\<close> is an access out of bounds. A section is split where it
  leaves the list broken: \<open>nltrace_event_start_with_taskname\<close> first fills a slot and then links it.
  \<open>nltrace_enable\<close> has no section.
\<close>

section \<open>Code that traces\<close>

type_synonym trace_shared = "(u8 \<times> trace_state) option"

definition fill_slot :: "(u32 \<Rightarrow> u32) \<Rightarrow> cstr \<Rightarrow> cstr \<Rightarrow> trace_shared \<Rightarrow> trace_shared" where
  "fill_slot elapsed name task_name d = do {
     (_, s) \<leftarrow> d;
     if s_trace_enable s
     then let ind = nltrace_alloc_index_locked (s_trace s) in
       if ind \<noteq> INVALID_INDEX
       then do {
         es \<leftarrow> arr_upd (events (s_trace s)) (unat ind)
                (\<lambda>e. e\<lparr>ev_task_name := task_name, ev_name := name,
                        ev_start_timestamp_us := elapsed (s_trace_timer_id s)\<rparr>);
         Some (ind, s\<lparr>s_trace := (s_trace s)\<lparr>events := es\<rparr>\<rparr>) }
       else Some (ind, s)
     else Some (INVALID_INDEX, s) }"

definition link_slot :: "trace_shared \<Rightarrow> trace_shared" where
  "link_slot d = do {
     (ind, s) \<leftarrow> d;
     if ind \<noteq> INVALID_INDEX
     then do { t \<leftarrow> nltrace_insert_locked ind (s_trace s); Some (ind, s\<lparr>s_trace := t\<rparr>) }
     else Some (ind, s) }"

definition end_event :: "(u32 \<Rightarrow> u32) \<Rightarrow> u8 \<Rightarrow> cstr \<Rightarrow> trace_shared \<Rightarrow> trace_shared" where
  "end_event elapsed ev_id name d = do { (ind, s) \<leftarrow> d; s' \<leftarrow> nltrace_event_end elapsed ev_id name s; Some (ind, s') }"

definition print_events :: "trace_shared \<Rightarrow> trace_shared" where
  "print_events d = do { (ind, s) \<leftarrow> d; (_, s') \<leftarrow> nltrace_print s; Some (ind, s') }"

definition set_enable :: "bool \<Rightarrow> trace_shared \<Rightarrow> trace_shared" where
  "set_enable on d = map_option (map_prod id (nltrace_enable on)) d"

datatype trace_call =
    Other_work
  | Enable_trace bool
  | Event_start "u32 \<Rightarrow> u32" cstr cstr
  | Event_end "u32 \<Rightarrow> u32" u8 cstr
  | Print_trace

fun trace_access :: "trace_call \<Rightarrow> trace_shared access" where
  "trace_access Other_work = Nothing"
| "trace_access (Enable_trace on) = Store (set_enable on)"
| "trace_access (Event_start elapsed name task) = Guarded [fill_slot elapsed name task, link_slot]"
| "trace_access (Event_end elapsed ev_id name) = Guarded [end_event elapsed ev_id name]"
| "trace_access Print_trace = Guarded [print_events]"

text \<open>
  Callers give names, and identifiers that they got from \<open>nltrace_event_start\<close>, or at least not the one
  that is read out of bounds; handlers above the base priority do not trace.
\<close>

fun trace_call_ok :: "trace_call \<Rightarrow> bool" where
  "trace_call_ok (Event_start elapsed name task) \<longleftrightarrow> name \<noteq> NULL_str"
| "trace_call_ok (Event_end elapsed ev_id name) \<longleftrightarrow> name \<noteq> NULL_str \<and> unat ev_id \<noteq> NL_TRACE_MAX_EVENTS"
| "trace_call_ok _ \<longleftrightarrow> True"

abbreviation trace_prog :: "nat option \<Rightarrow> nat \<Rightarrow> trace_shared call list \<Rightarrow> bool" where
  "trace_prog b \<equiv> api_prog b trace_call_ok trace_access"

definition trace_valid :: "trace_shared \<Rightarrow> bool" where
  "trace_valid d \<longleftrightarrow> (\<exists>ind s. d = Some (ind, s) \<and> nltrace_inv s)"

section \<open>The calls keep the list\<close>

text \<open>The two halves of \<open>nltrace_event_start_with_taskname\<close> are the function.\<close>

lemma start_halves:
  "link_slot (fill_slot elapsed name task (Some (ind, s))) = nltrace_event_start_with_taskname elapsed name task s"
  by (simp add: link_slot_def fill_slot_def nltrace_event_start_with_taskname_def Let_def split: Option.bind_split)

lemma start_returns:
  assumes "nltrace_inv s" "name \<noteq> NULL_str"
  shows "\<exists>i s'. nltrace_event_start_with_taskname elapsed name task s = Some (i, s')"
proof -
  obtain "is" where t: "trace_list (s_trace s) is" using assms(1) by (auto simp: nltrace_inv_def)
  consider "\<not> s_trace_enable s" | "\<not> length is < NL_TRACE_MAX_EVENTS"
    | "s_trace_enable s" "length is < NL_TRACE_MAX_EVENTS" by blast
  then show ?thesis
  proof cases
    case 3
    with event_start_correct [OF t 3(1) assms(2) 3(2), of elapsed task] show ?thesis by blast
  qed (use t event_start_disabled event_start_full in \<open>auto\<close>)
qed

lemma end_returns:
  assumes "nltrace_inv s" "unat ev_id \<noteq> NL_TRACE_MAX_EVENTS"
  shows "\<exists>s'. nltrace_event_end elapsed ev_id name s = Some s'"
proof -
  have len: "length (events (s_trace s)) = NL_TRACE_MAX_EVENTS"
    using assms(1) by (auto simp: nltrace_inv_def trace_list_def trace_links_def)
  have "unat ev_id < NL_TRACE_MAX_EVENTS" if "ev_id < INVALID_INDEX"
    using that assms(2) by (auto simp: word_less_nat_alt)
  then show ?thesis using len by (auto simp: nltrace_event_end_def arr_get_def arr_upd_def Let_def)
qed

lemma print_returns:
  assumes "nltrace_inv s"
  shows "\<exists>out s'. nltrace_print s = Some (out, s')"
proof -
  obtain "is" where "trace_list (s_trace s) is" using assms unfolding nltrace_inv_def by blast
  then obtain out t where "nltrace_print_locked (s_trace s) = Some (out, t)"
    using nltrace_print_locked_correct by blast
  then show ?thesis by (simp add: nltrace_print_def)
qed

lemma trace_validE:
  assumes "trace_valid d"
  obtains ind s where "d = Some (ind, s)" "nltrace_inv s"
  using assms unfolding trace_valid_def by blast

lemma trace_validI: "nltrace_inv s \<Longrightarrow> trace_valid (Some (ind, s))"
  unfolding trace_valid_def by blast

lemma valid_start:
  assumes "trace_valid d" "name \<noteq> NULL_str"
  shows "trace_valid (link_slot (fill_slot elapsed name task d))"
proof -
  obtain ind s where s: "d = Some (ind, s)" "nltrace_inv s" using assms(1) by (rule trace_validE)
  obtain i s' where r: "nltrace_event_start_with_taskname elapsed name task s = Some (i, s')"
    using start_returns [OF s(2) assms(2)] by blast
  show ?thesis unfolding s(1) start_halves r
    by (rule trace_validI) (rule nltrace_step_inv [OF s(2) step_start [OF r assms(2)]])
qed

lemma valid_end:
  assumes "trace_valid d" "name \<noteq> NULL_str" "unat ev_id \<noteq> NL_TRACE_MAX_EVENTS"
  shows "trace_valid (end_event elapsed ev_id name d)"
proof -
  obtain ind s where s: "d = Some (ind, s)" "nltrace_inv s" using assms(1) by (rule trace_validE)
  obtain s' where r: "nltrace_event_end elapsed ev_id name s = Some s'" using end_returns [OF s(2) assms(3)] by blast
  have "end_event elapsed ev_id name d = Some (ind, s')" by (simp add: end_event_def s(1) r)
  with nltrace_step_inv [OF s(2) step_end [OF r assms(2)]] show ?thesis by (simp add: trace_validI)
qed

lemma valid_print:
  assumes "trace_valid d"
  shows "trace_valid (print_events d)"
proof -
  obtain ind s where s: "d = Some (ind, s)" "nltrace_inv s" using assms by (rule trace_validE)
  obtain out s' where r: "nltrace_print s = Some (out, s')" using print_returns [OF s(2)] by blast
  have "print_events d = Some (ind, s')" by (simp add: print_events_def s(1) r)
  with nltrace_step_inv [OF s(2) step_print [OF r]] show ?thesis by (simp add: trace_validI)
qed

lemma valid_enable: "trace_valid d \<Longrightarrow> trace_valid (set_enable on d)"
  by (erule trace_validE) (simp add: set_enable_def trace_validI nltrace_step_inv [OF _ step_enable])

interpretation traced: guarded_api v trace_call_ok trace_access trace_valid for v
proof
  fix c d assume "trace_call_ok c" "trace_valid d"
  then show "trace_valid (effect (trace_access c) d)"
    by (cases c) (simp_all add: effect_def valid_start valid_end valid_print valid_enable)
qed

section \<open>Property\<close>

text \<open>
  C11: Tasks and interrupt handlers may call the trace functions at any time and preempt each other at
  any instruction: whenever none of them is in a critical section of the trace, the slots in use form one
  list, as after calls one by one, and no access was out of bounds; otherwise exactly one of them is
  in its section, where the list may have a slot that is filled and not linked. The assertion of
  \<open>nlplatform_interrupt_enable\<close> never fails. This needs that handlers above the base priority, if
  there is one, do not trace, that names are not \<open>NULL\<close>, and that 64 is not given as an identifier.
\<close>

theorem nltrace_preemption_safe:
  assumes "b \<noteq> Some 0" "irq_start (trace_prog b) s0" "shared s0 = Some (ind, s)" "nltrace_boot s"
    and "(irq_step b (trace_prog b))\<^sup>*\<^sup>* s0 s1"
  shows "(nobody_inside s1 \<and> (\<exists>ind t is. shared s1 = Some (ind, t) \<and> trace_list (s_trace t) is) \<or> one_inside b s1) \<and>
    \<not> stuck b s1"
proof -
  have "trace_valid (shared s0)" using assms(3,4) trace_system.start_inv by (simp add: trace_valid_def)
  moreover obtain v where "b = map_option Suc v" using assms(1) by (rule base_priority_cases)
  ultimately have "(nobody_inside s1 \<and> trace_valid (shared s1) \<or> one_inside b s1) \<and> \<not> stuck b s1"
    using traced.exclusion [of v] assms(2,5) by simp
  then show ?thesis unfolding trace_valid_def nltrace_inv_def by blast
qed

text \<open>A task that enables the trace and starts an event, after the slot is filled and before it is linked.\<close>

definition tracing_task :: "trace_shared irq_context" where
  "tracing_task = \<lparr>exception = 0, priority = 256,
     code = api_code trace_access [Enable_trace True, Event_start (\<lambda>_. 5) 4096 512], pc = 0, register = no_registers\<rparr>"

definition booted_trace :: trace_state where
  "booted_trace = the (nltrace_init 7 (trace_example\<lparr>s_trace_enable := False\<rparr>))"

lemma booted_trace_boot: "nltrace_boot booted_trace"
  unfolding nltrace_boot_def booted_trace_def
  by (intro exI [of _ "trace_example\<lparr>s_trace_enable := False\<rparr>"] exI [of _ 7])
    (simp add: nltrace_init_def trace_example_def NL_TRACE_MAX_EVENTS_def)

theorem nltrace_preemption_safe_witness:
  "\<exists>s1. (irq_step None (trace_prog None))\<^sup>*\<^sup>* (started tracing_task (Some (0, booted_trace))) s1 \<and>
     shared s1 = fill_slot (\<lambda>_. 5) 4096 512 (set_enable True (Some (0, booted_trace))) \<and>
     one_inside None s1 \<and> \<not> stuck None s1"
proof -
  let ?d = "Some (0, booted_trace)"
  let ?s = "\<lambda>r. \<lparr>irq = \<lparr>primask = True, basepri = 0, lock_count = 1\<rparr>,
    contexts = [\<lparr>exception = 0, priority = 256, code = [Update link_slot, Enable], pc = 0, register = r\<rparr>],
    shared = fill_slot (\<lambda>_. 5) 4096 512 (set_enable True ?d)\<rparr>"
  have "\<exists>r. execs None (Suc (Suc (Suc (Suc (Suc 0))))) (started tracing_task ?d) = Some (?s r)"
    by (simp add: demo_unfold tracing_task_def api_code_def)
  then obtain r where r: "(irq_step None (trace_prog None))\<^sup>*\<^sup>* (started tracing_task ?d) (?s r)" by (blast intro: execs_steps)
  have "irq_start (trace_prog None) (started tracing_task ?d)"
    unfolding irq_start_def api_prog_def
    by (auto simp: started_def urgent_def tracing_task_def intro!: exI [of _ "[Enable_trace True, Event_start (\<lambda>_. 5) 4096 512]"])
  from nltrace_preemption_safe [OF _ this _ booted_trace_boot r, of 0]
  have "nobody_inside (?s r) \<or> one_inside None (?s r)" "\<not> stuck None (?s r)" by (auto simp: started_def)
  moreover have "\<not> nobody_inside (?s r)" by (simp add: nobody_inside_def idle_def)
  ultimately show ?thesis using r by (intro exI [of _ "?s r"]) simp
qed

end
