(* ===== verification/Nlswtimer_preempted.thy ===== *)
theory Nlswtimer_preempted
  imports Guarded_api Nlswtimer
begin

text \<open>
  The timers of \<open>src/src/nlswtimer.c\<close> used by tasks and interrupt handlers that preempt each other, as a
  client of \<^term>\<open>guarded_api\<close>. The functions of the interface have critical sections; the tick handler has
  none, but FreeRTOS calls it with \<open>nlplatform_set_interrupt_mask\<close>, if the header of the Cortex-M3 is
  used as it says. The shared data are the state of the timers and the local variables \<open>timer_pp\<close> and
  \<open>timer_p\<close> of an insertion, which is split into its stores to the list. \<open>None\<close> is a failed assertion
  (of \<open>nl_swtimer_start\<close>, for a timer that is active). Initialising timers and \<open>nl_swtimer_post_sleep\<close> are
  left out: timers are initialised by their owner while they are inactive, and the time slept is
  added before other code runs.
\<close>

section \<open>Code that uses timers\<close>

type_synonym 'a timer_shared = "((link \<times> timer_ptr option) \<times> 'a swtimer_state_scheme) option"

text \<open>
  \<open>nl_swtimer_start\<close>: up to the place of the timer in its list, the store that leads to the timer, and
  the store that leads on from it.
\<close>

definition find_place :: "(u32 \<Rightarrow> u32) \<Rightarrow> timer_ptr \<Rightarrow> u32 \<Rightarrow> 'a timer_shared \<Rightarrow> 'a timer_shared" where
  "find_place to_ticks timer delay_ms d = do {
     (_, s) \<leftarrow> d;
     let current_tick_count = s_swtimer_tick_count s;
     if t_func (timers s timer) = None then None
     else do {
       active \<leftarrow> timer_is_active_locked s timer;
       if active then None
       else do {
         let delay_in_ticks = (if to_ticks delay_ms = 0 then 1 else to_ticks delay_ms);
         let s1 = upd_timer timer (\<lambda>e. e\<lparr>t_delay := current_tick_count + delay_in_ticks\<rparr>) s;
         let head = (if delay_of s1 timer > current_tick_count then ListHead else OverflowHead);
         place \<leftarrow> insert_position s1 (delay_of s1 timer) head (deref s1 head);
         Some (place, s1) } } }"

definition hook_timer :: "timer_ptr \<Rightarrow> 'a timer_shared \<Rightarrow> 'a timer_shared" where
  "hook_timer timer d = do { ((timer_pp, timer_p), s) \<leftarrow> d; Some ((timer_pp, timer_p), assign timer_pp (Some timer) s) }"

definition link_timer :: "timer_ptr \<Rightarrow> 'a timer_shared \<Rightarrow> 'a timer_shared" where
  "link_timer timer d = do { ((timer_pp, timer_p), s) \<leftarrow> d; Some ((timer_pp, timer_p), upd_timer timer (\<lambda>e. e\<lparr>t_next := timer_p\<rparr>) s) }"

text \<open>The tick handler, up to the loop that runs the timers, and this loop.\<close>

definition advance_tick :: "u64 \<Rightarrow> 'a timer_shared \<Rightarrow> 'a timer_shared" where
  "advance_tick ns_per_tick d = do {
     (l, s) \<leftarrow> d;
     let last_tick_count = s_swtimer_tick_count s;
     let current_tick_count = last_tick_count + 1;
     let s1 = s\<lparr>s_swtimer_tick_count := current_tick_count,
                s_system_time_ns := s_system_time_ns s + ns_per_tick\<rparr>;
     s2 \<leftarrow> (if current_tick_count < last_tick_count
            then do {
              (timer_pp, t1) \<leftarrow> zero_delays ListHead (deref s1 ListHead) s1;
              Some ((assign timer_pp (s_timer_overflow_list t1) t1)\<lparr>s_timer_overflow_list := None\<rparr>) }
            else Some s1);
     Some (l, s2) }"

definition run_timers :: "'a swtimer_state_scheme swtimer_call \<Rightarrow> (u32 \<Rightarrow> u32) \<Rightarrow> 'a timer_shared \<Rightarrow> 'a timer_shared" where
  "run_timers call to_ticks d = do { (l, s) \<leftarrow> d; s' \<leftarrow> run_expired call to_ticks (s_swtimer_tick_count s) s; Some (l, s') }"

text \<open>The other functions, by what they do to the state.\<close>

definition whole :: "('a swtimer_state_scheme \<Rightarrow> 'a swtimer_state_scheme option) \<Rightarrow> 'a timer_shared \<Rightarrow> 'a timer_shared" where
  "whole f d = do { (l, s) \<leftarrow> d; s' \<leftarrow> f s; Some (l, s') }"

datatype timer_call =
    Not_a_timer_call
  | Timer_start timer_ptr u32
  | Timer_cancel timer_ptr
  | Timer_is_active timer_ptr
  | Timer_pre_sleep u32 u32
  | Timer_get_time
  | Timer_tick

fun timer_access ::
  "'a swtimer_state_scheme swtimer_call \<Rightarrow> (u32 \<Rightarrow> u32) \<Rightarrow> u64 \<Rightarrow> timer_call \<Rightarrow> 'a timer_shared access" where
  "timer_access call to_ticks ns Not_a_timer_call = Nothing"
| "timer_access call to_ticks ns (Timer_start t ms) = Guarded [find_place to_ticks t ms, hook_timer t, link_timer t]"
| "timer_access call to_ticks ns (Timer_cancel t) = Guarded [whole (\<lambda>s. map_option snd (nl_swtimer_cancel t s))]"
| "timer_access call to_ticks ns (Timer_is_active t) = Guarded [whole (\<lambda>s. map_option (\<lambda>_. s) (nl_swtimer_is_active s t))]"
| "timer_access call to_ticks ns (Timer_pre_sleep rtos expected) = Guarded [whole (\<lambda>s. map_option snd (nl_swtimer_pre_sleep False ns rtos expected s))]"
| "timer_access call to_ticks ns Timer_get_time = Guarded [whole Some]"
| "timer_access call to_ticks ns Timer_tick = By_kernel [advance_tick ns, run_timers call to_ticks]"

text \<open>
  Functions of timers that do not start or cancel timers themselves: these calls have a pair, which
  would take the kernel's mask away (\<open>pair_under_kernel_mask_races\<close>). They may ask for a restart.
\<close>

definition own_state_only :: "'a swtimer_state_scheme swtimer_call \<Rightarrow> bool" where
  "own_state_only call \<longleftrightarrow> (\<forall>f p a s. \<exists>d m. call f p a s = Some (d, s\<lparr>swtimer_state.more := m\<rparr>))"

definition timers_valid :: "'a timer_shared \<Rightarrow> bool" where
  "timers_valid d \<longleftrightarrow> (\<forall>l s. d = Some (l, s) \<longrightarrow> swtimer_inv s)"

section \<open>The calls keep the lists\<close>

lemma start_parts:
  "link_timer t (hook_timer t (find_place to_ticks t ms (Some (l, s)))) = Some r \<Longrightarrow>
     nl_swtimer_start to_ticks t ms s = Some (snd r)"
  by (auto simp: find_place_def hook_timer_def link_timer_def nl_swtimer_start_def nl_swtimer_insert_locked_def Let_def
      split: if_splits elim!: bind_SomeE)

lemma zero_delays_tick: "zero_delays l p s = Some r \<Longrightarrow> s_swtimer_tick_count (snd r) = s_swtimer_tick_count s"
  by (erule zero_delays.raw_induct [rotated]) (fastforce simp: Let_def split: option.splits)

lemma tick_parts:
  assumes "run_timers call to_ticks (advance_tick ns (Some (l, s))) = Some r"
  shows "nl_swtimer_rtos_tick_handler call to_ticks ns s = Some (snd r)"
proof -
  let ?s = "s\<lparr>s_swtimer_tick_count := s_swtimer_tick_count s + 1, s_system_time_ns := s_system_time_ns s + ns\<rparr>"
  show ?thesis
  proof (cases "s_swtimer_tick_count s + 1 < s_swtimer_tick_count s")
    case True
    with assms obtain pp t where z: "zero_delays ListHead (deref ?s ListHead) ?s = Some (pp, t)"
      by (auto simp: advance_tick_def run_timers_def Let_def elim!: bind_SomeE)
    have "s_swtimer_tick_count t = s_swtimer_tick_count s + 1" using zero_delays_tick [OF z] by simp
    with assms True z show ?thesis
      by (auto simp: advance_tick_def run_timers_def nl_swtimer_rtos_tick_handler_def Let_def elim!: bind_SomeE)
  next
    case False
    with assms show ?thesis
      by (auto simp: advance_tick_def run_timers_def nl_swtimer_rtos_tick_handler_def Let_def elim!: bind_SomeE)
  qed
qed

lemma own_state_well_behaved:
  assumes "own_state_only call"
  shows "well_behaved to_ticks call"
  unfolding well_behaved_def
proof (intro allI impI)
  fix f p a and s :: "'a swtimer_state_scheme"
  assume s: "swtimer_inv s \<and> nl_swtimer_is_active s p = Some False \<and> t_func (timers s p) = Some f"
  obtain d m where c: "call f p a s = Some (d, s\<lparr>swtimer_state.more := m\<rparr>)" using assms unfolding own_state_only_def by blast
  let ?s = "s\<lparr>swtimer_state.more := m\<rparr>"
  have same: "timer_in_list_locked ?s q p = timer_in_list_locked s q p" if "chain Some (next_of s) q cs None" for q cs
    using that by (simp add: timer_in_list_locked_spec)
  have "nl_swtimer_is_active ?s p = Some False"
    using s same by (auto simp: nl_swtimer_is_active_def timer_is_active_locked_def swtimer_inv_def timer_lists_def cong: if_cong)
  with s c show "\<exists>d s'. call f p a s = Some (d, s') \<and> (client_step to_ticks)\<^sup>*\<^sup>* s s' \<and>
      (d \<noteq> 0 \<longrightarrow> nl_swtimer_is_active s' p = Some False \<and> t_func (timers s' p) \<noteq> None)"
    by (intro exI [of _ d] exI [of _ ?s]) (auto intro: client_step.own r_into_rtranclp)
qed

lemma timers_validI: "(\<And>l s. d = Some (l, s) \<Longrightarrow> swtimer_inv s) \<Longrightarrow> timers_valid d"
  unfolding timers_valid_def by blast

lemma valid_timer_start:
  assumes "timers_valid d"
  shows "timers_valid (link_timer t (hook_timer t (find_place to_ticks t ms d)))"
proof (rule timers_validI)
  fix l' s' assume r: "link_timer t (hook_timer t (find_place to_ticks t ms d)) = Some (l', s')"
  then obtain l s where d: "d = Some (l, s)" by (cases d) (auto simp: find_place_def hook_timer_def link_timer_def)
  with assms have inv: "swtimer_inv s" by (simp add: timers_valid_def)
  from start_parts [OF r [unfolded d]] have "client_step to_ticks s s'" by (simp add: client_step.starts)
  with inv show "swtimer_inv s'" using client_step_lists unfolding swtimer_inv_def by blast
qed

lemma valid_timer_tick:
  assumes "own_state_only call" "timers_valid d"
  shows "timers_valid (run_timers call to_ticks (advance_tick ns d))"
proof (rule timers_validI)
  fix l' s' assume r: "run_timers call to_ticks (advance_tick ns d) = Some (l', s')"
  then obtain l s where d: "d = Some (l, s)" by (cases d) (auto simp: advance_tick_def run_timers_def)
  with assms(2) have inv: "swtimer_inv s" by (simp add: timers_valid_def)
  from tick_parts [OF r [unfolded d]] have "swtimer_step call to_ticks ns s s'" by (simp add: swtimer_step.tick)
  with swtimer_step_inv [OF own_state_well_behaved [OF assms(1)] inv] show "swtimer_inv s'" by blast
qed

lemma valid_whole:
  assumes "timers_valid d" "\<And>s s'. swtimer_inv s \<Longrightarrow> f s = Some s' \<Longrightarrow> swtimer_inv s'"
  shows "timers_valid (whole f d)"
  using assms by (intro timers_validI) (auto simp: whole_def timers_valid_def elim!: bind_SomeE)

lemma cancel_keeps: "swtimer_inv s \<Longrightarrow> nl_swtimer_cancel t s = Some (b, s') \<Longrightarrow> swtimer_inv s'"
  using client_step_lists [OF client_step.cancels] unfolding swtimer_inv_def by blast

lemma pre_sleep_keeps: "nl_swtimer_pre_sleep False ns rtos n s = Some (out, s') \<Longrightarrow> s' = s"
  by (auto simp: nl_swtimer_pre_sleep_def Let_def split: option.splits if_splits)

definition timer_call_ok :: "'a swtimer_state_scheme swtimer_call \<Rightarrow> timer_call \<Rightarrow> bool" where
  "timer_call_ok call c \<longleftrightarrow> (c = Timer_tick \<longrightarrow> own_state_only call)"

abbreviation timer_prog ::
  "'a swtimer_state_scheme swtimer_call \<Rightarrow> (u32 \<Rightarrow> u32) \<Rightarrow> u64 \<Rightarrow> nat option \<Rightarrow> nat \<Rightarrow> 'a timer_shared call list \<Rightarrow> bool" where
  "timer_prog call to_ticks ns b \<equiv> api_prog b (timer_call_ok call) (timer_access call to_ticks ns)"

interpretation timed: guarded_api v "timer_call_ok call" "timer_access call to_ticks ns" timers_valid for v call to_ticks ns
proof
  fix c and d :: "'a timer_shared" assume ok: "timer_call_ok call c" and d: "timers_valid d"
  show "timers_valid (effect (timer_access call to_ticks ns c) d)"
  proof (cases c)
    case (Timer_start t ms)
    with valid_timer_start [OF d] show ?thesis by (simp add: effect_def)
  next
    case (Timer_cancel t)
    then show ?thesis using cancel_keeps by (auto simp: effect_def intro!: valid_whole [OF d])
  next
    case (Timer_pre_sleep rtos expected)
    then show ?thesis by (auto simp: effect_def intro!: valid_whole [OF d] dest: pre_sleep_keeps)
  next
    case Timer_tick
    with valid_timer_tick [OF _ d] ok show ?thesis by (simp add: effect_def timer_call_ok_def)
  qed (use d in \<open>auto simp: effect_def intro!: valid_whole [OF d]\<close>)
qed

section \<open>Property\<close>

text \<open>
  C9: Tasks and interrupt handlers may start, cancel and query timers at any time and preempt each other
  and the tick handler at any instruction: whenever none of them is inside, the two timer lists are
  finite chains without a common timer, sorted by expiry, unless an assertion has failed; otherwise
  exactly one is inside, where the lists may have a timer that does not lead on yet. This needs a base
  priority, with the kernel's mask around the tick handler, that handlers above it leave the timers
  alone, and that functions of timers do not start or cancel timers but ask for a restart, since the
  pairs of these calls would take the kernel's mask away.
\<close>

theorem nl_swtimer_preemption_safe:
  assumes "b \<noteq> Some 0" "own_state_only call" "irq_start (timer_prog call to_ticks ns b) s0"
    and "shared s0 = Some (l, s)" "swtimer_boot s" "(irq_step b (timer_prog call to_ticks ns b))\<^sup>*\<^sup>* s0 s1"
  shows "(nobody_inside s1 \<and> (\<forall>l t. shared s1 = Some (l, t) \<longrightarrow> swtimer_inv t) \<or> one_inside b s1) \<and> \<not> stuck b s1"
proof -
  have "swtimer_inv s"
    using invariant_system.start_inv [OF swtimer_system [OF own_state_well_behaved [OF assms(2)]] assms(5)] .
  then have "timers_valid (shared s0)" using assms(4) by (simp add: timers_valid_def)
  moreover obtain v where "b = map_option Suc v" using assms(1) by (rule base_priority_cases)
  ultimately show ?thesis using timed.exclusion [of v call to_ticks ns s0 s1] assms(3,6) by (simp add: timers_valid_def)
qed

text \<open>A task that starts a timer, before the timer leads on, and the tick handler held back.\<close>

definition starting_task :: "timer_ptr list timer_shared irq_context" where
  "starting_task = \<lparr>exception = 0, priority = 256,
     code = api_code (timer_access recorder (\<lambda>ms. ms) 1) [Timer_start 3 5], pc = 0, register = no_registers\<rparr>"

lemma recorder_own_state: "own_state_only recorder"
  unfolding own_state_only_def recorder_def by blast

theorem nl_swtimer_preemption_safe_witness:
  "\<exists>s1 l t. (irq_step (Some 4) (timer_prog recorder (\<lambda>ms. ms) 1 (Some 4)))\<^sup>*\<^sup>*
       (started starting_task (Some ((ListHead, None), idle_timers))) s1 \<and>
     shared s1 = Some (l, t) \<and> s_timer_overflow_list t = Some 3 \<and> masked (irq s1) 240 \<and> one_inside (Some 4) s1 \<and> \<not> stuck (Some 4) s1"
proof -
  let ?d = "Some ((ListHead, None), idle_timers)"
  let ?prog = "timer_prog recorder (\<lambda>ms. ms) 1 (Some 4)"
  let ?t = "assign OverflowHead (Some 3) (upd_timer 3 (\<lambda>e. e\<lparr>t_delay := 0xFFFFFFFE + 5\<rparr>) idle_timers)"
  let ?s = "\<lambda>r. \<lparr>irq = \<lparr>primask = False, basepri = 4, lock_count = 1\<rparr>,
    contexts = [\<lparr>exception = 0, priority = 256, code = [Update (link_timer 3), Enable], pc = 0, register = r\<rparr>],
    shared = Some ((OverflowHead, None), ?t)\<rparr>"
  have "hook_timer 3 (find_place (\<lambda>ms. ms) 3 5 ?d) = Some ((OverflowHead, None), ?t)"
    by (simp add: hook_timer_def find_place_def idle_timers_def timer_is_active_locked_def timer_in_list_locked.simps
        insert_position.simps deref_def Let_def)
  then have "\<exists>r. execs (Some 4) (Suc (Suc (Suc (Suc (Suc 0))))) (started starting_task ?d) = Some (?s r)"
    by (simp add: demo_unfold starting_task_def api_code_def)
  then obtain r where r: "(irq_step (Some 4) ?prog)\<^sup>*\<^sup>* (started starting_task ?d) (?s r)" by (blast intro: execs_steps)
  have "irq_start ?prog (started starting_task ?d)"
    unfolding irq_start_def api_prog_def
    by (auto simp: started_def urgent_def starting_task_def timer_call_ok_def intro!: exI [of _ "[Timer_start 3 5]"])
  from nl_swtimer_preemption_safe [OF _ recorder_own_state this _ idle_timers_facts(1) r]
  have "nobody_inside (?s r) \<or> one_inside (Some 4) (?s r)" "\<not> stuck (Some 4) (?s r)" by (auto simp: started_def)
  moreover have "\<not> nobody_inside (?s r)" by (simp add: nobody_inside_def idle_def)
  ultimately show ?thesis using r
    by (intro exI [of _ "?s r"] exI [of _ "(OverflowHead, None)"] exI [of _ ?t]) (simp add: masked_def assign_def)
qed

end
