(* ===== verification/Nlram_console_preempted.thy ===== *)
theory Nlram_console_preempted
  imports Guarded_api Nlram_console
begin

text \<open>
  The console of \<open>src/src/nlram_console.c\<close> used by tasks and interrupt handlers that preempt each other, as
  a client of \<^term>\<open>guarded_api\<close>. The shared data are the console and its callback context, and the local
  variable \<open>buf_size\<close> of \<open>nl_ram_console_write\<close> where the console is enabled; \<open>None\<close> is an access out of
  bounds. A write is split between copying its bytes and counting them. Enabling, disabling and the
  registration of a callback have no critical section: they are single stores, the registration three.
\<close>

section \<open>Code that logs\<close>

type_synonym console_shared = "(u32 option \<times> ram_console_state) option"

definition copy_data :: "u8 list \<Rightarrow> console_shared \<Rightarrow> console_shared" where
  "copy_data data d = do {
     (_, s) \<leftarrow> d;
     if rc_enabled (s_ram_console s)
     then do {
       let buf_size = rc_buf_size (s_ram_console s);
       rc1 \<leftarrow> ram_console_copy buf_size data (s_ram_console s);
       Some (Some buf_size, s\<lparr>s_ram_console := rc1\<rparr>) }
     else Some (None, s) }"

definition count_data :: "(nat \<Rightarrow> ram_console_state \<Rightarrow> ram_console_state) \<Rightarrow> u8 list \<Rightarrow> console_shared \<Rightarrow> console_shared" where
  "count_data run_cb data d = do {
     (l, s) \<leftarrow> d;
     (case l of
        None \<Rightarrow> Some (l, s)
      | Some buf_size \<Rightarrow> do {
          let orig_len = (word_of_nat (length data) :: u32);
          let rc1 = s_ram_console s;
          let bw = bytes_written rc1 + orig_len;
          let rc2 = rc1\<lparr>bytes_written := (if bw > buf_size then buf_size else bw)\<rparr>;
          let non_current_bytes = buf_size - bytes_written rc2;
          let rc3 = rc2\<lparr>last_bytes_written := (if last_bytes_written rc2 > non_current_bytes
                          then non_current_bytes else last_bytes_written rc2)\<rparr>;
          let s1 = s\<lparr>s_ram_console := rc3\<rparr>;
          (case callback (s_ram_console_cb_ctx s1) of
             None \<Rightarrow> Some (l, s1)
           | Some cb \<Rightarrow>
               let n = callback_bytes_written (s_ram_console_cb_ctx s1) + orig_len;
                   s2 = s1\<lparr>s_ram_console_cb_ctx := (s_ram_console_cb_ctx s1)\<lparr>callback_bytes_written := n\<rparr>\<rparr>
               in if n \<ge> callback_watermark (s_ram_console_cb_ctx s2)
                  then let s3 = run_cb cb s2 in
                    Some (l, s3\<lparr>s_ram_console_cb_ctx := (s_ram_console_cb_ctx s3)\<lparr>callback_bytes_written := 0\<rparr>\<rparr>)
                  else Some (l, s2)) }) }"

definition set_context :: "(nl_ram_console_cb_ctx_t \<Rightarrow> nl_ram_console_cb_ctx_t) \<Rightarrow> ram_console_state \<Rightarrow> ram_console_state" where
  "set_context f s = s\<lparr>s_ram_console_cb_ctx := f (s_ram_console_cb_ctx s)\<rparr>"

datatype console_call =
    Not_a_console_call
  | Console_write "u8 list"
  | Console_enable
  | Console_disable
  | Set_watermark u32
  | Reset_callback_bytes
  | Set_callback "nat option"

fun console_access :: "(nat \<Rightarrow> ram_console_state \<Rightarrow> ram_console_state) \<Rightarrow> console_call \<Rightarrow> console_shared access" where
  "console_access run_cb Not_a_console_call = Nothing"
| "console_access run_cb (Console_write data) = Guarded [copy_data data, count_data run_cb data]"
| "console_access run_cb Console_enable = Store (map_option (map_prod id nl_ram_console_enable))"
| "console_access run_cb Console_disable = Store (map_option (map_prod id nl_ram_console_disable))"
| "console_access run_cb (Set_watermark n) = Store (map_option (map_prod id (set_context (\<lambda>c. c\<lparr>callback_watermark := n\<rparr>))))"
| "console_access run_cb Reset_callback_bytes = Store (map_option (map_prod id (set_context (\<lambda>c. c\<lparr>callback_bytes_written := 0\<rparr>))))"
| "console_access run_cb (Set_callback cb) = Store (map_option (map_prod id (set_context (\<lambda>c. c\<lparr>callback := cb\<rparr>))))"

definition register_calls :: "nat option \<Rightarrow> u32 \<Rightarrow> console_call list" where
  "register_calls cb watermark = [Set_watermark watermark, Reset_callback_bytes, Set_callback cb]"

text \<open>
  The log that the console holds, of \<open>B\<close> bytes, is the newest bytes of whole messages, each one of those
  that some caller writes. Messages are shorter than the address space less the ring.
\<close>

definition whole_messages :: "nat \<Rightarrow> u8 list set \<Rightarrow> ram_console_state \<Rightarrow> bool" where
  "whole_messages B messages s \<longleftrightarrow> ram_console_inv (s_ram_console s) \<and> ring_size (s_ram_console s) = B \<and>
     (\<exists>ms. set ms \<subseteq> messages \<and> current_log (s_ram_console s) = newest B (concat ms))"

definition console_valid :: "nat \<Rightarrow> u8 list set \<Rightarrow> console_shared \<Rightarrow> bool" where
  "console_valid B messages d \<longleftrightarrow> (\<exists>l s. d = Some (l, s) \<and> whole_messages B messages s)"

definition console_call_ok :: "nat \<Rightarrow> u8 list set \<Rightarrow> console_call \<Rightarrow> bool" where
  "console_call_ok B messages c \<longleftrightarrow> (\<forall>data. c = Console_write data \<longrightarrow> data \<in> messages \<and> length data + B < 2 ^ 32)"

abbreviation console_prog ::
  "(nat \<Rightarrow> ram_console_state \<Rightarrow> ram_console_state) \<Rightarrow> nat \<Rightarrow> u8 list set \<Rightarrow> nat option \<Rightarrow> nat \<Rightarrow> console_shared call list \<Rightarrow> bool" where
  "console_prog run_cb B messages b \<equiv> api_prog b (console_call_ok B messages) (console_access run_cb)"

section \<open>The calls keep the log\<close>

lemma register_is_three_stores:
  "fold effect (map (console_access run_cb) (register_calls cb watermark)) (Some (l, s)) =
     Some (l, nl_ram_console_register_callback cb watermark s)"
  by (simp add: register_calls_def effect_def set_context_def nl_ram_console_register_callback_def)

lemma write_halves:
  "map_option snd (count_data run_cb data (copy_data data (Some (l, s)))) = nl_ram_console_write run_cb data s"
  by (simp add: copy_data_def count_data_def nl_ram_console_write_def Let_def
      split: Option.bind_split option.split if_split)

lemma newest_newest: "newest n (newest n xs @ ys) = newest n (xs @ ys)"
  by (cases "length xs \<le> n") (simp_all add: newest_def ac_simps)

lemma console_validE:
  assumes "console_valid B messages d"
  obtains l s where "d = Some (l, s)" "whole_messages B messages s"
  using assms unfolding console_valid_def by blast

lemma valid_write:
  assumes "console_valid B messages d" "data \<in> messages" "length data + B < 2 ^ 32"
    and cb: "\<And>c t. s_ram_console (run_cb c t) = s_ram_console t"
  shows "console_valid B messages (count_data run_cb data (copy_data data d))"
proof -
  obtain l s where s: "d = Some (l, s)" "whole_messages B messages s" using assms(1) by (rule console_validE)
  then obtain ms where w: "ram_console_inv (s_ram_console s)" "ring_size (s_ram_console s) = B" "set ms \<subseteq> messages"
    "current_log (s_ram_console s) = newest B (concat ms)" unfolding whole_messages_def by blast
  have "\<exists>s'. nl_ram_console_write run_cb data s = Some s' \<and> whole_messages B messages s'"
  proof (cases "rc_enabled (s_ram_console s)")
    case True
    have "newest B (newest B (concat ms) @ data) = newest B (concat (ms @ [data]))" by (simp add: newest_newest)
    moreover have "set (ms @ [data]) \<subseteq> messages" using w(3) assms(2) by simp
    moreover obtain s' where "nl_ram_console_write run_cb data s = Some s'"
      "console_after_write (s_ram_console s) data (s_ram_console s')"
      using nl_ram_console_write_console [OF w(1) True, of data run_cb] assms(3) cb w(2) by auto
    ultimately show ?thesis using w(2,4) unfolding whole_messages_def console_after_write_def by metis
  next
    case False
    with s(2) show ?thesis by (simp add: nl_ram_console_write_def)
  qed
  then show ?thesis unfolding s(1) write_halves [of run_cb data l s, symmetric] by (auto simp: console_valid_def)
qed

lemma valid_store:
  assumes "console_valid B messages d"
    "\<And>s. \<exists>e. s_ram_console (f s) = (s_ram_console s)\<lparr>rc_enabled := e\<rparr>"
  shows "console_valid B messages (map_option (map_prod id f) d)"
proof -
  obtain l s where s: "d = Some (l, s)" "whole_messages B messages s" using assms(1) by (rule console_validE)
  moreover obtain e where "s_ram_console (f s) = (s_ram_console s)\<lparr>rc_enabled := e\<rparr>" using assms(2) by blast
  ultimately show ?thesis by (simp add: console_valid_def whole_messages_def)
qed

lemma context_store: "\<exists>e. s_ram_console (set_context f s) = (s_ram_console s)\<lparr>rc_enabled := e\<rparr>"
  by (rule exI [of _ "rc_enabled (s_ram_console s)"]) (simp add: set_context_def)

text \<open>The callbacks that may be registered leave the console alone.\<close>

definition console_effects :: "(nat \<Rightarrow> ram_console_state \<Rightarrow> ram_console_state) \<Rightarrow> nat \<Rightarrow> ram_console_state \<Rightarrow> ram_console_state" where
  "console_effects run_cb c t = (run_cb c t)\<lparr>s_ram_console := s_ram_console t\<rparr>"

lemma console_effects_same: "(\<And>c t. s_ram_console (run_cb c t) = s_ram_console t) \<Longrightarrow> console_effects run_cb = run_cb"
  by (rule ext)+ (metis console_effects_def ram_console_state.surjective ram_console_state.update_convs(1) ram_console_state.select_convs(1))

interpretation logged: guarded_api v "console_call_ok B messages" "console_access (console_effects run_cb)"
  "console_valid B messages" for v B messages run_cb
proof
  fix c d assume ok: "console_call_ok B messages c" and d: "console_valid B messages d"
  note stores = valid_store [OF d] context_store
  show "console_valid B messages (effect (console_access (console_effects run_cb) c) d)"
  proof (cases c)
    case (Console_write data)
    with ok valid_write [OF d, of data "console_effects run_cb"] show ?thesis
      by (simp add: effect_def console_call_ok_def console_effects_def)
  qed (use d in \<open>auto simp: effect_def nl_ram_console_enable_def nl_ram_console_disable_def intro!: stores\<close>)
qed

lemma boot_log:
  assumes "ram_console_boot s"
  shows "whole_messages (ring_size (s_ram_console s)) messages s"
proof -
  obtain N s0 where s: "image_size_ok N (s_ram_console s0)" "rc_magic (s_ram_console s0) \<noteq> RAM_CONSOLE_MAGIC"
    "s = nl_ram_console_init_bootloader N s0" using assms unfolding ram_console_boot_def by blast
  then have "s_ram_console s = (s_ram_console (init_ram_console N s0))\<lparr>rc_enabled := True\<rparr>"
    by (simp add: nl_ram_console_init_bootloader_def Let_def)
  with init_ram_console_inv [OF s(1), of True] show ?thesis
    by (auto simp: whole_messages_def current_log_def init_ram_console_def newest_def intro!: exI [of _ "[]"])
qed

section \<open>Property\<close>

text \<open>
  C10: Tasks and interrupt handlers may write to the console, enable and disable it and register callbacks
  at any time and preempt each other at any instruction, and still messages are not interleaved: whenever
  none of them is in a write, the indices are in the ring and the log is the newest bytes of a
  sequence of whole messages; otherwise exactly one of them is in its write. This needs that handlers above
  the base priority, if there is one, do not log, and that callbacks leave the console alone.
\<close>

theorem nl_ram_console_preemption_safe:
  assumes "b \<noteq> Some 0" "\<And>c t. s_ram_console (run_cb c t) = s_ram_console t"
    and "ram_console_boot s" "B = ring_size (s_ram_console s)" "shared s0 = Some (l, s)"
    and "irq_start (console_prog run_cb B messages b) s0" "(irq_step b (console_prog run_cb B messages b))\<^sup>*\<^sup>* s0 s1"
  shows "(nobody_inside s1 \<and>
      (\<exists>l t ms. shared s1 = Some (l, t) \<and> ram_console_inv (s_ram_console t) \<and> set ms \<subseteq> messages \<and>
         current_log (s_ram_console t) = newest B (concat ms)) \<or> one_inside b s1) \<and> \<not> stuck b s1"
proof -
  have "console_valid B messages (shared s0)" using boot_log [OF assms(3)] assms(4,5) by (simp add: console_valid_def)
  moreover obtain v where "b = map_option Suc v" using assms(1) by (rule base_priority_cases)
  ultimately have "(nobody_inside s1 \<and> console_valid B messages (shared s1) \<or> one_inside b s1) \<and> \<not> stuck b s1"
    using logged.exclusion [of v B messages run_cb s0 s1] assms(6,7) by (simp add: console_effects_same [OF assms(2)])
  then show ?thesis unfolding console_valid_def whole_messages_def by blast
qed

text \<open>A task that logs a message, after its bytes are copied and before they are counted.\<close>

definition booted_console :: ram_console_state where
  "booted_console = nl_ram_console_init_bootloader 4 ((demo_console False 9 9 9 9 [0, 0, 0, 0])\<lparr>s_ram_console :=
     (s_ram_console (demo_console False 9 9 9 9 [0, 0, 0, 0]))\<lparr>rc_magic := 0\<rparr>\<rparr>)"

lemma booted_console_facts: "ram_console_boot booted_console" "ring_size (s_ram_console booted_console) = 4"
proof -
  show "ram_console_boot booted_console" unfolding ram_console_boot_def booted_console_def
    by (intro exI conjI) (auto simp: demo_console_def image_size_ok_def RAM_CONSOLE_MAGIC_def)
  show "ring_size (s_ram_console booted_console) = 4"
    by (simp add: booted_console_def nl_ram_console_init_bootloader_def init_ram_console_def demo_console_def RAM_CONSOLE_MAGIC_def)
qed

definition logging_task :: "console_shared irq_context" where
  "logging_task = \<lparr>exception = 0, priority = 256,
     code = api_code (console_access (\<lambda>c t. t)) [Console_write [5, 6]], pc = 0, register = no_registers\<rparr>"

theorem nl_ram_console_preemption_safe_witness:
  "\<exists>s1. (irq_step (Some 4) (console_prog (\<lambda>c t. t) 4 {[5, 6]} (Some 4)))\<^sup>*\<^sup>*
       (started logging_task (Some (None, booted_console))) s1 \<and>
     shared s1 = copy_data [5, 6] (Some (None, booted_console)) \<and> one_inside (Some 4) s1 \<and> \<not> stuck (Some 4) s1"
proof -
  let ?d = "Some (None, booted_console)"
  let ?prog = "console_prog (\<lambda>c t. t) 4 {[5, 6]} (Some 4)"
  let ?s = "\<lambda>r. \<lparr>irq = \<lparr>primask = False, basepri = 4, lock_count = 1\<rparr>,
    contexts = [\<lparr>exception = 0, priority = 256, code = [Update (count_data (\<lambda>c t. t) [5, 6]), Enable], pc = 0, register = r\<rparr>],
    shared = copy_data [5, 6] ?d\<rparr>"
  have "\<exists>r. execs (Some 4) (Suc (Suc (Suc (Suc 0)))) (started logging_task ?d) = Some (?s r)"
    by (simp add: demo_unfold logging_task_def api_code_def)
  then obtain r where r: "(irq_step (Some 4) ?prog)\<^sup>*\<^sup>* (started logging_task ?d) (?s r)" by (blast intro: execs_steps)
  have start: "irq_start ?prog (started logging_task ?d)"
    unfolding irq_start_def api_prog_def
    by (auto simp: started_def urgent_def logging_task_def console_call_ok_def intro!: exI [of _ "[Console_write [5, 6]]"])
  have data: "shared (started logging_task ?d) = ?d" by (simp add: started_def)
  have base: "Some (4 :: nat) \<noteq> Some 0" by simp
  note safe = nl_ram_console_preemption_safe [where run_cb = "\<lambda>c t. t",
      OF base refl booted_console_facts(1) booted_console_facts(2) [symmetric] data start r]
  from conjunct1 [OF safe] have "nobody_inside (?s r) \<or> one_inside (Some 4) (?s r)" by (elim disjE conjE) (erule disjI1, erule disjI2)
  moreover note conjunct2 [OF safe]
  moreover have "\<not> nobody_inside (?s r)" by (simp add: nobody_inside_def idle_def)
  ultimately show ?thesis using r by (intro exI [of _ "?s r"]) simp
qed

end
