(* ===== verification/Builtin_cm0.thy ===== *)
theory Builtin_cm0
  imports NL_Prelude
begin

unbundle bit_operations_syntax

text \<open>
  The atomic built-ins of \<open>src/src/cpu/arm/cortex-m0/builtin.c\<close>, which the compiler calls on a core
  without exclusive loads and stores. Each is a sequence of steps on one memory cell and its local
  variables; between two steps an interrupt handler may run, if interrupts are enabled, and change the
  cell in any way. The relation \<open>exec\<close> has all the interleavings.

  The lemmas show that each built-in is atomic: whatever the handlers do, the outcome is that of the
  operation carried out at one point between the handlers.
\<close>

section \<open>State and interleaving\<close>

text \<open>The cell, the locals \<open>retval\<close> (of either type) and the operand register, and the interrupt mask.\<close>

record 'v atomic_state =
  cell :: 'v
  retval :: 'v
  swapped :: bool
  loaded :: 'v
  interrupts_enabled :: bool
  int_lock_count :: u8
  assert_failed :: bool

type_synonym 'v steps = "('v atomic_state \<Rightarrow> 'v atomic_state) list"

inductive exec :: "'v steps \<Rightarrow> 'v atomic_state \<Rightarrow> ('v \<Rightarrow> 'v) list \<Rightarrow> 'v atomic_state \<Rightarrow> bool" where
  exec_done: "exec [] s [] s"
| exec_step: "exec ps (p s) fs s' \<Longrightarrow> exec (p # ps) s fs s'"
| exec_interrupt: "interrupts_enabled s \<Longrightarrow> exec ps (s\<lparr>cell := f (cell s)\<rparr>) fs s' \<Longrightarrow> exec ps s (f # fs) s'"

inductive_cases exec_NilE: "exec [] s fs s'"
inductive_cases exec_ConsE: "exec (p # ps) s fs s'"

text \<open>
  The functions of \<open>src/include/arch/nlplatform_arm_cm0.h\<close>: calls nest, up to the range of the counter.
  No handler can run inside, since the mask is set first and cleared last.
\<close>

definition interrupt_disable :: "'v atomic_state \<Rightarrow> 'v atomic_state" where
  "interrupt_disable s = s\<lparr>interrupts_enabled := False, int_lock_count := int_lock_count s + 1\<rparr>"

definition interrupt_enable :: "'v atomic_state \<Rightarrow> 'v atomic_state" where
  "interrupt_enable s =
     (if int_lock_count s = 0 then s\<lparr>assert_failed := True\<rparr>
      else let c = int_lock_count s - 1
           in s\<lparr>int_lock_count := c, interrupts_enabled := (if c = 0 then True else interrupts_enabled s)\<rparr>)"

text \<open>Interrupts are enabled outside of every pair of calls, and the nesting is in range.\<close>

definition mask_ok :: "'v atomic_state \<Rightarrow> bool" where
  "mask_ok s \<longleftrightarrow> interrupts_enabled s = (int_lock_count s = 0) \<and> int_lock_count s \<noteq> - 1 \<and> \<not> assert_failed s"

text \<open>A barrier orders memory accesses, which the model takes in program order.\<close>

definition sync_synchronize :: "'v atomic_state \<Rightarrow> 'v atomic_state" where
  "sync_synchronize s = s"

section \<open>The built-ins\<close>

datatype operand_t = kOperandAnd | kOperandAdd | kOperandSub | kOperandOr | kOperandXor

definition operate :: "operand_t \<Rightarrow> u8 \<Rightarrow> u8 \<Rightarrow> u8" where
  "operate oper x val = (case oper of kOperandAnd \<Rightarrow> x AND val | kOperandAdd \<Rightarrow> x + val | kOperandSub \<Rightarrow> x - val
     | kOperandOr \<Rightarrow> x OR val | kOperandXor \<Rightarrow> x XOR val)"

text \<open>\<open>*ptr op= val\<close> is a load and a store.\<close>

definition sync_fetch_and_1 :: "u8 \<Rightarrow> operand_t \<Rightarrow> u8 steps" where
  "sync_fetch_and_1 val oper =
     [interrupt_disable, sync_synchronize,
      \<lambda>s. s\<lparr>retval := cell s\<rparr>,
      \<lambda>s. s\<lparr>loaded := cell s\<rparr>,
      \<lambda>s. s\<lparr>cell := operate oper (loaded s) val\<rparr>,
      sync_synchronize, interrupt_enable]"

definition sync_fetch_and_sub_1 :: "u8 \<Rightarrow> u8 steps" where
  "sync_fetch_and_sub_1 val = sync_fetch_and_1 val kOperandSub"

definition sync_fetch_and_add_1 :: "u8 \<Rightarrow> u8 steps" where
  "sync_fetch_and_add_1 val = sync_fetch_and_1 val kOperandAdd"

definition sync_fetch_and_and_1 :: "u8 \<Rightarrow> u8 steps" where
  "sync_fetch_and_and_1 val = sync_fetch_and_1 val kOperandAnd"

definition sync_fetch_and_or_1 :: "u8 \<Rightarrow> u8 steps" where
  "sync_fetch_and_or_1 val = sync_fetch_and_1 val kOperandOr"

definition sync_fetch_and_xor_1 :: "u8 \<Rightarrow> u8 steps" where
  "sync_fetch_and_xor_1 val = sync_fetch_and_1 val kOperandXor"

definition sync_sub_and_fetch_1 :: "u8 \<Rightarrow> u8 steps" where
  "sync_sub_and_fetch_1 val =
     [interrupt_disable, sync_synchronize,
      \<lambda>s. s\<lparr>loaded := cell s\<rparr>,
      \<lambda>s. s\<lparr>cell := loaded s - val\<rparr>,
      \<lambda>s. s\<lparr>retval := cell s\<rparr>,
      sync_synchronize, interrupt_enable]"

text \<open>Compare and swap, for a cell of 1, 2 or 4 bytes; the internal function does nothing for any other size.\<close>

definition sync_bool_compare_and_swap_internal :: "('n :: len) word \<Rightarrow> 'n word \<Rightarrow> nat \<Rightarrow> 'n word steps" where
  "sync_bool_compare_and_swap_internal oldval newval sz =
     [\<lambda>s. s\<lparr>swapped := False\<rparr>, interrupt_disable, sync_synchronize,
      \<lambda>s. s\<lparr>loaded := cell s\<rparr>,
      \<lambda>s. if sz \<in> {1, 2, 4} \<and> loaded s = oldval then s\<lparr>cell := newval, swapped := True\<rparr> else s,
      sync_synchronize, interrupt_enable]"

definition sync_bool_compare_and_swap_1 :: "u8 \<Rightarrow> u8 \<Rightarrow> u8 steps" where
  "sync_bool_compare_and_swap_1 oldval newval = sync_bool_compare_and_swap_internal oldval newval 1"

definition sync_bool_compare_and_swap_2 :: "u16 \<Rightarrow> u16 \<Rightarrow> u16 steps" where
  "sync_bool_compare_and_swap_2 oldval newval = sync_bool_compare_and_swap_internal oldval newval 2"

definition sync_bool_compare_and_swap_4 :: "u32 \<Rightarrow> u32 \<Rightarrow> u32 steps" where
  "sync_bool_compare_and_swap_4 oldval newval = sync_bool_compare_and_swap_internal oldval newval 4"

section \<open>Atomicity\<close>

text \<open>Handlers before the first step, and after the last.\<close>

lemma exec_Nil: "exec [] s fs s' \<Longrightarrow> \<exists>g. s' = s\<lparr>cell := g\<rparr> \<and> g = fold id fs (cell s)"
proof (induction "[] :: 'a steps" s fs s' rule: exec.induct)
  case (exec_done s)
  then show ?case by simp
next
  case (exec_interrupt s f fs s')
  then show ?case by simp
qed

lemma exec_disabled: "exec (p # ps) s fs s' \<Longrightarrow> \<not> interrupts_enabled s \<Longrightarrow> exec ps (p s) fs s'"
  by (auto elim: exec_ConsE)

lemma exec_enabled: "exec (p # ps) s fs s' \<Longrightarrow>
   \<exists>bs as. fs = bs @ as \<and> exec ps (p (s\<lparr>cell := fold id bs (cell s)\<rparr>)) as s'"
proof (induction "p # ps" s fs s' rule: exec.induct)
  case (exec_step s fs s')
  then show ?case by (intro exI [of _ "[]"] exI [of _ fs]) simp
next
  case (exec_interrupt s f fs s')
  then obtain bs as where "fs = bs @ as" "exec ps (p (s\<lparr>cell := fold id bs (f (cell s))\<rparr>)) as s'" by auto
  then show ?case by (intro exI [of _ "f # bs"] exI [of _ as]) simp
qed

text \<open>
  A critical section: the steps between \<open>interrupt_disable\<close> and \<open>interrupt_enable\<close> run as one, between
  the handlers that come before and those that come after.
\<close>

definition keeps_mask :: "('v atomic_state \<Rightarrow> 'v atomic_state) \<Rightarrow> bool" where
  "keeps_mask p \<longleftrightarrow> (\<forall>s. interrupts_enabled (p s) = interrupts_enabled s \<and> int_lock_count (p s) = int_lock_count s \<and>
     assert_failed (p s) = assert_failed s)"

lemma keeps_mask_fold: "\<forall>p \<in> set ps. keeps_mask p \<Longrightarrow> keeps_mask (fold id ps)"
proof (induction ps rule: rev_induct)
  case Nil
  then show ?case by (simp add: keeps_mask_def)
next
  case (snoc p ps)
  then show ?case by (simp add: keeps_mask_def)
qed

lemma exec_masked: "exec (ps @ qs) s fs s' \<Longrightarrow> \<forall>p \<in> set ps. keeps_mask p \<Longrightarrow> \<not> interrupts_enabled s \<Longrightarrow>
   exec qs (fold id ps s) fs s'"
proof (induction ps arbitrary: s)
  case (Cons p ps)
  from exec_disabled [OF Cons.prems(1)[simplified] Cons.prems(3)] Cons show ?case by (simp add: keeps_mask_def)
qed simp

text \<open>The outcome of a section, carried out between the handlers \<open>before\<close> and \<open>after\<close>.\<close>

definition section_outcome :: "'v steps \<Rightarrow> 'v atomic_state \<Rightarrow> ('v \<Rightarrow> 'v) list \<Rightarrow> ('v \<Rightarrow> 'v) list \<Rightarrow> 'v atomic_state \<Rightarrow> bool" where
  "section_outcome ps s before after s' \<longleftrightarrow>
     (\<exists>t. t = fold id ps (interrupt_disable (s\<lparr>cell := fold id before (cell s)\<rparr>)) \<and>
       s' = (interrupt_enable t)\<lparr>cell := fold id after (cell t)\<rparr>)"

lemma critical_section:
  assumes "exec (interrupt_disable # ps @ [interrupt_enable]) s fs s'" "\<forall>p \<in> set ps. keeps_mask p"
  obtains before after where "fs = before @ after" "section_outcome ps s before after s'"
proof -
  obtain before after where fs: "fs = before @ after"
    "exec (ps @ [interrupt_enable]) (interrupt_disable (s\<lparr>cell := fold id before (cell s)\<rparr>)) after s'"
    using exec_enabled [OF assms(1)] by blast
  let ?t = "fold id ps (interrupt_disable (s\<lparr>cell := fold id before (cell s)\<rparr>))"
  have "exec [interrupt_enable] ?t after s'"
    by (rule exec_masked [OF fs(2) assms(2)]) (simp add: interrupt_disable_def)
  moreover have "\<not> interrupts_enabled ?t"
    using keeps_mask_fold [OF assms(2)] by (simp add: keeps_mask_def interrupt_disable_def)
  ultimately have "exec [] (interrupt_enable ?t) after s'" by (rule exec_disabled)
  from exec_Nil [OF this] have "s' = (interrupt_enable ?t)\<lparr>cell := fold id after (cell (interrupt_enable ?t))\<rparr>" by blast
  moreover have "cell (interrupt_enable u) = cell u" for u :: "'a atomic_state" by (simp add: interrupt_enable_def Let_def)
  ultimately show thesis using that fs(1) by (auto simp: section_outcome_def)
qed

lemma section_mask:
  assumes "section_outcome ps s before after s'" "\<forall>p \<in> set ps. keeps_mask p" "mask_ok s"
  shows "mask_ok s' \<and> interrupts_enabled s' = interrupts_enabled s \<and> int_lock_count s' = int_lock_count s"
proof -
  let ?u = "interrupt_disable (s\<lparr>cell := fold id before (cell s)\<rparr>)" let ?t = "fold id ps ?u"
  have t: "interrupts_enabled ?t = False" "int_lock_count ?t = int_lock_count s + 1" "\<not> assert_failed ?t"
    using keeps_mask_fold [OF assms(2)] assms(3) by (simp_all add: keeps_mask_def interrupt_disable_def mask_ok_def)
  have "int_lock_count s + 1 \<noteq> 0"
    using assms(3) by (metis add_eq_0_iff2 mask_ok_def)
  with t assms(1,3) show ?thesis by (auto simp: section_outcome_def interrupt_enable_def mask_ok_def Let_def)
qed

lemma section_locals: "section_outcome ps s before after s' \<Longrightarrow>
   \<exists>t. t = fold id ps (interrupt_disable (s\<lparr>cell := fold id before (cell s)\<rparr>)) \<and>
     retval s' = retval t \<and> swapped s' = swapped t \<and> cell s' = fold id after (cell t)"
  by (auto simp: section_outcome_def interrupt_enable_def Let_def)


lemma sync_sub_and_fetch_atomic:
  assumes "exec (sync_sub_and_fetch_1 val) s handlers s'" "mask_ok s"
  shows "\<exists>before after. handlers = before @ after \<and>
    retval s' = fold id before (cell s) - val \<and>
    cell s' = fold id after (fold id before (cell s) - val) \<and>
    mask_ok s' \<and> interrupts_enabled s' = interrupts_enabled s"
proof -
  let ?ps = "[sync_synchronize, \<lambda>s. s\<lparr>loaded := cell s\<rparr>, \<lambda>s. s\<lparr>cell := loaded s - val\<rparr>,
    \<lambda>s. s\<lparr>retval := cell s\<rparr>, sync_synchronize]"
  have "exec (interrupt_disable # ?ps @ [interrupt_enable]) s handlers s'" using assms(1) by (simp add: sync_sub_and_fetch_1_def)
  moreover have ps: "\<forall>p \<in> set ?ps. keeps_mask p" by (simp add: keeps_mask_def sync_synchronize_def)
  ultimately obtain before after where o: "handlers = before @ after" "section_outcome ?ps s before after s'"
    by (rule critical_section)
  from section_locals [OF o(2)] section_mask [OF o(2) ps assms(2)] o(1) show ?thesis
    by (intro exI [of _ before] exI [of _ after]) (auto simp: sync_synchronize_def interrupt_disable_def)
qed

text \<open>
  Compare and swap is atomic, for each of the three widths: it swaps exactly when the cell holds
  the expected value at one point between the handlers, and otherwise leaves the cell to them.
\<close>

theorem sync_compare_and_swap_atomic:
  assumes "exec (sync_bool_compare_and_swap_internal oldval newval sz) s handlers s'" "sz \<in> {1, 2, 4}" "mask_ok s"
  shows "\<exists>before after. handlers = before @ after \<and>
    swapped s' = (fold id before (cell s) = oldval) \<and>
    cell s' = fold id after (if swapped s' then newval else fold id before (cell s)) \<and>
    mask_ok s' \<and> interrupts_enabled s' = interrupts_enabled s"
proof -
  let ?ps = "[sync_synchronize, \<lambda>s. s\<lparr>loaded := cell s\<rparr>,
    \<lambda>s. if sz \<in> {1, 2, 4} \<and> loaded s = oldval then s\<lparr>cell := newval, swapped := True\<rparr> else s, sync_synchronize]"
  obtain b0 a0 where h: "handlers = b0 @ a0"
    "exec (interrupt_disable # ?ps @ [interrupt_enable]) (s\<lparr>cell := fold id b0 (cell s), swapped := False\<rparr>) a0 s'"
    using exec_enabled [OF assms(1) [unfolded sync_bool_compare_and_swap_internal_def]] by auto
  have ps: "\<forall>p \<in> set ?ps. keeps_mask p" by (simp add: keeps_mask_def sync_synchronize_def)
  obtain before after where o: "a0 = before @ after"
    "section_outcome ?ps (s\<lparr>cell := fold id b0 (cell s), swapped := False\<rparr>) before after s'"
    by (rule critical_section [OF h(2) ps])
  have "mask_ok (s\<lparr>cell := fold id b0 (cell s), swapped := False\<rparr>)" using assms(3) by (simp add: mask_ok_def)
  from section_locals [OF o(2)] section_mask [OF o(2) ps this] o(1) h(1) assms(2) show ?thesis
    by (intro exI [of _ "b0 @ before"] exI [of _ after]) (auto simp: sync_synchronize_def interrupt_disable_def)
qed

section \<open>Witnesses\<close>

definition atomic_start :: "'v \<Rightarrow> 'v atomic_state" where
  "atomic_start x = \<lparr>cell = x, retval = x, swapped = False, loaded = x, interrupts_enabled = True,
     int_lock_count = 0, assert_failed = False\<rparr>"

lemma atomic_start_ok: "mask_ok (atomic_start x)"
  by (simp add: mask_ok_def atomic_start_def)


lemma sync_compare_and_swap_atomic_witness:
  "\<exists>s'. exec (sync_bool_compare_and_swap_4 7 9) (atomic_start 7) [] s' \<and> swapped s' \<and> cell s' = 9"
proof -
  have "\<exists>s'. exec (sync_bool_compare_and_swap_4 7 9) (atomic_start 7) [] s'"
    unfolding sync_bool_compare_and_swap_4_def sync_bool_compare_and_swap_internal_def
    by (intro exI, (rule exec_step)+, rule exec_done)
  then obtain s' where e: "exec (sync_bool_compare_and_swap_4 7 9) (atomic_start 7) [] s'" ..
  from sync_compare_and_swap_atomic [OF this [unfolded sync_bool_compare_and_swap_4_def] _ atomic_start_ok] e
  show ?thesis by (auto simp: atomic_start_def)
qed

end
