(* ===== verification/Compiler_support.thy ===== *)
theory Compiler_support
  imports NL_Prelude
begin

unbundle bit_operations_syntax

text \<open>
  What the compiler calls in \<open>src/src/compiler/gnu/gcc\<close> (the Apple variants have the same memory
  functions and the same guards): the EABI helpers of \<open>eabi.c\<close>, with the 64-bit shift instruction by
  instruction, and the guards of function-local statics of \<open>cxx-symbols.c\<close>, in builds without the
  pthread mutex (with it, \<open>Guard_threads\<close>). The lemmas show that the shift is the logical shift right of
  64-bit values, that the memory functions copy and fill exactly their range, and what the guards
  promise.
\<close>

section \<open>The 64-bit shift\<close>

text \<open>Shifts by register use the lowest byte of the amount, and 32 or more give 0.\<close>

definition lsrs :: "u32 \<Rightarrow> u32 \<Rightarrow> u32" where
  "lsrs r n = drop_bit (unat (take_bit 8 n)) r"

definition lsls :: "u32 \<Rightarrow> u32 \<Rightarrow> u32" where
  "lsls r n = push_bit (unat (take_bit 8 n)) r"

text \<open>The registers \<open>r0\<close> and \<open>r1\<close> hold the value, \<open>r2\<close> the amount.\<close>

definition llsr_registers :: "u32 \<Rightarrow> u32 \<Rightarrow> u32 \<Rightarrow> u32 \<times> u32" where
  "llsr_registers lo hi n =
     (let r0 = lsrs lo n;
          r3 = hi + 0;
          r1 = lsrs hi n;
          ip = r3;
          r2 = n - 32;
          r3 = lsrs r3 r2;
          r0 = r0 OR r3;
          r2 = - r2;
          r3 = ip;
          r3 = lsls r3 r2;
          r0 = r0 OR r3
      in (r0, r1))"

definition aeabi_llsr :: "u64 \<Rightarrow> u32 \<Rightarrow> u64" where
  "aeabi_llsr val n = (let (r0, r1) = llsr_registers (ucast val) (ucast (drop_bit 32 val)) n
     in push_bit 32 (ucast r1) OR ucast r0)"

section \<open>Memory functions\<close>

primrec aeabi_memcpy :: "u32 \<Rightarrow> u32 \<Rightarrow> nat \<Rightarrow> (u32 \<Rightarrow> u8) \<Rightarrow> (u32 \<Rightarrow> u8)" where
  "aeabi_memcpy d s 0 m = m"
| "aeabi_memcpy d s (Suc n) m = aeabi_memcpy (d + 1) (s + 1) n (m(d := m s))"

primrec aeabi_memset :: "u32 \<Rightarrow> nat \<Rightarrow> u32 \<Rightarrow> (u32 \<Rightarrow> u8) \<Rightarrow> (u32 \<Rightarrow> u8)" where
  "aeabi_memset d 0 c m = m"
| "aeabi_memset d (Suc n) c m = aeabi_memset (d + 1) n c (m(d := ucast c))"

section \<open>Guards\<close>

text \<open>The first two bytes of the guard object; the others are not used.\<close>

record guard_object =
  guard_byte0 :: u8
  guard_byte1 :: u8

definition initializerHasRun :: "guard_object \<Rightarrow> bool" where
  "initializerHasRun g \<longleftrightarrow> guard_byte0 g \<noteq> 0"

definition setInitializerHasRun :: "guard_object \<Rightarrow> guard_object" where
  "setInitializerHasRun g = g\<lparr>guard_byte0 := 1\<rparr>"

definition inUse :: "guard_object \<Rightarrow> bool" where
  "inUse g \<longleftrightarrow> guard_byte1 g \<noteq> 0"

definition setInUse :: "guard_object \<Rightarrow> guard_object" where
  "setInUse g = g\<lparr>guard_byte1 := 1\<rparr>"

definition setNotInUse :: "guard_object \<Rightarrow> guard_object" where
  "setNotInUse g = g\<lparr>guard_byte1 := 0\<rparr>"

text \<open>\<open>abort_message\<close> is defined as nothing, so the branch for a guard in use does nothing.\<close>

definition cxa_guard_acquire :: "guard_object \<Rightarrow> int \<times> guard_object" where
  "cxa_guard_acquire g =
     (if initializerHasRun g then (0, g)
      else if initializerHasRun g then (0, g)
      else let g1 = (if inUse g then g else g) in (1, setInUse g1))"

definition cxa_guard_release :: "guard_object \<Rightarrow> guard_object" where
  "cxa_guard_release g = setInitializerHasRun g"

definition cxa_guard_abort :: "guard_object \<Rightarrow> guard_object" where
  "cxa_guard_abort g = setNotInUse g"

datatype guard_call = Acquire | Release | Abort

text \<open>A sequence of calls on one guard, with the results of the acquisitions.\<close>

primrec guard_run :: "guard_call list \<Rightarrow> guard_object \<Rightarrow> int list \<times> guard_object" where
  "guard_run [] g = ([], g)"
| "guard_run (c # cs) g =
     (case c of
        Acquire \<Rightarrow> let (r, g1) = cxa_guard_acquire g; (rs, g2) = guard_run cs g1 in (r # rs, g2)
      | Release \<Rightarrow> guard_run cs (cxa_guard_release g)
      | Abort \<Rightarrow> guard_run cs (cxa_guard_abort g))"

section \<open>Lemmas\<close>

lemma unat_take_8: "unat (take_bit 8 (n :: u32)) = unat n mod 256"
proof -
  have "unat (take_bit 8 n) = take_bit 8 (unat n)" by (rule unsigned_take_bit_eq)
  also have "\<dots> = unat n mod 256" using take_bit_eq_mod [of 8 "unat n"] by simp
  finally show ?thesis .
qed

text \<open>The amounts that the three kinds of shifts see.\<close>

lemma shift_amounts:
  fixes n :: u32
  assumes "unat n < 256"
  shows "unat (take_bit 8 n) = unat n"
    "unat (take_bit 8 (n - 32)) = (if unat n < 32 then unat n + 224 else unat n - 32)"
    "unat (take_bit 8 (- (n - 32))) = (if unat n \<le> 32 then 32 - unat n else 288 - unat n)"
proof -
  show "unat (take_bit 8 n) = unat n" using assms by (simp add: unat_take_8)
  show "unat (take_bit 8 (n - 32)) = (if unat n < 32 then unat n + 224 else unat n - 32)"
  proof (cases "unat n < 32")
    case True
    then have "unat (n - 32) = (unat n + 224) + 256 * 16777215" by (simp add: unat_sub_if' word_le_nat_alt)
    with True show ?thesis unfolding unat_take_8 by (simp only: mod_mult_self2) simp
  next
    case False
    then have "unat (n - 32) = unat n - 32" by (simp add: unat_sub_if' word_le_nat_alt)
    with False assms show ?thesis by (simp add: unat_take_8)
  qed
  show "unat (take_bit 8 (- (n - 32))) = (if unat n \<le> 32 then 32 - unat n else 288 - unat n)"
  proof (cases "unat n \<le> 32")
    case True
    then have "unat (32 - n) = 32 - unat n" by (simp add: unat_sub_if' word_le_nat_alt)
    with True show ?thesis by (simp add: unat_take_8)
  next
    case False
    then have "unat (32 - n) = (288 - unat n) + 256 * 16777215" using assms by (simp add: unat_sub_if' word_le_nat_alt)
    with False assms show ?thesis unfolding unat_take_8 by (simp only: mod_mult_self2 minus_diff_eq) simp
  qed
qed

lemma bit_halves: "k < 64 \<Longrightarrow> bit (push_bit 32 (ucast (r1 :: u32)) OR ucast (r0 :: u32) :: u64) k \<longleftrightarrow> (if k < 32 then bit r0 k else bit r1 (k - 32))"
  using bit_imp_le_length [of r0 k] by (auto simp: bit_or_iff bit_push_bit_iff bit_unsigned_iff)

lemma bit_high: "bit (ucast (drop_bit 32 (val :: u64)) :: u32) j \<longleftrightarrow> j < 32 \<and> bit val (32 + j)"
  by (auto simp: bit_unsigned_iff bit_drop_bit_eq)

lemma bit_low: "bit (ucast (val :: u64) :: u32) j \<longleftrightarrow> j < 32 \<and> bit val j"
  by (auto simp: bit_unsigned_iff)

text \<open>The bits of the two shifted halves are those of the shifted value; \<open>N\<close> is the amount.\<close>

lemma bit_beyond: "64 \<le> j \<Longrightarrow> \<not> bit (val :: u64) j"
  using bit_imp_le_length [of val j] by auto

lemma llsr_bits:
  fixes val :: u64
  defines "lo \<equiv> (ucast val :: u32)" and "hi \<equiv> (ucast (drop_bit 32 val) :: u32)"
  assumes k: "k < 64" and N: "N < 256" and m: "m = (if N < 32 then N + 224 else N - 32)"
    and p: "p = (if N \<le> 32 then 32 - N else 288 - N)"
  shows "(if k < 32 then bit lo (N + k) \<or> bit hi (m + k) \<or> p \<le> k \<and> bit hi (k - p) else bit hi (N + (k - 32))) \<longleftrightarrow> bit val (N + k)"
proof -
  have lo: "bit lo j \<longleftrightarrow> j < 32 \<and> bit val j" and hi: "bit hi j \<longleftrightarrow> j < 32 \<and> bit val (32 + j)" for j
    unfolding lo_def hi_def by (rule bit_low, rule bit_high)
  consider "N < 32" "k < 32" | "N < 32" "32 \<le> k" | "32 \<le> N" "k < 32" | "32 \<le> N" "32 \<le> k" by linarith
  then show ?thesis
  proof cases
    case 1
    have "p \<le> k \<Longrightarrow> 32 + (k - p) = N + k" using 1 by (simp add: p)
    with 1 show ?thesis by (cases "p \<le> k") (auto simp: lo hi m p add.commute [of k N])
  next
    case 2
    then have "32 + (N + (k - 32)) = N + k" by simp
    with 2 bit_beyond [of "N + k" val] show ?thesis by (cases "64 \<le> N + k") (auto simp: hi)
  next
    case 3
    then have e: "32 + (m + k) = N + k" by (simp add: m)
    have "m + k < 32" if "\<not> 64 \<le> N + k" using that e by linarith
    with bit_beyond [of "N + k" val] have "bit hi (m + k) \<longleftrightarrow> bit val (N + k)" unfolding hi e by blast
    moreover have "\<not> bit lo (N + k)" using 3 by (simp add: lo)
    moreover have "p \<le> k \<and> bit hi (k - p) \<longrightarrow> bit val (N + k)" using 3 N by (cases "N = 32") (auto simp: p hi)
    ultimately show ?thesis using 3 by auto
  next
    case 4
    with bit_beyond [of "N + k" val] show ?thesis by (simp add: hi)
  qed
qed

text \<open>
  C28: the assembly of the 64-bit shift computes the logical shift right, for every value and every
  amount below 256 (the amounts 0 to 63 are the ones C defines).
\<close>

theorem aeabi_llsr_shifts:
  assumes "unat n < 256"
  shows "aeabi_llsr val n = drop_bit (unat n) val"
proof (rule bit_word_eqI)
  fix k assume k: "k < LENGTH(64)"
  define N where "N = unat n"
  define m where "m = (if N < 32 then N + 224 else N - 32)"
  define p where "p = (if N \<le> 32 then 32 - N else 288 - N)"
  define lo where "lo = (ucast val :: u32)"
  define hi where "hi = (ucast (drop_bit 32 val) :: u32)"
  note amounts = shift_amounts [OF assms, folded N_def, folded m_def p_def]
  have "aeabi_llsr val n = push_bit 32 (ucast (drop_bit N hi)) OR ucast (drop_bit N lo OR drop_bit m hi OR push_bit p hi)"
    by (simp only: aeabi_llsr_def llsr_registers_def Let_def lsrs_def lsls_def amounts prod.case or.assoc add_0_right lo_def hi_def)
  then have "bit (aeabi_llsr val n) k \<longleftrightarrow>
      (if k < 32 then bit (drop_bit N lo OR drop_bit m hi OR push_bit p hi) k else bit (drop_bit N hi) (k - 32))"
    using k by (simp only:) (rule bit_halves, simp)
  also have "\<dots> \<longleftrightarrow> (if k < 32 then bit lo (N + k) \<or> bit hi (m + k) \<or> p \<le> k \<and> bit hi (k - p) else bit hi (N + (k - 32)))"
    by (auto simp: bit_or_iff bit_drop_bit_eq bit_push_bit_iff)
  also have "\<dots> \<longleftrightarrow> bit val (N + k)"
    unfolding lo_def hi_def by (rule llsr_bits) (use k assms in \<open>simp_all add: m_def p_def N_def\<close>)
  finally show "bit (aeabi_llsr val n) k \<longleftrightarrow> bit (drop_bit (unat n) val) k" by (simp add: bit_drop_bit_eq N_def)
qed

lemma memcpy_outside: "(\<And>i. i < n \<Longrightarrow> a \<noteq> d + word_of_nat i) \<Longrightarrow> aeabi_memcpy d s n m a = m a"
proof (induction n arbitrary: d s m)
  case (Suc n)
  have "a \<noteq> d" using Suc.prems [of 0] by simp
  moreover have "a \<noteq> d + 1 + word_of_nat i" if "i < n" for i using Suc.prems [of "Suc i"] that by (simp add: ac_simps)
  ultimately show ?case by (simp add: Suc.IH)
qed simp

text \<open>Copying upwards is right unless the destination starts inside the source.\<close>

lemma aeabi_memcpy_copies:
  assumes "\<And>i j. i < j \<Longrightarrow> j < n \<Longrightarrow> d + word_of_nat i \<noteq> s + word_of_nat j" "n \<le> 2 ^ 32" "i < n"
  shows "aeabi_memcpy d s n m (d + word_of_nat i) = m (s + word_of_nat i)"
  using assms
proof (induction n arbitrary: d s m i)
  case (Suc n)
  show ?case
  proof (cases i)
    case 0
    have "d \<noteq> d + 1 + word_of_nat j" if "j < n" for j
    proof
      assume "d = d + 1 + word_of_nat j"
      then have "word_of_nat (Suc j) = (0 :: u32)" by simp
      moreover have "Suc j < 2 ^ 32" using that Suc.prems(2) by simp
      ultimately show False by (simp add: word_of_nat_eq_0_iff nat_dvd_not_less del: of_nat_Suc)
    qed
    with 0 show ?thesis by (simp add: memcpy_outside)
  next
    case (Suc j)
    have "d + 1 + word_of_nat a \<noteq> s + 1 + word_of_nat b" if "a < b" "b < n" for a b
      using Suc.prems(1) [of "Suc a" "Suc b"] that by (simp add: ac_simps)
    moreover have "s + word_of_nat i \<noteq> d"
      using Suc.prems(1) [of 0 i] Suc.prems(3) Suc by auto
    ultimately show ?thesis
      using Suc.IH [of "d + 1" "s + 1" j "m(d := m s)"] Suc.prems(2,3) Suc
      by (simp add: ac_simps del: fun_upd_apply) (simp add: fun_upd_apply)
  qed
qed simp

lemma guard_done: "guard_byte0 g \<noteq> 0 \<Longrightarrow> fst (guard_run cs g) = replicate (length (filter (\<lambda>c. c = Acquire) cs)) 0"
  by (induction cs arbitrary: g)
    (auto simp: cxa_guard_acquire_def cxa_guard_release_def cxa_guard_abort_def setInitializerHasRun_def setNotInUse_def
      initializerHasRun_def case_prod_beta Let_def split: guard_call.split)

text \<open>
  Every acquisition before the first release lets its caller run the initializer, also a second one
  while the initializer runs, which the comment says is aborted; none after the release does.
\<close>

lemma guard_initializer_runs:
  "guard_byte0 g = 0 \<Longrightarrow> Release \<notin> set cs \<Longrightarrow>
   fst (guard_run (cs @ Release # ds) g) =
     replicate (length (filter (\<lambda>c. c = Acquire) cs)) 1 @ replicate (length (filter (\<lambda>c. c = Acquire) ds)) 0"
proof (induction cs arbitrary: g)
  case Nil
  then show ?case by (simp add: guard_done cxa_guard_release_def setInitializerHasRun_def)
next
  case (Cons c cs)
  then show ?case
    by (cases c) (auto simp: cxa_guard_acquire_def cxa_guard_abort_def setInUse_def setNotInUse_def initializerHasRun_def
      case_prod_beta Let_def)
qed

lemma aeabi_llsr_shifts_witness: "aeabi_llsr 0x123456789abcdef0 20 = 0x123456789ab"
  using aeabi_llsr_shifts [of 20 "0x123456789abcdef0"] by simp

end
