(* ===== verification/Guard_threads.thy ===== *)
theory Guard_threads
  imports Compiler_support
begin

text \<open>
  The guards of \<open>src/src/compiler/gnu/gcc/cxx-symbols.c\<close> in builds with the pthread mutex, used by several
  threads: one recursive mutex for all guards, which a thread holds while it runs the initializer of a
  static. Each access to a guard and each call of the mutex is a step. The mutex is a parameter, with
  what POSIX says of recursive mutexes: \<open>held m t\<close> is how often the thread \<open>t\<close> has locked it. The lemmas
  show that at most one thread at a time is initializing and that no initializer completes twice, and
  that it may complete twice without the mutex, as in the Apple variants of the file.
\<close>

section \<open>Threads and steps\<close>

text \<open>
  Where a thread is: elsewhere, also in an initializer, or in a call; the guards whose initializers it runs,
  innermost first. \<open>completed\<close> counts for each guard how often its initializer has completed.
\<close>

datatype guard_pc = Elsewhere | Wants_lock nat | Has_lock nat | Releases nat | Aborts nat

record guard_thread =
  at :: guard_pc
  initializing :: "nat list"

record 'm guard_state =
  guards :: "nat \<Rightarrow> guard_object"
  guard_mutex :: 'm
  threads :: "nat \<Rightarrow> guard_thread"
  completed :: "nat \<Rightarrow> nat"

definition goto :: "nat \<Rightarrow> guard_pc \<Rightarrow> nat list \<Rightarrow> 'm guard_state \<Rightarrow> 'm guard_state" where
  "goto t p gs s = s\<lparr>threads := (threads s)(t := \<lparr>at = p, initializing = gs\<rparr>)\<rparr>"

abbreviation pc_of :: "'m guard_state \<Rightarrow> nat \<Rightarrow> guard_pc" where
  "pc_of s t \<equiv> at (threads s t)"

abbreviation stack_of :: "'m guard_state \<Rightarrow> nat \<Rightarrow> nat list" where
  "stack_of s t \<equiv> initializing (threads s t)"

definition change :: "nat \<Rightarrow> (guard_object \<Rightarrow> guard_object) \<Rightarrow> 'm guard_state \<Rightarrow> 'm guard_state" where
  "change g f s = s\<lparr>guards := (guards s)(g := f (guards s g))\<rparr>"

text \<open>
  \<open>lock\<close> is \<open>None\<close> where it blocks. Initializers are nested, and none needs the static that it initializes.
\<close>

inductive guard_step ::
  "(nat \<Rightarrow> 'm \<Rightarrow> 'm option) \<Rightarrow> (nat \<Rightarrow> 'm \<Rightarrow> 'm) \<Rightarrow> 'm guard_state \<Rightarrow> 'm guard_state \<Rightarrow> bool" for lock unlock where
  acquire_not: "pc_of s t = Elsewhere \<Longrightarrow> initializerHasRun (guards s g) \<Longrightarrow> guard_step lock unlock s s"
| acquire: "pc_of s t = Elsewhere \<Longrightarrow> g \<notin> set (stack_of s t) \<Longrightarrow> \<not> initializerHasRun (guards s g) \<Longrightarrow>
    guard_step lock unlock s (goto t (Wants_lock g) (stack_of s t) s)"
| acquire_lock: "pc_of s t = Wants_lock g \<Longrightarrow> lock t (guard_mutex s) = Some m \<Longrightarrow>
    guard_step lock unlock s (goto t (Has_lock g) (stack_of s t) (s\<lparr>guard_mutex := m\<rparr>))"
| acquire_other: "pc_of s t = Has_lock g \<Longrightarrow> initializerHasRun (guards s g) \<Longrightarrow>
    guard_step lock unlock s (goto t Elsewhere (stack_of s t) (s\<lparr>guard_mutex := unlock t (guard_mutex s)\<rparr>))"
| acquire_run: "pc_of s t = Has_lock g \<Longrightarrow> \<not> initializerHasRun (guards s g) \<Longrightarrow>
    guard_step lock unlock s (goto t Elsewhere (g # stack_of s t) (change g setInUse s))"
| release: "pc_of s t = Elsewhere \<Longrightarrow> stack_of s t = g # gs \<Longrightarrow>
    guard_step lock unlock s (goto t (Releases g) (g # gs)
      (change g setInitializerHasRun s)\<lparr>completed := (completed s)(g := Suc (completed s g))\<rparr>)"
| release_unlock: "pc_of s t = Releases g \<Longrightarrow> stack_of s t = g # gs \<Longrightarrow>
    guard_step lock unlock s (goto t Elsewhere gs (s\<lparr>guard_mutex := unlock t (guard_mutex s)\<rparr>))"
| abort: "pc_of s t = Elsewhere \<Longrightarrow> stack_of s t = g # gs \<Longrightarrow>
    guard_step lock unlock s (goto t (Aborts g) gs (s\<lparr>guard_mutex := unlock t (guard_mutex s)\<rparr>))"
| abort_reset: "pc_of s t = Aborts g \<Longrightarrow>
    guard_step lock unlock s (goto t Elsewhere (stack_of s t) (change g setNotInUse s))"

definition guard_start :: "('m \<Rightarrow> nat \<Rightarrow> nat) \<Rightarrow> 'm guard_state \<Rightarrow> bool" where
  "guard_start held s \<longleftrightarrow> (\<forall>g. guards s g = \<lparr>guard_byte0 = 0, guard_byte1 = 0\<rparr> \<and> completed s g = 0) \<and>
     (\<forall>t. threads s t = \<lparr>at = Elsewhere, initializing = []\<rparr> \<and> held (guard_mutex s) t = 0)"

text \<open>What POSIX promises of a recursive mutex.\<close>

definition recursive_mutex :: "(nat \<Rightarrow> 'm \<Rightarrow> 'm option) \<Rightarrow> (nat \<Rightarrow> 'm \<Rightarrow> 'm) \<Rightarrow> ('m \<Rightarrow> nat \<Rightarrow> nat) \<Rightarrow> bool" where
  "recursive_mutex lock unlock held \<longleftrightarrow>
     (\<forall>t m m'. lock t m = Some m' \<longrightarrow> (\<forall>u. u \<noteq> t \<longrightarrow> held m u = 0) \<and> held m' = (held m)(t := Suc (held m t))) \<and>
     (\<forall>t m. 0 < held m t \<longrightarrow> held (unlock t m) = (held m)(t := held m t - 1))"

section \<open>The calls without other threads\<close>

lemma acquires:
  assumes "pc_of s t = Elsewhere" "g \<notin> set (stack_of s t)" "\<not> initializerHasRun (guards s g)" "lock t (guard_mutex s) = Some m"
  shows "(guard_step lock unlock)\<^sup>*\<^sup>* s (goto t Elsewhere (g # stack_of s t) (change g setInUse (s\<lparr>guard_mutex := m\<rparr>)))"
proof -
  let ?a = "goto t (Wants_lock g) (stack_of s t) s"
  let ?b = "goto t (Has_lock g) (stack_of ?a t) (?a\<lparr>guard_mutex := m\<rparr>)"
  let ?c = "goto t Elsewhere (g # stack_of ?b t) (change g setInUse ?b)"
  have "guard_step lock unlock s ?a" using assms(1-3) by (rule guard_step.acquire)
  moreover have "guard_step lock unlock ?a ?b" using assms(4) by (intro guard_step.acquire_lock) (simp_all add: goto_def)
  moreover have "guard_step lock unlock ?b ?c" using assms(3) by (intro guard_step.acquire_run) (simp_all add: goto_def)
  ultimately have "(guard_step lock unlock)\<^sup>*\<^sup>* s ?c" by (meson rtranclp.rtrancl_refl rtranclp.rtrancl_into_rtrancl)
  moreover have "?c = goto t Elsewhere (g # stack_of s t) (change g setInUse (s\<lparr>guard_mutex := m\<rparr>))" by (simp add: goto_def change_def)
  ultimately show ?thesis by simp
qed

text \<open>The steps of an acquisition, undisturbed, are that of the build without the mutex.\<close>

lemma acquire_alone:
  assumes "pc_of s t = Elsewhere" "g \<notin> set (stack_of s t)" "lock t (guard_mutex s) = Some m" "cxa_guard_acquire (guards s g) = (r, o')"
  shows "\<exists>s'. (guard_step lock unlock)\<^sup>*\<^sup>* s s' \<and> guards s' = (guards s)(g := o') \<and>
     pc_of s' t = Elsewhere \<and> stack_of s' t = (if r = 1 then g # stack_of s t else stack_of s t)"
proof (cases "initializerHasRun (guards s g)")
  case True
  with assms show ?thesis by (intro exI [of _ s]) (auto simp: cxa_guard_acquire_def)
next
  case False
  moreover have "r = 1" "o' = setInUse (guards s g)" using assms(4) False by (auto simp: cxa_guard_acquire_def)
  ultimately show ?thesis using acquires [of s t g lock m unlock, OF assms(1,2) False assms(3)]
    by (intro exI [of _ "goto t Elsewhere (g # stack_of s t) (change g setInUse (s\<lparr>guard_mutex := m\<rparr>))"]) (simp add: goto_def change_def)
qed

section \<open>The invariant\<close>

text \<open>How often a thread has locked the mutex, from where it is.\<close>

definition locks :: "guard_thread \<Rightarrow> nat" where
  "locks r = length (initializing r) + (case at r of Has_lock _ \<Rightarrow> 1 | _ \<Rightarrow> 0)"

definition thread_ok :: "guard_thread \<Rightarrow> bool" where
  "thread_ok r \<longleftrightarrow> distinct (initializing r) \<and>
     (\<forall>g. (at r = Wants_lock g \<or> at r = Has_lock g \<longrightarrow> g \<notin> set (initializing r)) \<and>
          (at r = Releases g \<longrightarrow> (\<exists>gs. initializing r = g # gs)))"

definition runs_fresh :: "'m guard_state \<Rightarrow> guard_thread \<Rightarrow> bool" where
  "runs_fresh s r \<longleftrightarrow> (\<forall>g \<in> set (initializing r). initializerHasRun (guards s g) \<longrightarrow> at r = Releases g)"

definition guard_inv :: "('m \<Rightarrow> nat \<Rightarrow> nat) \<Rightarrow> 'm guard_state \<Rightarrow> bool" where
  "guard_inv held s \<longleftrightarrow>
     (\<forall>t. held (guard_mutex s) t = locks (threads s t) \<and> thread_ok (threads s t) \<and> runs_fresh s (threads s t)) \<and>
     (\<forall>t u. 0 < locks (threads s t) \<and> 0 < locks (threads s u) \<longrightarrow> t = u) \<and>
     (\<forall>g. completed s g = (if initializerHasRun (guards s g) then 1 else 0))"

lemma guard_invD:
  assumes "guard_inv held s"
  shows "held (guard_mutex s) t = locks (threads s t)" "thread_ok (threads s t)" "runs_fresh s (threads s t)"
    "0 < locks (threads s t) \<Longrightarrow> 0 < locks (threads s u) \<Longrightarrow> t = u"
    "completed s g = (if initializerHasRun (guards s g) then 1 else 0)"
  using assms unfolding guard_inv_def by blast+

lemma flags [simp]:
  "initializerHasRun (setInUse g) = initializerHasRun g" "initializerHasRun (setNotInUse g) = initializerHasRun g"
  "initializerHasRun (setInitializerHasRun g)"
  by (simp_all add: initializerHasRun_def setInUse_def setNotInUse_def setInitializerHasRun_def)

lemma step_simps [simp]:
  "guards (goto t p gs s) = guards s" "guard_mutex (goto t p gs s) = guard_mutex s" "completed (goto t p gs s) = completed s"
  "threads (goto t p gs s) = (threads s)(t := \<lparr>at = p, initializing = gs\<rparr>)"
  "guards (change g f s) = (guards s)(g := f (guards s g))" "guard_mutex (change g f s) = guard_mutex s"
  "completed (change g f s) = completed s" "threads (change g f s) = threads s"
  by (simp_all add: goto_def change_def)

lemma in_stack_locks: "g \<in> set (initializing r) \<Longrightarrow> 0 < locks r"
  by (auto simp: locks_def)

text \<open>A thread that moves, and locks or unlocks the mutex as it does, without completing an initializer.\<close>

lemma guard_invI:
  assumes "\<And>t. held (guard_mutex s) t = locks (threads s t)" "\<And>t. thread_ok (threads s t)" "\<And>t. runs_fresh s (threads s t)"
    and "\<And>t u. 0 < locks (threads s t) \<Longrightarrow> 0 < locks (threads s u) \<Longrightarrow> t = u"
    and "\<And>g. completed s g = (if initializerHasRun (guards s g) then 1 else 0)"
  shows "guard_inv held s"
  using assms unfolding guard_inv_def by blast

lemma moved:
  assumes inv: "guard_inv held s" and r: "threads s' = (threads s)(t := r)" "thread_ok r" "runs_fresh s r"
    and held: "held (guard_mutex s') = (held (guard_mutex s))(t := locks r)"
    and alone: "\<And>u. u \<noteq> t \<Longrightarrow> 0 < locks r \<Longrightarrow> held (guard_mutex s) u = 0"
    and same: "\<And>g. initializerHasRun (guards s' g) = initializerHasRun (guards s g)" "completed s' = completed s"
  shows "guard_inv held s'"
proof (rule guard_invI)
  note i = guard_invD [OF inv]
  have fresh: "runs_fresh s' = runs_fresh s" by (simp add: fun_eq_iff runs_fresh_def same(1))
  have out: "locks (threads s u) = 0" if "u \<noteq> t" "0 < locks r" for u using alone [OF that] i(1) by simp
  show "held (guard_mutex s') u = locks (threads s' u)" for u by (simp add: held r(1) i(1))
  show "thread_ok (threads s' u)" "runs_fresh s' (threads s' u)" for u by (simp_all add: r i(2,3) fresh)
  show "completed s' g = (if initializerHasRun (guards s' g) then 1 else 0)" for g unfolding same by (rule i(5))
  show "u = v" if "0 < locks (threads s' u)" "0 < locks (threads s' v)" for u v
    using that i(4) [of u v] out [of u] out [of v] by (cases "u = t"; cases "v = t") (simp_all add: r(1))
qed

text \<open>A thread that has locked the mutex already is the only one.\<close>

lemma alone_kept:
  assumes "guard_inv held s" "0 < locks (threads s t)" "u \<noteq> t"
  shows "held (guard_mutex s) u = 0"
  using guard_invD(4) [OF assms(1,2), of u] assms(3) guard_invD(1) [OF assms(1), of u] by auto

lemma completes:
  assumes inv: "guard_inv held s" and t: "pc_of s t = Elsewhere" "stack_of s t = g # gs"
  shows "guard_inv held ((goto t (Releases g) (g # gs) (change g setInitializerHasRun s))
    \<lparr>completed := (completed s)(g := Suc (completed s g))\<rparr>)" (is "guard_inv held ?s")
proof (rule guard_invI)
  note i = guard_invD [OF inv]
  have on: "0 < locks (threads s t)" using t by (simp add: locks_def)
  then have out: "locks (threads s u) = 0" if "u \<noteq> t" for u using i(4) [of t u] that by auto
  have fresh: "\<not> initializerHasRun (guards s g')" if "g' \<in> set (g # gs)" for g'
    using i(3) [of t] that t unfolding runs_fresh_def by auto
  have same: "locks (threads ?s u) = locks (threads s u)" for u using t by (simp add: locks_def)
  show "held (guard_mutex ?s) u = locks (threads ?s u)" for u unfolding same using i(1) [of u] by simp
  show "u = v" if "0 < locks (threads ?s u)" "0 < locks (threads ?s v)" for u v using that i(4) unfolding same by blast
  show "thread_ok (threads ?s u)" for u using i(2) [of u] i(2) [of t] t by (simp add: thread_ok_def)
  show "runs_fresh ?s (threads ?s u)" for u
    using out [of u] fresh i(2) [of t] t by (cases "u = t") (auto simp: runs_fresh_def locks_def thread_ok_def)
  show "completed ?s g' = (if initializerHasRun (guards ?s g') then 1 else 0)" for g'
    using i(5) [of g'] i(5) [of g] fresh [of g] by simp
qed

lemma guard_step_inv:
  assumes mutex: "recursive_mutex lock unlock held" and inv: "guard_inv held s" and "guard_step lock unlock s s'"
  shows "guard_inv held s'"
  using assms(3)
proof cases
  note i = guard_invD [OF inv]
  have unlocked: "held (unlock t (guard_mutex s)) = (held (guard_mutex s))(t := n)" if "locks (threads s t) = Suc n" for t n
    using mutex that i(1) [of t] unfolding recursive_mutex_def by simp
  note step = moved [OF inv] and known = thread_ok_def runs_fresh_def locks_def
  {
    case (acquire t g)
    then show ?thesis using i(1-3) [of t] alone_kept [OF inv, of t]
      by (intro step [of _ t]) (auto simp: known)
  next
    case (acquire_lock t g m)
    then have "held m = (held (guard_mutex s))(t := Suc (held (guard_mutex s) t))" "\<And>u. u \<noteq> t \<Longrightarrow> held (guard_mutex s) u = 0"
      using mutex unfolding recursive_mutex_def by blast+
    with acquire_lock show ?thesis using i(1-3) [of t] by (intro step [of _ t]) (auto simp: known)
  next
    case (acquire_other t g)
    then show ?thesis using i(1-3) [of t] alone_kept [OF inv, of t] unlocked [of t]
      by (intro step [of _ t]) (auto simp: known)
  next
    case (acquire_run t g)
    then show ?thesis using i(1-3) [of t] alone_kept [OF inv, of t]
      by (intro step [of _ t]) (auto simp: known)
  next
    case (release t g gs)
    then show ?thesis using completes [OF inv] by simp
  next
    case (release_unlock t g gs)
    then show ?thesis using i(1-3) [of t] alone_kept [OF inv, of t] unlocked [of t]
      by (intro step [of _ t]) (auto simp: known)
  next
    case (abort t g gs)
    then show ?thesis using i(1-3) [of t] alone_kept [OF inv, of t] unlocked [of t]
      by (intro step [of _ t]) (auto simp: known)
  next
    case (abort_reset t g)
    then show ?thesis using i(1-3) [of t] alone_kept [OF inv, of t]
      by (intro step [of _ t]) (auto simp: known)
  }
qed (use inv in simp)

lemma guard_system:
  assumes "recursive_mutex lock unlock held"
  shows "invariant_system (guard_start held) (guard_step lock unlock) (guard_inv held)"
proof
  show "guard_inv held s" if "guard_start held s" for s
    using that by (intro guard_invI) (simp_all add: guard_start_def locks_def thread_ok_def runs_fresh_def initializerHasRun_def)
qed (rule guard_step_inv [OF assms])

section \<open>Property\<close>

text \<open>
  C26: With the mutex, whatever the threads do, no initializer of a function-local static completes twice, an
  initializer runs only while it has not completed, and the initializers that run at a time, nested in
  each other, are all of one thread. This needs that no initializer reaches the static that it
  initializes.
\<close>

theorem guard_initializer_once:
  assumes "recursive_mutex lock unlock held" "guard_start held s0" "(guard_step lock unlock)\<^sup>*\<^sup>* s0 s"
  shows "completed s g \<le> 1 \<and> (g \<in> set (stack_of s t) \<longrightarrow> pc_of s t = Releases g \<or> completed s g = 0) \<and>
    (stack_of s t \<noteq> [] \<longrightarrow> stack_of s u \<noteq> [] \<longrightarrow> t = u)"
proof -
  note i = guard_invD [OF invariant_system.reachable_inv [OF guard_system [OF assms(1)] assms(2,3)]]
  have "0 < locks (threads s v)" if "stack_of s v \<noteq> []" for v using that by (simp add: locks_def)
  then have "stack_of s t \<noteq> [] \<longrightarrow> stack_of s u \<noteq> [] \<longrightarrow> t = u" using i(4) [of t u] by (intro impI) simp
  moreover have "g \<in> set (stack_of s t) \<longrightarrow> pc_of s t = Releases g \<or> completed s g = 0"
    using i(3) [of t] i(5) [of g] by (auto simp: runs_fresh_def)
  ultimately show ?thesis using i(5) [of g] by simp
qed

text \<open>A mutex with an owner and a count, and a second thread that blocks while the first one initializes.\<close>

definition demo_lock :: "nat \<Rightarrow> nat \<times> nat \<Rightarrow> (nat \<times> nat) option" where
  "demo_lock t m = (if snd m = 0 \<or> fst m = t then Some (t, Suc (snd m)) else None)"

definition demo_unlock :: "nat \<Rightarrow> nat \<times> nat \<Rightarrow> nat \<times> nat" where
  "demo_unlock t m = (fst m, snd m - 1)"

definition demo_held :: "nat \<times> nat \<Rightarrow> nat \<Rightarrow> nat" where
  "demo_held m t = (if t = fst m then snd m else 0)"

definition all_elsewhere :: "'m \<Rightarrow> 'm guard_state" where
  "all_elsewhere m = \<lparr>guards = \<lambda>_. \<lparr>guard_byte0 = 0, guard_byte1 = 0\<rparr>, guard_mutex = m,
     threads = \<lambda>_. \<lparr>at = Elsewhere, initializing = []\<rparr>, completed = \<lambda>_. 0\<rparr>"

lemma demo_recursive_mutex: "recursive_mutex demo_lock demo_unlock demo_held"
  unfolding recursive_mutex_def demo_lock_def demo_unlock_def demo_held_def by (auto simp: fun_eq_iff split: if_splits)

theorem guard_initializer_once_witness:
  "\<exists>s. (guard_step demo_lock demo_unlock)\<^sup>*\<^sup>* (all_elsewhere (0, 0)) s \<and> stack_of s 1 = [7] \<and> pc_of s 2 = Wants_lock 7 \<and>
     demo_lock 2 (guard_mutex s) = None \<and> completed s 7 = 0 \<and> stack_of s 2 = []"
proof -
  let ?a = "goto 1 Elsewhere [7] (change 7 setInUse (all_elsewhere (1 :: nat, 1 :: nat)))"
  let ?s = "goto 2 (Wants_lock 7) [] ?a"
  have "(guard_step demo_lock demo_unlock)\<^sup>*\<^sup>* (all_elsewhere (0, 0)) ?a"
    using acquires [of "all_elsewhere (0, 0)" 1 7 demo_lock "(1, 1)" demo_unlock]
    by (simp add: all_elsewhere_def initializerHasRun_def demo_lock_def)
  moreover have "guard_step demo_lock demo_unlock ?a ?s"
    using guard_step.acquire [of ?a 2 7 demo_lock demo_unlock] by (simp add: all_elsewhere_def initializerHasRun_def setInUse_def)
  ultimately have s: "(guard_step demo_lock demo_unlock)\<^sup>*\<^sup>* (all_elsewhere (0, 0)) ?s" by (rule rtranclp.rtrancl_into_rtrancl)
  have "guard_start demo_held (all_elsewhere (0, 0))" by (simp add: guard_start_def all_elsewhere_def demo_held_def)
  from guard_initializer_once [OF demo_recursive_mutex this s, of 7 1 2] have "completed ?s 7 = 0" "stack_of ?s 2 = []" by (auto simp del: One_nat_def)
  with s show ?thesis by (intro exI [of _ ?s]) (simp add: all_elsewhere_def demo_lock_def)
qed

lemma no_mutex: "s\<lparr>guard_mutex := ()\<rparr> = s"
  by simp

text \<open>
  Without the mutex, as in the Apple variants, two threads both run the initializer, and it completes twice,
  though the comment of the function says that the second thread blocks.
\<close>

lemma unguarded_runs_twice:
  "\<exists>s. (guard_step (\<lambda>t. Some) (\<lambda>t m. m))\<^sup>*\<^sup>* (all_elsewhere ()) s \<and> completed s 7 = 2"
proof -
  let ?step = "guard_step (\<lambda>t. Some) (\<lambda>t m. m)"
  let ?a = "goto 1 Elsewhere [7] (change 7 setInUse (all_elsewhere ()))"
  let ?b = "goto 2 Elsewhere [7] (change 7 setInUse ?a)"
  let ?release = "\<lambda>t s. goto t (Releases 7) [7] (change 7 setInitializerHasRun s)\<lparr>completed := (completed s)(7 := Suc (completed s 7))\<rparr>"
  have "?step\<^sup>*\<^sup>* (all_elsewhere ()) ?a"
    using acquires [of "all_elsewhere ()" 1 7 "\<lambda>t. Some" "()" "\<lambda>t m. m"]
    by (simp add: no_mutex all_elsewhere_def initializerHasRun_def)
  also have "?step\<^sup>*\<^sup>* ?a ?b"
    using acquires [of ?a 2 7 "\<lambda>t. Some" "()" "\<lambda>t m. m"]
    by (simp add: no_mutex all_elsewhere_def initializerHasRun_def setInUse_def)
  also have "?step ?b (?release 1 ?b)"
    using guard_step.release [of ?b 1 7 "[]" "\<lambda>t. Some" "\<lambda>t m. m"] by simp
  also have "?step (?release 1 ?b) (?release 2 (?release 1 ?b))"
    using guard_step.release [of "?release 1 ?b" 2 7 "[]" "\<lambda>t. Some" "\<lambda>t m. m"] by simp
  finally show ?thesis by (intro exI [of _ "?release 2 (?release 1 ?b)"]) (simp add: all_elsewhere_def)
qed

end
