(* ===== verification/Nlprofile.thy ===== *)
theory Nlprofile
  imports NL_Prelude
begin

text \<open>
  The profiling service of \<open>src/src/nlprofile.c\<close>: the time that tracked items are enabled per
  interval, and the run times of tasks and levels of queues that FreeRTOS reports. The clock value of a
  call, the task names of the product, the answers of FreeRTOS and the number of items, tasks and
  queues of the product are arguments. A failed assertion or an access outside of an array is \<open>None\<close>.

  The lemmas show that the totals that are reported are the times that the items were enabled, modulo
  the range of the counters, for calls in the order of their times that are not preempted; and what goes
  wrong for an item that is enabled after the interval has expired, or enabled again, and when
  \<open>nl_profile_start\<close> is preempted between its two stores.
\<close>

section \<open>Tracked items\<close>

record profile_state =
  enable_times :: "u32 list"
  total_times :: "u32 list"
  enabled :: "bool list"

text \<open>
  The index \<open>None\<close> is \<open>NL_PROFILE_T_INVALID\<close>. The two stores of \<open>nl_profile_start\<close>, which has no critical
  section, are definitions of their own.
\<close>

definition store_enable_time :: "nat \<Rightarrow> u32 \<Rightarrow> profile_state \<Rightarrow> profile_state option" where
  "store_enable_time i current_time s = do {
     ts \<leftarrow> arr_upd (enable_times s) i (\<lambda>_. current_time);
     Some (s\<lparr>enable_times := ts\<rparr>) }"

definition store_enabled :: "nat \<Rightarrow> profile_state \<Rightarrow> profile_state option" where
  "store_enabled i s = do {
     en \<leftarrow> arr_upd (enabled s) i (\<lambda>_. True);
     Some (s\<lparr>enabled := en\<rparr>) }"

definition nl_profile_start :: "nat option \<Rightarrow> u32 \<Rightarrow> profile_state \<Rightarrow> profile_state option" where
  "nl_profile_start profile_index current_time s =
     (case profile_index of None \<Rightarrow> Some s
      | Some i \<Rightarrow> do {
          s1 \<leftarrow> store_enable_time i current_time s;
          store_enabled i s1 })"

definition nl_profile_stop :: "nat option \<Rightarrow> u32 \<Rightarrow> profile_state \<Rightarrow> profile_state option" where
  "nl_profile_stop profile_index current_time s =
     (case profile_index of None \<Rightarrow> Some s
      | Some i \<Rightarrow> do {
          on \<leftarrow> arr_get (enabled s) i;
          if \<not> on then Some s
          else do {
            t0 \<leftarrow> arr_get (enable_times s) i;
            tot \<leftarrow> arr_upd (total_times s) i (\<lambda>x. x + (current_time - t0));
            en \<leftarrow> arr_upd (enabled s) i (\<lambda>_. False);
            Some (s\<lparr>total_times := tot, enabled := en\<rparr>) } })"

lemmas profile_start_defs = nl_profile_start_def store_enable_time_def store_enabled_def

text \<open>The hook of the product that follows is not part of this state.\<close>

definition nl_profile_interval_start_new_interval :: "profile_state \<Rightarrow> profile_state" where
  "nl_profile_interval_start_new_interval s = s\<lparr>total_times := map (\<lambda>_. 0) (total_times s)\<rparr>"

text \<open>The loop from item \<open>i\<close> on; \<open>n\<close> is \<open>NL_PROFILE_NUM_TRACKED_ITEMS\<close>.\<close>

definition calculate_total :: "nat \<Rightarrow> u32 \<Rightarrow> profile_state \<times> u32 list \<Rightarrow> (profile_state \<times> u32 list) option" where
  "calculate_total i interval_expiry sb = do {
     let (s, buffer) = sb;
     on \<leftarrow> arr_get (enabled s) i;
     s1 \<leftarrow> (if on then do {
               t0 \<leftarrow> arr_get (enable_times s) i;
               tot \<leftarrow> arr_upd (total_times s) i (\<lambda>x. x + (interval_expiry - t0));
               ts \<leftarrow> arr_upd (enable_times s) i (\<lambda>_. interval_expiry);
               Some (s\<lparr>total_times := tot, enable_times := ts\<rparr>) }
             else Some s);
     t \<leftarrow> arr_get (total_times s1) i;
     buffer1 \<leftarrow> arr_upd buffer i (\<lambda>_. t);
     Some (s1, buffer1) }"

fun calculate_loop :: "nat list \<Rightarrow> u32 \<Rightarrow> profile_state \<times> u32 list \<Rightarrow> (profile_state \<times> u32 list) option" where
  "calculate_loop [] interval_expiry sb = Some sb"
| "calculate_loop (i # is) interval_expiry sb =
     (case calculate_total i interval_expiry sb of None \<Rightarrow> None | Some sb1 \<Rightarrow> calculate_loop is interval_expiry sb1)"

definition nl_profile_interval_calculate_totals ::
  "nat \<Rightarrow> u32 \<Rightarrow> u32 list \<Rightarrow> profile_state \<Rightarrow> (profile_state \<times> u32 list) option" where
  "nl_profile_interval_calculate_totals n interval_expiry profile_buffer s =
     calculate_loop [0..<n] interval_expiry (s, profile_buffer)"

section \<open>Tasks and queues\<close>

record task_status =
  pcTaskName :: string
  ulRunTimeCounter :: u32
  usStackHighWaterMark :: u32

record nl_profile_task_info_t =
  pi_name :: string
  usage_during_interval :: u32
  max_unused_stack_bytes :: u16

text \<open>\<open>strncmp\<close> gives 0 for a C string (without its terminator) and the string that an array holds.\<close>

definition strncmp_equal :: "string \<Rightarrow> string \<Rightarrow> nat \<Rightarrow> bool" where
  "strncmp_equal a b n \<longleftrightarrow> take n a = take n (takeWhile (\<lambda>c. c \<noteq> CHR 0x00) b)"

fun find_task :: "string list \<Rightarrow> string \<Rightarrow> nat \<Rightarrow> nat option" where
  "find_task [] name n = None"
| "find_task (t # ts) name n = (if strncmp_equal t name n then Some 0 else map_option Suc (find_task ts name n))"

text \<open>
  \<open>w\<close> is \<open>configMAX_TASK_NAME_LEN\<close>, \<open>name_len\<close> the size of the name in the report, \<open>stack_word\<close> the size of
  \<open>StackType_t\<close>; the state is \<open>last_tick_snapshot\<close>.
\<close>

fun task_info_loop ::
  "string list \<Rightarrow> nat \<Rightarrow> nat \<Rightarrow> u32 \<Rightarrow> task_status list \<Rightarrow> nl_profile_task_info_t list \<times> u32 list \<Rightarrow>
   (nl_profile_task_info_t list \<times> u32 list) option" where
  "task_info_loop TaskNames w name_len stack_word [] is = Some is"
| "task_info_loop TaskNames w name_len stack_word (st # sts) is = do {
     let (info, snapshot) = is;
     j \<leftarrow> find_task TaskNames (pcTaskName st) (w - 1);
     old \<leftarrow> arr_get snapshot j;
     name \<leftarrow> mem_read (pcTaskName st) 0 name_len;
     info1 \<leftarrow> arr_upd info j (\<lambda>_. \<lparr>pi_name = name, usage_during_interval = ulRunTimeCounter st - old,
        max_unused_stack_bytes = ucast (usStackHighWaterMark st * stack_word)\<rparr>);
     snapshot1 \<leftarrow> arr_upd snapshot j (\<lambda>_. ulRunTimeCounter st);
     task_info_loop TaskNames w name_len stack_word sts (info1, snapshot1) }"

definition nl_profile_interval_get_task_info ::
  "string list \<Rightarrow> nat \<Rightarrow> nat \<Rightarrow> u32 \<Rightarrow> nat \<Rightarrow> task_status list \<Rightarrow> nl_profile_task_info_t list \<times> u32 list \<Rightarrow>
   (nl_profile_task_info_t list \<times> u32 list) option" where
  "nl_profile_interval_get_task_info TaskNames w name_len stack_word number_of_tasks system_state is =
     (if number_of_tasks \<noteq> length TaskNames then None else task_info_loop TaskNames w name_len stack_word system_state is)"

text \<open>
  Without the trace facility, the array is a parameter, so \<open>sizeof\<close> gives the size of a pointer: four
  bytes of the caller's array are cleared.
\<close>

definition nl_profile_interval_get_task_info_untraced :: "u8 list \<Rightarrow> u8 list" where
  "nl_profile_interval_get_task_info_untraced bytes = replicate (min 4 (length bytes)) 0 @ drop 4 bytes"

record queue_metric =
  pvBufAddr :: u32
  uxSize :: u32
  uxMaxMessagesWaiting :: u32

record nl_profile_queue_info_t =
  q_location :: u32
  q_size :: u8
  high_watermark :: u8

text \<open>The callback, on \<open>s_queue_info_ptr\<close> and \<open>s_queue_index\<close>; \<open>n\<close> is \<open>NL_PROFILE_NUM_QUEUES\<close>.\<close>

definition nl_queue_info_cb ::
  "nat \<Rightarrow> queue_metric \<Rightarrow> nl_profile_queue_info_t list \<times> nat \<Rightarrow> (nl_profile_queue_info_t list \<times> nat) option" where
  "nl_queue_info_cb n m qs =
     (let (info, s_queue_index) = qs in
      if uxSize m = 1 then Some qs
      else if \<not> s_queue_index < n then None
      else do {
        info1 \<leftarrow> arr_upd info s_queue_index (\<lambda>_. \<lparr>q_location = pvBufAddr m, q_size = ucast (uxSize m),
          high_watermark = ucast (uxMaxMessagesWaiting m)\<rparr>);
        Some (info1, s_queue_index + 1) })"

fun queue_metrics ::
  "nat \<Rightarrow> queue_metric list \<Rightarrow> nl_profile_queue_info_t list \<times> nat \<Rightarrow> (nl_profile_queue_info_t list \<times> nat) option" where
  "queue_metrics n [] qs = Some qs"
| "queue_metrics n (m # ms) qs = (case nl_queue_info_cb n m qs of None \<Rightarrow> None | Some qs1 \<Rightarrow> queue_metrics n ms qs1)"

definition nl_profile_interval_get_queue_info ::
  "nat \<Rightarrow> queue_metric list \<Rightarrow> nl_profile_queue_info_t list \<Rightarrow> (nl_profile_queue_info_t list \<times> nat) option" where
  "nl_profile_interval_get_queue_info n metrics queue_profile_info = queue_metrics n metrics (queue_profile_info, 0)"

section \<open>The time that an item is enabled\<close>

text \<open>Calls with the true time, of which the clock shows the lowest 32 bits, and the reports they give.\<close>

datatype profile_call = Start "nat option" nat | Stop "nat option" nat | New_interval | Totals nat

fun profile_run :: "nat \<Rightarrow> profile_call list \<Rightarrow> profile_state \<Rightarrow> (u32 list list \<times> profile_state) option" where
  "profile_run n [] s = Some ([], s)"
| "profile_run n (Start i t # cs) s = do { s1 \<leftarrow> nl_profile_start i (word_of_nat t) s; profile_run n cs s1 }"
| "profile_run n (Stop i t # cs) s = do { s1 \<leftarrow> nl_profile_stop i (word_of_nat t) s; profile_run n cs s1 }"
| "profile_run n (New_interval # cs) s = profile_run n cs (nl_profile_interval_start_new_interval s)"
| "profile_run n (Totals e # cs) s = do {
     (s1, buffer) \<leftarrow> nl_profile_interval_calculate_totals n (word_of_nat e) (replicate n 0) s;
     (reports, s2) \<leftarrow> profile_run n cs s1;
     Some (buffer # reports, s2) }"

text \<open>
  The item \<open>i\<close> is enabled at the time \<open>x\<close>: it has been started by then, and every stop that follows the
  start comes later.
\<close>

definition enabled_at :: "profile_call list \<Rightarrow> nat \<Rightarrow> nat \<Rightarrow> bool" where
  "enabled_at cs i x \<longleftrightarrow> (\<exists>us t vs. cs = us @ Start (Some i) t # vs \<and> t \<le> x \<and> (\<forall>t'. Stop (Some i) t' \<in> set vs \<longrightarrow> x < t'))"

definition enabled_time :: "profile_call list \<Rightarrow> nat \<Rightarrow> nat \<Rightarrow> nat \<Rightarrow> nat" where
  "enabled_time cs i a e = card {x. a \<le> x \<and> x < e \<and> enabled_at cs i x}"

text \<open>
  An interval begins with the expiry of the totals before it, the first one with the clock: \<open>a\<close> is the start
  so far, \<open>e\<close> the last expiry.
\<close>

fun interval_start :: "nat \<Rightarrow> nat \<Rightarrow> profile_call list \<Rightarrow> nat" where
  "interval_start a e [] = a"
| "interval_start a e (Start j t # cs) = interval_start a e cs"
| "interval_start a e (Stop j t # cs) = interval_start a e cs"
| "interval_start a e (New_interval # cs) = interval_start e e cs"
| "interval_start a e (Totals e' # cs) = interval_start a e' cs"

text \<open>What is to be reported for the item \<open>i\<close> by the calls \<open>cs\<close> after the calls \<open>us\<close>: the time it was enabled in the interval.\<close>

fun reported :: "nat \<Rightarrow> profile_call list \<Rightarrow> profile_call list \<Rightarrow> nat list" where
  "reported i us [] = []"
| "reported i us (Start j t # cs) = reported i (us @ [Start j t]) cs"
| "reported i us (Stop j t # cs) = reported i (us @ [Stop j t]) cs"
| "reported i us (New_interval # cs) = reported i (us @ [New_interval]) cs"
| "reported i us (Totals e # cs) = enabled_time us i (interval_start 0 0 us) e # reported i (us @ [Totals e]) cs"

text \<open>
  Use of the service, as far as the item \<open>i\<close> is concerned: calls come in the order of their times, \<open>i\<close> is not
  started while it is enabled, and a new interval directly follows the totals of the last one. \<open>now\<close> is the
  time of the last call, \<open>on\<close> whether \<open>i\<close> is enabled, \<open>closed\<close> whether that call gave the totals.
\<close>

fun orderly :: "nat \<Rightarrow> nat \<Rightarrow> bool \<Rightarrow> bool \<Rightarrow> profile_call list \<Rightarrow> bool" where
  "orderly i now on closed [] \<longleftrightarrow> True"
| "orderly i now on closed (Start j t # cs) \<longleftrightarrow> now \<le> t \<and> (j = Some i \<longrightarrow> \<not> on) \<and> orderly i t (on \<or> j = Some i) False cs"
| "orderly i now on closed (Stop j t # cs) \<longleftrightarrow> now \<le> t \<and> orderly i t (on \<and> j \<noteq> Some i) False cs"
| "orderly i now on closed (New_interval # cs) \<longleftrightarrow> closed \<and> orderly i now on False cs"
| "orderly i now on closed (Totals e # cs) \<longleftrightarrow> now \<le> e \<and> orderly i e on True cs"

definition indices_ok :: "nat \<Rightarrow> profile_call list \<Rightarrow> bool" where
  "indices_ok n cs \<longleftrightarrow> (\<forall>c \<in> set cs. case c of Start (Some i) _ \<Rightarrow> i < n | Stop (Some i) _ \<Rightarrow> i < n | _ \<Rightarrow> True)"

definition profile_sized :: "nat \<Rightarrow> profile_state \<Rightarrow> bool" where
  "profile_sized n s \<longleftrightarrow> length (enable_times s) = n \<and> length (total_times s) = n \<and> length (enabled s) = n"

text \<open>What the code keeps of an item: whether it is enabled, since when, and its total.\<close>

definition item :: "profile_state \<Rightarrow> nat \<Rightarrow> bool \<times> u32 \<times> u32" where
  "item s i = (enabled s ! i, enable_times s ! i, total_times s ! i)"

section \<open>The calls on one item\<close>

definition settled :: "u32 \<Rightarrow> bool \<times> u32 \<times> u32 \<Rightarrow> bool \<times> u32 \<times> u32" where
  "settled e = (\<lambda>(on, t0, tot). if on then (on, e, tot + (e - t0)) else (on, t0, tot))"

definition settle :: "u32 \<Rightarrow> nat \<Rightarrow> profile_state \<Rightarrow> profile_state" where
  "settle e i s = (if enabled s ! i
     then s\<lparr>total_times := (total_times s)[i := total_times s ! i + (e - enable_times s ! i)],
            enable_times := (enable_times s)[i := e]\<rparr>
     else s)"

lemma calculate_total_settles:
  "profile_sized n s \<Longrightarrow> length b = n \<Longrightarrow> i < n \<Longrightarrow>
   calculate_total i e (s, b) = Some (settle e i s, b[i := total_times (settle e i s) ! i])"
  by (simp add: calculate_total_def settle_def profile_sized_def)

lemma settle_sized [simp]: "profile_sized n (settle e i s) = profile_sized n s"
  by (simp add: settle_def profile_sized_def)

lemma settle_item: "profile_sized n s \<Longrightarrow> i < n \<Longrightarrow> item (settle e i s) k = (if k = i then settled e (item s i) else item s k)"
  by (simp add: item_def settle_def settled_def profile_sized_def)

lemma calculate_loop_other:
  "profile_sized n s \<Longrightarrow> length b = n \<Longrightarrow> \<forall>i \<in> set is. i < n \<Longrightarrow>
   \<exists>s' b'. calculate_loop is e (s, b) = Some (s', b') \<and> profile_sized n s' \<and> length b' = n \<and>
     (\<forall>k. k \<notin> set is \<longrightarrow> b' ! k = b ! k \<and> item s' k = item s k)"
proof (induction "is" arbitrary: s b)
  case (Cons i "is")
  let ?s = "settle e i s" and ?b = "b[i := total_times (settle e i s) ! i]"
  from Cons.IH [of ?s ?b] Cons.prems
  obtain s' b' where "calculate_loop is e (?s, ?b) = Some (s', b')" "profile_sized n s'" "length b' = n"
    "\<forall>k. k \<notin> set is \<longrightarrow> b' ! k = ?b ! k \<and> item s' k = item ?s k" by auto
  moreover have "item ?s k = item s k" if "k \<noteq> i" for k using settle_item Cons.prems(1,3) that by simp
  ultimately show ?case
    using calculate_total_settles [OF Cons.prems(1,2), of i e] Cons.prems(3) by auto
qed simp

lemma totals_item:
  assumes "profile_sized n s" "i < n"
  shows "\<exists>s' b. nl_profile_interval_calculate_totals n e (replicate n 0) s = Some (s', b) \<and> profile_sized n s' \<and>
    item s' i = settled e (item s i) \<and> b ! i = snd (snd (settled e (item s i)))"
proof -
  have split: "[0..<n] = [0..<i] @ i # [Suc i..<n]" using assms(2) by (metis le0 less_imp_le_nat upt_add_eq_append upt_conv_Cons le_Suc_ex)
  obtain s1 b1 where 1: "calculate_loop [0..<i] e (s, replicate n 0) = Some (s1, b1)" "profile_sized n s1" "length b1 = n" "item s1 i = item s i"
    using calculate_loop_other [OF assms(1), of "replicate n 0" "[0..<i]" e] assms(2) by auto
  let ?s = "settle e i s1" and ?b = "b1[i := total_times (settle e i s1) ! i]"
  have 2: "calculate_total i e (s1, b1) = Some (?s, ?b)" using calculate_total_settles [OF 1(2,3) assms(2)] .
  have a: "item ?s i = settled e (item s i)" using settle_item [OF 1(2) assms(2)] 1(4) by simp
  obtain s' b' where 3: "calculate_loop [Suc i..<n] e (?s, ?b) = Some (s', b')" "profile_sized n s'" "b' ! i = ?b ! i" "item s' i = item ?s i"
    using calculate_loop_other [of n ?s ?b "[Suc i..<n]" e] 1(2,3) by auto
  have app: "calculate_loop (xs @ ys) e sb = (case calculate_loop xs e sb of None \<Rightarrow> None | Some sb1 \<Rightarrow> calculate_loop ys e sb1)" for xs ys sb
    by (induction xs arbitrary: sb) (auto split: option.split)
  have "nl_profile_interval_calculate_totals n e (replicate n 0) s = Some (s', b')"
    by (simp add: nl_profile_interval_calculate_totals_def split app 1 2 3)
  moreover have "total_times ?s ! i = snd (snd (settled e (item s i)))" by (simp flip: a) (simp add: item_def)
  ultimately show ?thesis using 3 1(3) assms(2) a by simp
qed

lemma start_item:
  assumes "profile_sized n s" "i < n" "\<And>k. j = Some k \<Longrightarrow> k < n"
  shows "\<exists>s'. nl_profile_start j t s = Some s' \<and> profile_sized n s' \<and>
    item s' i = (if j = Some i then (True, t, snd (snd (item s i))) else item s i)"
  using assms by (cases j) (auto simp: profile_start_defs item_def profile_sized_def)

lemma stop_item:
  assumes "profile_sized n s" "i < n" "\<And>k. j = Some k \<Longrightarrow> k < n"
  shows "\<exists>s'. nl_profile_stop j t s = Some s' \<and> profile_sized n s' \<and>
    item s' i = (case item s i of (on, t0, tot) \<Rightarrow> if j = Some i \<and> on then (False, t0, tot + (t - t0)) else (on, t0, tot))"
  using assms by (cases j) (auto simp: nl_profile_stop_def item_def profile_sized_def nth_list_update)

lemma new_interval_item:
  assumes "profile_sized n s" "i < n"
  shows "profile_sized n (nl_profile_interval_start_new_interval s)"
    "item (nl_profile_interval_start_new_interval s) i = (fst (item s i), fst (snd (item s i)), 0)"
  using assms by (simp_all add: item_def nl_profile_interval_start_new_interval_def profile_sized_def)

section \<open>The time after one more call\<close>

lemma enabled_at_snoc:
  "enabled_at (us @ [c]) i x \<longleftrightarrow> (case c of Start j t \<Rightarrow> enabled_at us i x \<or> j = Some i \<and> t \<le> x
     | Stop j t \<Rightarrow> enabled_at us i x \<and> (j = Some i \<longrightarrow> x < t) | _ \<Rightarrow> enabled_at us i x)"
proof -
  have "enabled_at (us @ [c]) i x \<longleftrightarrow> (\<exists>t. c = Start (Some i) t \<and> t \<le> x) \<or>
      enabled_at us i x \<and> (\<forall>t'. c = Stop (Some i) t' \<longrightarrow> x < t')"
    (is "?l \<longleftrightarrow> ?now \<or> ?before")
  proof
    assume ?l
    then obtain us1 t vs where *: "us @ [c] = us1 @ Start (Some i) t # vs" "t \<le> x" "\<forall>t'. Stop (Some i) t' \<in> set vs \<longrightarrow> x < t'"
      unfolding enabled_at_def by blast
    show "?now \<or> ?before"
    proof (cases vs rule: rev_cases)
      case (snoc vs1 d)
      then have "us = us1 @ Start (Some i) t # vs1" "d = c" using *(1) by auto
      with * snoc have ?before unfolding enabled_at_def by auto
      then show ?thesis ..
    qed (use * in simp)
  next
    assume "?now \<or> ?before"
    then show ?l
    proof
      assume ?before
      then obtain us1 t vs where "us = us1 @ Start (Some i) t # vs" "t \<le> x" "\<forall>t'. Stop (Some i) t' \<in> set (vs @ [c]) \<longrightarrow> x < t'"
        unfolding enabled_at_def by auto
      then show ?l unfolding enabled_at_def by (intro exI [of _ us1] exI [of _ t] exI [of _ "vs @ [c]"]) simp
    next
      assume ?now
      then obtain t where "us @ [c] = us @ Start (Some i) t # []" "t \<le> x" by auto
      then show ?l unfolding enabled_at_def by fastforce
    qed
  qed
  then show ?thesis by (cases c) auto
qed

lemma enabled_at_Nil [simp]: "\<not> enabled_at [] i x"
  by (simp add: enabled_at_def)

lemma interval_start_snoc [simp]:
  "interval_start a e (us @ [Start j t]) = interval_start a e us" "interval_start a e (us @ [Stop j t]) = interval_start a e us"
  "interval_start a e (us @ [Totals e']) = interval_start a e us" "interval_start a e (us @ [Totals e', New_interval]) = e'"
  by (induction a e us rule: interval_start.induct) simp_all

lemma enabled_time_cong: "(\<And>x. a \<le> x \<Longrightarrow> x < e \<Longrightarrow> enabled_at us i x = enabled_at vs i x) \<Longrightarrow> enabled_time us i a e = enabled_time vs i a e"
  unfolding enabled_time_def by (rule arg_cong [where f = card]) auto

lemma enabled_time_on:
  assumes "\<And>x. t0 \<le> x \<Longrightarrow> enabled_at us i x" "a \<le> t0" "t0 \<le> e"
  shows "enabled_time us i a e = enabled_time us i a t0 + (e - t0)"
proof -
  have "{x. a \<le> x \<and> x < e \<and> enabled_at us i x} = {x. a \<le> x \<and> x < t0 \<and> enabled_at us i x} \<union> {t0..<e}" using assms by auto
  moreover have "card ({x. a \<le> x \<and> x < t0 \<and> enabled_at us i x} \<union> {t0..<e}) = enabled_time us i a t0 + card {t0..<e}"
    unfolding enabled_time_def by (intro card_Un_disjoint) auto
  ultimately show ?thesis by (simp add: enabled_time_def)
qed

lemma enabled_time_off:
  assumes "\<And>x. t0 \<le> x \<Longrightarrow> \<not> enabled_at us i x" "t0 \<le> e"
  shows "enabled_time us i a e = enabled_time us i a t0"
  unfolding enabled_time_def using assms by (intro arg_cong [where f = card]) (auto simp: not_le [symmetric])

lemma enabled_time_empty [simp]: "enabled_time us i a a = 0"
  by (simp add: enabled_time_def)

text \<open>The state after the calls \<open>us\<close>: since when the item is enabled, and the time before that or until now.\<close>

definition tracks :: "nat \<Rightarrow> nat \<Rightarrow> bool \<Rightarrow> bool \<Rightarrow> profile_call list \<Rightarrow> bool \<times> u32 \<times> u32 \<Rightarrow> bool" where
  "tracks i now on closed us it \<longleftrightarrow> fst it = on \<and> interval_start 0 0 us \<le> now \<and> (closed \<longrightarrow> (\<exists>us'. us = us' @ [Totals now])) \<and>
     (if on then \<exists>t0. interval_start 0 0 us \<le> t0 \<and> t0 \<le> now \<and> (closed \<longrightarrow> t0 = now) \<and> (\<forall>x. t0 \<le> x \<longrightarrow> enabled_at us i x) \<and>
         it = (True, word_of_nat t0, word_of_nat (enabled_time us i (interval_start 0 0 us) t0))
      else (\<forall>x. now \<le> x \<longrightarrow> \<not> enabled_at us i x) \<and> snd (snd it) = word_of_nat (enabled_time us i (interval_start 0 0 us) now))"

lemma tracks_onE:
  assumes "tracks i now True closed us it"
  obtains t0 where "interval_start 0 0 us \<le> t0" "t0 \<le> now" "closed \<Longrightarrow> t0 = now" "\<And>x. t0 \<le> x \<Longrightarrow> enabled_at us i x"
    "it = (True, word_of_nat t0, word_of_nat (enabled_time us i (interval_start 0 0 us) t0))"
  using assms unfolding tracks_def by auto

lemma tracks_onI:
  "interval_start 0 0 us \<le> t0 \<Longrightarrow> t0 \<le> now \<Longrightarrow> (closed \<Longrightarrow> t0 = now) \<Longrightarrow> (\<And>x. t0 \<le> x \<Longrightarrow> enabled_at us i x) \<Longrightarrow>
   it = (True, word_of_nat t0, word_of_nat (enabled_time us i (interval_start 0 0 us) t0)) \<Longrightarrow>
   (closed \<Longrightarrow> \<exists>us'. us = us' @ [Totals now]) \<Longrightarrow> tracks i now True closed us it"
  unfolding tracks_def by auto

lemma tracks_offD:
  assumes "tracks i now False closed us it"
  shows "fst it = False" "\<And>x. now \<le> x \<Longrightarrow> \<not> enabled_at us i x"
    "snd (snd it) = word_of_nat (enabled_time us i (interval_start 0 0 us) now)"
  using assms unfolding tracks_def by auto

lemma tracks_now: "tracks i now on closed us it \<Longrightarrow> interval_start 0 0 us \<le> now"
  unfolding tracks_def by blast

text \<open>Each call keeps it.\<close>

lemma start_tracks:
  assumes "tracks i now on closed us it" "now \<le> t" "j = Some i \<Longrightarrow> \<not> on"
  shows "tracks i t (on \<or> j = Some i) False (us @ [Start j t]) (if j = Some i then (True, word_of_nat t, snd (snd it)) else it)"
proof (cases "j = Some i")
  case True
  let ?a = "interval_start 0 0 us"
  from True assms have off: "tracks i now False closed us it" by simp
  have "enabled_time (us @ [Start j t]) i ?a t = enabled_time us i ?a t"
    by (rule enabled_time_cong) (auto simp: enabled_at_snoc)
  also have "\<dots> = enabled_time us i ?a now" using tracks_offD(2) [OF off] assms(2) by (rule enabled_time_off)
  finally have "tracks i t True False (us @ [Start j t]) (True, word_of_nat t, snd (snd it))"
    using True tracks_offD(3) [OF off] tracks_now [OF off] assms(2)
    by (intro tracks_onI [of _ t]) (auto simp: enabled_at_snoc)
  with True show ?thesis by simp
next
  case False
  then have same: "enabled_at (us @ [Start j t]) i x = enabled_at us i x" for x by (simp add: enabled_at_snoc)
  then have time: "enabled_time (us @ [Start j t]) i a e = enabled_time us i a e" for a e by (intro enabled_time_cong)
  have "tracks i t on False (us @ [Start j t]) it"
    using assms(1,2) enabled_time_off [of now us i t "interval_start 0 0 us"]
    unfolding tracks_def interval_start_snoc same time by (auto split: if_splits)
  with False show ?thesis by simp
qed

lemma stop_tracks:
  assumes "tracks i now on closed us it" "now \<le> t"
  shows "tracks i t (on \<and> j \<noteq> Some i) False (us @ [Stop j t])
    (case it of (b, t0, tot) \<Rightarrow> if j = Some i \<and> b then (False, t0, tot + (word_of_nat t - t0)) else (b, t0, tot))"
proof (cases "j = Some i \<and> on")
  case True
  let ?a = "interval_start 0 0 us"
  from True assms have "tracks i now True closed us it" by simp
  then obtain t0 where t0: "?a \<le> t0" "t0 \<le> now" "\<And>x. t0 \<le> x \<Longrightarrow> enabled_at us i x"
    "it = (True, word_of_nat t0, word_of_nat (enabled_time us i ?a t0))" by (elim tracks_onE) blast
  have "enabled_time (us @ [Stop j t]) i ?a t = enabled_time us i ?a t"
    by (rule enabled_time_cong) (simp add: enabled_at_snoc)
  also have "\<dots> = enabled_time us i ?a t0 + (t - t0)" using t0 assms(2) by (intro enabled_time_on) auto
  finally show ?thesis using True t0 assms(2) by (auto simp: tracks_def enabled_at_snoc)
next
  case False
  then have keeps: "(case it of (b, t0, tot) \<Rightarrow> if j = Some i \<and> b then (False, t0, tot + (word_of_nat t - t0)) else (b, t0, tot)) = it"
    using assms(1) by (cases it) (auto simp: tracks_def)
  show ?thesis
  proof (cases on)
    case True
    with False have "j \<noteq> Some i" by simp
    then have same: "enabled_at (us @ [Stop j t]) i x = enabled_at us i x" for x by (simp add: enabled_at_snoc)
    then have time: "enabled_time (us @ [Stop j t]) i a e = enabled_time us i a e" for a e by (intro enabled_time_cong)
    from \<open>j \<noteq> Some i\<close> True assms show ?thesis unfolding keeps by (auto simp: tracks_def same time)
  next
    case off: False
    let ?a = "interval_start 0 0 us"
    from off assms have o: "tracks i now False closed us it" by simp
    have "enabled_time (us @ [Stop j t]) i ?a t = enabled_time us i ?a t"
      by (rule enabled_time_cong) (simp add: enabled_at_snoc)
    also have "\<dots> = enabled_time us i ?a now" using tracks_offD(2) [OF o] assms(2) by (rule enabled_time_off)
    finally show ?thesis unfolding keeps using off o assms(2) by (auto simp: tracks_def enabled_at_snoc)
  qed
qed

lemma new_interval_tracks:
  assumes "tracks i now on True us it"
  shows "tracks i now on False (us @ [New_interval]) (fst it, fst (snd it), 0)"
proof -
  from assms obtain us' where us: "us = us' @ [Totals now]" unfolding tracks_def by blast
  then have a: "interval_start 0 0 (us @ [New_interval]) = now" by simp
  have same: "enabled_at (us @ [New_interval]) i x = enabled_at us i x" for x by (simp add: enabled_at_snoc)
  show ?thesis using assms unfolding tracks_def a same by auto
qed

lemma totals_tracks:
  assumes "tracks i now on closed us it" "now \<le> e"
  shows "tracks i e on True (us @ [Totals e]) (settled (word_of_nat e) it)"
    and "snd (snd (settled (word_of_nat e) it)) = word_of_nat (enabled_time us i (interval_start 0 0 us) e)"
proof -
  let ?a = "interval_start 0 0 us"
  have same: "enabled_at (us @ [Totals e]) i x = enabled_at us i x" for x by (simp add: enabled_at_snoc)
  then have time: "enabled_time (us @ [Totals e]) i a e' = enabled_time us i a e'" for a e' by (intro enabled_time_cong)
  have "tracks i e on True (us @ [Totals e]) (settled (word_of_nat e) it) \<and>
    snd (snd (settled (word_of_nat e) it)) = word_of_nat (enabled_time us i ?a e)"
  proof (cases on)
    case True
    with assms(1) have "tracks i now True closed us it" by simp
    then obtain t0 where t0: "?a \<le> t0" "t0 \<le> now" "\<And>x. t0 \<le> x \<Longrightarrow> enabled_at us i x"
      "it = (True, word_of_nat t0, word_of_nat (enabled_time us i ?a t0))" by (elim tracks_onE) blast
    then have "enabled_time us i ?a e = enabled_time us i ?a t0 + (e - t0)" using assms(2) by (intro enabled_time_on) auto
    with t0 True assms(2) show ?thesis by (auto simp: tracks_def settled_def same time intro: exI [of _ e])
  next
    case False
    with assms(1) have off: "tracks i now False closed us it" by simp
    have "enabled_time us i ?a e = enabled_time us i ?a now" using tracks_offD(2) [OF off] assms(2) by (rule enabled_time_off)
    with False off assms(2) show ?thesis by (cases it) (auto simp: tracks_def settled_def same time)
  qed
  then show "tracks i e on True (us @ [Totals e]) (settled (word_of_nat e) it)"
    "snd (snd (settled (word_of_nat e) it)) = word_of_nat (enabled_time us i ?a e)" by simp_all
qed

lemma run_reports:
  "indices_ok n cs \<Longrightarrow> profile_sized n s \<Longrightarrow> i < n \<Longrightarrow> orderly i now on closed cs \<Longrightarrow> tracks i now on closed us (item s i) \<Longrightarrow>
   \<exists>reports s'. profile_run n cs s = Some (reports, s') \<and> map (\<lambda>b. b ! i) reports = map word_of_nat (reported i us cs)"
proof (induction cs arbitrary: s now on closed us)
  case (Cons c cs)
  have ok: "indices_ok n cs" using Cons.prems(1) by (simp add: indices_ok_def)
  note IH = Cons.IH [OF ok _ Cons.prems(3)]
  show ?case
  proof (cases c)
    case (Start j t)
    with Cons.prems(1) have "k < n" if "j = Some k" for k using that by (simp add: indices_ok_def)
    then obtain s1 where 1: "nl_profile_start j (word_of_nat t) s = Some s1" "profile_sized n s1"
      "item s1 i = (if j = Some i then (True, word_of_nat t, snd (snd (item s i))) else item s i)"
      using start_item [OF Cons.prems(2,3)] by blast
    have "tracks i t (on \<or> j = Some i) False (us @ [Start j t]) (item s1 i)"
      unfolding 1(3) by (rule start_tracks [OF Cons.prems(5)]) (use Cons.prems(4) Start in auto)
    with IH [OF 1(2) _ this] 1(1) Start Cons.prems(4) show ?thesis by simp
  next
    case (Stop j t)
    with Cons.prems(1) have "k < n" if "j = Some k" for k using that by (simp add: indices_ok_def)
    then obtain s1 where 1: "nl_profile_stop j (word_of_nat t) s = Some s1" "profile_sized n s1"
      "item s1 i = (case item s i of (on, t0, tot) \<Rightarrow> if j = Some i \<and> on then (False, t0, tot + (word_of_nat t - t0)) else (on, t0, tot))"
      using stop_item [OF Cons.prems(2,3)] by blast
    have "tracks i t (on \<and> j \<noteq> Some i) False (us @ [Stop j t]) (item s1 i)"
      unfolding 1(3) by (rule stop_tracks [OF Cons.prems(5)]) (use Cons.prems(4) Stop in auto)
    with IH [OF 1(2) _ this] 1(1) Stop Cons.prems(4) show ?thesis by simp
  next
    case New_interval
    with Cons.prems(4,5) have "tracks i now on True us (item s i)" by simp
    then have "tracks i now on False (us @ [New_interval]) (item (nl_profile_interval_start_new_interval s) i)"
      unfolding new_interval_item(2) [OF Cons.prems(2,3)] by (rule new_interval_tracks)
    with IH [OF new_interval_item(1) [OF Cons.prems(2,3)] _ this] New_interval Cons.prems(4) show ?thesis by simp
  next
    case (Totals e)
    with Cons.prems(4) have e: "now \<le> e" "orderly i e on True cs" by simp_all
    obtain s1 b where 1: "nl_profile_interval_calculate_totals n (word_of_nat e) (replicate n 0) s = Some (s1, b)" "profile_sized n s1"
      "item s1 i = settled (word_of_nat e) (item s i)" "b ! i = snd (snd (settled (word_of_nat e) (item s i)))"
      using totals_item [OF Cons.prems(2,3)] by blast
    have "tracks i e on True (us @ [Totals e]) (item s1 i)" unfolding 1(3) by (rule totals_tracks(1) [OF Cons.prems(5) e(1)])
    from IH [OF 1(2) e(2) this] 1 totals_tracks(2) [OF Cons.prems(5) e(1)] Totals show ?thesis by auto
  qed
qed simp

text \<open>
  C27: the profiler's reports are true to the times that items are enabled. For calls at true times, of
  which the clock shows the lowest 32 bits, and an item that is off and has no total at first: no call
  leaves the arrays, and each report gives for the item, modulo the range of the counters, the number of
  instants of the interval until the report's expiry at which it was enabled, that is, at which it had
  been started and not been stopped since; an interval begins with the expiry of the totals before it,
  so that nothing is lost or counted twice between two of them, whatever the clock's wrap-around. The
  calls come in the order of their times, so that none comes between the expiry of an interval and its
  totals, the item is not started while it is enabled, and a new interval is begun directly after the
  totals of the last one; each call is one step, so that \<open>nl_profile_start\<close>, which has no critical
  section, is not preempted between its stores. A start after the expiry breaks it (\<open>late_start_report\<close>),
  and so do a start of an enabled item (\<open>repeated_start_report\<close>) and a preemption of the start by the end
  of the interval (\<open>preempted_start_report\<close>).
\<close>

theorem profile_reports_account:
  assumes "indices_ok n cs" "profile_sized n s" "i < n" "\<not> enabled s ! i" "total_times s ! i = 0" "orderly i 0 False False cs"
  shows "\<exists>reports s'. profile_run n cs s = Some (reports, s') \<and> map (\<lambda>b. b ! i) reports = map word_of_nat (reported i [] cs)"
proof -
  have "tracks i 0 False False [] (item s i)" using assms(4,5) by (simp add: tracks_def item_def)
  then show ?thesis by (rule run_reports [OF assms(1-3,6)])
qed

text \<open>The time that is enabled, from the instants themselves.\<close>

lemma enabled_time_interval: "(\<And>x. a \<le> x \<Longrightarrow> x < e \<Longrightarrow> enabled_at cs i x \<longleftrightarrow> l \<le> x \<and> x < h) \<Longrightarrow> a \<le> l \<Longrightarrow> h \<le> e \<Longrightarrow> enabled_time cs i a e = h - l"
proof -
  assume *: "\<And>x. a \<le> x \<Longrightarrow> x < e \<Longrightarrow> enabled_at cs i x \<longleftrightarrow> l \<le> x \<and> x < h" "a \<le> l" "h \<le> e"
  have "{x. a \<le> x \<and> x < e \<and> enabled_at cs i x} = {l..<h}" using * by auto
  then show ?thesis by (simp add: enabled_time_def)
qed

lemma profile_reports_account_witness:
  "\<exists>reports s'. profile_run 2 [Start (Some 1) 0xfffffff0, Totals 0x100000010, New_interval, Stop (Some 1) 0x100000018, Totals 0x100000020]
     \<lparr>enable_times = [0, 0], total_times = [0, 0], enabled = [False, False]\<rparr> = Some (reports, s') \<and>
   map (\<lambda>b. b ! 1) reports = [0x20, 8]"
proof -
  let ?us = "[Start (Some 1) 0xfffffff0, Totals 0x100000010, New_interval, Stop (Some 1) 0x100000018]"
  have at: "enabled_at ([] @ [Start (Some 1) 0xfffffff0]) 1 x \<longleftrightarrow> 0xfffffff0 \<le> x" for x
    unfolding enabled_at_snoc by simp
  then have 1: "enabled_time [Start (Some 1) 0xfffffff0] 1 0 0x100000010 = 0x20"
    by (subst enabled_time_interval [where l = "0xfffffff0" and h = "0x100000010"]) auto
  have "enabled_at (((([] @ [Start (Some 1) 0xfffffff0]) @ [Totals 0x100000010]) @ [New_interval]) @ [Stop (Some 1) 0x100000018]) 1 x \<longleftrightarrow>
      0xfffffff0 \<le> x \<and> x < 0x100000018" for x unfolding enabled_at_snoc by simp
  then have 2: "enabled_time ?us 1 0x100000010 0x100000020 = 8"
    by (subst enabled_time_interval [where l = "0x100000010" and h = "0x100000018"]) auto
  show ?thesis
    using profile_reports_account [of 2 "?us @ [Totals 0x100000020]" "\<lparr>enable_times = [0, 0], total_times = [0, 0], enabled = [False, False]\<rparr>" 1]
    by (simp add: indices_ok_def profile_sized_def 1 [simplified] 2 [simplified])
qed

text \<open>
  An item that is started after the expiry of the interval, before the totals are calculated, is reported
  with a time just below the range of the counter, instead of none.
\<close>

lemma late_start_report:
  "profile_run 1 [Start (Some 0) (e + d), Totals e] \<lparr>enable_times = [0], total_times = [0], enabled = [False]\<rparr> =
     Some ([[- word_of_nat d]], \<lparr>enable_times = [word_of_nat e], total_times = [- word_of_nat d], enabled = [True]\<rparr>)"
  "enabled_time [Start (Some 0) (e + d)] 0 0 e = 0"
proof -
  have "enabled_at ([] @ [Start (Some 0) (e + d)]) 0 x \<longleftrightarrow> e + d \<le> x" for x unfolding enabled_at_snoc by simp
  then show "enabled_time [Start (Some 0) (e + d)] 0 0 e = 0" by (auto simp: enabled_time_def)
qed (simp add: profile_start_defs nl_profile_interval_calculate_totals_def calculate_total_def)

text \<open>A second start of an item that is enabled drops the time since the first.\<close>

lemma repeated_start_report:
  "t \<le> t' \<Longrightarrow> t' \<le> e \<Longrightarrow> \<exists>s'. profile_run 1 [Start (Some 0) t, Start (Some 0) t', Totals e]
     \<lparr>enable_times = [0], total_times = [0], enabled = [False]\<rparr> = Some ([[word_of_nat (e - t')]], s')"
  "t \<le> t' \<Longrightarrow> t' \<le> e \<Longrightarrow> enabled_time [Start (Some 0) t, Start (Some 0) t'] 0 0 e = e - t"
proof -
  assume t: "t \<le> t'" "t' \<le> e"
  show "\<exists>s'. profile_run 1 [Start (Some 0) t, Start (Some 0) t', Totals e]
     \<lparr>enable_times = [0], total_times = [0], enabled = [False]\<rparr> = Some ([[word_of_nat (e - t')]], s')"
    using t by (simp add: profile_start_defs nl_profile_interval_calculate_totals_def calculate_total_def)
  have "enabled_at (([] @ [Start (Some 0) t]) @ [Start (Some 0) t']) 0 x \<longleftrightarrow> t \<le> x" for x
    unfolding enabled_at_snoc using t by auto
  then show "enabled_time [Start (Some 0) t, Start (Some 0) t'] 0 0 e = e - t"
    using t by (subst enabled_time_interval [where l = t and h = e]) auto
qed

text \<open>
  When the interval ends between the two stores of \<open>nl_profile_start\<close>, the report that is calculated there
  leaves out the time since the start, and the next one has it besides its own.
\<close>

lemma preempted_start_report:
  assumes "t \<le> e" "e \<le> e'"
  defines "s0 \<equiv> \<lparr>enable_times = [0], total_times = [0], enabled = [False]\<rparr>"
  shows "\<exists>s'. do {
       s1 \<leftarrow> store_enable_time 0 (word_of_nat t) s0;
       (first, s2) \<leftarrow> profile_run 1 [Totals e, New_interval] s1;
       s3 \<leftarrow> store_enabled 0 s2;
       (second, s4) \<leftarrow> profile_run 1 [Totals e'] s3;
       Some (first @ second, s4) } = Some ([[0], [word_of_nat (e' - t)]], s')"
  using assms(1,2)
  by (simp add: s0_def profile_start_defs nl_profile_interval_calculate_totals_def calculate_total_def
      nl_profile_interval_start_new_interval_def)

text \<open>Without the trace facility, all but the first four bytes of the caller's array stay as they are.\<close>

lemma untraced_keeps: "4 \<le> k \<Longrightarrow> k < length bytes \<Longrightarrow> nl_profile_interval_get_task_info_untraced bytes ! k = bytes ! k"
  by (simp add: nl_profile_interval_get_task_info_untraced_def nth_append)

text \<open>The queue report stays within its array, and an excess of deep queues ends in the assertion.\<close>

lemma queue_metrics_bounds:
  "length info = n \<Longrightarrow> k \<le> n \<Longrightarrow>
   (case queue_metrics n ms (info, k) of
      None \<Rightarrow> n < k + length (filter (\<lambda>m. uxSize m \<noteq> 1) ms)
    | Some (info', k') \<Rightarrow> length info' = n \<and> k' = k + length (filter (\<lambda>m. uxSize m \<noteq> 1) ms) \<and> k' \<le> n)"
proof (induction ms arbitrary: info k)
  case (Cons m ms)
  show ?case
  proof (cases "uxSize m = 1")
    case True
    with Cons.IH [of info k] Cons.prems show ?thesis by (cases "queue_metrics n ms (info, k)") (auto simp: nl_queue_info_cb_def)
  next
    case False
    show ?thesis
    proof (cases "k < n")
      case True
      let ?info = "info[k := \<lparr>q_location = pvBufAddr m, q_size = ucast (uxSize m), high_watermark = ucast (uxMaxMessagesWaiting m)\<rparr>]"
      from Cons.IH [of ?info "k + 1"] Cons.prems True False show ?thesis by (simp add: nl_queue_info_cb_def split: option.splits prod.splits)
    next
      case k: False
      with False Cons.prems show ?thesis by (simp add: nl_queue_info_cb_def)
    qed
  qed
qed simp

end
