(* ===== verification/Nlmpu.thy ===== *)
theory Nlmpu
  imports NL_Prelude
begin

unbundle bit_operations_syntax

text \<open>
  The memory protection unit of \<open>src/src/cpu/arm/cortex-m3/nlmpu.c\<close>. The unit is hardware: its
  registers are the parameter \<open>mpu_ops\<close>, and \<open>mpu_laws\<close> states what the architecture documents of
  them, by what they show of the region table (\<open>mpu_file\<close>). \<open>ndebug\<close> says whether \<open>NDEBUG\<close> is defined;
  a failed assertion is \<open>None\<close>.

  The lemmas show which region a request gets and how it is configured, that no other region changes,
  and the encoding of sizes.
\<close>

section \<open>Registers\<close>

record 'h mpu_ops =
  rd_TYPE :: "'h \<Rightarrow> u32"
  wr_CTRL :: "u32 \<Rightarrow> 'h \<Rightarrow> 'h"
  wr_RNR :: "u32 \<Rightarrow> 'h \<Rightarrow> 'h"
  rd_RBAR :: "'h \<Rightarrow> u32"
  wr_RBAR :: "u32 \<Rightarrow> 'h \<Rightarrow> 'h"
  rd_RASR :: "'h \<Rightarrow> u32"
  wr_RASR :: "u32 \<Rightarrow> 'h \<Rightarrow> 'h"

definition MPU_RBAR_ADDR_Msk :: u32 where "MPU_RBAR_ADDR_Msk = 0xffffffe0"
definition MPU_RBAR_VALID_Msk :: u32 where "MPU_RBAR_VALID_Msk = 0x10"
definition MPU_RASR_ATTRIBUTES_Msk :: u32 where "MPU_RASR_ATTRIBUTES_Msk = 0x173fff00"

section \<open>Operations\<close>

definition nl_mpu_get_num_regions :: "'h mpu_ops \<Rightarrow> 'h \<Rightarrow> nat" where
  "nl_mpu_get_num_regions ops h = unat (drop_bit 8 (rd_TYPE ops h AND 0xff00))"

definition clear_region :: "'h mpu_ops \<Rightarrow> nat \<Rightarrow> 'h \<Rightarrow> 'h" where
  "clear_region ops i h = wr_RASR ops 0 (wr_RBAR ops (MPU_RBAR_VALID_Msk OR word_of_nat i) h)"

definition nl_mpu_init :: "'h mpu_ops \<Rightarrow> 'h \<Rightarrow> 'h" where
  "nl_mpu_init ops h = fold (clear_region ops) [0..<nl_mpu_get_num_regions ops h] (wr_CTRL ops 0 h)"

definition nl_mpu_enable :: "'h mpu_ops \<Rightarrow> bool \<Rightarrow> bool \<Rightarrow> bool \<Rightarrow> 'h \<Rightarrow> 'h" where
  "nl_mpu_enable ops enable enable_default_memory_map enable_mpu_in_fault_handlers h =
     wr_CTRL ops (if enable
       then 1 OR (if enable_default_memory_map then 4 else 0) OR (if enable_mpu_in_fault_handlers then 2 else 0)
       else 0) h"

text \<open>\<open>__builtin_ffs\<close>: one plus the index of the lowest bit of the \<open>int\<close>, or 0.\<close>

definition builtin_ffs :: "u32 \<Rightarrow> nat" where
  "builtin_ffs x = (case filter (bit x) [0..<32] of [] \<Rightarrow> 0 | i # _ \<Rightarrow> Suc i)"

definition region_size_value :: "u64 \<Rightarrow> u32 option" where
  "region_size_value region_size =
     (if region_size = 2 ^ 32 then Some 31
      else if region_size AND (region_size - 1) \<noteq> 0 then None
      else Some (word_of_nat (builtin_ffs (ucast region_size)) - 2))"

text \<open>The search from region \<open>i\<close> on; what is done with the first free one.\<close>

definition configure_region ::
  "bool \<Rightarrow> 'h mpu_ops \<Rightarrow> u32 \<Rightarrow> u64 \<Rightarrow> u32 \<Rightarrow> u32 \<Rightarrow> 'h \<Rightarrow> 'h option" where
  "configure_region ndebug ops region_base_address region_size attributes size_value h =
     (let h1 = wr_RBAR ops MPU_RBAR_ADDR_Msk h;
          rbar_invalid_addr_bits = NOT (rd_RBAR ops h1 AND MPU_RBAR_ADDR_Msk);
          min_region_size = rbar_invalid_addr_bits + 1
      in if \<not> ndebug \<and> (region_size < ucast min_region_size \<or> region_base_address AND rbar_invalid_addr_bits \<noteq> 0)
         then None
         else Some (wr_RASR ops (attributes OR push_bit 1 size_value OR 1) (wr_RBAR ops region_base_address h1)))"

fun request_loop ::
  "bool \<Rightarrow> 'h mpu_ops \<Rightarrow> u32 \<Rightarrow> u64 \<Rightarrow> u32 \<Rightarrow> u32 \<Rightarrow> nat list \<Rightarrow> 'h \<Rightarrow> (int \<times> 'h) option" where
  "request_loop ndebug ops base sz attributes size_value [] h = Some (- 1, h)"
| "request_loop ndebug ops base sz attributes size_value (i # is) h =
     (let h1 = wr_RNR ops (word_of_nat i) h in
      if rd_RBAR ops h1 = word_of_nat i \<and> rd_RASR ops h1 = 0
      then map_option (\<lambda>h2. (int i, h2)) (configure_region ndebug ops base sz attributes size_value h1)
      else request_loop ndebug ops base sz attributes size_value is h1)"

definition nl_mpu_request_region ::
  "bool \<Rightarrow> 'h mpu_ops \<Rightarrow> u32 \<Rightarrow> u64 \<Rightarrow> u32 \<Rightarrow> 'h \<Rightarrow> (int \<times> 'h) option" where
  "nl_mpu_request_region ndebug ops region_base_address region_size attributes h =
     (let num_regions = nl_mpu_get_num_regions ops h in
      if region_base_address AND NOT MPU_RBAR_ADDR_Msk \<noteq> 0 \<or> region_size < 32 \<or> 2 ^ 32 < region_size \<or>
         attributes AND NOT MPU_RASR_ATTRIBUTES_Msk \<noteq> 0
      then None
      else case region_size_value region_size of None \<Rightarrow> None
        | Some size_value \<Rightarrow> request_loop ndebug ops region_base_address region_size attributes size_value [0..<num_regions] h)"

definition nl_mpu_release_region :: "bool \<Rightarrow> 'h mpu_ops \<Rightarrow> int \<Rightarrow> 'h \<Rightarrow> 'h option" where
  "nl_mpu_release_region ndebug ops region h =
     (if \<not> ndebug \<and> \<not> (0 \<le> region \<and> nat region < nl_mpu_get_num_regions ops h) then None
      else Some (clear_region ops (nat region) h))"

section \<open>The unit\<close>

text \<open>
  The selected region, and base address and attributes of each. \<open>impl\<close> has the address bits that are
  implemented; a write of the base with the valid bit selects the region of its low four bits.
\<close>

record mpu_file =
  selected :: nat
  base_of :: "nat \<Rightarrow> u32"
  attr_of :: "nat \<Rightarrow> u32"

definition file_rbar :: "u32 \<Rightarrow> u32 \<Rightarrow> mpu_file \<Rightarrow> mpu_file" where
  "file_rbar impl v f =
     (let r = (if bit v 4 then unat (v AND 0xf) else selected f)
      in f\<lparr>selected := r, base_of := (base_of f)(r := v AND impl)\<rparr>)"

definition file_rasr :: "u32 \<Rightarrow> mpu_file \<Rightarrow> mpu_file" where
  "file_rasr v f = f\<lparr>attr_of := (attr_of f)(selected f := v)\<rparr>"

definition mpu_laws :: "'h mpu_ops \<Rightarrow> ('h \<Rightarrow> mpu_file) \<Rightarrow> u32 \<Rightarrow> nat \<Rightarrow> bool" where
  "mpu_laws ops view impl n \<longleftrightarrow> n \<le> 16 \<and> impl AND 0x1f = 0 \<and>
     (\<forall>h. nl_mpu_get_num_regions ops h = n \<and>
       rd_RBAR ops h = base_of (view h) (selected (view h)) OR word_of_nat (selected (view h)) \<and>
       rd_RASR ops h = attr_of (view h) (selected (view h)) \<and>
       (\<forall>v. view (wr_CTRL ops v h) = view h \<and> view (wr_RBAR ops v h) = file_rbar impl v (view h) \<and>
          view (wr_RASR ops v h) = file_rasr v (view h)) \<and>
       (\<forall>i < n. view (wr_RNR ops (word_of_nat i) h) = (view h)\<lparr>selected := i\<rparr>)) \<and>
     (\<forall>h i. base_of (view h) i AND impl = base_of (view h) i)"

definition free_region :: "mpu_file \<Rightarrow> nat \<Rightarrow> bool" where
  "free_region f i \<longleftrightarrow> base_of f i = 0 \<and> attr_of f i = 0"

section \<open>Lemmas\<close>

lemma size_encoding:
  assumes "5 \<le> k" "k \<le> 32"
  shows "region_size_value (2 ^ k) = Some (word_of_nat (k - 1))"
proof -
  have "\<forall>k \<in> set [5..<33]. region_size_value (2 ^ k) = Some (word_of_nat (k - 1))" by code_simp
  moreover have "k \<in> set [5..<33]" unfolding set_upt atLeastLessThan_iff using assms by linarith
  ultimately show ?thesis by blast
qed

lemma low_bits_region:
  assumes "b AND impl = b" "impl AND 0x1f = 0" "i < 16"
  shows "b OR word_of_nat i = word_of_nat i \<longleftrightarrow> (b :: u32) = 0"
proof
  let ?i = "word_of_nat i :: u32"
  assume or: "b OR ?i = ?i"
  have "i \<in> set [0..<16]" using assms(3) by simp
  moreover have "\<forall>i \<in> set [0..<16]. (word_of_nat i AND 0x1f :: u32) = word_of_nat i" by code_simp
  ultimately have i: "?i AND 0x1f = ?i" by blast
  have "b = b AND (b OR ?i)" by simp
  also have "\<dots> = (b AND impl) AND (?i AND 0x1f)" by (simp only: or assms(1) i)
  also have "\<dots> = (b AND ?i) AND (impl AND 0x1f)" by (simp only: ac_simps)
  finally show "b = 0" by (simp add: assms(2))
qed simp

lemma and_not_disjoint: "a AND m = 0 \<Longrightarrow> a AND NOT m = (a :: u32)"
proof -
  assume 0: "a AND m = 0"
  have "a = a AND (m OR NOT m)" by simp
  also have "\<dots> = a AND m OR a AND NOT m" by (rule bit.conj_disj_distrib)
  finally show "a AND NOT m = a" using 0 by simp
qed

lemma masked_bits:
  assumes "impl AND 0x1f = 0" "i < 16"
  shows "(MPU_RBAR_ADDR_Msk AND impl OR word_of_nat i) AND MPU_RBAR_ADDR_Msk = (impl :: u32)"
proof -
  have "i \<in> set [0..<16]" using assms(2) by simp
  moreover have "\<forall>i \<in> set [0..<16]. (word_of_nat i AND MPU_RBAR_ADDR_Msk) = 0" by code_simp
  ultimately have i: "word_of_nat i AND MPU_RBAR_ADDR_Msk = 0" by blast
  have m: "MPU_RBAR_ADDR_Msk = NOT 0x1f" by code_simp
  have "impl AND NOT 0x1f = impl" by (rule and_not_disjoint [OF assms(1)])
  with i show ?thesis unfolding m by (simp add: bit.conj_disj_distrib2 and.assoc and.commute)
qed

lemma no_bits: "base AND impl = base \<Longrightarrow> base AND NOT impl = (0 :: u32)"
  by (metis and.assoc bit.conj_cancel_right bit.conj_zero_right)

lemma file_rbar_plain: "\<not> bit v 4 \<Longrightarrow> file_rbar impl v f = f\<lparr>base_of := (base_of f)(selected f := v AND impl)\<rparr>"
  by (simp add: file_rbar_def Let_def)

lemma view_clear_region:
  assumes "mpu_laws ops view impl n" "i < n"
  shows "view (clear_region ops i h) = (view h)\<lparr>selected := i, base_of := (base_of (view h))(i := 0), attr_of := (attr_of (view h))(i := 0)\<rparr>"
proof -
  have n: "n \<le> 16" "impl AND 0x1f = 0" using assms(1) by (simp_all add: mpu_laws_def)
  have "i \<in> set [0..<16]" using assms(2) n(1) by simp
  moreover have "\<forall>i \<in> set [0..<16]. bit (MPU_RBAR_VALID_Msk OR word_of_nat i) 4 \<and> unat ((MPU_RBAR_VALID_Msk OR word_of_nat i) AND 0xf) = i \<and>
      (MPU_RBAR_VALID_Msk OR word_of_nat i) AND 0x1f = MPU_RBAR_VALID_Msk OR word_of_nat i" by code_simp
  ultimately have v: "bit (MPU_RBAR_VALID_Msk OR word_of_nat i) 4" "unat ((MPU_RBAR_VALID_Msk OR word_of_nat i) AND 0xf) = i"
    "(MPU_RBAR_VALID_Msk OR word_of_nat i) AND 0x1f = MPU_RBAR_VALID_Msk OR word_of_nat i" by blast+
  have "(MPU_RBAR_VALID_Msk OR word_of_nat i) AND impl = (MPU_RBAR_VALID_Msk OR word_of_nat i) AND (impl AND 0x1f)"
    by (metis v(3) and.assoc and.commute)
  also have "\<dots> = 0" using n(2) by simp
  finally show ?thesis
    using assms(1) v by (simp add: mpu_laws_def clear_region_def file_rbar_def file_rasr_def)
qed

lemma request_loop_finds:
  assumes laws: "mpu_laws ops view impl n"
    and v: "\<not> bit base 4" "base AND impl = base" "0x20 \<le> sz" "\<not> ndebug \<longrightarrow> ucast (NOT impl + 1) \<le> sz"
  shows "\<forall>i \<in> set is. i < n \<Longrightarrow>
    \<exists>h'. request_loop ndebug ops base sz attributes size_value is h =
        Some (case find (free_region (view h)) is of Some r \<Rightarrow> int r | None \<Rightarrow> - 1, h') \<and>
      base_of (view h') = (case find (free_region (view h)) is of Some r \<Rightarrow> (base_of (view h))(r := base) | None \<Rightarrow> base_of (view h)) \<and>
      attr_of (view h') = (case find (free_region (view h)) is of Some r \<Rightarrow> (attr_of (view h))(r := attributes OR push_bit 1 size_value OR 1)
         | None \<Rightarrow> attr_of (view h))"
proof (induction "is" arbitrary: h)
  case (Cons i "is")
  let ?h1 = "wr_RNR ops (word_of_nat i) h"
  have i: "i < n" "i < 16" using Cons.prems laws by (auto simp: mpu_laws_def)
  have h1: "view ?h1 = (view h)\<lparr>selected := i\<rparr>" using laws i(1) by (simp add: mpu_laws_def)
  have "base_of (view h) i AND impl = base_of (view h) i" "impl AND 0x1f = 0" using laws by (simp_all add: mpu_laws_def)
  from low_bits_region [OF this i(2)]
  have test: "(rd_RBAR ops ?h1 = word_of_nat i \<and> rd_RASR ops ?h1 = 0) = free_region (view h) i"
    using laws h1 by (simp add: mpu_laws_def free_region_def)
  have step: "request_loop ndebug ops base sz attributes size_value (i # is) h =
      (if free_region (view h) i then map_option (\<lambda>h2. (int i, h2)) (configure_region ndebug ops base sz attributes size_value ?h1)
       else request_loop ndebug ops base sz attributes size_value is ?h1)"
    by (simp only: request_loop.simps Let_def test)
  show ?case
  proof (cases "free_region (view h) i")
    case False
    have eq: "free_region (view ?h1) = free_region (view h)" "base_of (view ?h1) = base_of (view h)" "attr_of (view ?h1) = attr_of (view h)"
      by (auto simp: h1 free_region_def)
    from Cons.IH [of ?h1, unfolded eq] Cons.prems False show ?thesis by (simp add: step del: request_loop.simps)
  next
    case True
    let ?h2 = "wr_RBAR ops MPU_RBAR_ADDR_Msk ?h1"
    have nb: "\<not> bit MPU_RBAR_ADDR_Msk 4" by (simp add: MPU_RBAR_ADDR_Msk_def)
    have h2: "view ?h2 = (view ?h1)\<lparr>base_of := (base_of (view ?h1))(i := MPU_RBAR_ADDR_Msk AND impl)\<rparr>"
      using laws nb h1 by (simp add: mpu_laws_def file_rbar_plain)
    have "rd_RBAR ops ?h2 AND MPU_RBAR_ADDR_Msk = impl"
      using laws h1 h2 masked_bits [OF _ i(2), of impl] by (simp add: mpu_laws_def)
    then have "configure_region ndebug ops base sz attributes size_value ?h1 =
      Some (wr_RASR ops (attributes OR push_bit 1 size_value OR 1) (wr_RBAR ops base ?h2))"
      using v(2,4) no_bits [OF v(2)] by (auto simp: configure_region_def Let_def)
    moreover have "view (wr_RASR ops (attributes OR push_bit 1 size_value OR 1) (wr_RBAR ops base ?h2)) =
      (view ?h2)\<lparr>base_of := (base_of (view ?h2))(i := base), attr_of := (attr_of (view ?h2))(i := attributes OR push_bit 1 size_value OR 1)\<rparr>"
      using laws v(1,2) h1 h2 by (simp add: mpu_laws_def file_rbar_plain file_rasr_def)
    ultimately show ?thesis using True h1 h2 by (simp add: step fun_eq_iff del: request_loop.simps)
  qed
qed simp

text \<open>The size in bytes that the encoded size stands for.\<close>

definition encoded_size :: "u32 \<Rightarrow> nat" where
  "encoded_size v = 2 ^ (unat v + 1)"

lemma encoded_size_value: "5 \<le> k \<Longrightarrow> k \<le> 32 \<Longrightarrow> encoded_size (word_of_nat (k - 1)) = 2 ^ k"
proof -
  assume k: "5 \<le> k" "k \<le> 32"
  define j where "j = k - 1"
  have "k = Suc j" "j < 2 ^ 32" using k by (simp_all add: j_def)
  then have "unat (word_of_nat j :: u32) = j" by (simp add: unat_of_nat)
  with \<open>k = Suc j\<close> show ?thesis by (simp add: encoded_size_def j_def [symmetric])
qed

text \<open>A request that passes the assertions: aligned base, a power of two from the smallest size on, only attribute bits.\<close>

definition good_request :: "u32 \<Rightarrow> u32 \<Rightarrow> nat \<Rightarrow> u32 \<Rightarrow> bool" where
  "good_request impl base k attributes \<longleftrightarrow> base AND impl = base \<and> base AND 0x1f = 0 \<and> 5 \<le> k \<and> k \<le> 32 \<and>
     unat (NOT impl + 1) \<le> 2 ^ k \<and> attributes AND NOT MPU_RASR_ATTRIBUTES_Msk = 0"

text \<open>A good request passes the checks of its size, base and attributes.\<close>

lemma size_in_words:
  assumes "5 \<le> k" "k \<le> 32"
  shows "unat (2 ^ k :: u64) = 2 ^ k" "\<not> (2 ^ k :: u64) < 32" "\<not> (2 ^ 32 :: u64) < 2 ^ k" "(0x20 :: u64) \<le> 2 ^ k"
proof -
  have "(2 :: nat) ^ k < 2 ^ 64" using assms(2) by (intro power_strict_increasing) auto
  then have "unat (word_of_nat (2 ^ k) :: u64) = 2 ^ k" by (simp add: unat_of_nat del: of_nat_power)
  then show sz: "unat (2 ^ k :: u64) = 2 ^ k" by simp
  have p: "(2 :: nat) ^ 5 \<le> 2 ^ k" "(2 :: nat) ^ k \<le> 2 ^ 32" using assms by (intro power_increasing; simp)+
  then show "\<not> (2 ^ k :: u64) < 32" "\<not> (2 ^ 32 :: u64) < 2 ^ k" "(0x20 :: u64) \<le> 2 ^ k"
    using sz by (simp_all add: word_less_nat_alt word_le_nat_alt)
qed

lemma aligned_base_bit:
  fixes base :: u32
  assumes "base AND 0x1f = 0"
  shows "\<not> bit base 4"
proof
  assume "bit base 4"
  then have "bit (base AND 0x1f) 4" by (simp add: bit_simps)
  with assms show False by simp
qed

lemma request_reaches_loop:
  assumes "mpu_laws ops view impl n" "good_request impl base k attributes"
  shows "nl_mpu_request_region ndebug ops base (2 ^ k) attributes h =
      request_loop ndebug ops base (2 ^ k) attributes (word_of_nat (k - 1)) [0..<n] h"
    and "\<not> ndebug \<longrightarrow> ucast (NOT impl + 1) \<le> (2 ^ k :: u64)"
proof -
  have k: "5 \<le> k" "k \<le> 32" and base: "base AND 0x1f = 0"
    and attrs: "attributes AND NOT MPU_RASR_ATTRIBUTES_Msk = 0" and min: "unat (NOT impl + 1) \<le> 2 ^ k"
    using assms(2) by (simp_all add: good_request_def)
  note sz = size_in_words [OF k]
  have "unat (ucast (NOT impl + 1) :: u64) = unat (NOT impl + 1)"
    using unsigned_less [of "NOT impl + 1", where ?'a = nat]
    by (subst unsigned_ucast_eq) (rule take_bit_nat_eq_self, simp)
  with min sz(1) show "\<not> ndebug \<longrightarrow> ucast (NOT impl + 1) \<le> (2 ^ k :: u64)" by (simp add: word_le_nat_alt)
  have bits: "MPU_RBAR_ADDR_Msk = NOT 0x1f" by code_simp
  have "nl_mpu_get_num_regions ops h = n" using assms(1) by (simp add: mpu_laws_def)
  then show "nl_mpu_request_region ndebug ops base (2 ^ k) attributes h =
      request_loop ndebug ops base (2 ^ k) attributes (word_of_nat (k - 1)) [0..<n] h"
    using base sz(2,3) attrs by (simp add: nl_mpu_request_region_def bits size_encoding [OF k])
qed

text \<open>
  C29: a request for a region of \<open>2 ^ k\<close> bytes takes the first free region of the protection unit and
  configures it with the base, the attributes, the encoding of that size and the enable bit, or
  returns -1 when no region is free; no other region changes in either case. A region that was
  configured is not free, so it is not given out again until it is released, and releasing frees
  exactly that region.
\<close>

theorem nl_mpu_request_region_configures:
  assumes "mpu_laws ops view impl n" "good_request impl base k attributes"
  shows "\<exists>r h'. nl_mpu_request_region ndebug ops base (2 ^ k) attributes h = Some (r, h') \<and>
    (case find (free_region (view h)) [0..<n] of
       None \<Rightarrow> r = - 1 \<and> base_of (view h') = base_of (view h) \<and> attr_of (view h') = attr_of (view h)
     | Some i \<Rightarrow> r = int i \<and> base_of (view h') = (base_of (view h))(i := base) \<and>
         (\<exists>v. attr_of (view h') = (attr_of (view h))(i := attributes OR push_bit 1 v OR 1) \<and> encoded_size v = 2 ^ k) \<and>
         \<not> free_region (view h') i \<and>
         (\<exists>h''. nl_mpu_release_region ndebug ops (int i) h' = Some h'' \<and>
            base_of (view h'') = (base_of (view h'))(i := 0) \<and> attr_of (view h'') = (attr_of (view h'))(i := 0)))"
proof -
  let ?v = "word_of_nat (k - 1) :: u32" and ?a = "attributes OR push_bit 1 (word_of_nat (k - 1)) OR 1"
  have k: "5 \<le> k" "k \<le> 32" and base: "base AND impl = base" "\<not> bit base 4"
    using assms(2) aligned_base_bit by (simp_all add: good_request_def)
  have n: "nl_mpu_get_num_regions ops h = n" for h using assms(1) by (simp add: mpu_laws_def)
  obtain h' where h': "nl_mpu_request_region ndebug ops base (2 ^ k) attributes h =
      Some (case find (free_region (view h)) [0..<n] of Some r \<Rightarrow> int r | None \<Rightarrow> - 1, h')"
    "base_of (view h') = (case find (free_region (view h)) [0..<n] of Some r \<Rightarrow> (base_of (view h))(r := base) | None \<Rightarrow> base_of (view h))"
    "attr_of (view h') = (case find (free_region (view h)) [0..<n] of Some r \<Rightarrow> (attr_of (view h))(r := ?a) | None \<Rightarrow> attr_of (view h))"
    using request_loop_finds [OF assms(1) base(2,1) size_in_words(4) [OF k] request_reaches_loop(2) [OF assms, of ndebug], of "[0..<n]" attributes ?v h]
    unfolding request_reaches_loop(1) [OF assms] by auto
  show ?thesis
  proof (cases "find (free_region (view h)) [0..<n]")
    case None
    with h' show ?thesis by simp
  next
    case (Some i)
    have "i < n" using Some by (auto simp: find_Some_iff)
    have "bit ?a 0" by (simp add: bit_simps)
    then have "?a \<noteq> 0" by auto
    with Some h' have nf: "\<not> free_region (view h') i" by (simp add: free_region_def)
    have "nl_mpu_release_region ndebug ops (int i) h' = Some (clear_region ops i h')"
      using \<open>i < n\<close> by (simp add: nl_mpu_release_region_def n)
    with nf Some h' view_clear_region [OF assms(1) \<open>i < n\<close>, of h'] encoded_size_value [OF k] show ?thesis
      by auto
  qed
qed

text \<open>Initialisation frees every region.\<close>

lemma nl_mpu_init_frees:
  assumes "mpu_laws ops view impl n" "i < n"
  shows "free_region (view (nl_mpu_init ops h)) i"
proof -
  have "\<forall>j < m. free_region (view (fold (clear_region ops) [0..<m] g)) j" if "m \<le> n" for m and g
    using that
  proof (induction m)
    case (Suc m)
    then have "view (clear_region ops m g) = (view g)\<lparr>selected := m, base_of := (base_of (view g))(m := 0), attr_of := (attr_of (view g))(m := 0)\<rparr>" for g
      by (intro view_clear_region [OF assms(1)]) simp
    with Suc show ?case by (auto simp: free_region_def less_Suc_eq)
  qed simp
  with assms show ?thesis by (simp add: nl_mpu_init_def mpu_laws_def)
qed

section \<open>Witness\<close>

definition example_mpu :: "mpu_file mpu_ops" where
  "example_mpu = \<lparr>rd_TYPE = (\<lambda>_. 0x800), wr_CTRL = (\<lambda>_ f. f), wr_RNR = (\<lambda>v f. f\<lparr>selected := unat v\<rparr>),
     rd_RBAR = (\<lambda>f. (base_of f (selected f) AND 0xffffffe0) OR word_of_nat (selected f)),
     wr_RBAR = file_rbar 0xffffffe0, rd_RASR = (\<lambda>f. attr_of f (selected f)), wr_RASR = file_rasr\<rparr>"

definition example_view :: "mpu_file \<Rightarrow> mpu_file" where
  "example_view f = f\<lparr>base_of := (\<lambda>i. base_of f i AND 0xffffffe0)\<rparr>"

definition blank_mpu :: mpu_file where
  "blank_mpu = \<lparr>selected = 3, base_of = (\<lambda>_. 0), attr_of = (\<lambda>i. if i = 0 then 5 else 0)\<rparr>"

lemma example_mpu_laws: "mpu_laws example_mpu example_view 0xffffffe0 8"
proof -
  have "nl_mpu_get_num_regions example_mpu h = 8" for h by (simp add: nl_mpu_get_num_regions_def example_mpu_def)
  moreover have "unat (word_of_nat i :: u32) = i" if "i < 8" for i
    using that by (simp add: unat_of_nat)
  ultimately show ?thesis
    by (simp add: mpu_laws_def example_mpu_def example_view_def file_rbar_def file_rasr_def Let_def fun_eq_iff and.assoc)
qed

lemma nl_mpu_request_region_configures_witness:
  "\<exists>h'. nl_mpu_request_region False example_mpu 0x20000000 1024 0x03000000 blank_mpu = Some (1, h') \<and>
    base_of (example_view h') 1 = 0x20000000"
proof -
  have "good_request 0xffffffe0 0x20000000 10 0x03000000"
    by (simp add: good_request_def MPU_RASR_ATTRIBUTES_Msk_def)
  from nl_mpu_request_region_configures [OF example_mpu_laws this, of False blank_mpu]
  moreover have "find (free_region (example_view blank_mpu)) [0..<8] = Some 1"
    by (simp add: upt_rec free_region_def example_view_def blank_mpu_def)
  ultimately show ?thesis by (auto simp del: One_nat_def)
qed

end
