(* ===== verification/Nlcrc.thy ===== *)
theory Nlcrc
  imports NL_Prelude
begin

text \<open>
  The CRC object of \<open>src/src/nlcrc.c\<close> for builds with \<open>BUILD_FEATURE_SW_CRC\<close>, which wraps the library
  function \<open>crc32_append\<close>, a parameter. The lemmas say which configurations a request accepts, and
  that a computation in pieces is one over the whole if the library function is.
\<close>

datatype nlcrc_transpose_write_t = kTransposeTypeWriteNone | kTransposeTypeWriteBitsOnly | kTransposeTypeWriteBoth | kTransposeTypeWriteBytesOnly
datatype nlcrc_transpose_read_t = kTransposeTypeReadNone | kTransposeTypeReadBitsOnly | kTransposeTypeReadBoth | kTransposeTypeReadBytesOnly
datatype nlcrc_len_t = kCrcLen8Bits | kCrcLen16Bits | kCrcLen32Bits

definition nlcrc_compute :: "(u32 \<Rightarrow> u8 list \<Rightarrow> u32) \<Rightarrow> u32 \<Rightarrow> u8 list \<Rightarrow> u32" where
  "nlcrc_compute crc32_append crc data = crc32_append crc data"

definition nlcrc_request :: "nlcrc_transpose_write_t \<Rightarrow> nlcrc_transpose_read_t \<Rightarrow> bool \<Rightarrow> nlcrc_len_t \<Rightarrow> u32 \<Rightarrow> int" where
  "nlcrc_request writeType readType xorOnRead crcLen poly =
     (if writeType \<noteq> kTransposeTypeWriteNone then - EINVAL
      else if readType \<noteq> kTransposeTypeReadNone then - EINVAL
      else if xorOnRead \<noteq> True then - EINVAL
      else if crcLen \<noteq> kCrcLen32Bits then - EINVAL
      else 0)"

definition nlcrc_release :: int where
  "nlcrc_release = 0"

text \<open>The function asserts that it is never called.\<close>

definition nlcrc_set_locking :: "unit option" where
  "nlcrc_set_locking = None"

text \<open>The polynomial is not looked at: a request for any other one is accepted, and computes the CRC-32 of the library.\<close>

lemma nlcrc_request_accepts:
  "nlcrc_request w r x l poly = 0 \<longleftrightarrow> w = kTransposeTypeWriteNone \<and> r = kTransposeTypeReadNone \<and> x \<and> l = kCrcLen32Bits"
  by (simp add: nlcrc_request_def)

lemma nlcrc_compute_pieces:
  assumes "\<And>crc xs ys. crc32_append crc (xs @ ys) = crc32_append (crc32_append crc xs) ys" "crc32_append crc [] = crc"
  shows "fold (\<lambda>d c. nlcrc_compute crc32_append c d) ds crc = nlcrc_compute crc32_append crc (concat ds)"
  using assms(2) by (induction ds arbitrary: crc rule: rev_induct) (simp_all add: nlcrc_compute_def assms(1))

end
