(* ===== verification/Spec2Isabelle.thy ===== *)
theory Spec2Isabelle
  imports NL_Prelude Nltrace Nlram_console Nlswtimer Nlswtimer_test Nltime Nlgpio_button Nlreset_info Nlfault
    Nlflash Nlflash_spi Nlflash_spi_store Nlflash_spi_buffer Flash_chips Nlspi_ipc Nlfs Flash_stack Fault_emulation Fault_stubs Fault_dump Fault_dump_m0 Reset_lifecycle Interrupt_lock Guarded_api
    Nltrace_preempted Nlswtimer_preempted Nlram_console_preempted Builtin_cm0 Compiler_support Guard_threads
    Nlprofile Nlmpu Nlcrc Nlwatchpoint
begin

text \<open>
  A verification of the platform library of Nest Labs (\<open>nlplatform\<close>): portable services for
  microcontrollers with FreeRTOS, on top of drivers that each product supplies. The C files under
  \<open>src/src\<close> are modelled function by function; this theory gathers the components.

  \<^bold>\<open>Parts and theories.\<close> \<open>NL_Prelude\<close> has the vocabulary: C integers as words of their width, arrays
  as lists with bounds-checked access (\<open>arr_get\<close>, \<open>arr_upd\<close>, \<open>mem_read\<close>, \<open>mem_write\<close>), pointer chains,
  and the locales \<open>invariant_system\<close>, for reachable states, and \<open>event_system\<close>, for systems that also never fail. Throughout, \<open>None\<close> is a run that C leaves
  undefined or that stops in an assertion or trap.

  \<^item> \<open>Nlswtimer\<close> (\<open>nlswtimer.c\<close>): two singly linked lists of caller-owned timers, as a map from timer
    addresses to records, with the 32-bit tick count that wraps around. Lemmas: each operation keeps the
    lists acyclic, disjoint, sorted and consistent with the tick; insertion, cancellation and the
    handling of the wrap-around; every timer runs at its tick and not before. \<open>Nlswtimer_test\<close> has the
    sanity test of the same file, which passes because the service follows a sorted schedule.
  \<^item> \<open>Nltime\<close> (\<open>nltime.c\<close>) and \<open>Nlgpio_button\<close> (\<open>nlgpio_button.c\<close>) are clients of the timer service: time
    from the cycle counter, and the debouncing of buttons, whose timer calls are those of \<open>Nlswtimer\<close>.
  \<^item> \<open>Nltrace\<close> (\<open>nltrace.c\<close>): the pool of events, linked by 8-bit indices; \<open>Nlram_console\<close>
    (\<open>nlram_console.c\<close>): the circular log in retained memory. Both have an invariant over all
    sequences of calls, and an abstract log that the operations refine.
  \<^item> \<open>Nlreset_info\<close> (\<open>nlreset_info.c\<close>), \<open>Nlfault\<close> (\<open>nlfault.c\<close>), \<open>Fault_dump\<close> and \<open>Fault_emulation\<close>
    (\<open>cpu/arm/cortex-m3/fault.c\<close>): why the device was reset. The assertion delegate fills the record
    of \<open>Nlreset_info\<close>, the crash dump completes it from the stacks of the interrupted code, the next
    boot reads it; \<open>Fault_emulation\<close> has the memory, the stacked registers and the repair of unaligned
    loads and stores, against the architecture's definition of the instructions; \<open>Fault_stubs\<close> runs the
    assembly that enters and leaves the handlers of both cores; \<open>Fault_dump_m0\<close> is the dump of
    \<open>cpu/arm/cortex-m0/fault.c\<close>. What the dumps of both cores have in common is proved in the locales
    \<open>crash_parts\<close> and \<open>crash_leftovers\<close>, with an interpretation for each core. The contract of the
    record is the locale \<open>reset_record\<close>, interpreted for both variants of the record. \<open>Reset_lifecycle\<close> puts
    them together: a device as a sequence of boots, assertions, dumps and queries, an \<open>event_system\<close>
    whose record never holds a value outside its types.
  \<^item> \<open>Nlflash\<close> (\<open>nlflash.c\<close>), \<open>Nlflash_spi\<close> (\<open>nlflash_spi.c\<close>), \<open>Nlfs\<close> (\<open>nlfs.c\<close>): the locked dispatch to
    flash devices, a driver for SPI chips, and files on partitions. What one layer promises the next is
    the locale \<open>flash_store\<close>, NOR flash as a list of bytes: it is interpreted in \<open>Nlflash\<close> for the
    dispatch, on any device that keeps it, and in \<open>Nlflash_spi_store\<close> for the driver, on any chip that
    answers the driver's commands as \<open>nor_chip\<close> says. The variant of the driver that buffers partial pages
    keeps the locale \<open>write_buffer\<close>, in \<open>Nlflash_spi_buffer\<close>. \<open>Flash_stack\<close> composes the three layers, and
    \<open>Flash_chips\<close> has the chips of \<open>spi_flash/*.h\<close>, with the time that polling gives them.
  \<^item> \<open>Nlspi_ipc\<close> (\<open>nlspi_ipc.c\<close>): the link to a second processor, with its interrupts as steps of a
    transition system.
  \<^item> \<open>Interrupt_lock\<close> (\<open>include/arch/nlplatform_arm_cm3.h\<close>): the nested disabling of interrupts and the mask
    of the kernel, on a stack of contexts that preempt each other at any instruction. What code that
    uses them promises, and what it gets for the data it shares, is the locale \<open>critical_sections\<close>.
    \<open>Guarded_api\<close> has the modules whose functions each are one critical section or a single store, as
    the locale \<open>guarded_api\<close> below it; it is interpreted in \<open>Nltrace_preempted\<close> for the trace, in
    \<open>Nlswtimer_preempted\<close> for the timers with their tick handler, and in \<open>Nlram_console_preempted\<close> for the
    console, whose messages are not interleaved.
  \<^item> \<open>Builtin_cm0\<close> (\<open>cpu/arm/cortex-m0/builtin.c\<close>): atomic operations as sequences of steps that
    interrupt handlers interleave; \<open>Compiler_support\<close> (\<open>compiler/gnu/gcc\<close>): helpers the compiler
    calls; \<open>Guard_threads\<close>: its guards of function-local statics, used by threads that share a recursive
    mutex; \<open>Nlprofile\<close> (\<open>nlprofile.c\<close>): how long items are enabled; \<open>Nlmpu\<close> (\<open>cpu/arm/cortex-m3/nlmpu.c\<close>): regions of
    the protection unit; \<open>Nlcrc\<close> (\<open>nlcrc.c\<close>) and \<open>Nlwatchpoint\<close> (\<open>nlwatchpoint.c\<close>): thin layers over a
    library and over the debug registers.

  \<^bold>\<open>Parameters.\<close> What is not under \<open>src/\<close> is an argument: the SPI controller and flash chip, the
  slave of the link, the CRC, environment variables, FAT and ELF libraries, the backtrace library,
  FreeRTOS, the watchdog, pthread mutexes, the registers of the protection unit. What the code relies on is stated as
  hypotheses (\<open>nor_chip\<close>, \<open>store_laws\<close>, \<open>env_ok\<close>, \<open>mpu_laws\<close> and the like), each with an instance in a witness.

  \<^bold>\<open>Loops and bounds.\<close> Loops over lists, counters and address ranges are structural or have a
  measure. Where C may loop for ever (the busy polling of the flash chip, the tick handler) the model
  is a partial function into options or has fuel, and a property says that it returns, with the
  number of rounds given by the hardware's answers or by the lists. Unsigned arithmetic wraps
  around as words do; counters of the 64-bit clock are words as well.

  \<^bold>\<open>Concurrency.\<close> An entry point whose body is one critical section is one step; that this is enough
  is what \<open>Interrupt_lock\<close> shows: between a pair of calls the code is alone with its data, from the base
  priority down. The clients of \<open>Guarded_api\<close> split their sections where they leave the data broken; what
  runs before tasks do (initialisation) and \<open>nl_swtimer_post_sleep\<close> are not called there. Where the code does
  more than that between interrupts (\<open>Builtin_cm0\<close>, \<open>Nlspi_ipc\<close>), the steps are separate and the
  interrupts are steps of their own. An operation of \<open>Nlspi_ipc\<close> is one step with respect to those of
  other tasks, from which the mutex of the link keeps it apart; so is \<open>nl_profile_start\<close> in the sequences
  of calls of \<open>Nlprofile\<close>, which has no critical section: a lemma shows what a preemption between its two
  stores does.

  \<^bold>\<open>Conditions.\<close> The text before each property names the builds and the conditions it is about, and the
  lemma that shows what happens without them, where there is one.

  \<^bold>\<open>Not modelled.\<close> Console output beyond what is logged; the
  library of breadcrumbs, which is not in the repository: the crash dump's call for it is logged, and
  the data for it are modelled; builds of the crash dump without reset information; stubs, and headers that only declare what products implement.
\<close>

end
